(* ===== verification/Prelude.thy ===== *)
theory Prelude
  imports Complex_Main "HOL-Library.Word" "HOL-Library.List_Lexorder" "HOL-Library.Product_Lexorder"
    "HOL-Library.AList"
begin

text \<open>
  What every component of the program shares: Python exceptions as values, text as a list of
  Unicode code points, bytes as 8-bit words, dictionaries as association lists, and the parts of
  the language's standard library the components use (\<open>str.strip\<close>, \<open>str.casefold\<close>, UTF-8, \<open>int\<close> to
  decimal, \<open>int.from_bytes\<close>, \<open>collections.OrderedDict\<close>).

  Text is compared and sorted by code points, as Python compares strings: the lexicographic
  order on lists and products of the two library theories imported above is the order of
  Python's strings and tuples.
\<close>

named_theorems result_simps \<open>equations and inversions of the exception plumbing\<close>
named_theorems odict_simps \<open>facts about ordered dictionaries\<close>
named_theorems bytes_simps \<open>facts about bytes and big-endian integers\<close>

section \<open>Exceptions as values\<close>

type_synonym bytes = "8 word list"
type_synonym pystr = "int list"

text \<open>
  The exception classes the modelled code raises or catches. A handler that catches a class is
  a match on these constructors; the message is the text of the exception.
\<close>

datatype exn =
    PassiveParseError pystr
  | PassivePipelineError pystr
  | ValueError pystr
  | TypeError pystr
  | KeyError pystr
  | OverflowError pystr
  | UnicodeEncodeError
  | AssertionError
  | RuntimeError pystr
  | OSError pystr
  | SubnetResolutionError pystr
  | NormalizationError pystr
  | TopologyError pystr
  | KernelNeighborError pystr
  | RepositoryError pystr
  | UnsafeRepositoryPath pystr
  | MigrationError pystr
  | TargetApprovalError pystr
  | UnknownCollectorError pystr
  | CollectorAuthenticationError pystr
  | RetryableCollectorError pystr
  | CollectorError pystr
  | SSHCollectionError pystr
  | UnknownPlatformError pystr
  | CommandRejectedError pystr
  | NmapXmlError pystr
  | UnsafeArtifactPath pystr
  | ArtifactTooLarge pystr
  | ArtifactError pystr
  | UnsafeStoragePath pystr
  | LowDiskSpace pystr
  | ScanLaunchError pystr
  | ConfigurationError pystr
  | NmapImportError pystr
  | PlatformReportingError pystr
  | ReportError pystr
  | SnmpConfigurationError pystr
  | SnmpProtocolError pystr
  | UniFiError pystr
  | UniFiUnsupportedAuthentication pystr
  | ADCollectionError pystr
  | ADAuthorizationError pystr
  | ADDetectionError pystr
  | ADDetectionUnreachable pystr
  | IndexError
  | RecursionError
  | OtherError pystr
  | TimeoutError
  | CancelledError

type_synonym 'a result = "exn + 'a"

text \<open>
  The class hierarchy, for the handlers that name a base class: subclasses of \<open>ValueError\<close>, of
  \<open>OSError\<close> and of the program's \<open>CollectorError\<close>. \<open>CancelledError\<close> is not an \<open>Exception\<close>.
\<close>

definition is_value_error :: "exn \<Rightarrow> bool" where
  "is_value_error e = (case e of
     ValueError _ \<Rightarrow> True | UnicodeEncodeError \<Rightarrow> True | PassiveParseError _ \<Rightarrow> True | NormalizationError _ \<Rightarrow> True
   | TopologyError _ \<Rightarrow> True | NmapXmlError _ \<Rightarrow> True | ArtifactError _ \<Rightarrow> True | UnsafeArtifactPath _ \<Rightarrow> True
   | ArtifactTooLarge _ \<Rightarrow> True | ConfigurationError _ \<Rightarrow> True | PlatformReportingError _ \<Rightarrow> True | _ \<Rightarrow> False)"

definition is_os_error :: "exn \<Rightarrow> bool" where
  "is_os_error e = (case e of OSError _ \<Rightarrow> True | TimeoutError \<Rightarrow> True | _ \<Rightarrow> False)"

definition is_collector_error :: "exn \<Rightarrow> bool" where
  "is_collector_error e = (case e of
     CollectorError _ \<Rightarrow> True | TargetApprovalError _ \<Rightarrow> True | UnknownCollectorError _ \<Rightarrow> True
   | CollectorAuthenticationError _ \<Rightarrow> True | RetryableCollectorError _ \<Rightarrow> True | SSHCollectionError _ \<Rightarrow> True
   | UnknownPlatformError _ \<Rightarrow> True | CommandRejectedError _ \<Rightarrow> True | SnmpConfigurationError _ \<Rightarrow> True
   | SnmpProtocolError _ \<Rightarrow> True | UniFiError _ \<Rightarrow> True | UniFiUnsupportedAuthentication _ \<Rightarrow> True
   | ADCollectionError _ \<Rightarrow> True | ADAuthorizationError _ \<Rightarrow> True | _ \<Rightarrow> False)"

definition bindR :: "'a result \<Rightarrow> ('a \<Rightarrow> 'b result) \<Rightarrow> 'b result" where
  "bindR r f = (case r of Inl e \<Rightarrow> Inl e | Inr v \<Rightarrow> f v)"

lemma bindR_Inl [simp]: "bindR (Inl e) f = Inl e"
  and bindR_Inr [simp]: "bindR (Inr v) f = f v"
  by (simp_all add: bindR_def)

lemma bindR_eq_Inr [result_simps]:
  "bindR r f = Inr w \<longleftrightarrow> (\<exists>v. r = Inr v \<and> f v = Inr w)"
  by (cases r) (auto simp: bindR_def)

lemma bindR_eq_Inl [result_simps]:
  "bindR r f = Inl e \<longleftrightarrow> r = Inl e \<or> (\<exists>v. r = Inr v \<and> f v = Inl e)"
  by (cases r) (auto simp: bindR_def)

lemma bindR_cong [fundef_cong]:
  "r = r' \<Longrightarrow> (\<And>v. r' = Inr v \<Longrightarrow> f v = g v) \<Longrightarrow> bindR r f = bindR r' g"
  by (cases r') (auto simp: bindR_def)

lemma bindR_split:
  "P (bindR r f) \<longleftrightarrow> (\<forall>e. r = Inl e \<longrightarrow> P (Inl e)) \<and> (\<forall>v. r = Inr v \<longrightarrow> P (f v))"
  by (cases r) auto

text \<open>A loop whose body may raise, and a list comprehension whose element expression may.\<close>

fun foldR :: "('s \<Rightarrow> 'a \<Rightarrow> 's result) \<Rightarrow> 's \<Rightarrow> 'a list \<Rightarrow> 's result" where
  "foldR f s [] = Inr s"
| "foldR f s (x # xs) = bindR (f s x) (\<lambda>s'. foldR f s' xs)"

fun mapR :: "('a \<Rightarrow> 'b result) \<Rightarrow> 'a list \<Rightarrow> 'b list result" where
  "mapR f [] = Inr []"
| "mapR f (x # xs) = bindR (f x) (\<lambda>y. bindR (mapR f xs) (\<lambda>ys. Inr (y # ys)))"

lemma mapR_cong [fundef_cong]:
  "xs = ys \<Longrightarrow> (\<And>x. x \<in> set ys \<Longrightarrow> f x = g x) \<Longrightarrow> mapR f xs = mapR g ys"
  by (induction ys arbitrary: xs) auto

lemma foldR_cong [fundef_cong]:
  assumes "xs = ys" "s = t" "\<And>s x. x \<in> set ys \<Longrightarrow> f s x = g s x"
  shows "foldR f s xs = foldR g t ys"
proof -
  have "foldR f t ys = foldR g t ys" using assms(3)
    by (induction ys arbitrary: t) (auto intro: bindR_cong)
  with assms(1,2) show ?thesis by simp
qed

lemma foldR_append:
  "foldR f s (xs @ ys) = bindR (foldR f s xs) (\<lambda>s'. foldR f s' ys)"
proof (induction xs arbitrary: s)
  case (Cons x xs)
  then show ?case by (cases "f s x") simp_all
qed simp

lemma foldR_invariant:
  assumes "foldR f s xs = Inr t" and "P s"
    and "\<And>s x s'. P s \<Longrightarrow> x \<in> set xs \<Longrightarrow> f s x = Inr s' \<Longrightarrow> P s'"
  shows "P t"
  using assms
proof (induction xs arbitrary: s)
  case (Cons x xs)
  from Cons.prems(1) obtain s' where "f s x = Inr s'" "foldR f s' xs = Inr t"
    by (auto simp: result_simps)
  with Cons show ?case by (metis list.set_intros(1) list.set_intros(2))
qed simp

lemma mapR_length: "mapR f xs = Inr ys \<Longrightarrow> length ys = length xs"
  by (induction xs arbitrary: ys) (auto simp: result_simps)

lemma mapR_Inr_iff:
  "mapR f xs = Inr ys \<longleftrightarrow> list_all2 (\<lambda>x y. f x = Inr y) xs ys"
  by (induction xs arbitrary: ys) (auto simp: result_simps list_all2_Cons1)

text \<open>
  A Python generator that may raise is the list of the items it yields and the exception that
  ends it, if any. Its consumer runs item by item, so an exception of the consumer at an item
  comes before the exception that would have ended the generator.
\<close>

type_synonym 'a stream = "'a list \<times> exn option"

definition consume :: "('s \<Rightarrow> 'a \<Rightarrow> 's result) \<Rightarrow> 's \<Rightarrow> 'a stream \<Rightarrow> 's result" where
  "consume f s g =
     bindR (foldR f s (fst g)) (\<lambda>s'. case snd g of None \<Rightarrow> Inr s' | Some e \<Rightarrow> Inl e)"

definition yield :: "'a \<Rightarrow> 'a stream \<Rightarrow> 'a stream" where
  "yield x g = (x # fst g, snd g)"

lemma consume_Inr [result_simps]:
  "consume f s g = Inr t \<longleftrightarrow> foldR f s (fst g) = Inr t \<and> snd g = None"
  by (auto simp: consume_def result_simps split: option.splits)

lemma yield_sel [simp]: "fst (yield x g) = x # fst g" "snd (yield x g) = snd g"
  by (simp_all add: yield_def)
end
