(* ===== verification/Py_Text.thy ===== *)
theory Py_Text
  imports Prelude
begin

text \<open>
  Python strings as lists of code points: literals, \<open>strip\<close>, \<open>casefold\<close>, decimal numerals and the
  UTF-8 codec with its \<open>strict\<close> and \<open>replace\<close> error handlers.
\<close>

section \<open>Literals\<close>

definition lit :: "string \<Rightarrow> pystr" where
  "lit s = map of_char s"

lemma lit_inject [simp]: "lit s = lit t \<longleftrightarrow> s = t"
  by (simp add: lit_def inj_map_eq_map inj_def of_char_eq_iff)

lemma lit_eq_Nil [simp]: "lit s = [] \<longleftrightarrow> s = []" "[] = lit s \<longleftrightarrow> s = []"
  by (auto simp: lit_def)

lemma length_lit [simp]: "length (lit s) = length s"
  by (simp add: lit_def)

section \<open>Whitespace, case folding\<close>

text \<open>\<open>str.isspace\<close> on one code point (the bidirectional class and category tables it uses).\<close>

definition py_isspace :: "int \<Rightarrow> bool" where
  "py_isspace c \<longleftrightarrow>
     9 \<le> c \<and> c \<le> 13 \<or> 28 \<le> c \<and> c \<le> 32 \<or> c = 0x85 \<or> c = 0xA0 \<or> c = 0x1680 \<or>
     0x2000 \<le> c \<and> c \<le> 0x200A \<or> c = 0x2028 \<or> c = 0x2029 \<or> c = 0x202F \<or> c = 0x205F \<or> c = 0x3000"

definition strip_with :: "('a \<Rightarrow> bool) \<Rightarrow> 'a list \<Rightarrow> 'a list" where
  "strip_with p s = rev (dropWhile p (rev (dropWhile p s)))"

abbreviation strip :: "pystr \<Rightarrow> pystr" where
  "strip \<equiv> strip_with py_isspace"

lemma strip_with_Nil [simp]: "strip_with p [] = []"
  by (simp add: strip_with_def)

lemma strip_with_id:
  assumes "s \<noteq> []" "\<not> p (hd s)" "\<not> p (last s)"
  shows "strip_with p s = s"
proof -
  have "dropWhile p s = s" using assms by (simp add: dropWhile_eq_self_iff)
  moreover have "dropWhile p (rev s) = rev s"
    using assms by (simp add: dropWhile_eq_self_iff hd_rev)
  ultimately show ?thesis by (simp add: strip_with_def)
qed

lemma strip_with_hd_last:
  assumes "strip_with p s \<noteq> []"
  shows "\<not> p (hd (strip_with p s))" and "\<not> p (last (strip_with p s))"
proof -
  let ?d = "dropWhile p s" and ?e = "dropWhile p (rev (dropWhile p s))"
  have ne: "?e \<noteq> []" using assms by (simp add: strip_with_def)
  show "\<not> p (last (strip_with p s))"
    using hd_dropWhile [OF ne] ne by (simp add: strip_with_def last_rev)
  from ne have d: "?d \<noteq> []" by (cases "?d = []") simp_all
  obtain xs where "rev ?d = xs @ ?e" by (metis takeWhile_dropWhile_id)
  then have "last ?e = last (rev ?d)" by (metis last_appendR ne)
  also have "\<dots> = hd ?d" using d by (simp add: last_rev)
  finally show "\<not> p (hd (strip_with p s))"
    using hd_dropWhile [OF d] ne by (simp add: strip_with_def hd_rev)
qed

lemma strip_with_idem [simp]: "strip_with p (strip_with p s) = strip_with p s"
  by (cases "strip_with p s = []") (auto intro: strip_with_id dest: strip_with_hd_last)

lemma set_strip_with: "set (strip_with p s) \<subseteq> set s"
  unfolding strip_with_def by (metis set_dropWhileD set_rev subsetI)

lemma length_strip_with: "length (strip_with p s) \<le> length s"
  unfolding strip_with_def
  by (metis length_dropWhile_le length_rev order_trans)

text \<open>
  \<open>str.casefold\<close> maps every code point by the full case folding of the Unicode database. The
  model writes out the ASCII part and takes the folding of the other code points, which is data
  of the Python runtime and not of this repository, as a parameter.
\<close>

type_synonym unidata = "int \<Rightarrow> pystr"

definition ascii_lower :: "int \<Rightarrow> int" where
  "ascii_lower c = (if 65 \<le> c \<and> c \<le> 90 then c + 32 else c)"

definition casefold :: "unidata \<Rightarrow> pystr \<Rightarrow> pystr" where
  "casefold U s = concat (map (\<lambda>c. if c < 128 then [ascii_lower c] else U c) s)"

definition is_ascii :: "pystr \<Rightarrow> bool" where
  "is_ascii s \<longleftrightarrow> (\<forall>c \<in> set s. 0 \<le> c \<and> c < 128)"

lemma casefold_Nil [simp]: "casefold U [] = []"
  by (simp add: casefold_def)

lemma casefold_Cons: "casefold U (c # s) = (if c < 128 then [ascii_lower c] else U c) @ casefold U s"
  by (simp add: casefold_def)

lemma casefold_ascii: "is_ascii s \<Longrightarrow> casefold U s = map ascii_lower s"
  by (induction s) (auto simp: casefold_Cons is_ascii_def)

lemma ascii_lower_idem [simp]: "ascii_lower (ascii_lower c) = ascii_lower c"
  by (simp add: ascii_lower_def)

lemma is_ascii_casefold: "is_ascii s \<Longrightarrow> is_ascii (casefold U s)"
  by (auto simp: casefold_ascii) (auto simp: is_ascii_def ascii_lower_def)

section \<open>Numerals\<close>

text \<open>\<open>str(n)\<close> for an \<open>int\<close>, \<open>format(n, "02x")\<close> and \<open>bytes.hex()\<close>.\<close>

function dec_digits :: "int \<Rightarrow> pystr" where
  "dec_digits n = (if n < 10 then [48 + n] else dec_digits (n div 10) @ [48 + n mod 10])"
  by pat_completeness auto
termination
  by (relation "measure nat") auto

declare dec_digits.simps [simp del]

definition str_int :: "int \<Rightarrow> pystr" where
  "str_int n = (if n < 0 then 45 # dec_digits (- n) else dec_digits n)"

definition hex_digit :: "int \<Rightarrow> int" where
  "hex_digit d = (if d < 10 then 48 + d else 87 + d)"

definition hex2 :: "8 word \<Rightarrow> pystr" where
  "hex2 b = [hex_digit (uint b div 16), hex_digit (uint b mod 16)]"

definition hex_bytes :: "bytes \<Rightarrow> pystr" where
  "hex_bytes bs = concat (map hex2 bs)"

fun join :: "pystr \<Rightarrow> pystr list \<Rightarrow> pystr" where
  "join sep [] = []"
| "join sep [x] = x"
| "join sep (x # y # zs) = x @ sep @ join sep (y # zs)"

text \<open>\<open>":".join(f"{octet:02x}" for octet in raw)\<close>, the program's MAC address format.\<close>

definition mac_text :: "bytes \<Rightarrow> pystr" where
  "mac_text bs = join (lit '':'') (map hex2 bs)"

text \<open>One byte from an \<open>int\<close>, and \<open>int.from_bytes(raw, "big")\<close>.\<close>

definition byte_of :: "int \<Rightarrow> 8 word" where
  "byte_of x = word_of_int x"

lemma uint_byte_of [bytes_simps]: "0 \<le> x \<Longrightarrow> x < 256 \<Longrightarrow> uint (byte_of x) = x"
  by (simp add: byte_of_def uint_word_of_int)

lemma byte_of_uint [simp]: "byte_of (uint b) = b"
  by (simp add: byte_of_def)

definition be_int :: "bytes \<Rightarrow> int" where
  "be_int bs = foldl (\<lambda>a b. a * 256 + uint b) 0 bs"

lemma be_int_Nil [simp]: "be_int [] = 0"
  by (simp add: be_int_def)

lemma be_int_snoc [bytes_simps]: "be_int (bs @ [b]) = be_int bs * 256 + uint b"
  by (simp add: be_int_def)

lemma uint_byte: "0 \<le> uint (b :: 8 word)" "uint (b :: 8 word) < 256"
  using uint_lt2p [of b] by simp_all

lemma unat_byte: "unat (b :: 8 word) < 256"
proof -
  have "unat b < 2 ^ LENGTH(8)" by (rule unsigned_less)
  then show ?thesis by simp
qed

text \<open>\<open>payload[a:b]\<close>\<close>

definition slice :: "nat \<Rightarrow> nat \<Rightarrow> 'a list \<Rightarrow> 'a list" where
  "slice a b xs = take (b - a) (drop a xs)"

lemma be_int_bounds: "0 \<le> be_int bs \<and> be_int bs < 256 ^ length bs"
proof (induction bs rule: rev_induct)
  case (snoc b bs)
  have "be_int bs * 256 + 256 \<le> 256 ^ length bs * 256" using snoc by simp
  with snoc uint_byte [of b] show ?case by (simp add: be_int_snoc)
qed simp

text \<open>Sixteen-bit integers on the wire.\<close>

definition be16 :: "int \<Rightarrow> bytes" where
  "be16 n = [byte_of (n div 256), byte_of (n mod 256)]"

lemma be_int_two [bytes_simps]: "be_int [a, b] = uint a * 256 + uint b"
  by (simp add: be_int_def)

lemma be16_length [simp]: "length (be16 n) = 2" and be16_not_Nil [simp]: "be16 n \<noteq> []"
  by (simp_all add: be16_def)

lemma be_int_be16 [simp]: "0 \<le> n \<Longrightarrow> n < 65536 \<Longrightarrow> be_int (be16 n) = n"
proof -
  assume "0 \<le> n" "n < 65536"
  then have "0 \<le> n div 256" "n div 256 < 256" "0 \<le> n mod 256" "n mod 256 < 256" by auto
  then show ?thesis by (simp add: be16_def bytes_simps)
qed

lemma be16_be_int [simp]: "be16 (be_int [a, b]) = [a, b]"
proof -
  have "(uint a * 256 + uint b) div 256 = uint a" "(uint a * 256 + uint b) mod 256 = uint b"
    using uint_byte [of b] by simp_all
  then show ?thesis by (simp add: be16_def be_int_two)
qed

lemma two_bytes: "2 \<le> length bs \<Longrightarrow> \<exists>a b rest. bs = a # b # rest"
  by (metis One_nat_def Suc_1 Suc_le_length_iff)

lemma dec_digits_ascii: "0 \<le> n \<Longrightarrow> \<forall>c \<in> set (dec_digits n). 48 \<le> c \<and> c \<le> 57"
proof (induction n rule: dec_digits.induct)
  case (1 n)
  show ?case
  proof (cases "n < 10")
    case True
    with 1 show ?thesis by (simp add: dec_digits.simps [of n])
  next
    case False
    then have "0 \<le> n mod 10" "n mod 10 \<le> 9" by (simp_all add: pos_mod_bound [THEN zless_imp_add1_zle])
    moreover have "\<forall>c \<in> set (dec_digits (n div 10)). 48 \<le> c \<and> c \<le> 57"
      using 1 False by simp
    ultimately show ?thesis using False by (auto simp: dec_digits.simps [of n])
  qed
qed

lemma dec_digits_not_Nil [simp]: "dec_digits n \<noteq> []"
  by (subst dec_digits.simps) simp

section \<open>UTF-8\<close>

text \<open>
  The lead byte gives the number of continuation bytes, the bits it contributes and the range
  of the byte that follows it (which excludes overlong forms, surrogates and code points above
  \<open>0x10FFFF\<close>). Decoding one character consumes the lead byte and the valid continuation
  bytes after it: when the sequence is ill-formed this is the maximal prefix that the \<open>replace\<close>
  handler turns into one U+FFFD.
\<close>

definition utf8_lead :: "int \<Rightarrow> (nat \<times> int \<times> int \<times> int) option" where
  "utf8_lead b =
     (if b < 0x80 then Some (0, b, 0, 0)
      else if b < 0xC2 then None
      else if b < 0xE0 then Some (1, b - 0xC0, 0x80, 0xBF)
      else if b = 0xE0 then Some (2, 0, 0xA0, 0xBF)
      else if b = 0xED then Some (2, 0xD, 0x80, 0x9F)
      else if b < 0xF0 then Some (2, b - 0xE0, 0x80, 0xBF)
      else if b = 0xF0 then Some (3, 0, 0x90, 0xBF)
      else if b < 0xF4 then Some (3, b - 0xF0, 0x80, 0xBF)
      else if b = 0xF4 then Some (3, 4, 0x80, 0x8F)
      else None)"

fun utf8_tail :: "nat \<Rightarrow> int \<Rightarrow> int \<Rightarrow> int \<Rightarrow> bytes \<Rightarrow> int option \<times> nat" where
  "utf8_tail 0 acc lo hi bs = (Some acc, 0)"
| "utf8_tail (Suc n) acc lo hi [] = (None, 0)"
| "utf8_tail (Suc n) acc lo hi (b # bs) =
     (if lo \<le> uint b \<and> uint b \<le> hi
      then (let r = utf8_tail n (acc * 64 + (uint b - 0x80)) 0x80 0xBF bs
            in (fst r, Suc (snd r)))
      else (None, 0))"

definition utf8_char :: "8 word \<Rightarrow> bytes \<Rightarrow> int option \<times> nat" where
  "utf8_char b bs =
     (case utf8_lead (uint b) of None \<Rightarrow> (None, 0)
      | Some (n, acc, lo, hi) \<Rightarrow> utf8_tail n acc lo hi bs)"

fun utf8_items :: "bytes \<Rightarrow> int option list" where
  "utf8_items [] = []"
| "utf8_items (b # bs) =
     (let r = utf8_char b bs in fst r # utf8_items (drop (snd r) bs))"

text \<open>\<open>bytes.decode("utf-8")\<close> is \<open>None\<close> where Python raises \<open>UnicodeDecodeError\<close>.\<close>

definition utf8_decode :: "bytes \<Rightarrow> pystr option" where
  "utf8_decode bs =
     (let xs = utf8_items bs in if None \<in> set xs then None else Some (map the xs))"

definition utf8_decode_replace :: "bytes \<Rightarrow> pystr" where
  "utf8_decode_replace bs = map (\<lambda>x. case x of None \<Rightarrow> 0xFFFD | Some c \<Rightarrow> c) (utf8_items bs)"

definition is_scalar :: "int \<Rightarrow> bool" where
  "is_scalar c \<longleftrightarrow> 0 \<le> c \<and> c < 0xD800 \<or> 0xE000 \<le> c \<and> c < 0x110000"

definition utf8_encode_char :: "int \<Rightarrow> bytes" where
  "utf8_encode_char c =
     map byte_of
      (if c < 0x80 then [c]
       else if c < 0x800 then [0xC0 + c div 64, 0x80 + c mod 64]
       else if c < 0x10000 then [0xE0 + c div 4096, 0x80 + c div 64 mod 64, 0x80 + c mod 64]
       else [0xF0 + c div 262144, 0x80 + c div 4096 mod 64, 0x80 + c div 64 mod 64, 0x80 + c mod 64])"

text \<open>\<open>str.encode("utf-8")\<close> raises \<open>UnicodeEncodeError\<close> on a surrogate.\<close>

definition utf8_encode :: "pystr \<Rightarrow> bytes result" where
  "utf8_encode s =
     (if list_all is_scalar s then Inr (concat (map utf8_encode_char s)) else Inl UnicodeEncodeError)"

text \<open>One lemma per length of the encoding, over the bit groups of the code point.\<close>

lemma utf8_tail_byte:
  assumes "lo \<le> 0x80 + x" "0x80 + x \<le> hi" "0 \<le> x" "x < 64"
  shows "utf8_tail (Suc n) acc lo hi (byte_of (0x80 + x) # bs) =
    (let r = utf8_tail n (acc * 64 + x) 0x80 0xBF bs in (fst r, Suc (snd r)))"
proof -
  have "uint (byte_of (0x80 + x)) = 0x80 + x" using assms by (simp add: uint_byte_of)
  with assms show ?thesis by simp
qed

lemma utf8_lead_3:
  assumes "0 \<le> x" "x < 16"
  shows "utf8_lead (0xE0 + x) =
    Some (2, x, if x = 0 then 0xA0 else 0x80, if x = 13 then 0x9F else 0xBF)"
  using assms by (simp add: utf8_lead_def)

lemma utf8_lead_4:
  assumes "0 \<le> x" "x < 5"
  shows "utf8_lead (0xF0 + x) =
    Some (3, x, if x = 0 then 0x90 else 0x80, if x = 4 then 0x8F else 0xBF)"
  using assms by (simp add: utf8_lead_def)

lemma utf8_char_2:
  assumes "2 \<le> x" "x < 32" "0 \<le> y" "y < 64"
  shows "utf8_char (byte_of (0xC0 + x)) (byte_of (0x80 + y) # rest) = (Some (x * 64 + y), 1)"
proof -
  have "utf8_lead (0xC0 + x) = Some (1, x, 0x80, 0xBF)" using assms by (simp add: utf8_lead_def)
  with assms show ?thesis
    by (simp add: utf8_char_def uint_byte_of utf8_tail_byte del: utf8_tail.simps(3))
qed

lemma utf8_char_3:
  assumes c: "(x * 64 + y) * 64 + z = c" "0x800 \<le> c" "c < 0x10000" "c < 0xD800 \<or> 0xE000 \<le> c"
    and b: "0 \<le> y" "y < 64" "0 \<le> z" "z < 64"
  shows "utf8_char (byte_of (0xE0 + x)) (byte_of (0x80 + y) # byte_of (0x80 + z) # rest) = (Some c, 2)"
proof -
  have d: "x * 4096 + y * 64 + z = c" using c(1) by (simp add: algebra_simps)
  have x: "0 \<le> x" "x < 16" using d c(2-) b by - linarith+
  have y: "x = 0 \<Longrightarrow> 32 \<le> y" "x = 13 \<Longrightarrow> y < 32" using d c(2-) b by - linarith+
  have lead: "utf8_lead (0xE0 + x) =
      Some (2, x, if x = 0 then 0xA0 else 0x80, if x = 13 then 0x9F else 0xBF)"
    using x by (rule utf8_lead_3)
  have "utf8_tail (Suc 1) x (if x = 0 then 0xA0 else 0x80) (if x = 13 then 0x9F else 0xBF)
      (byte_of (0x80 + y) # byte_of (0x80 + z) # rest) = (Some c, 2)"
    using x y b c(1) by (subst utf8_tail_byte) (auto simp: utf8_tail_byte simp del: utf8_tail.simps(3))
  with x lead show ?thesis by (simp add: utf8_char_def uint_byte_of numeral_2_eq_2)
qed

lemma utf8_char_4:
  assumes c: "((x * 64 + y) * 64 + z) * 64 + w = c" "0x10000 \<le> c" "c < 0x110000"
    and b: "0 \<le> y" "y < 64" "0 \<le> z" "z < 64" "0 \<le> w" "w < 64"
  shows "utf8_char (byte_of (0xF0 + x))
      (byte_of (0x80 + y) # byte_of (0x80 + z) # byte_of (0x80 + w) # rest) = (Some c, 3)"
proof -
  have d: "x * 262144 + y * 4096 + z * 64 + w = c" using c(1) by (simp add: algebra_simps)
  have x: "0 \<le> x" "x < 5" using d c(2-) b by - linarith+
  have y: "x = 0 \<Longrightarrow> 16 \<le> y" "x = 4 \<Longrightarrow> y < 16" using d c(2-) b by - linarith+
  have lead: "utf8_lead (0xF0 + x) =
      Some (3, x, if x = 0 then 0x90 else 0x80, if x = 4 then 0x8F else 0xBF)"
    using x by (rule utf8_lead_4)
  have "utf8_tail (Suc (Suc 1)) x (if x = 0 then 0x90 else 0x80) (if x = 4 then 0x8F else 0xBF)
      (byte_of (0x80 + y) # byte_of (0x80 + z) # byte_of (0x80 + w) # rest) = (Some c, 3)"
    using x y b c(1) by (subst utf8_tail_byte) (auto simp: utf8_tail_byte simp del: utf8_tail.simps(3))
  with x lead show ?thesis by (simp add: utf8_char_def uint_byte_of numeral_3_eq_3)
qed

text \<open>The base-64 digits of a code point.\<close>

lemma base64_digits:
  fixes c :: int
  shows "c div 64 * 64 + c mod 64 = c" and "(c div 4096 * 64 + c div 64 mod 64) * 64 + c mod 64 = c"
    and "((c div 262144 * 64 + c div 4096 mod 64) * 64 + c div 64 mod 64) * 64 + c mod 64 = c"
proof -
  have d: "c div 4096 = c div 64 div 64" "c div 262144 = c div 4096 div 64"
    using zdiv_zmult2_eq [of 64 c 64] zdiv_zmult2_eq [of 64 c 4096] by simp_all
  show one: "c div 64 * 64 + c mod 64 = c" by simp
  show "(c div 4096 * 64 + c div 64 mod 64) * 64 + c mod 64 = c"
    unfolding d(1) by (simp only: div_mult_mod_eq)
  show "((c div 262144 * 64 + c div 4096 mod 64) * 64 + c div 64 mod 64) * 64 + c mod 64 = c"
    unfolding d(2) by (simp only: div_mult_mod_eq d(1))
qed

lemma utf8_char_encode:
  assumes "is_scalar c" "utf8_encode_char c = b # bs"
  shows "utf8_char b (bs @ rest) = (Some c, length bs)"
proof -
  consider "0 \<le> c" "c < 0x80" | "0x80 \<le> c" "c < 0x800"
    | "0x800 \<le> c" "c < 0x10000" "c < 0xD800 \<or> 0xE000 \<le> c" | "0x10000 \<le> c" "c < 0x110000"
    using assms(1) by (cases "c < 0x10000"; cases "c < 0x800"; cases "c < 0x80") (auto simp: is_scalar_def)
  then show ?thesis
  proof cases
    case 1
    with assms(2) show ?thesis
      by (auto simp: utf8_encode_char_def utf8_char_def utf8_lead_def uint_byte_of)
  next
    case 2
    have "utf8_char (byte_of (0xC0 + c div 64)) ([byte_of (0x80 + c mod 64)] @ rest) =
      (Some (c div 64 * 64 + c mod 64), 1)"
      unfolding append.simps by (rule utf8_char_2) (use 2 in presburger)+
    with 2 assms(2) show ?thesis by (auto simp: utf8_encode_char_def)
  next
    case 3
    have "utf8_char (byte_of (0xE0 + c div 4096))
        ([byte_of (0x80 + c div 64 mod 64), byte_of (0x80 + c mod 64)] @ rest) =
      (Some c, 2)"
      unfolding append.simps
      by (rule utf8_char_3 [OF base64_digits(2)]) (use 3 in simp_all)
    with 3 assms(2) show ?thesis by (auto simp: utf8_encode_char_def)
  next
    case 4
    have "utf8_char (byte_of (0xF0 + c div 262144))
        ([byte_of (0x80 + c div 4096 mod 64), byte_of (0x80 + c div 64 mod 64), byte_of (0x80 + c mod 64)]
          @ rest) =
      (Some c, 3)"
      unfolding append.simps
      by (rule utf8_char_4 [OF base64_digits(3)]) (use 4 in simp_all)
    with 4 assms(2) show ?thesis by (auto simp: utf8_encode_char_def)
  qed
qed

lemma utf8_encode_char_ne: "\<exists>b bs. utf8_encode_char c = b # bs"
  by (simp add: utf8_encode_char_def)

lemma utf8_items_encode:
  assumes "list_all is_scalar s"
  shows "utf8_items (concat (map utf8_encode_char s) @ rest) = map Some s @ utf8_items rest"
  using assms
proof (induction s)
  case (Cons c s)
  obtain b bs where e: "utf8_encode_char c = b # bs" using utf8_encode_char_ne by blast
  have "utf8_char b (bs @ concat (map utf8_encode_char s) @ rest) = (Some c, length bs)"
    using Cons.prems e by (auto intro: utf8_char_encode)
  with Cons e show ?case by (simp add: Let_def)
qed simp

text \<open>Decoding undoes encoding.\<close>

lemma utf8_roundtrip: "utf8_encode s = Inr bs \<Longrightarrow> utf8_decode bs = Some s"
  using utf8_items_encode [of s "[]"]
  by (auto simp: utf8_encode_def utf8_decode_def Let_def split: if_splits)

section \<open>Reading integers\<close>

text \<open>
  \<open>int(text)\<close>: white space around, one sign, decimal digits with single underscores between them, and at
  most 4300 digits. The digit value of a character outside ASCII is the runtime's table.
\<close>

type_synonym digit_table = "int \<Rightarrow> int option"

definition int_space :: "int \<Rightarrow> bool" where
  "int_space c = (c = 32 \<or> (9 \<le> c \<and> c \<le> 13) \<or> (126 < c \<and> py_isspace c))"

definition digit_of :: "digit_table \<Rightarrow> int \<Rightarrow> int option" where
  "digit_of table c = (if 48 \<le> c \<and> c \<le> 57 then Some (c - 48) else if c < 127 then None else table c)"

fun digits_of :: "digit_table \<Rightarrow> bool \<Rightarrow> pystr \<Rightarrow> int list option" where
  "digits_of table between [] = (if between then Some [] else None)"
| "digits_of table between (c # cs) =
     (if c = 95 then (if between then digits_of table False cs else None)
      else (case digit_of table c of None \<Rightarrow> None | Some d \<Rightarrow> map_option ((#) d) (digits_of table True cs)))"

definition int_of_text :: "digit_table \<Rightarrow> pystr \<Rightarrow> int option" where
  "int_of_text table s =
     (let t = strip_with int_space s;
          (neg, u) = (case t of [] \<Rightarrow> (False, []) | c # cs \<Rightarrow> if c = 45 then (True, cs) else if c = 43 then (False, cs) else (False, t))
      in (case digits_of table False u of
            None \<Rightarrow> None
          | Some ds \<Rightarrow> if 4300 < length ds then None
              else let n = foldl (\<lambda>n d. 10 * n + d) 0 ds in Some (if neg then - n else n)))"

section \<open>Searching and splitting\<close>

text \<open>\<open>pattern in text\<close>.\<close>

fun contains_text :: "pystr \<Rightarrow> pystr \<Rightarrow> bool" where
  "contains_text pat [] = (pat = [])"
| "contains_text pat (c # cs) = (take (length pat) (c # cs) = pat \<or> contains_text pat cs)"

text \<open>\<open>str.splitlines()\<close>: the line so far is the first argument; a final empty line is not reported.\<close>

definition line_break :: "int \<Rightarrow> bool" where
  "line_break c = ((10 \<le> c \<and> c \<le> 13) \<or> (28 \<le> c \<and> c \<le> 30) \<or> c = 0x85 \<or> c = 0x2028 \<or> c = 0x2029)"

fun lines_from :: "pystr \<Rightarrow> pystr \<Rightarrow> pystr list" where
  "lines_from line [] = (if line = [] then [] else [line])"
| "lines_from line (c # cs) =
     (if c = 13 \<and> take 1 cs = [10] then lines_from (line @ [13]) cs
      else if line_break c then (if c = 10 \<and> line \<noteq> [] \<and> last line = 13 then butlast line else line) # lines_from [] cs
      else lines_from (line @ [c]) cs)"

definition split_lines :: "pystr \<Rightarrow> pystr list" where
  "split_lines s = lines_from [] s"

text \<open>The lines of a secret file: \<open>line.partition("=")\<close>, and the blank and comment lines that are skipped.\<close>

definition partition_equals :: "pystr \<Rightarrow> (pystr \<times> pystr) option" where
  "partition_equals line =
     (if 61 \<in> set line then Some (takeWhile (\<lambda>c. c \<noteq> 61) line, tl (dropWhile (\<lambda>c. c \<noteq> 61) line)) else None)"

definition skip_line :: "pystr \<Rightarrow> bool" where
  "skip_line line = (line = [] \<or> take 1 (dropWhile py_isspace line) = lit ''#'')"

end
