(* ===== verification/Odict.thy ===== *)
theory Odict
  imports Prelude
begin

text \<open>
  Insertion-ordered dictionaries (\<open>dict\<close> and \<open>collections.OrderedDict\<close>) as association lists with
  distinct keys, and the bounded least-recently-written cache that the passive parsers, the
  deduplication window and the neighbour tracker all build from them.
\<close>

section \<open>Ordered dictionaries\<close>

type_synonym ('k, 'v) odict = "('k \<times> 'v) list"

definition od_ok :: "('k, 'v) odict \<Rightarrow> bool" where
  "od_ok d \<longleftrightarrow> distinct (map fst d)"

text \<open>\<open>d[k] = v\<close>: an existing key keeps its position, a new one is appended.\<close>

definition od_set :: "'k \<Rightarrow> 'v \<Rightarrow> ('k, 'v) odict \<Rightarrow> ('k, 'v) odict" where
  "od_set k v d = AList.update k v d"

text \<open>\<open>d.pop(k, None)\<close>, \<open>d.move_to_end(k)\<close> and \<open>d.popitem(last=False)\<close>.\<close>

definition od_pop :: "'k \<Rightarrow> ('k, 'v) odict \<Rightarrow> ('k, 'v) odict" where
  "od_pop k d = AList.delete k d"

definition od_move_to_end :: "'k \<Rightarrow> ('k, 'v) odict \<Rightarrow> ('k, 'v) odict" where
  "od_move_to_end k d = (case map_of d k of None \<Rightarrow> d | Some v \<Rightarrow> AList.delete k d @ [(k, v)])"

definition od_popitem_first :: "('k, 'v) odict \<Rightarrow> ('k, 'v) odict" where
  "od_popitem_first d = tl d"

text \<open>\<open>if len(d) > cap: d.popitem(last=False)\<close>\<close>

definition od_evict :: "nat \<Rightarrow> ('k, 'v) odict \<Rightarrow> ('k, 'v) odict" where
  "od_evict cap d = (if cap < length d then od_popitem_first d else d)"

text \<open>\<open>d[k] = v; d.move_to_end(k); if len(d) > cap: d.popitem(last=False)\<close>\<close>

definition od_store :: "nat \<Rightarrow> 'k \<Rightarrow> 'v \<Rightarrow> ('k, 'v) odict \<Rightarrow> ('k, 'v) odict" where
  "od_store cap k v d = od_evict cap (od_move_to_end k (od_set k v d))"

lemma od_ok_Nil [simp]: "od_ok []"
  by (simp add: od_ok_def)

lemma od_ok_set [simp]: "od_ok d \<Longrightarrow> od_ok (od_set k v d)"
  by (simp add: od_ok_def od_set_def distinct_update)

lemma od_ok_pop [simp]: "od_ok d \<Longrightarrow> od_ok (od_pop k d)"
  by (simp add: od_ok_def od_pop_def distinct_delete)

lemma keys_delete: "fst ` set (AList.delete k d) = fst ` set d - {k}"
  by (auto simp: AList.delete_eq)

lemma od_ok_move [simp]: "od_ok d \<Longrightarrow> od_ok (od_move_to_end k d)"
  by (auto simp: od_ok_def od_move_to_end_def distinct_delete keys_delete split: option.splits)

lemma od_ok_tl: "od_ok d \<Longrightarrow> od_ok (tl d)"
  by (simp add: od_ok_def distinct_tl map_tl)

lemma od_ok_evict [simp]: "od_ok d \<Longrightarrow> od_ok (od_evict n d)"
  by (simp add: od_evict_def od_popitem_first_def od_ok_tl)

lemma od_ok_store [simp]: "od_ok d \<Longrightarrow> od_ok (od_store n k v d)"
  by (simp add: od_store_def)

lemma od_get_set [odict_simps]: "map_of (od_set k v d) = (map_of d)(k \<mapsto> v)"
  by (simp add: od_set_def update_conv')

lemma od_get_pop [odict_simps]: "map_of (od_pop k d) = (map_of d)(k := None)"
  by (simp add: od_pop_def delete_conv')

lemma od_set_new: "map_of d k = None \<Longrightarrow> od_set k v d = d @ [(k, v)]"
  unfolding od_set_def by (induction d) auto

lemma od_set_sub: "set (od_set k v d) \<subseteq> insert (k, v) (set d)"
  unfolding od_set_def by (induction d) auto

lemma od_move_set [odict_simps]:
  "od_move_to_end k (od_set k v d) = AList.delete k d @ [(k, v)]"
  by (simp add: od_move_to_end_def od_set_def update_conv AList.delete_update_same)

lemma od_get_move: "map_of (od_move_to_end k d) = map_of d"
  by (rule ext) (auto simp: od_move_to_end_def map_add_def delete_conv map_of_append split: option.splits)

lemma length_od_pop: "length (od_pop k d) \<le> length d"
  unfolding od_pop_def by (induction d) auto

lemma length_delete_key: "od_ok d \<Longrightarrow> map_of d k = Some v \<Longrightarrow> Suc (length (AList.delete k d)) = length d"
proof (induction d)
  case (Cons p d)
  show ?case
  proof (cases "fst p = k")
    case True
    with Cons.prems have "k \<notin> fst ` set d" by (auto simp: od_ok_def)
    then have "AList.delete k d = d" by simp
    with True show ?thesis by simp
  qed (use Cons in \<open>auto simp: od_ok_def\<close>)
qed simp

lemma length_od_move: "od_ok d \<Longrightarrow> length (od_move_to_end k d) = length d"
  by (auto simp: od_move_to_end_def length_delete_key split: option.splits)

lemma od_get_popitem_first:
  assumes "od_ok d" "map_of (od_popitem_first d) k = Some v"
  shows "map_of d k = Some v"
proof (cases d)
  case (Cons p d')
  have "(k, v) \<in> set d'" using assms Cons by (simp add: od_popitem_first_def map_of_SomeD)
  with Cons assms(1) show ?thesis unfolding od_ok_def by (metis list.set_intros(2) map_of_is_SomeI)
qed (use assms in \<open>simp add: od_popitem_first_def\<close>)

lemma od_pop_sub: "set (od_pop k d) \<subseteq> set d"
  by (auto simp: od_pop_def AList.delete_eq)

lemma fold_pop: "fold (\<lambda>e c. od_pop (fst e) c) es d = filter (\<lambda>x. fst x \<notin> fst ` set es) d"
proof (induction es arbitrary: d)
  case (Cons e es)
  have "fold (\<lambda>e c. od_pop (fst e) c) (e # es) d = filter (\<lambda>x. fst x \<notin> fst ` set es) (od_pop (fst e) d)"
    using Cons by simp
  also have "\<dots> = filter (\<lambda>x. fst x \<notin> fst ` set (e # es)) d"
    unfolding od_pop_def AList.delete_eq by (auto intro: filter_cong)
  finally show ?case .
qed simp

text \<open>Popping, one by one, the entries of a snapshot that satisfy a condition.\<close>

lemma fold_pop_filter:
  assumes "od_ok d"
  shows "fold (\<lambda>e c. od_pop (fst e) c) (filter P d) d = filter (\<lambda>e. \<not> P e) d"
  unfolding fold_pop
proof (rule filter_cong [OF refl])
  fix x assume x: "x \<in> set d"
  have "x = e" if "e \<in> set d" "fst e = fst x" for e
    using assms x that by (auto simp: od_ok_def distinct_map inj_on_def)
  with x show "(fst x \<notin> fst ` set (filter P d)) = (\<not> P x)" by auto
qed

section \<open>The bounded cache\<close>

lemma length_od_evict: "length d \<le> Suc cap \<Longrightarrow> length (od_evict cap d) \<le> cap"
  by (auto simp: od_evict_def od_popitem_first_def)

lemma length_od_store:
  assumes "length d \<le> cap"
  shows "length (od_store cap k v d) \<le> cap"
proof -
  have "length (AList.delete k d) \<le> cap" using assms length_od_pop [of k d] by (simp add: od_pop_def)
  then show ?thesis by (simp add: od_store_def od_move_set length_od_evict)
qed

lemma od_store_same:
  assumes "1 \<le> cap"
  shows "map_of (od_store cap k v d) k = Some v"
proof -
  have "map_of (AList.delete k d @ [(k, v)]) k = Some v"
    by (simp add: map_add_def delete_conv')
  moreover have "map_of (tl (AList.delete k d @ [(k, v)])) k = Some v" if "cap < length (AList.delete k d @ [(k, v)])"
  proof (cases "AList.delete k d")
    case (Cons p ps)
    then have "map_of ps k = None" using keys_delete [of k d] by (auto simp: map_of_eq_None_iff)
    with Cons show ?thesis by (simp add: map_add_def)
  qed (use that assms in simp)
  ultimately show ?thesis
    by (simp add: od_store_def od_move_set od_evict_def od_popitem_first_def)
qed

lemma od_store_other:
  assumes "od_ok d" "map_of (od_store cap k v d) k' = Some v'" "k' \<noteq> k"
  shows "map_of d k' = Some v'"
proof -
  have "od_ok (od_move_to_end k (od_set k v d))" using assms(1) by simp
  with assms(2) have "map_of (od_move_to_end k (od_set k v d)) k' = Some v'"
    by (auto simp: od_store_def od_evict_def dest: od_get_popitem_first split: if_splits)
  with assms(3) show ?thesis by (simp add: od_get_move od_get_set)
qed

lemma od_store_room:
  assumes "od_ok d" "length d < cap"
  shows "map_of (od_store cap k v d) = (map_of d)(k \<mapsto> v)"
proof -
  have "length (AList.delete k d @ [(k, v)]) \<le> cap"
    using assms(2) length_od_pop [of k d] by (simp add: od_pop_def)
  then have "od_store cap k v d = od_move_to_end k (od_set k v d)"
    by (simp add: od_store_def od_move_set od_evict_def)
  then show ?thesis by (simp add: od_get_move od_get_set)
qed

lemma set_tl_subset: "set (tl xs) \<subseteq> set xs"
  by (cases xs) auto

lemma od_store_sub: "set (od_store cap k v d) \<subseteq> insert (k, v) (set d)"
proof -
  have "set (od_move_to_end k (od_set k v d)) \<subseteq> insert (k, v) (set d)"
    unfolding od_move_set by (auto simp: AList.delete_eq)
  then show ?thesis
    using set_tl_subset [of "od_move_to_end k (od_set k v d)"]
    unfolding od_store_def od_evict_def od_popitem_first_def by auto
qed

lemma od_store_fits:
  assumes "od_ok d" "card (insert k (fst ` set d)) \<le> cap"
  shows "od_store cap k v d = AList.delete k d @ [(k, v)]"
proof -
  have ok: "od_ok (AList.delete k d @ [(k, v)])" using od_ok_move [OF od_ok_set [OF assms(1)], of k k v] by (simp add: od_move_set)
  have "length (AList.delete k d @ [(k, v)]) = card (fst ` set (AList.delete k d @ [(k, v)]))"
    using distinct_card [of "map fst (AList.delete k d @ [(k, v)])"] ok by (simp add: od_ok_def)
  also have "\<dots> = card (insert k (fst ` set d))" by (rule arg_cong [of _ _ card]) (auto simp: keys_delete)
  finally show ?thesis using assms(2) by (simp add: od_store_def od_move_set od_evict_def)
qed

text \<open>While all keys fit, a run of stores keeps exactly the last value of every key.\<close>

lemma od_stores_exact:
  assumes "card (fst ` set kvs) \<le> cap"
  shows "od_ok (fold (\<lambda>(k, v). od_store cap k v) kvs []) \<and>
    fst ` set (fold (\<lambda>(k, v). od_store cap k v) kvs []) = fst ` set kvs \<and>
    map_of (fold (\<lambda>(k, v). od_store cap k v) kvs []) = map_of (rev kvs)"
  using assms
proof (induction kvs rule: rev_induct)
  case (snoc p kvs)
  obtain k v where p: "p = (k, v)" by fastforce
  let ?d = "fold (\<lambda>(k, v). od_store cap k v) kvs []"
  have "card (fst ` set kvs) \<le> cap"
    using snoc.prems card_mono [of "fst ` set (kvs @ [p])" "fst ` set kvs"] by (auto intro: order_trans)
  note ih = snoc.IH [OF this]
  then have d: "od_store cap k v ?d = AList.delete k ?d @ [(k, v)]"
    using snoc.prems p by (intro od_store_fits) simp_all
  have "od_ok (od_store cap k v ?d)" using ih by simp
  moreover have "fst ` set (od_store cap k v ?d) = insert k (fst ` set kvs)"
    unfolding d using ih by (auto simp: keys_delete)
  moreover have "map_of (od_store cap k v ?d) = (map_of (rev kvs))(k \<mapsto> v)"
    unfolding d using ih by (auto simp: map_add_def delete_conv' fun_eq_iff split: option.split)
  ultimately show ?case using p by simp
qed simp

text \<open>
  The interface the stateful parsers rely on: storing keeps the cache well formed and within its
  capacity, the stored entry is found, any other entry found was there before, and nothing else
  is lost while there is room.
\<close>

locale recency_cache =
  fixes store :: "nat \<Rightarrow> 'k \<Rightarrow> 'v \<Rightarrow> 'c \<Rightarrow> 'c"
    and get :: "'c \<Rightarrow> 'k \<Rightarrow> 'v option"
    and size_of :: "'c \<Rightarrow> nat"
    and ok :: "'c \<Rightarrow> bool"
  assumes ok_store: "ok c \<Longrightarrow> ok (store cap k v c)"
    and size_store: "ok c \<Longrightarrow> size_of c \<le> cap \<Longrightarrow> size_of (store cap k v c) \<le> cap"
    and get_store_same: "1 \<le> cap \<Longrightarrow> ok c \<Longrightarrow> get (store cap k v c) k = Some v"
    and get_store_other: "ok c \<Longrightarrow> get (store cap k v c) k' = Some v' \<Longrightarrow> k' \<noteq> k \<Longrightarrow> get c k' = Some v'"
    and get_store_room: "ok c \<Longrightarrow> size_of c < cap \<Longrightarrow> k' \<noteq> k \<Longrightarrow> get (store cap k v c) k' = get c k'"
begin

definition bounded :: "nat \<Rightarrow> 'c \<Rightarrow> bool" where
  "bounded cap c \<longleftrightarrow> ok c \<and> size_of c \<le> cap"

lemma bounded_store: "bounded cap c \<Longrightarrow> bounded cap (store cap k v c)"
  by (simp add: bounded_def ok_store size_store)

lemma get_store_cases:
  assumes "1 \<le> cap" "ok c" "get (store cap k v c) k' = Some v'"
  shows "k' = k \<and> v' = v \<or> k' \<noteq> k \<and> get c k' = Some v'"
  using assms get_store_same get_store_other by (metis option.inject)

text \<open>A run of stores: the size stays bounded and every entry found has been stored.\<close>

lemma bounded_stores: "bounded cap c \<Longrightarrow> bounded cap (fold (\<lambda>(k, v). store cap k v) kvs c)"
  by (induction kvs arbitrary: c) (auto intro: bounded_store)

lemma get_stores:
  assumes "1 \<le> cap" "ok c" "get (fold (\<lambda>(k, v). store cap k v) kvs c) k = Some v"
  shows "(k, v) \<in> set kvs \<or> get c k = Some v"
  using assms(2,3)
proof (induction kvs arbitrary: c)
  case (Cons p kvs)
  obtain k1 v1 where p: "p = (k1, v1)" by fastforce
  from Cons.prems p have "(k, v) \<in> set kvs \<or> get (store cap k1 v1 c) k = Some v"
    by (intro Cons.IH) (auto intro: ok_store)
  then show ?case using get_store_cases [OF assms(1) Cons.prems(1)] p by auto
qed simp

end

interpretation lru: recency_cache od_store map_of length od_ok
  by unfold_locales
    (auto simp: length_od_store od_store_same od_store_room intro: od_store_other)

end
