(* ===== verification/Py_Json.thy ===== *)
theory Py_Json
  imports Py_Text Odict
begin

text \<open>
  The values that travel in observation fields, \<open>json.dumps\<close>, aware and naive \<open>datetime\<close> values
  and \<open>isoformat\<close>.
\<close>

section \<open>JSON values\<close>

text \<open>
  \<open>JNonFinite\<close> is a NaN or an infinity; \<open>JOpaque\<close> is any Python object that \<open>json.dumps\<close> refuses
  (raw bytes, for example). A dictionary keeps its insertion order.
\<close>

datatype json =
    JNull
  | JBool bool
  | JInt int
  | JFloat rat
  | JNonFinite
  | JStr pystr
  | JList "json list"
  | JDict "(pystr \<times> json) list"
  | JOpaque

type_synonym fields = "(pystr, json) odict"

abbreviation jstr :: "string \<Rightarrow> json" where
  "jstr s \<equiv> JStr (lit s)"

fun json_of_opt :: "pystr option \<Rightarrow> json" where
  "json_of_opt None = JNull"
| "json_of_opt (Some s) = JStr s"

fun json_of_int_opt :: "int option \<Rightarrow> json" where
  "json_of_int_opt None = JNull"
| "json_of_int_opt (Some n) = JInt n"

definition fget :: "fields \<Rightarrow> string \<Rightarrow> json option" where
  "fget d k = map_of d (lit k)"

definition fset :: "string \<Rightarrow> json \<Rightarrow> fields \<Rightarrow> fields" where
  "fset k v d = od_set (lit k) v d"

lemma fget_fset [simp]: "fget (fset k v d) k' = (if k' = k then Some v else fget d k')"
  by (simp add: fget_def fset_def od_get_set)

lemma fget_Nil [simp]: "fget [] k = None"
  by (simp add: fget_def)

lemma fget_Cons [simp]: "fget ((lit k, v) # d) k' = (if k' = k then Some v else fget d k')"
  by (simp add: fget_def)

lemma od_ok_fset [simp]: "od_ok d \<Longrightarrow> od_ok (fset k v d)"
  by (simp add: fset_def)

text \<open>Truth value of a field, as \<open>x or y\<close> and \<open>if not x\<close> use it.\<close>

fun truthy :: "json \<Rightarrow> bool" where
  "truthy JNull = False"
| "truthy (JBool b) = b"
| "truthy (JInt n) = (n \<noteq> 0)"
| "truthy (JFloat r) = (r \<noteq> 0)"
| "truthy JNonFinite = True"
| "truthy (JStr s) = (s \<noteq> [])"
| "truthy (JList xs) = (xs \<noteq> [])"
| "truthy (JDict kvs) = (kvs \<noteq> [])"
| "truthy JOpaque = True"

section \<open>Serialisation\<close>

fun hex4 :: "int \<Rightarrow> pystr" where
  "hex4 n = [hex_digit (n div 4096 mod 16), hex_digit (n div 256 mod 16), hex_digit (n div 16 mod 16),
     hex_digit (n mod 16)]"

definition json_escape :: "bool \<Rightarrow> int \<Rightarrow> pystr" where
  "json_escape ascii c =
     (if c = 34 then [92, 34] else if c = 92 then [92, 92]
      else if c = 10 then [92, 110] else if c = 13 then [92, 114] else if c = 9 then [92, 116]
      else if c = 12 then [92, 102] else if c = 8 then [92, 98]
      else if c < 32 then [92, 117] @ hex4 c
      else if ascii \<and> 126 < c then
        (if c < 0x10000 then [92, 117] @ hex4 c
         else [92, 117] @ hex4 (0xD800 + (c - 0x10000) div 1024) @ [92, 117]
           @ hex4 (0xDC00 + (c - 0x10000) mod 1024))
      else [c])"

definition json_string :: "bool \<Rightarrow> pystr \<Rightarrow> pystr" where
  "json_string ascii s = [34] @ concat (map (json_escape ascii) s) @ [34]"

text \<open>
  \<open>json.dumps(v, sort_keys=True, ensure_ascii=ascii, separators=(isep, ksep))\<close>; the shortest
  decimal text of a float is the runtime's (\<open>fl\<close>).
\<close>

fun json_dumps :: "bool \<Rightarrow> pystr \<Rightarrow> pystr \<Rightarrow> (rat \<Rightarrow> pystr) \<Rightarrow> json \<Rightarrow> pystr" where
  "json_dumps asc isep ksep fl JNull = lit ''null''"
| "json_dumps asc isep ksep fl (JBool b) = (if b then lit ''true'' else lit ''false'')"
| "json_dumps asc isep ksep fl (JInt n) = str_int n"
| "json_dumps asc isep ksep fl (JFloat r) = fl r"
| "json_dumps asc isep ksep fl JNonFinite = lit ''NaN''"
| "json_dumps asc isep ksep fl (JStr s) = json_string asc s"
| "json_dumps asc isep ksep fl (JList xs) =
     lit ''['' @ join isep (map (json_dumps asc isep ksep fl) xs) @ lit '']''"
| "json_dumps asc isep ksep fl (JDict kvs) =
     lit ''{'' @ join isep (map (\<lambda>(k, t). json_string asc k @ ksep @ t)
       (sort_key fst (map (\<lambda>(k, v). (k, json_dumps asc isep ksep fl v)) kvs))) @ lit ''}''"
| "json_dumps asc isep ksep fl JOpaque = []"

text \<open>The values \<open>json.dumps(v, allow_nan=False)\<close> accepts, and the exception for the others.\<close>

fun json_check :: "json \<Rightarrow> unit result" where
  "json_check JNonFinite = Inl (ValueError (lit ''Out of range float values are not JSON compliant''))"
| "json_check JOpaque = Inl (TypeError (lit ''Object is not JSON serializable''))"
| "json_check (JList xs) = bindR (mapR json_check xs) (\<lambda>_. Inr ())"
| "json_check (JDict kvs) = bindR (mapR (\<lambda>kv. json_check (snd kv)) kvs) (\<lambda>_. Inr ())"
| "json_check _ = Inr ()"

fun json_text_ok :: "(pystr \<Rightarrow> bool) \<Rightarrow> json \<Rightarrow> bool" where
  "json_text_ok p (JStr s) = p s"
| "json_text_ok p (JList xs) = list_all (json_text_ok p) xs"
| "json_text_ok p (JDict kvs) = list_all (\<lambda>kv. p (fst kv) \<and> json_text_ok p (snd kv)) kvs"
| "json_text_ok p _ = True"

section \<open>Time\<close>

text \<open>
  A \<open>datetime\<close> is its wall-clock time in microseconds since 1970-01-01T00:00:00 and, when it is
  aware, its UTC offset in microseconds. A \<open>timedelta\<close> is an \<open>int\<close> of microseconds. Results outside
  the years 1 to 9999 raise \<open>OverflowError\<close>.
\<close>

datatype datetime = Naive int | Aware int int

definition dt_min :: int where "dt_min = - 62135596800000000"
definition dt_max :: int where "dt_max = 253402300799999999"

definition dt_in_range :: "int \<Rightarrow> bool" where
  "dt_in_range t \<longleftrightarrow> dt_min \<le> t \<and> t \<le> dt_max"

definition seconds :: "int \<Rightarrow> int" where
  "seconds n = n * 1000000"

fun dt_add :: "datetime \<Rightarrow> int \<Rightarrow> datetime result" where
  "dt_add (Naive t) d =
     (if dt_in_range (t + d) then Inr (Naive (t + d)) else Inl (OverflowError (lit ''date value out of range'')))"
| "dt_add (Aware t off) d =
     (if dt_in_range (t + d) then Inr (Aware (t + d) off) else Inl (OverflowError (lit ''date value out of range'')))"

text \<open>
  The helper \<open>_utc\<close> that most modules define: refuse a naive value with the module's own
  exception, else \<open>astimezone(UTC)\<close>. The result is the instant in microseconds of UTC.
\<close>

fun utc_instant :: "exn \<Rightarrow> datetime \<Rightarrow> int result" where
  "utc_instant e (Naive t) = Inl e"
| "utc_instant e (Aware t off) =
     (if dt_in_range (t - off) then Inr (t - off) else Inl (OverflowError (lit ''date value out of range'')))"

abbreviation utc_dt :: "int \<Rightarrow> datetime" where
  "utc_dt t \<equiv> Aware t 0"

lemma utc_instant_utc_dt [simp]: "dt_in_range t \<Longrightarrow> utc_instant e (utc_dt t) = Inr t"
  by simp

lemma utc_instant_range: "utc_instant e d = Inr t \<Longrightarrow> dt_in_range t"
  by (cases d) (auto split: if_splits)

text \<open>\<open>astimezone(UTC)\<close>: a naive value is taken in the local zone, whose offset at that time is the argument.\<close>

definition as_utc :: "(int \<Rightarrow> int) \<Rightarrow> datetime \<Rightarrow> int result" where
  "as_utc lz d = utc_instant (RuntimeError []) (case d of Naive t \<Rightarrow> Aware t (lz t) | Aware t off \<Rightarrow> Aware t off)"

text \<open>\<open>datetime.isoformat()\<close> of a UTC value.\<close>

definition pad :: "nat \<Rightarrow> int \<Rightarrow> pystr" where
  "pad n k = (let s = str_int k in replicate (n - length s) 48 @ s)"

definition civil :: "int \<Rightarrow> int \<times> int \<times> int" where
  "civil days =
     (let z = days + 719468; era = z div 146097; doe = z mod 146097;
          yoe = (doe - doe div 1460 + doe div 36524 - doe div 146096) div 365;
          doy = doe - (365 * yoe + yoe div 4 - yoe div 100);
          mp = (5 * doy + 2) div 153;
          d = doy - (153 * mp + 2) div 5 + 1;
          m = (if mp < 10 then mp + 3 else mp - 9);
          y = yoe + era * 400 + (if m \<le> 2 then 1 else 0)
      in (y, m, d))"

definition isoformat :: "int \<Rightarrow> pystr" where
  "isoformat t =
     (let days = t div 86400000000; us = t mod 86400000000; secs = us div 1000000; micro = us mod 1000000
      in case civil days of (y, m, d) \<Rightarrow>
        pad 4 y @ lit ''-'' @ pad 2 m @ lit ''-'' @ pad 2 d @ lit ''T'' @
        pad 2 (secs div 3600) @ lit '':'' @ pad 2 (secs div 60 mod 60) @ lit '':'' @ pad 2 (secs mod 60) @
        (if micro = 0 then [] else lit ''.'' @ pad 6 micro) @ lit ''+00:00'')"

end
