(* ===== verification/Py_Ip.thy ===== *)
theory Py_Ip
  imports Py_Json
begin

text \<open>
  The part of the standard library's \<open>ipaddress\<close> the program uses: the text of an address,
  strict parsing of IPv4 addresses and networks, membership and the subnet order. An IPv4
  address is an \<open>int\<close> below \<open>2 ^ 32\<close>, as in the library; IPv6 input is only recognised, through
  a parameter that says which texts the library accepts as IPv6 networks.
\<close>

section \<open>Addresses as text\<close>

definition octets :: "int \<Rightarrow> int list" where
  "octets a = [a div 16777216 mod 256, a div 65536 mod 256, a div 256 mod 256, a mod 256]"

definition ipv4_text :: "int \<Rightarrow> pystr" where
  "ipv4_text a = join (lit ''.'') (map dec_digits (octets a))"

text \<open>\<open>str(IPv4Address(raw))\<close> for four raw bytes.\<close>

definition ipv4_of_bytes :: "bytes \<Rightarrow> pystr" where
  "ipv4_of_bytes bs = ipv4_text (be_int bs)"

text \<open>
  \<open>str(IPv6Address(raw))\<close>: eight hexadecimal groups, the leftmost longest run of two or more zero
  groups written as \<open>::\<close> (the format of Python 3.11 and 3.12).
\<close>

fun hex_digits :: "nat \<Rightarrow> int \<Rightarrow> pystr" where
  "hex_digits 0 n = []"
| "hex_digits (Suc k) n = (if n < 16 then [hex_digit n] else hex_digits k (n div 16) @ [hex_digit (n mod 16)])"

fun groups16 :: "bytes \<Rightarrow> int list" where
  "groups16 (a # b # bs) = be_int [a, b] # groups16 bs"
| "groups16 _ = []"

text \<open>Scan state: index, start and length of the current zero run, start and length of the best.\<close>

fun zero_run :: "int list \<Rightarrow> nat \<Rightarrow> nat \<Rightarrow> nat \<Rightarrow> nat \<Rightarrow> nat \<Rightarrow> nat \<times> nat" where
  "zero_run [] i start len bstart blen = (bstart, blen)"
| "zero_run (g # gs) i start len bstart blen =
     (if g = 0
      then (let start' = (if len = 0 then i else start); len' = Suc len
            in if blen < len' then zero_run gs (Suc i) start' len' start' len'
               else zero_run gs (Suc i) start' len' bstart blen)
      else zero_run gs (Suc i) 0 0 bstart blen)"

definition ipv6_of_bytes :: "bytes \<Rightarrow> pystr" where
  "ipv6_of_bytes bs =
     (let gs = groups16 bs; ts = map (hex_digits 4) gs; (s, n) = zero_run gs 0 0 0 0 0
      in join (lit '':'')
        (if 1 < n
         then (if s = 0 then [[]] else []) @ take s ts @ [[]] @ drop (s + n) ts
           @ (if s + n = length ts then [[]] else [])
         else ts))"

text \<open>\<open>str(ip_address(packed))\<close>: four or sixteen bytes, else \<open>ValueError\<close>.\<close>

definition ip_address_of_bytes :: "bytes \<Rightarrow> pystr result" where
  "ip_address_of_bytes bs =
     (if length bs = 4 then Inr (ipv4_of_bytes bs)
      else if length bs = 16 then Inr (ipv6_of_bytes bs)
      else Inl (ValueError (lit ''not an IPv4 or IPv6 address'')))"

section \<open>Parsing\<close>

fun split_on :: "int \<Rightarrow> pystr \<Rightarrow> pystr list" where
  "split_on c [] = [[]]"
| "split_on c (x # xs) =
     (if x = c then [] # split_on c xs
      else (case split_on c xs of [] \<Rightarrow> [[x]] | w # ws \<Rightarrow> (x # w) # ws))"

definition is_digit :: "int \<Rightarrow> bool" where
  "is_digit c \<longleftrightarrow> 48 \<le> c \<and> c \<le> 57"

definition dec_value :: "pystr \<Rightarrow> int" where
  "dec_value s = foldl (\<lambda>a c. a * 10 + (c - 48)) 0 s"

definition parse_octet :: "pystr \<Rightarrow> int option" where
  "parse_octet s =
     (if s = [] then None
      else if \<not> list_all is_digit s then None
      else if 3 < length s then None
      else if s \<noteq> [48] \<and> hd s = 48 then None
      else if 255 < dec_value s then None
      else Some (dec_value s))"

definition parse_ipv4 :: "pystr \<Rightarrow> int option" where
  "parse_ipv4 s =
     (case split_on 46 s of
        [a, b, c, d] \<Rightarrow>
          (case (parse_octet a, parse_octet b, parse_octet c, parse_octet d) of
             (Some w, Some x, Some y, Some z) \<Rightarrow> Some (((w * 256 + x) * 256 + y) * 256 + z)
           | _ \<Rightarrow> None)
      | _ \<Rightarrow> None)"

text \<open>\<open>str(IPv4Address(s))\<close>, \<open>None\<close> for \<open>AddressValueError\<close>.\<close>

definition ipv4_normal :: "pystr \<Rightarrow> pystr option" where
  "ipv4_normal s = map_option ipv4_text (parse_ipv4 s)"

section \<open>Networks\<close>

text \<open>A network is its lowest address and its prefix length.\<close>

type_synonym ipv4net = "int \<times> nat"

datatype ipnet = Net4 ipv4net | Net6

definition host_size :: "nat \<Rightarrow> int" where
  "host_size p = 2 ^ (32 - p)"

definition netmask :: "nat \<Rightarrow> int" where
  "netmask p = 2 ^ 32 - host_size p"

definition prefix_of_mask :: "int \<Rightarrow> nat option" where
  "prefix_of_mask m = List.find (\<lambda>p. netmask p = m) [0..<33]"

definition parse_prefix :: "pystr \<Rightarrow> nat option" where
  "parse_prefix s =
     (if s \<noteq> [] \<and> list_all is_digit s \<and> dec_value s \<le> 32 then Some (nat (dec_value s))
      else case parse_ipv4 s of None \<Rightarrow> None
        | Some m \<Rightarrow> (case prefix_of_mask m of Some p \<Rightarrow> Some p
            | None \<Rightarrow> prefix_of_mask (4294967295 - m)))"

datatype net_parse = NetOk ipv4net | NetHostBits | NetBad

text \<open>\<open>IPv4Network(s, strict=strict)\<close>; masking with the netmask clears the host bits.\<close>

definition net_at :: "bool \<Rightarrow> int \<Rightarrow> nat \<Rightarrow> net_parse" where
  "net_at strict a p =
     (let base = a div host_size p * host_size p
      in if base = a then NetOk (a, p) else if strict then NetHostBits else NetOk (base, p))"

definition parse_net4 :: "bool \<Rightarrow> pystr \<Rightarrow> net_parse" where
  "parse_net4 strict s =
     (case split_on 47 s of
        [a] \<Rightarrow> (case parse_ipv4 a of None \<Rightarrow> NetBad | Some x \<Rightarrow> net_at strict x 32)
      | [a, m] \<Rightarrow>
          (case parse_ipv4 a of None \<Rightarrow> NetBad
           | Some x \<Rightarrow> (case parse_prefix m of None \<Rightarrow> NetBad | Some p \<Rightarrow> net_at strict x p))
      | _ \<Rightarrow> NetBad)"

text \<open>\<open>ip_network(s, strict=strict)\<close>; \<open>v6 strict s\<close> says that \<open>s\<close> is an acceptable IPv6 network.\<close>

definition ip_network :: "(bool \<Rightarrow> pystr \<Rightarrow> bool) \<Rightarrow> bool \<Rightarrow> pystr \<Rightarrow> ipnet result" where
  "ip_network v6 strict s =
     (case parse_net4 strict s of
        NetOk n \<Rightarrow> Inr (Net4 n)
      | NetHostBits \<Rightarrow> Inl (ValueError (lit ''has host bits set''))
      | NetBad \<Rightarrow> if v6 strict s then Inr Net6
          else Inl (ValueError (lit ''does not appear to be an IPv4 or IPv6 network'')))"

definition net_text :: "ipv4net \<Rightarrow> pystr" where
  "net_text n = ipv4_text (fst n) @ lit ''/'' @ dec_digits (int (snd n))"

definition num_addresses :: "ipv4net \<Rightarrow> int" where
  "num_addresses n = host_size (snd n)"

definition broadcast :: "ipv4net \<Rightarrow> int" where
  "broadcast n = fst n + host_size (snd n) - 1"

definition in_net :: "int \<Rightarrow> ipv4net \<Rightarrow> bool" where
  "in_net a n \<longleftrightarrow> fst n \<le> a \<and> a \<le> broadcast n"

definition subnet_of :: "ipv4net \<Rightarrow> ipv4net \<Rightarrow> bool" where
  "subnet_of a b \<longleftrightarrow> fst b \<le> fst a \<and> broadcast a \<le> broadcast b"

definition net_ok :: "ipv4net \<Rightarrow> bool" where
  "net_ok n \<longleftrightarrow> 0 \<le> fst n \<and> fst n < 2 ^ 32 \<and> snd n \<le> 32 \<and> fst n mod host_size (snd n) = 0"

lemma host_size_pos [simp]: "0 < host_size p"
  by (simp add: host_size_def)

lemma subnet_of_members: "subnet_of a b \<longleftrightarrow> (\<forall>x. in_net x a \<longrightarrow> in_net x b)"
proof
  assume "\<forall>x. in_net x a \<longrightarrow> in_net x b"
  moreover have "in_net (fst a) a" "in_net (broadcast a) a"
    using host_size_pos [of "snd a"] unfolding in_net_def broadcast_def by linarith+
  ultimately have "in_net (fst a) b" "in_net (broadcast a) b" by auto
  then show "subnet_of a b" by (simp add: subnet_of_def in_net_def)
qed (auto simp: subnet_of_def in_net_def)

lemma dec_value_snoc: "dec_value (s @ [c]) = dec_value s * 10 + (c - 48)"
  by (simp add: dec_value_def)

lemma dec_value_digits: "0 \<le> n \<Longrightarrow> dec_value (dec_digits n) = n"
proof (induction n rule: dec_digits.induct)
  case (1 n)
  show ?case
  proof (cases "n < 10")
    case True
    then show ?thesis by (simp add: dec_digits.simps [of n] dec_value_def)
  next
    case False
    with 1 show ?thesis by (simp add: dec_digits.simps [of n] dec_value_snoc)
  qed
qed

lemma list_all_digits [simp]: "0 \<le> n \<Longrightarrow> list_all is_digit (dec_digits n)"
  using dec_digits_ascii by (auto simp: list_all_iff is_digit_def)

lemma dec_digits_small: "n < 10 \<Longrightarrow> dec_digits n = [48 + n]"
  by (simp add: dec_digits.simps [of n])

lemma dec_digits_step: "10 \<le> n \<Longrightarrow> dec_digits n = dec_digits (n div 10) @ [48 + n mod 10]"
  by (simp add: dec_digits.simps [of n])

lemma length_dec_digits: "0 \<le> n \<Longrightarrow> n < 1000 \<Longrightarrow> length (dec_digits n) \<le> 3"
proof -
  assume n: "0 \<le> n" "n < 1000"
  consider "n < 10" | "10 \<le> n" "n < 100" | "100 \<le> n" by linarith
  then show ?thesis
  proof cases
    case 2
    then have "n div 10 < 10" by linarith
    with 2 show ?thesis by (simp add: dec_digits_step dec_digits_small)
  next
    case 3
    then have "10 \<le> n div 10" "n div 10 div 10 < 10" using n by linarith+
    with 3 show ?thesis by (simp add: dec_digits_step dec_digits_small)
  qed (simp add: dec_digits_small)
qed

lemma hd_dec_digits: "1 \<le> n \<Longrightarrow> hd (dec_digits n) \<noteq> 48"
proof (induction n rule: dec_digits.induct)
  case (1 n)
  show ?case
  proof (cases "n < 10")
    case False
    then have "1 \<le> n div 10" by linarith
    with 1 False show ?thesis by (simp add: dec_digits.simps [of n] hd_append)
  qed (use 1 in \<open>simp add: dec_digits_small\<close>)
qed

lemma parse_octet_digits:
  assumes "0 \<le> n" "n < 256"
  shows "parse_octet (dec_digits n) = Some n"
proof (cases "n = 0")
  case True
  then show ?thesis by (simp add: parse_octet_def dec_digits_small dec_value_def is_digit_def)
next
  case False
  with assms show ?thesis
    using hd_dec_digits [of n] length_dec_digits [of n] by (auto simp: parse_octet_def dec_value_digits)
qed

lemma split_on_free: "c \<notin> set s \<Longrightarrow> split_on c s = [s]"
  by (induction s) auto

lemma split_on_app: "c \<notin> set s \<Longrightarrow> split_on c (s @ c # t) = s # split_on c t"
  by (induction s) auto

lemma sep_notin_digits: "0 \<le> n \<Longrightarrow> c < 48 \<Longrightarrow> c \<notin> set (dec_digits n)"
  using dec_digits_ascii by fastforce

lemma ipv4_split:
  fixes a :: int
  assumes "0 \<le> a" "a < 2 ^ 32"
  shows "((a div 16777216 mod 256 * 256 + a div 65536 mod 256) * 256 + a div 256 mod 256) * 256 + a mod 256 = a"
proof -
  have d: "a div 65536 = a div 256 div 256" "a div 16777216 = a div 65536 div 256"
    using zdiv_zmult2_eq [of 256 a 256] zdiv_zmult2_eq [of 256 a 65536] by simp_all
  have "a div 16777216 < 256" "0 \<le> a div 16777216" using assms by auto
  then have "a div 16777216 mod 256 = a div 16777216" by simp
  then show ?thesis using d by (simp only: div_mult_mod_eq)
qed

lemma parse_ipv4_octets:
  assumes "0 \<le> w" "w < 256" "0 \<le> x" "x < 256" "0 \<le> y" "y < 256" "0 \<le> z" "z < 256"
  shows "parse_ipv4 (join (lit ''.'') (map dec_digits [w, x, y, z])) =
    Some (((w * 256 + x) * 256 + y) * 256 + z)"
proof -
  have "lit ''.'' = [46]" by (simp add: lit_def)
  then have "split_on 46 (join (lit ''.'') (map dec_digits [w, x, y, z])) = map dec_digits [w, x, y, z]"
    using assms by (simp add: split_on_app split_on_free sep_notin_digits)
  then show ?thesis using assms by (simp add: parse_ipv4_def parse_octet_digits)
qed

text \<open>Parsing the text of an address gives the address back.\<close>

lemma parse_ipv4_text:
  assumes "0 \<le> a" "a < 2 ^ 32"
  shows "parse_ipv4 (ipv4_text a) = Some a"
  unfolding ipv4_text_def octets_def
  by (subst parse_ipv4_octets) (simp_all only: ipv4_split [OF assms] pos_mod_bound pos_mod_sign zero_less_numeral)

end
