(* ===== verification/Passive.thy ===== *)
theory Passive
  imports Py_Ip
begin

text \<open>
  \<open>passive.py\<close>: the bounded pipeline between the capture adapter and the repository. Frames wait
  in a bounded queue; worker tasks run the registered parsers on each frame, normalise what they
  emit, drop duplicates inside a time window and hand the rest to an asynchronous sink. The
  model is a state, one function per method and a step relation whose steps are the atomic
  sections between two \<open>await\<close>s.
\<close>

section \<open>Frames and observations\<close>

record passive_frame =
  fr_protocol :: pystr
  fr_payload :: bytes
  fr_observed_at :: datetime
  fr_interface :: "pystr option"

record observation =
  ob_kind :: pystr
  ob_fields :: fields
  ob_source :: pystr
  ob_observed_at :: "datetime option"
  ob_expires_at :: "datetime option"

text \<open>An element of what a parser returns; the pipeline checks its type at run time.\<close>

datatype item = Obs observation | Foreign

text \<open>
  A parser may keep state (the mDNS cache, DHCP leases, neighbours), so it maps that state and a
  frame to the new state and either an exception or the items it produced.
\<close>

type_synonym 'p parser = "'p \<Rightarrow> passive_frame \<Rightarrow> 'p \<times> item list result"

definition naive_event :: exn where
  "naive_event = ValueError (lit ''passive event timestamps must be timezone-aware'')"

text \<open>\<open>_normalize_observation\<close>\<close>

fun normalize_observation :: "item \<Rightarrow> datetime \<Rightarrow> observation result" where
  "normalize_observation Foreign t = Inl (TypeError (lit ''parser output must be PassiveObservation''))"
| "normalize_observation (Obs ob) t =
     (if ob_kind ob = [] \<or> ob_source ob = []
      then Inl (ValueError (lit ''observation kind and source must not be empty''))
      else bindR (json_check (JDict (ob_fields ob))) (\<lambda>_.
        bindR (utc_instant naive_event (case ob_observed_at ob of None \<Rightarrow> t | Some d \<Rightarrow> d)) (\<lambda>ts.
        bindR (case ob_expires_at ob of None \<Rightarrow> Inr None
               | Some d \<Rightarrow> bindR (utc_instant naive_event d) (\<lambda>x. Inr (Some (utc_dt x)))) (\<lambda>ex.
        Inr (ob\<lparr>ob_observed_at := Some (utc_dt ts), ob_expires_at := ex\<rparr>)))))"

text \<open>
  \<open>_fingerprint\<close>: a digest of the canonical JSON text. The digest and the decimal text of floats
  are the runtime's. Encoding the text raises on a lone surrogate.
\<close>

definition canonical_json :: "(rat \<Rightarrow> pystr) \<Rightarrow> observation \<Rightarrow> pystr" where
  "canonical_json fl ob =
     json_dumps False (lit '','') (lit '':'') fl
       (JDict [(lit ''fields'', JDict (ob_fields ob)), (lit ''kind'', JStr (ob_kind ob)),
               (lit ''source'', JStr (ob_source ob))])"

definition fingerprint :: "(bytes \<Rightarrow> pystr) \<Rightarrow> (rat \<Rightarrow> pystr) \<Rightarrow> observation \<Rightarrow> pystr result" where
  "fingerprint sha fl ob = bindR (utf8_encode (canonical_json fl ob)) (\<lambda>raw. Inr (sha raw))"

section \<open>Deduplication\<close>

text \<open>
  The window remembers for each fingerprint when it expires. \<open>dedupe_expire\<close> is the \<open>while\<close> loop
  that drops expired entries from the front; \<open>dedupe_check\<close> is the rest of \<open>_is_duplicate\<close>. Its
  last component is the number of evictions.
\<close>

type_synonym dedupe = "(pystr, rat) odict"

definition dedupe_expire :: "rat \<Rightarrow> dedupe \<Rightarrow> dedupe" where
  "dedupe_expire now d = dropWhile (\<lambda>entry. snd entry \<le> now) d"

definition dedupe_check :: "rat \<Rightarrow> nat \<Rightarrow> rat \<Rightarrow> pystr \<Rightarrow> dedupe \<Rightarrow> bool \<times> dedupe \<times> nat" where
  "dedupe_check window cap now fp d =
     (case map_of d fp of
        Some expiry \<Rightarrow>
          if now < expiry then (True, od_move_to_end fp d, 0)
          else (False, od_store cap fp (now + window) d,
                if cap < length (od_move_to_end fp (od_set fp (now + window) d)) then 1 else 0)
      | None \<Rightarrow>
          (False, od_store cap fp (now + window) d,
           if cap < length (od_move_to_end fp (od_set fp (now + window) d)) then 1 else 0))"

section \<open>State\<close>

record counters =
  submitted_frames :: nat
  processed_frames :: nat
  emitted_observations :: nat
  duplicate_observations :: nat
  parser_failures :: nat
  sink_failures :: nat
  oversized_frames :: nat
  unsupported_frames :: nat
  backpressure_rejections :: nat
  dedupe_evictions :: nat
  incomplete_frames :: nat
  queue_peak :: nat

definition zero_counters :: counters where
  "zero_counters = \<lparr>submitted_frames = 0, processed_frames = 0, emitted_observations = 0,
     duplicate_observations = 0, parser_failures = 0, sink_failures = 0, oversized_frames = 0,
     unsupported_frames = 0, backpressure_rejections = 0, dedupe_evictions = 0,
     incomplete_frames = 0, queue_peak = 0\<rparr>"

record 'p config =
  cf_parsers :: "(pystr, 'p parser list) odict"
  cf_queue_size :: nat
  cf_worker_count :: nat
  cf_max_frame_bytes :: nat
  cf_window :: rat
  cf_capacity :: nat
  cf_clock :: "nat \<Rightarrow> rat"
  cf_sha :: "bytes \<Rightarrow> pystr"
  cf_float :: "rat \<Rightarrow> pystr"
  cf_uni :: unidata

text \<open>
  A worker task waits for a frame, or waits for the sink to take an observation while the rest
  of the frame's items and parsers are pending, or has ended with an exception.
\<close>

datatype 'p worker =
    WIdle
  | WSink passive_frame observation "item list" "'p parser list"
  | WDead

text \<open>
  \<open>pp_ticks\<close> counts the readings of the monotonic clock (\<open>cf_clock n\<close> is the \<open>n\<close>-th),
  \<open>pp_waiting\<close> are the frames of submitters blocked on the full queue, \<open>pp_parser\<close> is the state the
  parsers keep. \<open>pp_lost\<close> is not in the code: it counts the frames whose worker task ended with
  an exception before the frame was processed, which no counter of the program records.
\<close>

record 'p pipe =
  pp_queue :: "passive_frame list"
  pp_waiting :: "passive_frame list"
  pp_workers :: "'p worker list"
  pp_in_flight :: nat
  pp_dedupe :: dedupe
  pp_counters :: counters
  pp_accepting :: bool
  pp_stopped :: bool
  pp_ticks :: nat
  pp_parser :: 'p
  pp_lost :: nat

section \<open>Construction and lifecycle\<close>

definition normalize_parsers :: "unidata \<Rightarrow> (pystr \<times> 'p parser list) list \<Rightarrow> (pystr, 'p parser list) odict" where
  "normalize_parsers U ps = foldl (\<lambda>d (name, items). od_set (casefold U name) items d) [] ps"

definition new_config ::
    "(pystr \<times> 'p parser list) list \<Rightarrow> int \<Rightarrow> int \<Rightarrow> int \<Rightarrow> rat \<Rightarrow> int \<Rightarrow> (nat \<Rightarrow> rat) \<Rightarrow> (bytes \<Rightarrow> pystr)
     \<Rightarrow> (rat \<Rightarrow> pystr) \<Rightarrow> unidata \<Rightarrow> 'p config result" where
  "new_config ps queue_size worker_count max_frame_bytes window cap clock sha fl U =
     (if queue_size < 1 \<or> worker_count < 1 \<or> max_frame_bytes < 1
      then Inl (ValueError (lit ''queue, worker, and frame bounds must be positive''))
      else if window < 0 \<or> cap < 1
      then Inl (ValueError (lit ''dedupe window must be non-negative and capacity positive''))
      else (let parsers = normalize_parsers U ps
        in if list_ex (\<lambda>(name, items). name = [] \<or> items = []) parsers
           then Inl (ValueError (lit ''parser protocol names and parser lists must not be empty''))
           else Inr \<lparr>cf_parsers = parsers, cf_queue_size = nat queue_size,
             cf_worker_count = nat worker_count, cf_max_frame_bytes = nat max_frame_bytes,
             cf_window = window, cf_capacity = nat cap, cf_clock = clock, cf_sha = sha,
             cf_float = fl, cf_uni = U\<rparr>))"

definition new_pipe :: "'p \<Rightarrow> 'p pipe" where
  "new_pipe p = \<lparr>pp_queue = [], pp_waiting = [], pp_workers = [], pp_in_flight = 0, pp_dedupe = [],
     pp_counters = zero_counters, pp_accepting = False, pp_stopped = False, pp_ticks = 0,
     pp_parser = p, pp_lost = 0\<rparr>"

definition retained_payload_capacity :: "'p config \<Rightarrow> nat" where
  "retained_payload_capacity c = cf_queue_size c * cf_max_frame_bytes c"

definition pipe_start :: "'p config \<Rightarrow> 'p pipe \<Rightarrow> 'p pipe result" where
  "pipe_start c s =
     (if pp_stopped s then Inl (PassivePipelineError (lit ''a stopped pipeline cannot be restarted''))
      else if pp_workers s \<noteq> [] then Inr s
      else Inr (s\<lparr>pp_accepting := True, pp_workers := replicate (cf_worker_count c) WIdle\<rparr>))"

abbreviation count :: "(counters \<Rightarrow> counters) \<Rightarrow> 'p pipe \<Rightarrow> 'p pipe" where
  "count f s \<equiv> s\<lparr>pp_counters := f (pp_counters s)\<rparr>"

text \<open>\<open>metrics()\<close>: the counters and the two gauges.\<close>

record pipeline_metrics = counters +
  queue_depth :: nat
  in_flight :: nat

definition pipe_metrics :: "'p pipe \<Rightarrow> pipeline_metrics" where
  "pipe_metrics s = counters.extend (pp_counters s)
     (pipeline_metrics.fields (length (pp_queue s)) (pp_in_flight s))"

text \<open>A payload as the caller passes it: \<open>bytes\<close>, or an object of another type.\<close>

datatype payload_arg = Bytes bytes | NotBytes

text \<open>\<open>_prepare_frame\<close>; \<open>wall\<close> is \<open>datetime.now(UTC)\<close>.\<close>

definition prepare_frame ::
    "'p config \<Rightarrow> 'p pipe \<Rightarrow> pystr \<Rightarrow> payload_arg \<Rightarrow> datetime option \<Rightarrow> pystr option \<Rightarrow> int
     \<Rightarrow> ('p pipe \<times> passive_frame option) result" where
  "prepare_frame c s protocol payload observed_at interface wall =
     (if pp_workers s = [] \<or> \<not> pp_accepting s
      then Inl (PassivePipelineError (lit ''pipeline is not accepting frames''))
      else (let name = strip (casefold (cf_uni c) protocol)
        in if map_of (cf_parsers c) name = None
           then Inr (count (\<lambda>k. k\<lparr>unsupported_frames := unsupported_frames k + 1\<rparr>) s, None)
           else (case payload of
               NotBytes \<Rightarrow> Inl (TypeError (lit ''passive payload must be bytes''))
             | Bytes raw \<Rightarrow>
                 if cf_max_frame_bytes c < length raw
                 then Inr (count (\<lambda>k. k\<lparr>oversized_frames := oversized_frames k + 1\<rparr>) s, None)
                 else bindR (utc_instant naive_event
                       (case observed_at of None \<Rightarrow> utc_dt wall | Some d \<Rightarrow> d)) (\<lambda>ts.
                   Inr (s, Some \<lparr>fr_protocol = name, fr_payload = raw, fr_observed_at = utc_dt ts,
                     fr_interface = interface\<rparr>)))))"

text \<open>\<open>put_nowait\<close> on a queue with room, then \<open>_record_submission\<close>, without an \<open>await\<close> in between.\<close>

definition enqueue :: "passive_frame \<Rightarrow> 'p pipe \<Rightarrow> 'p pipe" where
  "enqueue f s =
     count (\<lambda>k. k\<lparr>submitted_frames := submitted_frames k + 1,
        queue_peak := max (queue_peak k) (length (pp_queue s) + 1)\<rparr>)
       (s\<lparr>pp_queue := pp_queue s @ [f]\<rparr>)"

definition queue_full :: "'p config \<Rightarrow> 'p pipe \<Rightarrow> bool" where
  "queue_full c s \<longleftrightarrow> cf_queue_size c \<le> length (pp_queue s)"

text \<open>
  \<open>submit\<close> up to its first suspension: the result says whether the call has returned (and what)
  or its frame waits for room.
\<close>

datatype submit_outcome = Returned bool | Blocked

definition pipe_submit ::
    "'p config \<Rightarrow> 'p pipe \<Rightarrow> pystr \<Rightarrow> payload_arg \<Rightarrow> datetime option \<Rightarrow> pystr option \<Rightarrow> int
     \<Rightarrow> ('p pipe \<times> submit_outcome) result" where
  "pipe_submit c s protocol payload observed_at interface wall =
     bindR (prepare_frame c s protocol payload observed_at interface wall) (\<lambda>(s', fo).
       Inr (case fo of None \<Rightarrow> (s', Returned False)
         | Some f \<Rightarrow>
             if queue_full c s' then (s'\<lparr>pp_waiting := pp_waiting s' @ [f]\<rparr>, Blocked)
             else (enqueue f s', Returned True)))"

text \<open>A blocked \<open>submit\<close> that finds room, and one whose task is cancelled.\<close>

definition pipe_wake :: "'p config \<Rightarrow> 'p pipe \<Rightarrow> nat \<Rightarrow> 'p pipe option" where
  "pipe_wake c s i =
     (if i < length (pp_waiting s) \<and> \<not> queue_full c s
      then Some (enqueue (pp_waiting s ! i)
        (s\<lparr>pp_waiting := take i (pp_waiting s) @ drop (Suc i) (pp_waiting s)\<rparr>))
      else None)"

definition pipe_give_up :: "'p pipe \<Rightarrow> nat \<Rightarrow> 'p pipe" where
  "pipe_give_up s i = s\<lparr>pp_waiting := take i (pp_waiting s) @ drop (Suc i) (pp_waiting s)\<rparr>"

definition pipe_submit_nowait ::
    "'p config \<Rightarrow> 'p pipe \<Rightarrow> pystr \<Rightarrow> payload_arg \<Rightarrow> datetime option \<Rightarrow> pystr option \<Rightarrow> int
     \<Rightarrow> ('p pipe \<times> bool) result" where
  "pipe_submit_nowait c s protocol payload observed_at interface wall =
     bindR (prepare_frame c s protocol payload observed_at interface wall) (\<lambda>(s', fo).
       Inr (case fo of None \<Rightarrow> (s', False)
         | Some f \<Rightarrow>
             if queue_full c s'
             then (count (\<lambda>k. k\<lparr>backpressure_rejections := backpressure_rejections k + 1\<rparr>) s', False)
             else (enqueue f s', True)))"

section \<open>Workers\<close>

text \<open>\<open>_is_duplicate\<close>: one clock reading, expiry, fingerprint, window check.\<close>

definition is_duplicate :: "'p config \<Rightarrow> observation \<Rightarrow> 'p pipe \<Rightarrow> 'p pipe \<times> bool result" where
  "is_duplicate c ob s =
     (if cf_window c = 0 then (s, Inr False)
      else (let now = cf_clock c (pp_ticks s);
                s1 = s\<lparr>pp_ticks := pp_ticks s + 1, pp_dedupe := dedupe_expire now (pp_dedupe s)\<rparr>
        in case fingerprint (cf_sha c) (cf_float c) ob of
             Inl e \<Rightarrow> (s1, Inl e)
           | Inr fp \<Rightarrow>
               (case dedupe_check (cf_window c) (cf_capacity c) now fp (pp_dedupe s1) of
                  (dup, d, n) \<Rightarrow>
                    (count (\<lambda>k. k\<lparr>dedupe_evictions := dedupe_evictions k + n\<rparr>) (s1\<lparr>pp_dedupe := d\<rparr>),
                     Inr dup))))"

text \<open>
  \<open>_handle_frame\<close> from one \<open>await self._sink(...)\<close> to the next: with the items left of the current
  parser and the parsers left for the frame, run until an observation must be handed to the
  sink, or the frame is done, or an exception leaves the method.
\<close>

datatype 'p outcome =
    Await observation "item list" "'p parser list"
  | Done
  | Raised exn

function run_items ::
    "'p config \<Rightarrow> passive_frame \<Rightarrow> 'p parser list \<Rightarrow> item list \<Rightarrow> 'p pipe \<Rightarrow> 'p pipe \<times> 'p outcome" where
  "run_items c f [] [] s = (count (\<lambda>k. k\<lparr>processed_frames := processed_frames k + 1\<rparr>) s, Done)"
| "run_items c f (p # ps) [] s =
     (case p (pp_parser s) f of
        (p', Inl e) \<Rightarrow>
          run_items c f ps [] (count (\<lambda>k. k\<lparr>parser_failures := parser_failures k + 1\<rparr>) (s\<lparr>pp_parser := p'\<rparr>))
      | (p', Inr its) \<Rightarrow> run_items c f ps its (s\<lparr>pp_parser := p'\<rparr>))"
| "run_items c f ps (it # its) s =
     (case normalize_observation it (fr_observed_at f) of
        Inl e \<Rightarrow> run_items c f ps its (count (\<lambda>k. k\<lparr>parser_failures := parser_failures k + 1\<rparr>) s)
      | Inr ob \<Rightarrow>
          (case is_duplicate c ob s of
             (s', Inl e) \<Rightarrow> (s', Raised e)
           | (s', Inr True) \<Rightarrow>
               run_items c f ps its (count (\<lambda>k. k\<lparr>duplicate_observations := duplicate_observations k + 1\<rparr>) s')
           | (s', Inr False) \<Rightarrow> (s', Await ob its ps)))"
  by pat_completeness auto
termination
  by (relation "measures [\<lambda>(c, f, ps, its, s). length ps, \<lambda>(c, f, ps, its, s). length its]") auto

text \<open>
  What the worker \<open>w\<close> does with an outcome: it waits for the sink, or leaves \<open>_handle_frame\<close>
  through the \<open>finally\<close> block, which ends the in-flight mark and calls \<open>task_done\<close>; with an
  exception the task itself ends.
\<close>

definition settle :: "nat \<Rightarrow> passive_frame \<Rightarrow> 'p pipe \<times> 'p outcome \<Rightarrow> 'p pipe" where
  "settle w f r =
     (case r of
        (s, Await ob its ps) \<Rightarrow> s\<lparr>pp_workers := (pp_workers s)[w := WSink f ob its ps]\<rparr>
      | (s, Done) \<Rightarrow> s\<lparr>pp_workers := (pp_workers s)[w := WIdle], pp_in_flight := pp_in_flight s - 1\<rparr>
      | (s, Raised e) \<Rightarrow>
          s\<lparr>pp_workers := (pp_workers s)[w := WDead], pp_in_flight := pp_in_flight s - 1,
            pp_lost := pp_lost s + 1\<rparr>)"

text \<open>\<open>_worker\<close> takes the next frame.\<close>

definition worker_get :: "'p config \<Rightarrow> 'p pipe \<Rightarrow> nat \<Rightarrow> 'p pipe option" where
  "worker_get c s w =
     (if w < length (pp_workers s) then
        (case (pp_workers s ! w, pp_queue s) of
           (WIdle, f # q) \<Rightarrow>
             Some (settle w f
               (run_items c f (case map_of (cf_parsers c) (fr_protocol f) of None \<Rightarrow> [] | Some ps \<Rightarrow> ps) []
                 (s\<lparr>pp_queue := q, pp_in_flight := pp_in_flight s + 1\<rparr>)))
         | _ \<Rightarrow> None)
      else None)"

text \<open>The sink returns, raises an exception, or raises \<open>CancelledError\<close>.\<close>

datatype sink_result = SinkOk | SinkFailed | SinkCancelled

definition worker_sink :: "'p config \<Rightarrow> 'p pipe \<Rightarrow> nat \<Rightarrow> sink_result \<Rightarrow> 'p pipe option" where
  "worker_sink c s w r =
     (if w < length (pp_workers s) then
        (case pp_workers s ! w of
           WSink f ob its ps \<Rightarrow>
             Some (settle w f
               (case r of
                  SinkOk \<Rightarrow> run_items c f ps its
                    (count (\<lambda>k. k\<lparr>emitted_observations := emitted_observations k + 1\<rparr>) s)
                | SinkFailed \<Rightarrow> run_items c f ps its
                    (count (\<lambda>k. k\<lparr>sink_failures := sink_failures k + 1\<rparr>) s)
                | SinkCancelled \<Rightarrow> (s, Raised CancelledError)))
         | _ \<Rightarrow> None)
      else None)"

section \<open>Stopping\<close>

text \<open>
  \<open>stop\<close> refuses input, waits for blocked submitters, waits for the queue to drain or for its
  timeout, cancels the workers and empties the queue. The unfinished-task count of the queue is
  the number of queued and in-flight frames, so the drain ends when both are zero.
\<close>

definition stop_begin :: "'p pipe \<Rightarrow> rat \<Rightarrow> 'p pipe result" where
  "stop_begin s timeout =
     (if timeout < 0 then Inl (ValueError (lit ''drain timeout must not be negative''))
      else if pp_stopped s then Inr s
      else Inr (s\<lparr>pp_accepting := False\<rparr>))"

definition stop_clear :: "'p pipe \<Rightarrow> 'p pipe" where
  "stop_clear s = s\<lparr>pp_queue := [], pp_workers := [], pp_in_flight := 0, pp_stopped := True\<rparr>"

definition stop_drained :: "'p pipe \<Rightarrow> 'p pipe option" where
  "stop_drained s =
     (if \<not> pp_accepting s \<and> \<not> pp_stopped s \<and> pp_waiting s = [] \<and> pp_queue s = [] \<and> pp_in_flight s = 0
      then Some (stop_clear s) else None)"

definition stop_timeout :: "'p pipe \<Rightarrow> 'p pipe option" where
  "stop_timeout s =
     (if \<not> pp_accepting s \<and> \<not> pp_stopped s \<and> pp_waiting s = []
      then Some (stop_clear (count (\<lambda>k. k\<lparr>incomplete_frames :=
        incomplete_frames k + (length (pp_queue s) + pp_in_flight s)\<rparr>) s))
      else None)"

section \<open>The transition system\<close>

text \<open>
  One rule per atomic section: calls of the methods, a blocked submitter that finds room or is
  cancelled, a worker that takes a frame, a sink that answers, and the ends of \<open>stop\<close>. Which
  comes next is up to the event loop. Calls that raise leave the state as it is.
\<close>

inductive pipe_step :: "'p config \<Rightarrow> 'p pipe \<Rightarrow> 'p pipe \<Rightarrow> bool" for c where
  step_start: "pipe_start c s = Inr s' \<Longrightarrow> pipe_step c s s'"
| step_submit: "pipe_submit c s protocol payload at_time ifname wall = Inr (s', out) \<Longrightarrow> pipe_step c s s'"
| step_submit_nowait:
    "pipe_submit_nowait c s protocol payload at_time ifname wall = Inr (s', b) \<Longrightarrow> pipe_step c s s'"
| step_wake: "pipe_wake c s i = Some s' \<Longrightarrow> pipe_step c s s'"
| step_give_up: "i < length (pp_waiting s) \<Longrightarrow> pipe_step c s (pipe_give_up s i)"
| step_get: "worker_get c s w = Some s' \<Longrightarrow> pipe_step c s s'"
| step_sink: "worker_sink c s w r = Some s' \<Longrightarrow> pipe_step c s s'"
| step_stop_begin: "stop_begin s timeout = Inr s' \<Longrightarrow> pipe_step c s s'"
| step_stop_drained: "stop_drained s = Some s' \<Longrightarrow> pipe_step c s s'"
| step_stop_timeout: "stop_timeout s = Some s' \<Longrightarrow> pipe_step c s s'"

inductive pipe_reachable :: "'p config \<Rightarrow> 'p \<Rightarrow> 'p pipe \<Rightarrow> bool" for c p where
  reach_new: "pipe_reachable c p (new_pipe p)"
| reach_step: "pipe_reachable c p s \<Longrightarrow> pipe_step c s s' \<Longrightarrow> pipe_reachable c p s'"

section \<open>What may reach the sink\<close>

definition utc_stamp :: "datetime \<Rightarrow> bool" where
  "utc_stamp d \<longleftrightarrow> (case d of Aware t off \<Rightarrow> off = 0 \<and> dt_in_range t | Naive t \<Rightarrow> False)"

definition deliverable :: "observation \<Rightarrow> bool" where
  "deliverable ob \<longleftrightarrow>
     ob_kind ob \<noteq> [] \<and> ob_source ob \<noteq> [] \<and> json_check (JDict (ob_fields ob)) = Inr () \<and>
     (case ob_observed_at ob of None \<Rightarrow> False | Some d \<Rightarrow> utc_stamp d) \<and>
     (case ob_expires_at ob of None \<Rightarrow> True | Some d \<Rightarrow> utc_stamp d)"

lemma utc_stamp_instant: "utc_instant e d = Inr t \<Longrightarrow> utc_stamp (utc_dt t)"
  by (simp add: utc_stamp_def utc_instant_range)

lemma normalize_deliverable: "normalize_observation it t = Inr ob \<Longrightarrow> deliverable ob"
  by (cases it)
    (auto simp: deliverable_def result_simps split: if_splits option.splits intro: utc_stamp_instant)

section \<open>The invariant\<close>

definition busy :: "'p worker \<Rightarrow> bool" where
  "busy w \<longleftrightarrow> (case w of WSink f ob its ps \<Rightarrow> True | _ \<Rightarrow> False)"

definition admitted :: "'p config \<Rightarrow> passive_frame \<Rightarrow> bool" where
  "admitted c f \<longleftrightarrow> length (fr_payload f) \<le> cf_max_frame_bytes c \<and>
     map_of (cf_parsers c) (fr_protocol f) \<noteq> None \<and> utc_stamp (fr_observed_at f)"

definition worker_ok :: "'p config \<Rightarrow> 'p worker \<Rightarrow> bool" where
  "worker_ok c w \<longleftrightarrow> (case w of WSink f ob its ps \<Rightarrow> admitted c f \<and> deliverable ob | _ \<Rightarrow> True)"

text \<open>Every accepted frame is queued, in flight, processed, counted as incomplete, or lost.\<close>

definition balanced :: "'p pipe \<Rightarrow> bool" where
  "balanced s \<longleftrightarrow>
     submitted_frames (pp_counters s) = processed_frames (pp_counters s) + length (pp_queue s)
       + pp_in_flight s + incomplete_frames (pp_counters s) + pp_lost s"

definition pipe_inv :: "'p config \<Rightarrow> 'p pipe \<Rightarrow> bool" where
  "pipe_inv c s \<longleftrightarrow>
     balanced s \<and> pp_in_flight s = length (filter busy (pp_workers s)) \<and>
     length (pp_queue s) \<le> cf_queue_size c \<and> queue_peak (pp_counters s) \<le> cf_queue_size c \<and>
     (\<forall>f \<in> set (pp_queue s) \<union> set (pp_waiting s). admitted c f) \<and>
     (\<forall>w \<in> set (pp_workers s). worker_ok c w) \<and>
     lru.bounded (cf_capacity c) (pp_dedupe s) \<and>
     (pp_stopped s \<longrightarrow> \<not> pp_accepting s \<and> pp_queue s = [] \<and> pp_waiting s = [] \<and> pp_workers s = [])"

text \<open>The part of the state that running parsers leaves alone.\<close>

definition same_flow :: "'p pipe \<Rightarrow> 'p pipe \<Rightarrow> bool" where
  "same_flow s s' \<longleftrightarrow>
     pp_queue s' = pp_queue s \<and> pp_waiting s' = pp_waiting s \<and> pp_workers s' = pp_workers s \<and>
     pp_in_flight s' = pp_in_flight s \<and> pp_accepting s' = pp_accepting s \<and>
     pp_stopped s' = pp_stopped s \<and> pp_lost s' = pp_lost s \<and>
     submitted_frames (pp_counters s') = submitted_frames (pp_counters s) \<and>
     incomplete_frames (pp_counters s') = incomplete_frames (pp_counters s) \<and>
     queue_peak (pp_counters s') = queue_peak (pp_counters s)"

lemma same_flow_refl [simp]: "same_flow s s"
  by (simp add: same_flow_def)

lemma same_flow_trans: "same_flow s t \<Longrightarrow> same_flow t u \<Longrightarrow> same_flow s u"
  by (simp add: same_flow_def)

lemma od_ok_dropWhile: "od_ok d \<Longrightarrow> od_ok (dropWhile p d)"
  unfolding od_ok_def by (metis distinct_append map_append takeWhile_dropWhile_id)

lemma dedupe_expire_bounded: "lru.bounded cap d \<Longrightarrow> lru.bounded cap (dedupe_expire now d)"
  by (auto simp: lru.bounded_def dedupe_expire_def od_ok_dropWhile
      intro: order_trans [OF length_dropWhile_le])

lemma dedupe_check_bounded:
  "dedupe_check window cap now fp d = (dup, d', n) \<Longrightarrow> lru.bounded cap d \<Longrightarrow> lru.bounded cap d'"
  by (auto simp: dedupe_check_def lru.bounded_store split: option.splits if_splits)
    (simp add: lru.bounded_def length_od_move)

lemma is_duplicate_flow:
  assumes "is_duplicate c ob s = (s', r)"
  shows "same_flow s s'" and "processed_frames (pp_counters s') = processed_frames (pp_counters s)"
    and "lru.bounded (cf_capacity c) (pp_dedupe s) \<Longrightarrow> lru.bounded (cf_capacity c) (pp_dedupe s')"
  using assms
  by (auto simp: is_duplicate_def Let_def same_flow_def
      split: if_splits sum.splits prod.splits intro: dedupe_expire_bounded dedupe_check_bounded)

text \<open>The three facts about a run of the parsers that every worker step needs.\<close>

definition run_ok :: "'p config \<Rightarrow> 'p pipe \<Rightarrow> 'p pipe \<times> 'p outcome \<Rightarrow> bool" where
  "run_ok c s r \<longleftrightarrow>
     same_flow s (fst r) \<and>
     processed_frames (pp_counters (fst r)) =
       processed_frames (pp_counters s) + (case snd r of Done \<Rightarrow> 1 | _ \<Rightarrow> 0) \<and>
     (lru.bounded (cf_capacity c) (pp_dedupe s) \<longrightarrow> lru.bounded (cf_capacity c) (pp_dedupe (fst r))) \<and>
     (case snd r of Await ob its ps \<Rightarrow> deliverable ob | _ \<Rightarrow> True)"

lemma run_ok_before:
  assumes "run_ok c s' r" "same_flow s s'"
    and "processed_frames (pp_counters s') = processed_frames (pp_counters s)"
    and "lru.bounded (cf_capacity c) (pp_dedupe s) \<Longrightarrow> lru.bounded (cf_capacity c) (pp_dedupe s')"
  shows "run_ok c s r"
  using assms by (auto simp: run_ok_def intro: same_flow_trans)

lemma run_items_ok: "run_ok c s (run_items c f ps its s)"
proof (induction c f ps its s rule: run_items.induct)
  case (1 c f s)
  show ?case by (simp add: run_ok_def same_flow_def)
next
  case (2 c f p ps s)
  obtain p' r where r: "p (pp_parser s) f = (p', r)" by fastforce
  show ?case
  proof (cases r)
    case (Inl e)
    let ?t = "count (\<lambda>k. k\<lparr>parser_failures := parser_failures k + 1\<rparr>) (s\<lparr>pp_parser := p'\<rparr>)"
    have "run_ok c ?t (run_items c f ps [] ?t)" using "2.IH"(1) [OF r [symmetric] Inl] .
    then have "run_ok c s (run_items c f ps [] ?t)" by (rule run_ok_before) (simp_all add: same_flow_def)
    with r Inl show ?thesis by simp
  next
    case (Inr its)
    let ?t = "s\<lparr>pp_parser := p'\<rparr>"
    have "run_ok c ?t (run_items c f ps its ?t)" using "2.IH"(2) [OF r [symmetric] Inr] .
    then have "run_ok c s (run_items c f ps its ?t)" by (rule run_ok_before) (simp_all add: same_flow_def)
    with r Inr show ?thesis by simp
  qed
next
  case (3 c f ps it its s)
  show ?case
  proof (cases "normalize_observation it (fr_observed_at f)")
    case (Inl e)
    let ?t = "count (\<lambda>k. k\<lparr>parser_failures := parser_failures k + 1\<rparr>) s"
    have "run_ok c ?t (run_items c f ps its ?t)" using "3.IH"(1) [OF Inl] .
    then have "run_ok c s (run_items c f ps its ?t)" by (rule run_ok_before) (simp_all add: same_flow_def)
    with Inl show ?thesis by simp
  next
    case (Inr ob)
    obtain s' r where r: "is_duplicate c ob s = (s', r)" by fastforce
    note flow = is_duplicate_flow [OF r]
    consider e where "r = Inl e" | "r = Inr True" | "r = Inr False" by (metis (full_types) sum.exhaust)
    then show ?thesis
    proof cases
      case 2
      let ?t = "count (\<lambda>k. k\<lparr>duplicate_observations := duplicate_observations k + 1\<rparr>) s'"
      have "run_ok c ?t (run_items c f ps its ?t)"
        using "3.IH"(2) [OF Inr] r 2 by simp
      then have "run_ok c s (run_items c f ps its ?t)"
        by (rule run_ok_before) (use flow in \<open>auto simp: same_flow_def\<close>)
      with Inr r 2 show ?thesis by simp
    qed (use Inr r flow normalize_deliverable [OF Inr] in \<open>auto simp: run_ok_def\<close>)
  qed
qed

section \<open>Every step keeps the invariant\<close>

lemma busy_update:
  assumes "w < length ws"
  shows "length (filter busy (ws[w := x])) = length (filter busy (ws[w := WIdle])) + (if busy x then 1 else 0)"
  using assms by (simp add: upd_conv_take_nth_drop busy_def)

lemma busy_simps [simp]: "busy (WSink f ob its ps)" "\<not> busy WIdle" "\<not> busy WDead"
  by (simp_all add: busy_def)

text \<open>The state in the middle of \<open>_handle_frame\<close>: worker \<open>w\<close> holds the frame \<open>f\<close>.\<close>

definition handling :: "'p config \<Rightarrow> nat \<Rightarrow> passive_frame \<Rightarrow> 'p pipe \<Rightarrow> bool" where
  "handling c w f s \<longleftrightarrow>
     balanced s \<and> w < length (pp_workers s) \<and>
     pp_in_flight s = Suc (length (filter busy ((pp_workers s)[w := WIdle]))) \<and>
     length (pp_queue s) \<le> cf_queue_size c \<and> queue_peak (pp_counters s) \<le> cf_queue_size c \<and>
     (\<forall>f \<in> set (pp_queue s) \<union> set (pp_waiting s). admitted c f) \<and> admitted c f \<and>
     (\<forall>w \<in> set (pp_workers s). worker_ok c w) \<and>
     lru.bounded (cf_capacity c) (pp_dedupe s) \<and> \<not> pp_stopped s"

lemma settle_inv:
  assumes "handling c w f s" "run_ok c s r"
  shows "pipe_inv c (settle w f r)"
proof -
  obtain s' out where r: "r = (s', out)" by fastforce
  have upd: "\<forall>v \<in> set ((pp_workers s)[w := x]). worker_ok c v" if "worker_ok c x" for x
    using assms(1) that set_update_subset_insert [of "pp_workers s" w x] by (auto simp: handling_def)
  show ?thesis
  proof (cases out)
    case (Await ob its ps)
    have "worker_ok c (WSink f ob its ps)"
      using assms Await r by (simp add: worker_ok_def run_ok_def handling_def)
    from upd [OF this] show ?thesis
      using assms r Await
      by (auto simp: settle_def pipe_inv_def handling_def run_ok_def same_flow_def balanced_def
          busy_update [of w _ "WSink f ob its ps"])
  next
    case Done
    have "worker_ok c WIdle" by (simp add: worker_ok_def)
    from upd [OF this] show ?thesis
      using assms r Done
      by (auto simp: settle_def pipe_inv_def handling_def run_ok_def same_flow_def balanced_def)
  next
    case (Raised e)
    have "worker_ok c WDead" by (simp add: worker_ok_def)
    from upd [OF this] show ?thesis
      using assms r Raised
      by (auto simp: settle_def pipe_inv_def handling_def run_ok_def same_flow_def balanced_def
          busy_update [of w _ WDead])
  qed
qed

lemma worker_get_inv:
  assumes "worker_get c s w = Some s'" "pipe_inv c s"
  shows "pipe_inv c s'"
proof -
  from assms(1) obtain f q ps where w: "w < length (pp_workers s)" "pp_workers s ! w = WIdle"
    "pp_queue s = f # q"
    and s': "s' = settle w f (run_items c f ps [] (s\<lparr>pp_queue := q, pp_in_flight := pp_in_flight s + 1\<rparr>))"
    by (auto simp: worker_get_def split: if_splits worker.splits list.splits)
  have "(pp_workers s)[w := WIdle] = pp_workers s" using w by (metis list_update_id)
  then have "handling c w f (s\<lparr>pp_queue := q, pp_in_flight := pp_in_flight s + 1\<rparr>)"
    using assms(2) w by (auto simp: handling_def pipe_inv_def balanced_def)
  then show ?thesis unfolding s' using run_items_ok by (rule settle_inv)
qed

lemma handling_run:
  assumes "handling c w f s" "same_flow s t" "processed_frames (pp_counters t) = processed_frames (pp_counters s)"
    and "pp_dedupe t = pp_dedupe s"
  shows "handling c w f t"
  using assms by (simp add: handling_def same_flow_def balanced_def)

lemma worker_sink_inv:
  assumes "worker_sink c s w r = Some s'" "pipe_inv c s"
  shows "pipe_inv c s'"
proof -
  from assms(1) obtain f ob its ps where w: "w < length (pp_workers s)" "pp_workers s ! w = WSink f ob its ps"
    by (auto simp: worker_sink_def split: if_splits worker.splits)
  have ok: "worker_ok c (WSink f ob its ps)"
    using assms(2) w by (metis nth_mem pipe_inv_def)
  have "length (filter busy (pp_workers s)) = Suc (length (filter busy ((pp_workers s)[w := WIdle])))"
    using busy_update [OF w(1), of "WSink f ob its ps"] w by (metis busy_simps(1) list_update_id Suc_eq_plus1)
  then have h: "handling c w f s"
    using assms(2) w ok by (auto simp: handling_def pipe_inv_def worker_ok_def)
  show ?thesis
  proof (cases r)
    case SinkOk
    then show ?thesis using assms(1) w
      by (auto simp: worker_sink_def simp del: One_nat_def add_Suc_right
          intro!: settle_inv [OF handling_run [OF h] run_items_ok]) (simp_all add: same_flow_def)
  next
    case SinkFailed
    then show ?thesis using assms(1) w
      by (auto simp: worker_sink_def simp del: One_nat_def add_Suc_right
          intro!: settle_inv [OF handling_run [OF h] run_items_ok]) (simp_all add: same_flow_def)
  next
    case SinkCancelled
    then show ?thesis using assms(1) w
      by (auto simp: worker_sink_def run_ok_def intro!: settle_inv [OF h])
  qed
qed

lemma pipe_inv_new: "pipe_inv c (new_pipe p)"
  by (simp add: pipe_inv_def new_pipe_def balanced_def zero_counters_def lru.bounded_def)

lemma pipe_start_inv: "pipe_start c s = Inr s' \<Longrightarrow> pipe_inv c s \<Longrightarrow> pipe_inv c s'"
  by (auto simp: pipe_start_def pipe_inv_def balanced_def worker_ok_def split: if_splits)

lemma prepare_frame_inv:
  assumes "prepare_frame c s protocol payload at_time ifname wall = Inr (s', fo)" "pipe_inv c s"
  shows "pipe_inv c s'" and "\<not> pp_stopped s'" and "fo = Some f \<Longrightarrow> admitted c f"
  using assms
  by (auto simp: prepare_frame_def pipe_inv_def balanced_def admitted_def Let_def result_simps
      utc_stamp_instant split: if_splits payload_arg.splits)

lemma enqueue_inv:
  assumes "pipe_inv c s" "\<not> pp_stopped s" "\<not> queue_full c s" "admitted c f"
  shows "pipe_inv c (enqueue f s)"
  using assms by (auto simp: enqueue_def pipe_inv_def balanced_def queue_full_def)

lemma pipe_submit_inv:
  assumes "pipe_submit c s protocol payload at_time ifname wall = Inr (s', out)" "pipe_inv c s"
  shows "pipe_inv c s'"
proof -
  from assms(1) obtain s1 fo
    where prep: "prepare_frame c s protocol payload at_time ifname wall = Inr (s1, fo)"
    and s': "(s', out) = (case fo of None \<Rightarrow> (s1, Returned False)
      | Some f \<Rightarrow> if queue_full c s1 then (s1\<lparr>pp_waiting := pp_waiting s1 @ [f]\<rparr>, Blocked)
          else (enqueue f s1, Returned True))"
    by (auto simp: pipe_submit_def result_simps)
  note p = prepare_frame_inv [OF prep assms(2)]
  show ?thesis
  proof (cases fo)
    case (Some f)
    then show ?thesis using s' p enqueue_inv [OF p(1,2)]
      by (auto simp: pipe_inv_def balanced_def split: if_splits)
  qed (use s' p in simp)
qed

lemma pipe_submit_nowait_inv:
  assumes "pipe_submit_nowait c s protocol payload at_time ifname wall = Inr (s', b)" "pipe_inv c s"
  shows "pipe_inv c s'"
proof -
  from assms(1) obtain s1 fo
    where prep: "prepare_frame c s protocol payload at_time ifname wall = Inr (s1, fo)"
    and s': "(s', b) = (case fo of None \<Rightarrow> (s1, False)
      | Some f \<Rightarrow> if queue_full c s1
          then (count (\<lambda>k. k\<lparr>backpressure_rejections := backpressure_rejections k + 1\<rparr>) s1, False)
          else (enqueue f s1, True))"
    by (auto simp: pipe_submit_nowait_def result_simps)
  note p = prepare_frame_inv [OF prep assms(2)]
  show ?thesis
  proof (cases fo)
    case (Some f)
    then show ?thesis using s' p enqueue_inv [OF p(1,2)]
      by (auto simp: pipe_inv_def balanced_def split: if_splits)
  qed (use s' p in simp)
qed

lemma remove_waiting_inv:
  assumes "pipe_inv c s"
  shows "pipe_inv c (s\<lparr>pp_waiting := take i (pp_waiting s) @ drop (Suc i) (pp_waiting s)\<rparr>)"
  using assms by (auto simp: pipe_inv_def balanced_def dest!: in_set_takeD in_set_dropD)

lemma pipe_wake_inv:
  assumes "pipe_wake c s i = Some s'" "pipe_inv c s"
  shows "pipe_inv c s'"
proof -
  let ?t = "s\<lparr>pp_waiting := take i (pp_waiting s) @ drop (Suc i) (pp_waiting s)\<rparr>"
  from assms(1) have i: "i < length (pp_waiting s)" "\<not> queue_full c s" "s' = enqueue (pp_waiting s ! i) ?t"
    by (auto simp: pipe_wake_def split: if_splits)
  then have "pp_waiting s ! i \<in> set (pp_waiting s)" by simp
  then have "admitted c (pp_waiting s ! i)" "\<not> pp_stopped s"
    using assms(2) by (auto simp: pipe_inv_def)
  then show ?thesis
    unfolding i(3) using i(2) remove_waiting_inv [OF assms(2)]
    by (intro enqueue_inv) (simp_all add: queue_full_def)
qed

lemma stop_clear_inv:
  assumes "pipe_inv c s" "\<not> pp_accepting s" "pp_waiting s = []" "pp_queue s = []" "pp_in_flight s = 0"
  shows "pipe_inv c (stop_clear s)"
  using assms by (simp add: stop_clear_def pipe_inv_def balanced_def)

lemma stop_timeout_inv: "stop_timeout s = Some s' \<Longrightarrow> pipe_inv c s \<Longrightarrow> pipe_inv c s'"
  by (auto simp: stop_timeout_def stop_clear_def pipe_inv_def balanced_def split: if_splits)

lemma stop_begin_inv: "stop_begin s t = Inr s' \<Longrightarrow> pipe_inv c s \<Longrightarrow> pipe_inv c s'"
  by (auto simp: stop_begin_def pipe_inv_def balanced_def split: if_splits)

lemma pipe_step_inv: "pipe_step c s s' \<Longrightarrow> pipe_inv c s \<Longrightarrow> pipe_inv c s'"
proof (induction rule: pipe_step.induct)
  case (step_give_up i s)
  then show ?case by (simp add: pipe_give_up_def remove_waiting_inv)
next
  case (step_stop_drained s s')
  then show ?case by (auto simp: stop_drained_def split: if_splits intro: stop_clear_inv)
qed (auto intro: pipe_start_inv pipe_submit_inv pipe_submit_nowait_inv pipe_wake_inv worker_get_inv
    worker_sink_inv stop_timeout_inv stop_begin_inv)

lemma pipe_reachable_inv: "pipe_reachable c p s \<Longrightarrow> pipe_inv c s"
  by (induction rule: pipe_reachable.induct) (auto intro: pipe_inv_new pipe_step_inv)

section \<open>Deduplication against its specification\<close>

text \<open>
  \<open>_is_duplicate\<close> on a sequence of clock readings and fingerprints, with the number of evictions,
  and the specification: a fingerprint is a duplicate until the window after its last delivery
  has passed.
\<close>

definition dedupe_step :: "rat \<Rightarrow> nat \<Rightarrow> rat \<times> pystr \<Rightarrow> dedupe \<Rightarrow> bool \<times> dedupe \<times> nat" where
  "dedupe_step window cap e d = dedupe_check window cap (fst e) (snd e) (dedupe_expire (fst e) d)"

fun dedupe_run :: "rat \<Rightarrow> nat \<Rightarrow> (rat \<times> pystr) list \<Rightarrow> dedupe \<Rightarrow> bool list \<times> nat" where
  "dedupe_run window cap [] d = ([], 0)"
| "dedupe_run window cap (e # es) d =
     (case dedupe_step window cap e d of (dup, d', n) \<Rightarrow>
        (case dedupe_run window cap es d' of (bs, m) \<Rightarrow> (dup # bs, n + m)))"

fun dedupe_spec :: "rat \<Rightarrow> (rat \<times> pystr) list \<Rightarrow> (pystr \<Rightarrow> rat option) \<Rightarrow> bool list" where
  "dedupe_spec window [] m = []"
| "dedupe_spec window ((now, fp) # es) m =
     (let dup = (case m fp of Some expiry \<Rightarrow> now < expiry | None \<Rightarrow> False)
      in dup # dedupe_spec window es (if dup then m else m(fp \<mapsto> now + window)))"

definition agrees :: "rat \<Rightarrow> dedupe \<Rightarrow> (pystr \<Rightarrow> rat option) \<Rightarrow> bool" where
  "agrees now d m \<longleftrightarrow> od_ok d \<and> (\<forall>fp expiry. now < expiry \<longrightarrow> map_of d fp = Some expiry \<longleftrightarrow> m fp = Some expiry)"

lemma map_of_dropWhile_live:
  assumes "od_ok d" "now < expiry"
  shows "map_of (dedupe_expire now d) fp = Some expiry \<longleftrightarrow> map_of d fp = Some expiry"
  using assms
proof (induction d)
  case (Cons p d)
  have ok: "od_ok d" using Cons.prems(1) by (simp add: od_ok_def)
  have "fst p \<notin> fst ` set d" using Cons.prems(1) by (auto simp: od_ok_def)
  then have "map_of d (fst p) = None" by (simp add: map_of_eq_None_iff)
  then show ?case using Cons.IH [OF ok Cons.prems(2)] Cons.prems(2)
    by (auto simp: dedupe_expire_def)
qed (simp add: dedupe_expire_def)

lemma od_ok_expire: "od_ok d \<Longrightarrow> od_ok (dedupe_expire now d)"
  by (simp add: dedupe_expire_def od_ok_dropWhile)

lemma agrees_expire: "agrees now d m \<Longrightarrow> now \<le> now' \<Longrightarrow> agrees now' (dedupe_expire now' d) m"
  by (auto simp: agrees_def map_of_dropWhile_live od_ok_expire)

lemma agrees_dup:
  assumes "agrees now d m"
  shows "(case map_of d fp of Some e \<Rightarrow> now < e | None \<Rightarrow> False) = (case m fp of Some e \<Rightarrow> now < e | None \<Rightarrow> False)"
proof -
  have "(\<exists>e. map_of d fp = Some e \<and> now < e) = (\<exists>e. m fp = Some e \<and> now < e)"
    using assms by (auto simp: agrees_def)
  then show ?thesis by (auto split: option.splits)
qed

lemma store_no_evict:
  assumes "\<not> cap < length (od_move_to_end fp (od_set fp e d))"
  shows "map_of (od_store cap fp e d) = (map_of d)(fp \<mapsto> e)"
  using assms by (simp add: od_store_def od_evict_def od_get_move od_get_set)

lemma dedupe_check_agrees:
  assumes ag: "agrees now d m" and chk: "dedupe_check window cap now fp d = (dup, d', 0)"
  shows "dup = (case m fp of Some e \<Rightarrow> now < e | None \<Rightarrow> False)"
    and "agrees now d' (if dup then m else m(fp \<mapsto> now + window))"
proof -
  show dup: "dup = (case m fp of Some e \<Rightarrow> now < e | None \<Rightarrow> False)"
    using chk agrees_dup [OF ag, of fp, symmetric] by (auto simp: dedupe_check_def split: option.splits if_splits)
  have ok: "od_ok d" using ag by (simp add: agrees_def)
  show "agrees now d' (if dup then m else m(fp \<mapsto> now + window))"
  proof (cases dup)
    case True
    then have "d' = od_move_to_end fp d" using chk by (auto simp: dedupe_check_def split: option.splits if_splits)
    with True ag show ?thesis by (simp add: agrees_def od_get_move)
  next
    case False
    then have d': "d' = od_store cap fp (now + window) d"
      and room: "\<not> cap < length (od_move_to_end fp (od_set fp (now + window) d))"
      using chk by (auto simp: dedupe_check_def split: option.splits if_splits)
    with False ag ok show ?thesis by (simp add: agrees_def store_no_evict [OF room])
  qed
qed

lemma dedupe_run_agrees:
  assumes "agrees t0 d m" "sorted (t0 # map fst es)" "snd (dedupe_run window cap es d) = 0"
  shows "fst (dedupe_run window cap es d) = dedupe_spec window es m"
  using assms
proof (induction es arbitrary: t0 d m)
  case (Cons e es)
  obtain now fp where e: "e = (now, fp)" by fastforce
  obtain dup d' n where st: "dedupe_step window cap e d = (dup, d', n)" by (metis prod_cases3)
  obtain bs k where run: "dedupe_run window cap es d' = (bs, k)" by fastforce
  from Cons.prems(3) st run have nk: "n = 0" "k = 0" by simp_all
  have "agrees now (dedupe_expire now d) m" using Cons.prems(1,2) e by (auto intro: agrees_expire)
  note chk = dedupe_check_agrees [OF this, of window cap fp dup d']
  have "dedupe_check window cap now fp (dedupe_expire now d) = (dup, d', 0)"
    using st e nk by (simp add: dedupe_step_def)
  note chk = chk [OF this]
  have "fst (dedupe_run window cap es d') = dedupe_spec window es (if dup then m else m(fp \<mapsto> now + window))"
    using Cons.IH [OF chk(2)] Cons.prems(2) run nk e by simp
  then show ?case using e st run chk(1) by (simp add: Let_def)
qed simp

text \<open>Whatever is evicted, an entry of the window comes from a delivery.\<close>

lemma dedupe_check_source:
  assumes "od_ok d" "1 \<le> cap" "dedupe_check window cap now fp d = (dup, d', n)" "map_of d' k = Some expiry"
  shows "map_of d k = Some expiry \<or> \<not> dup \<and> k = fp \<and> expiry = now + window"
proof (cases dup)
  case True
  then have "d' = od_move_to_end fp d" using assms(3) by (auto simp: dedupe_check_def split: option.splits if_splits)
  with assms(4) show ?thesis by (simp add: od_get_move)
next
  case False
  then have "d' = od_store cap fp (now + window) d"
    using assms(3) by (auto simp: dedupe_check_def split: option.splits if_splits)
  with assms False show ?thesis using lru.get_store_cases [OF assms(2,1)] by metis
qed

lemma dedupe_check_ok: "od_ok d \<Longrightarrow> dedupe_check window cap now fp d = (dup, d', n) \<Longrightarrow> od_ok d'"
  by (auto simp: dedupe_check_def split: option.splits if_splits)

lemma dedupe_check_dup:
  "dedupe_check window cap now fp d = (True, d', n) \<Longrightarrow> \<exists>expiry. map_of d fp = Some expiry \<and> now < expiry"
  by (auto simp: dedupe_check_def split: option.splits if_splits)

lemma dedupe_run_sound:
  assumes "od_ok d" "1 \<le> cap" "fst (dedupe_run window cap es d) = bs" "i < length bs" "bs ! i"
  shows "(\<exists>j < i. \<not> bs ! j \<and> snd (es ! j) = snd (es ! i) \<and> fst (es ! i) < fst (es ! j) + window) \<or>
    (\<exists>expiry. map_of d (snd (es ! i)) = Some expiry \<and> fst (es ! i) < expiry)"
  using assms(1,3-5)
proof (induction es arbitrary: d bs i)
  case (Cons e es)
  obtain now fp where e: "e = (now, fp)" by fastforce
  let ?x = "dedupe_expire now d"
  have okx: "od_ok ?x" using Cons.prems(1) by (simp add: dedupe_expire_def od_ok_dropWhile)
  have live: "map_of d k = Some v" if "map_of ?x k = Some v" for k v
    using that Cons.prems(1) okx unfolding dedupe_expire_def od_ok_def
    by (metis map_of_SomeD map_of_is_SomeI set_dropWhileD)
  obtain dup d' n where st: "dedupe_check window cap now fp ?x = (dup, d', n)" by (metis prod_cases3)
  obtain bs' k where run: "dedupe_run window cap es d' = (bs', k)" by fastforce
  have bs: "bs = dup # bs'" using Cons.prems(2) e st run by (simp add: dedupe_step_def)
  show ?case
  proof (cases i)
    case 0
    with Cons.prems(4) bs have dup by simp
    with st have "\<exists>expiry. map_of ?x fp = Some expiry \<and> now < expiry" by (auto dest: dedupe_check_dup)
    with 0 e live show ?thesis by auto
  next
    case (Suc i')
    let ?e = "es ! i'"
    have "(\<exists>j < i'. \<not> bs' ! j \<and> snd (es ! j) = snd ?e \<and> fst ?e < fst (es ! j) + window) \<or>
        (\<exists>expiry. map_of d' (snd ?e) = Some expiry \<and> fst ?e < expiry)"
      using Cons.IH [OF dedupe_check_ok [OF okx st], of bs' i'] run Cons.prems(3,4) bs Suc by simp
    then show ?thesis
    proof (elim disjE exE conjE)
      fix j assume "j < i'" "\<not> bs' ! j" "snd (es ! j) = snd ?e" "fst ?e < fst (es ! j) + window"
      then show ?thesis using Suc bs by (intro disjI1 exI [of _ "Suc j"]) simp
    next
      fix expiry assume x: "map_of d' (snd ?e) = Some expiry" "fst ?e < expiry"
      from dedupe_check_source [OF okx assms(2) st x(1)] show ?thesis
      proof
        assume "map_of ?x (snd ?e) = Some expiry"
        then show ?thesis using live x(2) Suc by auto
      next
        assume "\<not> dup \<and> snd ?e = fp \<and> expiry = now + window"
        then show ?thesis using x(2) Suc bs e by (intro disjI1 exI [of _ 0]) simp
      qed
    qed
  qed
qed simp

section \<open>A concrete run\<close>

text \<open>One parser that emits one observation per frame, one worker, a queue of one frame.\<close>

definition demo_observation :: "pystr \<Rightarrow> observation" where
  "demo_observation t = \<lparr>ob_kind = lit ''k'', ob_fields = [(lit ''f'', JStr t)], ob_source = lit ''s'',
     ob_observed_at = None, ob_expires_at = None\<rparr>"

definition demo_config :: "pystr \<Rightarrow> rat \<Rightarrow> unit config" where
  "demo_config t window = \<lparr>cf_parsers = [(lit ''arp'', [\<lambda>p f. (p, Inr [Obs (demo_observation t)])])],
     cf_queue_size = 1, cf_worker_count = 1, cf_max_frame_bytes = 4, cf_window = window, cf_capacity = 2,
     cf_clock = \<lambda>n. 0, cf_sha = \<lambda>bs. [], cf_float = \<lambda>r. [], cf_uni = (\<lambda>c. [c])\<rparr>"

definition demo_frame :: passive_frame where
  "demo_frame = \<lparr>fr_protocol = lit ''arp'', fr_payload = [1, 2], fr_observed_at = utc_dt 0, fr_interface = None\<rparr>"

definition demo_queued :: "unit pipe" where
  "demo_queued = (new_pipe ())\<lparr>pp_queue := [demo_frame], pp_workers := [WIdle], pp_accepting := True,
     pp_counters := zero_counters\<lparr>submitted_frames := 1, queue_peak := 1\<rparr>\<rparr>"

lemma demo_times [simp]: "dt_in_range 0" "utc_stamp (utc_dt 0)"
  by (simp_all add: dt_in_range_def dt_min_def dt_max_def utc_stamp_def)

lemma demo_started: "pipe_reachable (demo_config t win) () ((new_pipe ())\<lparr>pp_accepting := True, pp_workers := [WIdle]\<rparr>)"
  by (rule reach_step [OF reach_new], rule step_start)
    (simp add: pipe_start_def new_pipe_def demo_config_def)

lemma demo_submits:
  "pipe_submit_nowait (demo_config t win) ((new_pipe ())\<lparr>pp_accepting := True, pp_workers := [WIdle]\<rparr>)
     (lit '' ARP'') (Bytes [1, 2]) (Some (utc_dt 0)) None 0 = Inr (demo_queued, True)"
  by (simp add: pipe_submit_nowait_def prepare_frame_def demo_config_def new_pipe_def demo_queued_def
      demo_frame_def queue_full_def enqueue_def zero_counters_def Let_def lit_def casefold_def
      ascii_lower_def strip_with_def py_isspace_def)

lemma demo_reachable: "pipe_reachable (demo_config t win) () demo_queued"
  by (rule reach_step [OF demo_started [of t win] step_submit_nowait [OF demo_submits [of t win]]])

definition demo_waiting :: "unit pipe" where
  "demo_waiting = demo_queued\<lparr>pp_queue := [], pp_in_flight := 1, pp_workers :=
     [WSink demo_frame ((demo_observation (lit ''v''))\<lparr>ob_observed_at := Some (utc_dt 0)\<rparr>) [] []]\<rparr>"

lemma demo_get: "worker_get (demo_config (lit ''v'') 0) demo_queued 0 = Some demo_waiting"
  by (simp add: worker_get_def demo_config_def demo_waiting_def demo_queued_def new_pipe_def demo_frame_def
      demo_observation_def settle_def is_duplicate_def)

lemma demo_waiting_reachable: "pipe_reachable (demo_config (lit ''v'') 0) () demo_waiting"
  by (rule reach_step [OF demo_reachable step_get [OF demo_get]])

definition demo_done :: "unit pipe" where
  "demo_done = demo_waiting\<lparr>pp_in_flight := 0, pp_workers := [WIdle], pp_accepting := False, pp_counters :=
     zero_counters\<lparr>submitted_frames := 1, queue_peak := 1, processed_frames := 1, emitted_observations := 1\<rparr>\<rparr>"

lemma demo_done_reachable: "pipe_reachable (demo_config (lit ''v'') 0) () demo_done"
proof -
  have "worker_sink (demo_config (lit ''v'') 0) demo_waiting 0 SinkOk =
      Some (demo_done\<lparr>pp_accepting := True\<rparr>)"
    by (simp add: worker_sink_def demo_waiting_def demo_done_def settle_def demo_queued_def new_pipe_def
        zero_counters_def)
  from reach_step [OF demo_waiting_reachable step_sink [OF this]]
  show ?thesis
    by (rule reach_step, intro step_stop_begin [of _ 1])
      (simp add: stop_begin_def demo_done_def demo_waiting_def demo_queued_def new_pipe_def)
qed

section \<open>Properties\<close>



lemma queued_payload:
  assumes "\<forall>f \<in> set q. admitted c f"
  shows "sum_list (map (\<lambda>f. length (fr_payload f)) q) \<le> length q * cf_max_frame_bytes c"
  using assms by (induction q) (auto simp: admitted_def)

text \<open>C2. Memory bounds: the queue and its recorded peak never exceed the configured size, the payload
  bytes the queue retains never exceed \<open>retained_payload_capacity\<close>, and the deduplication window never
  holds more entries than its capacity, nor one fingerprint twice.\<close>

theorem pipeline_bounds:
  assumes "pipe_reachable c p s"
  shows "length (pp_queue s) \<le> cf_queue_size c \<and> queue_peak (pp_counters s) \<le> cf_queue_size c \<and>
    sum_list (map (\<lambda>f. length (fr_payload f)) (pp_queue s)) \<le> retained_payload_capacity c \<and>
    length (pp_dedupe s) \<le> cf_capacity c \<and> distinct (map fst (pp_dedupe s))"
proof -
  have inv: "pipe_inv c s" using pipe_reachable_inv [OF assms] .
  then have "sum_list (map (\<lambda>f. length (fr_payload f)) (pp_queue s)) \<le> length (pp_queue s) * cf_max_frame_bytes c"
    by (intro queued_payload) (simp add: pipe_inv_def)
  also have "\<dots> \<le> retained_payload_capacity c"
    using inv by (simp add: pipe_inv_def retained_payload_capacity_def)
  finally show ?thesis using inv by (simp add: pipe_inv_def lru.bounded_def od_ok_def)
qed

theorem pipeline_bounds_witness:
  "sum_list (map (\<lambda>f. length (fr_payload f)) (pp_queue demo_queued)) = 2 \<and>
    length (pp_queue demo_queued) \<le> cf_queue_size (demo_config [] 0) \<and> retained_payload_capacity (demo_config [] 0) = 4"
  using pipeline_bounds [OF demo_reachable [of "[]" 0]]
  by (simp add: demo_queued_def demo_frame_def retained_payload_capacity_def demo_config_def)

text \<open>Only normalised observations reach the sink: whatever a parser emits, an observation a worker
  hands to the sink has a non-empty kind and source, fields that are JSON values, and timestamps in
  UTC; the frame it came from is of a registered protocol and within the size limit.\<close>

theorem sink_receives_deliverable:
  assumes "pipe_reachable c p s" "w < length (pp_workers s)" "pp_workers s ! w = WSink f ob its ps"
  shows "deliverable ob \<and> length (fr_payload f) \<le> cf_max_frame_bytes c \<and>
    map_of (cf_parsers c) (fr_protocol f) \<noteq> None"
proof -
  have "worker_ok c (pp_workers s ! w)" using pipe_reachable_inv [OF assms(1)] assms(2) by (simp add: pipe_inv_def)
  then show ?thesis by (simp add: assms(3) worker_ok_def admitted_def)
qed

theorem sink_receives_deliverable_witness:
  "deliverable ((demo_observation (lit ''v''))\<lparr>ob_observed_at := Some (utc_dt 0)\<rparr>)"
  using sink_receives_deliverable [OF demo_waiting_reachable, of 0] by (simp add: demo_waiting_def)

text \<open>A drained shutdown is final and accounts for everything: when \<open>stop\<close> ends because the queue
  drained, every submitted frame was processed, counted incomplete or lost with its worker; the stopped
  pipeline holds no frame, refuses every later submission with \<open>PassivePipelineError\<close> without changing
  state, and cannot be restarted.\<close>

theorem drained_stop_final:
  assumes "pipe_reachable c p s" "stop_drained s = Some s'"
  shows "submitted_frames (pp_counters s') =
      processed_frames (pp_counters s') + incomplete_frames (pp_counters s') + pp_lost s' \<and>
    pp_queue s' = [] \<and> pp_waiting s' = [] \<and> pp_in_flight s' = 0 \<and>
    pipe_submit c s' protocol payload at_time ifname wall =
      Inl (PassivePipelineError (lit ''pipeline is not accepting frames'')) \<and>
    pipe_submit_nowait c s' protocol payload at_time ifname wall =
      Inl (PassivePipelineError (lit ''pipeline is not accepting frames'')) \<and>
    pipe_start c s' = Inl (PassivePipelineError (lit ''a stopped pipeline cannot be restarted''))"
  using pipe_reachable_inv [OF assms(1)] assms(2)
  by (auto simp: stop_drained_def stop_clear_def pipe_inv_def balanced_def pipe_submit_def
      pipe_submit_nowait_def prepare_frame_def pipe_start_def split: if_splits)

theorem drained_stop_final_witness:
  "processed_frames (pp_counters (stop_clear demo_done)) = 1 \<and>
    pipe_start (demo_config (lit ''v'') 0) (stop_clear demo_done) =
      Inl (PassivePipelineError (lit ''a stopped pipeline cannot be restarted''))"
proof -
  have "stop_drained demo_done = Some (stop_clear demo_done)"
    by (simp add: stop_drained_def demo_done_def demo_waiting_def demo_queued_def new_pipe_def)
  from drained_stop_final [OF demo_done_reachable this] show ?thesis
    by (simp add: stop_clear_def demo_done_def demo_waiting_def demo_queued_def new_pipe_def zero_counters_def)
qed

text \<open>C3. The bounded, insertion-ordered deduplication window implements its specification: over any
  sequence of observations at non-decreasing times during which nothing is evicted, it reports a
  duplicate exactly when the fingerprint was last let through less than one window ago.\<close>

theorem dedupe_refines_spec:
  assumes "sorted (map fst es)" "snd (dedupe_run window cap es []) = 0"
  shows "fst (dedupe_run window cap es []) = dedupe_spec window es (\<lambda>_. None)"
proof (cases es)
  case (Cons e es')
  show ?thesis
    by (rule dedupe_run_agrees [of "fst e"]) (use assms Cons in \<open>auto simp: agrees_def od_ok_def\<close>)
qed simp

theorem dedupe_refines_spec_witness:
  "fst (dedupe_run 10 2 [(0, [1]), (3, [2]), (4, [1]), (11, [1])] []) = [False, False, True, False]"
  by (subst dedupe_refines_spec) (simp_all add: dedupe_step_def dedupe_check_def dedupe_expire_def od_store_def
      od_evict_def od_set_def od_move_to_end_def Let_def)

lemma dedupe_run_length: "length (fst (dedupe_run window cap es d)) = length es"
proof (induction es arbitrary: d)
  case (Cons e es)
  then show ?case by (simp split: prod.split) (metis fst_conv)
qed simp

text \<open>Deduplication never drops news: with any capacity and any clock readings, an observation is
  reported as a duplicate only if the same fingerprint was let through earlier in the run, less than
  one window before.\<close>

theorem dedupe_sound:
  assumes "1 \<le> cap" "i < length es" "fst (dedupe_run window cap es []) ! i"
  shows "\<exists>j < i. \<not> fst (dedupe_run window cap es []) ! j \<and> snd (es ! j) = snd (es ! i) \<and>
    fst (es ! i) < fst (es ! j) + window"
  using assms dedupe_run_sound [of "[]" cap window es _ i] by (auto simp: od_ok_def dedupe_run_length)

theorem dedupe_sound_witness:
  "\<exists>j < 2. \<not> fst (dedupe_run 10 1 [(0, [1]), (3, [2]), (4, [2])] []) ! j \<and>
    snd ([(0 :: rat, [1]), (3, [2]), (4, [2])] ! j) = [2 :: int] \<and> 4 < fst ([(0 :: rat, [1 :: int]), (3, [2]), (4, [2])] ! j) + 10"
  using dedupe_sound [of 1 2 "[(0, [1]), (3, [2]), (4, [2])]" 10]
  by (simp add: dedupe_step_def dedupe_check_def dedupe_expire_def od_store_def
      od_evict_def od_set_def od_move_to_end_def od_popitem_first_def Let_def)

text \<open>A parser output whose text holds a lone surrogate passes normalisation (which writes it as an
  ASCII escape) but makes the fingerprint raise outside every handler: with deduplication on, the
  worker task that meets it ends and its frame is neither processed nor counted by any counter.\<close>

theorem surrogate_kills_worker:
  assumes "0xD800 \<le> x" "x < 0xE000"
  shows "case worker_get (demo_config [x] 30) demo_queued 0 of None \<Rightarrow> False
    | Some s' \<Rightarrow> pp_workers s' = [WDead] \<and> pp_lost s' = 1 \<and> pp_counters s' = pp_counters demo_queued \<and>
        pp_queue s' = []"
proof -
  let ?ob = "(demo_observation [x])\<lparr>ob_observed_at := Some (utc_dt 0), ob_expires_at := None\<rparr>"
  have "x \<in> set (json_string False [x])" using assms by (simp add: json_string_def json_escape_def)
  then have "x \<in> set (canonical_json (\<lambda>r. []) ?ob)"
    by (auto simp: canonical_json_def demo_observation_def)
  then have "\<not> list_all is_scalar (canonical_json (\<lambda>r. []) ?ob)"
    using assms by (auto simp: list_all_iff is_scalar_def intro!: bexI [of _ x])
  then have "fingerprint (\<lambda>bs. []) (\<lambda>r. []) ?ob = Inl UnicodeEncodeError"
    by (simp add: fingerprint_def utf8_encode_def)
  then show ?thesis
    by (simp add: worker_get_def demo_config_def demo_queued_def new_pipe_def demo_frame_def
        demo_observation_def settle_def is_duplicate_def Let_def)
qed

theorem surrogate_kills_worker_witness:
  "case worker_get (demo_config [0xD800] 30) demo_queued 0 of None \<Rightarrow> False
    | Some s' \<Rightarrow> pp_workers s' = [WDead] \<and> pp_lost s' = 1 \<and> pp_counters s' = pp_counters demo_queued \<and>
        pp_queue s' = []"
  by (rule surrogate_kills_worker) simp_all

end
