(* ===== verification/Parser_Contract.thy ===== *)
theory Parser_Contract
  imports Passive
begin

text \<open>
  The contract between the pipeline and its parsers. \<open>passive.py\<close> states it as the protocol
  \<open>PassiveParser\<close>: a parser is called with an admitted frame and yields observations that can be
  persisted. Here it is a locale over a parser and its state; what the pipeline gains from it
  (no observation is rejected, no worker dies) is proved once inside the locale, and each protocol
  module interprets it.
\<close>

section \<open>Text without surrogates\<close>

abbreviation scalars :: "pystr \<Rightarrow> bool" where
  "scalars \<equiv> list_all is_scalar"

lemma is_scalar_small: "0 \<le> c \<Longrightarrow> c < 256 \<Longrightarrow> is_scalar c"
  by (simp add: is_scalar_def)

lemma scalars_lit [simp]: "scalars (lit s)"
proof -
  have "is_scalar (of_char c)" for c :: char
  proof -
    have "(of_char c :: int) mod 256 = of_char c" by simp
    then have "0 \<le> (of_char c :: int)" "(of_char c :: int) < 256" by - presburger+
    then show ?thesis by (rule is_scalar_small)
  qed
  then show ?thesis by (simp add: lit_def list_all_iff)
qed

lemma scalars_join: "scalars sep \<Longrightarrow> (\<And>t. t \<in> set ts \<Longrightarrow> scalars t) \<Longrightarrow> scalars (join sep ts)"
  by (induction sep ts rule: join.induct) auto

lemma scalars_concat: "(\<And>t. t \<in> set ts \<Longrightarrow> scalars t) \<Longrightarrow> scalars (concat ts)"
  by (induction ts) auto

lemma scalars_hex_digit: "0 \<le> d \<Longrightarrow> d < 16 \<Longrightarrow> is_scalar (hex_digit d)"
  by (simp add: hex_digit_def is_scalar_def)

lemma scalars_hex2: "scalars (hex2 b)"
proof -
  have "0 \<le> uint b div 16" "uint b div 16 < 16" using uint_byte [of b] by - linarith+
  then show ?thesis by (simp add: hex2_def scalars_hex_digit)
qed

lemma scalars_hex_bytes [simp]: "scalars (hex_bytes bs)"
  unfolding hex_bytes_def by (rule scalars_concat) (auto simp: scalars_hex2)

lemma scalars_mac_text [simp]: "scalars (mac_text bs)"
  unfolding mac_text_def by (rule scalars_join) (auto simp: scalars_hex2)

lemma scalars_dec_digits [simp]: "0 \<le> n \<Longrightarrow> scalars (dec_digits n)"
  using dec_digits_ascii by (fastforce simp: list_all_iff is_scalar_def)

lemma scalars_str_int [simp]: "scalars (str_int n)"
  by (simp add: str_int_def is_scalar_def)

lemma scalars_ipv4_text [simp]: "scalars (ipv4_text a)"
  unfolding ipv4_text_def octets_def by (rule scalars_join) auto

lemma scalars_hex_digits: "0 \<le> n \<Longrightarrow> scalars (hex_digits k n)"
  by (induction k n rule: hex_digits.induct) (auto simp: scalars_hex_digit)

lemma groups16_nonneg: "g \<in> set (groups16 bs) \<Longrightarrow> 0 \<le> g"
  by (induction bs rule: groups16.induct) (auto simp: be_int_bounds)

lemma scalars_ipv6 [simp]: "scalars (ipv6_of_bytes bs)"
proof -
  define ts where "ts = map (hex_digits 4) (groups16 bs)"
  have ts: "scalars t" if "t \<in> set ts" for t
    using that by (auto simp: ts_def groups16_nonneg scalars_hex_digits)
  obtain a n where z: "zero_run (groups16 bs) 0 0 0 0 0 = (a, n)" by fastforce
  show ?thesis
    unfolding ipv6_of_bytes_def Let_def z ts_def [symmetric] prod.case
    by (rule scalars_join) (auto intro: ts dest: in_set_takeD in_set_dropD split: if_splits)
qed

lemma scalars_ipv4_of_bytes [simp]: "scalars (ipv4_of_bytes bs)"
  by (simp add: ipv4_of_bytes_def)

lemma scalars_ip_address: "ip_address_of_bytes bs = Inr s \<Longrightarrow> scalars s"
  by (auto simp: ip_address_of_bytes_def split: if_splits)

lemma scalars_strip: "scalars s \<Longrightarrow> scalars (strip_with p s)"
  using set_strip_with by (fastforce simp: list_all_iff)

text \<open>The UTF-8 decoder yields Unicode scalar values only.\<close>

lemma utf8_tail_more:
  assumes "utf8_tail n acc lo hi bs = (Some c, k)" "0x80 \<le> lo" "hi \<le> 0xBF"
  shows "acc * 64 ^ n \<le> c \<and> c < (acc + 1) * 64 ^ n"
  using assms
proof (induction n acc lo hi bs arbitrary: k rule: utf8_tail.induct)
  case (3 n acc lo hi b bs)
  then obtain k' where tl: "utf8_tail n (acc * 64 + (uint b - 0x80)) 0x80 0xBF bs = (Some c, k')"
    and b: "lo \<le> uint b" "uint b \<le> hi"
    by (auto simp: Let_def prod_eq_iff split: if_splits)
  let ?a = "acc * 64 + (uint b - 0x80)"
  have ih: "?a * 64 ^ n \<le> c \<and> c < (?a + 1) * 64 ^ n" using "3.IH" b tl by simp
  have le: "acc * 64 * 64 ^ n \<le> ?a * 64 ^ n" "(?a + 1) * 64 ^ n \<le> (acc + 1) * 64 * 64 ^ n"
    using b "3.prems"(2,3) by (intro mult_right_mono; simp)+
  have "acc * 64 * 64 ^ n \<le> c" using le(1) conjunct1 [OF ih] by (rule order_trans)
  moreover have "c < (acc + 1) * 64 * 64 ^ n" using conjunct2 [OF ih] le(2) by (rule less_le_trans)
  moreover have "acc * 64 ^ Suc n = acc * 64 * 64 ^ n" "(acc + 1) * 64 ^ Suc n = (acc + 1) * 64 * 64 ^ n"
    by (simp_all only: power_Suc mult.assoc)
  ultimately show ?case by (simp only:)
qed auto

lemma utf8_tail_first:
  assumes "utf8_tail (Suc n) acc lo hi bs = (Some c, k)"
    and lo: "(acc * 64 + (lo - 0x80)) * 64 ^ n = u" and hi: "(acc * 64 + (hi - 0x80) + 1) * 64 ^ n = v"
  shows "u \<le> c \<and> c < v"
proof -
  have "\<exists>(b :: 8 word) bs'. lo \<le> uint b \<and> uint b \<le> hi \<and>
      fst (utf8_tail n (acc * 64 + (uint b - 0x80)) 0x80 0xBF bs') = Some c"
  proof (cases bs)
    case (Cons b bs')
    then show ?thesis using assms(1)
      by (intro exI [of _ b] exI [of _ bs']) (auto simp: Let_def prod_eq_iff split: if_splits)
  qed (use assms(1) in simp)
  then obtain b :: "8 word" and bs' k' where b: "lo \<le> uint b" "uint b \<le> hi" and tl: "utf8_tail n (acc * 64 + (uint b - 0x80)) 0x80 0xBF bs' = (Some c, k')"
    by (metis prod.collapse)
  let ?a = "acc * 64 + (uint b - 0x80)"
  have ih: "?a * 64 ^ n \<le> c \<and> c < (?a + 1) * 64 ^ n" using utf8_tail_more [OF tl] by simp
  have le: "u \<le> ?a * 64 ^ n" "(?a + 1) * 64 ^ n \<le> v"
    unfolding lo [symmetric] hi [symmetric] using b by (intro mult_right_mono; simp)+
  show ?thesis using order_trans [OF le(1) conjunct1 [OF ih]] less_le_trans [OF conjunct2 [OF ih] le(2)] by simp
qed

lemma utf8_char_scalar:
  assumes "utf8_char b bs = (Some c, k)"
  shows "is_scalar c"
proof -
  let ?b = "uint b"
  have b0: "0 \<le> ?b" by simp
  from assms have lead: "(case utf8_lead ?b of None \<Rightarrow> (None, 0) | Some (n, acc, lo, hi) \<Rightarrow> utf8_tail n acc lo hi bs) = (Some c, k)"
    by (simp add: utf8_char_def)
  consider "?b < 0x80" | "0x80 \<le> ?b" "?b < 0xC2" | "0xC2 \<le> ?b" "?b < 0xE0" | "?b = 0xE0" | "?b = 0xED"
    | "0xE0 < ?b" "?b < 0xF0" "?b \<noteq> 0xED" | "?b = 0xF0" | "0xF0 < ?b" "?b < 0xF4" | "?b = 0xF4" | "0xF4 < ?b"
    by linarith
  then show ?thesis
  proof cases
    case 3
    then have "utf8_tail (Suc 0) (?b - 0xC0) 0x80 0xBF bs = (Some c, k)" using lead by (simp add: utf8_lead_def)
    from utf8_tail_first [OF this refl refl] 3 show ?thesis by (simp add: is_scalar_def)
  next
    case 4
    then have "utf8_tail (Suc 1) 0 0xA0 0xBF bs = (Some c, k)" using lead by (simp add: utf8_lead_def numeral_2_eq_2)
    from utf8_tail_first [OF this refl refl] show ?thesis by (simp add: is_scalar_def)
  next
    case 5
    then have "utf8_tail (Suc 1) 0xD 0x80 0x9F bs = (Some c, k)" using lead by (simp add: utf8_lead_def numeral_2_eq_2)
    from utf8_tail_first [OF this refl refl] show ?thesis by (simp add: is_scalar_def)
  next
    case 6
    then have "utf8_tail (Suc 1) (?b - 0xE0) 0x80 0xBF bs = (Some c, k)"
      using lead by (simp add: utf8_lead_def numeral_2_eq_2)
    from utf8_tail_first [OF this refl refl] 6 show ?thesis by (auto simp: is_scalar_def)
  next
    case 7
    then have "utf8_tail (Suc 2) 0 0x90 0xBF bs = (Some c, k)" using lead by (simp add: utf8_lead_def numeral_3_eq_3 numeral_2_eq_2)
    from utf8_tail_first [OF this refl refl] show ?thesis by (simp add: is_scalar_def)
  next
    case 8
    then have "utf8_tail (Suc 2) (?b - 0xF0) 0x80 0xBF bs = (Some c, k)"
      using lead by (simp add: utf8_lead_def numeral_3_eq_3 numeral_2_eq_2)
    from utf8_tail_first [OF this refl refl] 8 show ?thesis by (simp add: is_scalar_def)
  next
    case 9
    then have "utf8_tail (Suc 2) 4 0x80 0x8F bs = (Some c, k)" using lead by (simp add: utf8_lead_def numeral_3_eq_3 numeral_2_eq_2)
    from utf8_tail_first [OF this refl refl] show ?thesis by (simp add: is_scalar_def)
  qed (use lead b0 in \<open>simp_all add: utf8_lead_def is_scalar_def\<close>)
qed

lemma utf8_items_scalar: "Some c \<in> set (utf8_items bs) \<Longrightarrow> is_scalar c"
proof (induction bs rule: utf8_items.induct)
  case (2 b bs)
  then show ?case by (auto simp: Let_def intro: utf8_char_scalar prod.collapse [symmetric] dest: sym)
      (metis prod.collapse utf8_char_scalar)
qed simp

lemma scalars_decode_replace [simp]: "scalars (utf8_decode_replace bs)"
proof -
  have "is_scalar (case x of None \<Rightarrow> 0xFFFD | Some c \<Rightarrow> c)" if "x \<in> set (utf8_items bs)" for x
    using that by (cases "x = None") (auto simp: utf8_items_scalar is_scalar_def [of "0xFFFD"])
  then show ?thesis by (auto simp: utf8_decode_replace_def list_all_iff)
qed

lemma scalars_decode: "utf8_decode bs = Some s \<Longrightarrow> scalars s"
  by (auto simp: utf8_decode_def Let_def list_all_iff split: if_splits intro: utf8_items_scalar)
    (metis option.collapse utf8_items_scalar)

section \<open>Observations the pipeline accepts\<close>

text \<open>
  JSON values whose text is free of surrogates; floats are left out because their text is the
  runtime's and no parser of the program emits one.
\<close>

fun clean_json :: "json \<Rightarrow> bool" where
  "clean_json (JStr s) = scalars s"
| "clean_json (JList xs) = list_all clean_json xs"
| "clean_json (JDict kvs) = list_all (\<lambda>kv. scalars (fst kv) \<and> clean_json (snd kv)) kvs"
| "clean_json (JFloat r) = False"
| "clean_json JNonFinite = False"
| "clean_json JOpaque = False"
| "clean_json _ = True"

lemma mapR_unit: "(\<And>x. x \<in> set xs \<Longrightarrow> f x = Inr ()) \<Longrightarrow> mapR f xs = Inr (replicate (length xs) ())"
  by (induction xs) auto

lemma clean_json_check: "clean_json v \<Longrightarrow> json_check v = Inr ()"
  by (induction v rule: clean_json.induct) (auto simp: list_all_iff mapR_unit)

lemma scalars_json_string: "scalars s \<Longrightarrow> scalars (json_string asc s)"
proof -
  have hex4: "scalars (hex4 n)" for n by (simp add: scalars_hex_digit)
  have "scalars (json_escape asc c)" if "is_scalar c" for c
    using that hex4 by (auto simp: json_escape_def is_scalar_def simp del: hex4.simps)
  then show "scalars s \<Longrightarrow> scalars (json_string asc s)"
    by (auto simp: json_string_def is_scalar_small list_all_iff)
qed

lemma clean_json_dumps:
  assumes "scalars isep" "scalars ksep"
  shows "clean_json v \<Longrightarrow> scalars (json_dumps asc isep ksep fl v)"
proof (induction v rule: clean_json.induct)
  case (2 xs)
  then have "scalars t" if "t \<in> set (map (json_dumps asc isep ksep fl) xs)" for t
    using that by (auto simp: list_all_iff [of clean_json])
  then have "scalars (join isep (map (json_dumps asc isep ksep fl) xs))" by (rule scalars_join [OF assms(1)])
  then show ?case by simp
next
  case (3 kvs)
  let ?ts = "map (\<lambda>(k, t). json_string asc k @ ksep @ t)
      (sort_key fst (map (\<lambda>(k, v). (k, json_dumps asc isep ksep fl v)) kvs))"
  have "scalars t" if "t \<in> set ?ts" for t
    using that 3 assms(2) by (fastforce simp: list_all_iff [of "\<lambda>kv. _ kv \<and> _ kv"] scalars_json_string)
  then have "scalars (join isep ?ts)" by (rule scalars_join [OF assms(1)])
  then show ?case by simp
qed (simp_all add: scalars_json_string)

lemma clean_fset [simp]: "clean_json (JDict d) \<Longrightarrow> clean_json v \<Longrightarrow> clean_json (JDict (fset k v d))"
  using od_set_sub [of "lit k" v d] by (auto simp: fset_def list_all_iff [of "\<lambda>kv. _ kv \<and> _ kv"])

definition text_clean :: "pystr option \<Rightarrow> bool" where
  "text_clean t \<longleftrightarrow> (case t of None \<Rightarrow> True | Some s \<Rightarrow> scalars s)"

lemma clean_json_of_opt [simp]: "clean_json (json_of_opt t) = text_clean t"
  by (cases t) (simp_all add: text_clean_def)

lemma clean_json_of_int_opt [simp]: "clean_json (json_of_int_opt t)"
  by (cases t) simp_all

definition clean_observation :: "observation \<Rightarrow> bool" where
  "clean_observation ob \<longleftrightarrow>
     ob_kind ob \<noteq> [] \<and> ob_source ob \<noteq> [] \<and> scalars (ob_kind ob) \<and> scalars (ob_source ob) \<and>
     clean_json (JDict (ob_fields ob)) \<and>
     (case ob_observed_at ob of None \<Rightarrow> True | Some d \<Rightarrow> utc_stamp d) \<and>
     (case ob_expires_at ob of None \<Rightarrow> True | Some d \<Rightarrow> utc_stamp d)"

lemma utc_stamp_iff: "utc_stamp d \<longleftrightarrow> (\<exists>t. d = utc_dt t \<and> dt_in_range t)"
  by (cases d) (auto simp: utc_stamp_def)

lemma normalize_clean:
  assumes "clean_observation ob" "utc_stamp t"
  shows "\<exists>ob'. normalize_observation (Obs ob) t = Inr ob' \<and> ob_kind ob' = ob_kind ob \<and>
    ob_source ob' = ob_source ob \<and> ob_fields ob' = ob_fields ob \<and> clean_observation ob'"
proof -
  let ?at = "case ob_observed_at ob of None \<Rightarrow> t | Some d \<Rightarrow> d"
  obtain u where u: "?at = utc_dt u" "dt_in_range u"
    using assms by (auto simp: clean_observation_def utc_stamp_iff split: option.splits)
  have ex: "(case ob_expires_at ob of None \<Rightarrow> Inr None
      | Some d \<Rightarrow> bindR (utc_instant naive_event d) (\<lambda>x. Inr (Some (utc_dt x)))) = Inr (ob_expires_at ob)"
    using assms by (auto simp: clean_observation_def utc_stamp_iff split: option.splits)
  have check: "json_check (JDict (ob_fields ob)) = Inr ()"
    using assms by (intro clean_json_check) (simp add: clean_observation_def)
  let ?ob = "ob\<lparr>ob_observed_at := Some (utc_dt u), ob_expires_at := ob_expires_at ob\<rparr>"
  have "normalize_observation (Obs ob) t = Inr ?ob"
    using assms u ex check
    by (simp add: clean_observation_def del: json_check.simps)
  moreover have "clean_observation ?ob"
    using assms u by (simp add: clean_observation_def utc_stamp_def)
  ultimately show ?thesis by (intro exI [of _ ?ob]) simp
qed

lemma fingerprint_clean: "clean_observation ob \<Longrightarrow> \<exists>fp. fingerprint sha fl ob = Inr fp"
proof -
  assume "clean_observation ob"
  then have "scalars (canonical_json fl ob)"
    unfolding canonical_json_def
    by (intro clean_json_dumps) (simp_all add: clean_observation_def)
  then show ?thesis by (simp add: fingerprint_def utf8_encode_def)
qed

text \<open>An admitted frame whose interface name is clean text.\<close>

definition clean_frame :: "passive_frame \<Rightarrow> bool" where
  "clean_frame f \<longleftrightarrow> utc_stamp (fr_observed_at f) \<and> text_clean (fr_interface f)"

text \<open>A run of a parser over a list of frames.\<close>

fun run_parser :: "'p parser \<Rightarrow> 'p \<Rightarrow> passive_frame list \<Rightarrow> 'p \<times> item list result list" where
  "run_parser p s [] = (s, [])"
| "run_parser p s (f # fs) =
     (case p s f of (s', out) \<Rightarrow> (case run_parser p s' fs of (s'', outs) \<Rightarrow> (s'', out # outs)))"

lemma run_parser_nth:
  "i < length fs \<Longrightarrow> snd (run_parser p s fs) ! i = snd (p (fst (run_parser p s (take i fs))) (fs ! i))"
  by (induction fs arbitrary: s i) (auto simp: nth_Cons split: prod.splits nat.splits, metis fst_conv snd_conv)

section \<open>The contract\<close>

locale passive_parser =
  fixes parse :: "'p parser" and inv :: "'p \<Rightarrow> bool"
  assumes keeps_inv: "inv p \<Longrightarrow> clean_frame f \<Longrightarrow> inv (fst (parse p f))"
    and emits_clean: "inv p \<Longrightarrow> clean_frame f \<Longrightarrow> snd (parse p f) = Inr its \<Longrightarrow>
      it \<in> set its \<Longrightarrow> \<exists>ob. it = Obs ob \<and> clean_observation ob"
begin

text \<open>What the pipeline's run over one parser needs: no failure comes from its output.\<close>

lemma output_accepted:
  assumes "inv p" "clean_frame f" "snd (parse p f) = Inr its" "it \<in> set its"
  shows "\<exists>ob fp. normalize_observation it (fr_observed_at f) = Inr ob \<and> fingerprint sha fl ob = Inr fp"
proof -
  obtain ob where ob: "it = Obs ob" "clean_observation ob" using emits_clean [OF assms] by blast
  moreover have "utc_stamp (fr_observed_at f)" using assms(2) by (simp add: clean_frame_def)
  ultimately obtain ob' where "normalize_observation it (fr_observed_at f) = Inr ob'" "clean_observation ob'"
    using normalize_clean by blast
  then show ?thesis using fingerprint_clean by blast
qed

end

text \<open>A parser without state.\<close>

definition stateless :: "(passive_frame \<Rightarrow> observation list result) \<Rightarrow> 'p parser" where
  "stateless parse p frame = (p, case parse frame of Inl e \<Rightarrow> Inl e | Inr obs \<Rightarrow> Inr (map Obs obs))"

lemma stateless_contract:
  assumes "\<And>frame obs ob. clean_frame frame \<Longrightarrow> parse frame = Inr obs \<Longrightarrow> ob \<in> set obs \<Longrightarrow> clean_observation ob"
  shows "passive_parser (stateless parse) (\<lambda>_. True)"
  by unfold_locales (use assms in \<open>fastforce simp: stateless_def split: sum.splits\<close>)+

end
