(* ===== verification/Dhcp.thy ===== *)
theory Dhcp
  imports Parser_Contract
begin

text \<open>
  \<open>dhcp.py\<close>: passive parsing of DHCPv4 frames. The option area is a sequence of code, length and
  value; the fixed header and the options give one observation per frame. The stateful wrapper
  remembers which client an address was last acknowledged to and reports when that changes.
  The text of an option goes through the redactor the caller passes (\<open>redact\<close>).
\<close>

section \<open>The option area\<close>

definition BOOTP_HEADER_BYTES :: nat where "BOOTP_HEADER_BYTES = 236"
definition DHCP_FIXED_BYTES :: nat where "DHCP_FIXED_BYTES = 240"
definition MAX_DHCP_FRAME_BYTES :: nat where "MAX_DHCP_FRAME_BYTES = 4096"
definition DHCP_MAGIC_COOKIE :: bytes where "DHCP_MAGIC_COOKIE = [0x63, 0x82, 0x53, 0x63]"

type_synonym options = "(8 word, bytes) odict"

abbreviation parse_error :: "string \<Rightarrow> exn" where
  "parse_error s \<equiv> PassiveParseError (lit s)"

definition option_error :: "string \<Rightarrow> 8 word \<Rightarrow> string \<Rightarrow> exn" where
  "option_error before code after = PassiveParseError (lit before @ str_int (uint code) @ lit after)"

function options_loop :: "bytes \<Rightarrow> nat \<Rightarrow> options \<Rightarrow> options result" where
  "options_loop payload offset result =
     (if offset < length payload then
        (let code = payload ! offset in
         if code = 0 then options_loop payload (offset + 1) result
         else if code = 255 then Inr result
         else if length payload \<le> offset + 1 then Inl (parse_error ''DHCP option length is truncated'')
         else (let len = unat (payload ! (offset + 1)); stop = offset + 2 + len in
           if length payload < stop then Inl (parse_error ''DHCP option value is truncated'')
           else if map_of result code \<noteq> None then Inl (option_error ''duplicate DHCP option '' code '''')
           else options_loop payload stop (od_set code (take len (drop (offset + 2) payload)) result)))
      else Inl (parse_error ''DHCP options have no end marker''))"
  by pat_completeness auto
termination
  by (relation "measure (\<lambda>(payload, offset, result). length payload - offset)") auto

declare options_loop.simps [simp del]

definition dhcp_options :: "bytes \<Rightarrow> options result" where
  "dhcp_options payload = options_loop payload DHCP_FIXED_BYTES []"

definition fixed_option :: "options \<Rightarrow> 8 word \<Rightarrow> nat \<Rightarrow> string \<Rightarrow> bytes option result" where
  "fixed_option options code len len_text =
     (case map_of options code of
        None \<Rightarrow> Inr None
      | Some value \<Rightarrow>
          if length value = len then Inr (Some value)
          else Inl (option_error ''DHCP option '' code ('' must be '' @ len_text @ '' bytes'')))"

text \<open>\<open>struct.unpack("!I", value)\<close> is the big-endian integer of the four bytes.\<close>

definition seconds_option :: "options \<Rightarrow> 8 word \<Rightarrow> int option result" where
  "seconds_option options code =
     bindR (fixed_option options code 4 ''4'') (\<lambda>v. Inr (map_option be_int v))"

fun address_chunks :: "bytes \<Rightarrow> json list" where
  "address_chunks (a # b # c # d # rest) = JStr (ipv4_of_bytes [a, b, c, d]) # address_chunks rest"
| "address_chunks _ = []"

definition address_list_option :: "options \<Rightarrow> 8 word \<Rightarrow> json list result" where
  "address_list_option options code =
     (case map_of options code of
        None \<Rightarrow> Inr []
      | Some value \<Rightarrow>
          if value = [] \<or> length value mod 4 \<noteq> 0
          then Inl (option_error ''DHCP option '' code '' must contain IPv4 addresses'')
          else Inr (address_chunks value))"

definition text_option :: "(pystr \<Rightarrow> pystr) \<Rightarrow> options \<Rightarrow> 8 word \<Rightarrow> pystr option result" where
  "text_option redact options code =
     (case map_of options code of
        None \<Rightarrow> Inr None
      | Some value \<Rightarrow>
          if value = [] then Inl (option_error ''DHCP option '' code '' must not be empty'')
          else (let decoded = strip_with (\<lambda>c. c = 0) (strip (utf8_decode_replace value))
            in if decoded = [] then Inl (option_error ''DHCP option '' code '' has no usable text'')
               else Inr (Some (redact decoded))))"

section \<open>Messages\<close>

datatype message_type = Discover | Offer | Request | Decline | Ack | Nak | Release | Inform

definition message_types :: "int \<Rightarrow> message_type option" where
  "message_types n = map_of [(1, Discover), (2, Offer), (3, Request), (4, Decline), (5, Ack), (6, Nak),
     (7, Release), (8, Inform)] n"

fun message_name :: "message_type \<Rightarrow> pystr" where
  "message_name Discover = lit ''discover''"
| "message_name Offer = lit ''offer''"
| "message_name Request = lit ''request''"
| "message_name Decline = lit ''decline''"
| "message_name Ack = lit ''ack''"
| "message_name Nak = lit ''nak''"
| "message_name Release = lit ''release''"
| "message_name Inform = lit ''inform''"

definition client_messages :: "message_type list" where
  "client_messages = [Discover, Request, Decline, Release, Inform]"

definition server_messages :: "message_type list" where
  "server_messages = [Offer, Ack, Nak]"

definition nonzero_ipv4 :: "bytes \<Rightarrow> pystr option" where
  "nonzero_ipv4 raw = (let value = ipv4_of_bytes raw in if value = lit ''0.0.0.0'' then None else Some value)"

text \<open>\<open>x or y\<close> for optional text; addresses are never the empty string.\<close>

definition or_else :: "'a option \<Rightarrow> 'a option \<Rightarrow> 'a option" where
  "or_else x y = (case x of Some v \<Rightarrow> Some v | None \<Rightarrow> y)"

definition dhcp_header_check :: "unidata \<Rightarrow> passive_frame \<Rightarrow> unit result" where
  "dhcp_header_check U frame =
     (let payload = fr_payload frame in
      if casefold U (fr_protocol frame) \<noteq> lit ''dhcp''
      then Inl (parse_error ''DHCP parser received a different protocol'')
      else if length payload < DHCP_FIXED_BYTES
      then Inl (parse_error ''DHCP frame is shorter than the fixed header'')
      else if MAX_DHCP_FRAME_BYTES < length payload
      then Inl (parse_error ''DHCP frame exceeds the parser size limit'')
      else if slice BOOTP_HEADER_BYTES DHCP_FIXED_BYTES payload \<noteq> DHCP_MAGIC_COOKIE
      then Inl (parse_error ''DHCP magic cookie is missing'')
      else if payload ! 0 \<notin> {1, 2} \<or> \<not> (1 \<le> unat (payload ! 2) \<and> unat (payload ! 2) \<le> 16)
      then Inl (parse_error ''BOOTP operation or hardware length is invalid'')
      else Inr ())"

definition dhcp_message_type :: "bytes \<Rightarrow> options \<Rightarrow> message_type result" where
  "dhcp_message_type payload options =
     bindR (fixed_option options 53 1 ''1'') (\<lambda>v.
       case (case v of None \<Rightarrow> None | Some raw \<Rightarrow> message_types (uint (hd raw))) of
         None \<Rightarrow> Inl (parse_error ''DHCP message type is missing or unsupported'')
       | Some mt \<Rightarrow>
           if mt \<in> set client_messages \<and> payload ! 0 \<noteq> 1 \<or> mt \<in> set server_messages \<and> payload ! 0 \<noteq> 2
           then Inl (parse_error ''DHCP message type conflicts with BOOTP operation'')
           else Inr mt)"

text \<open>The values \<open>parse_dhcp\<close> reads from header and options, in the order it reads them: the field
  dictionary and the lease time.\<close>

definition dhcp_fields ::
    "(pystr \<Rightarrow> pystr) \<Rightarrow> passive_frame \<Rightarrow> options \<Rightarrow> message_type \<Rightarrow> (fields \<times> int option) result" where
  "dhcp_fields redact frame options mt =
     (let payload = fr_payload frame;
          client_address = nonzero_ipv4 (slice 12 16 payload);
          offered_address = nonzero_ipv4 (slice 16 20 payload);
          next_server = nonzero_ipv4 (slice 20 24 payload);
          relay_address = nonzero_ipv4 (slice 24 28 payload);
          hardware_length = unat (payload ! 2);
          client_mac = (if payload ! 1 = 1 \<and> hardware_length = 6
            then Some (mac_text (slice 28 (28 + hardware_length) payload)) else None);
          client_identifier = (case map_of options 61 of None \<Rightarrow> None
            | Some v \<Rightarrow> if v = [] then None else Some (hex_bytes v)) in
      bindR (fixed_option options 54 4 ''4'') (\<lambda>server_value.
      bindR (fixed_option options 50 4 ''4'') (\<lambda>requested_value.
      bindR (seconds_option options 51) (\<lambda>lease_seconds.
      bindR (seconds_option options 58) (\<lambda>renewal_seconds.
      bindR (seconds_option options 59) (\<lambda>rebinding_seconds.
      let server_identifier = (case server_value of Some v \<Rightarrow> Some (ipv4_of_bytes v) | None \<Rightarrow> next_server);
          assigned_address = (if mt \<in> {Offer, Ack} then or_else offered_address client_address
            else client_address);
          requested_address = map_option ipv4_of_bytes requested_value in
      bindR (text_option redact options 12) (\<lambda>hostname.
      bindR (text_option redact options 60) (\<lambda>vendor_class.
      bindR (address_list_option options 3) (\<lambda>routers.
      bindR (address_list_option options 6) (\<lambda>dns_servers.
      bindR (text_option redact options 15) (\<lambda>domain_name.
      Inr ([
        (lit ''message_type'', JStr (message_name mt)),
        (lit ''transaction_id'', JStr (hex_bytes (slice 4 8 payload))),
        (lit ''client_mac'', json_of_opt client_mac),
        (lit ''client_identifier'', json_of_opt client_identifier),
        (lit ''client_address'', json_of_opt client_address),
        (lit ''requested_address'', json_of_opt requested_address),
        (lit ''assigned_address'', json_of_opt assigned_address),
        (lit ''server_identifier'', json_of_opt server_identifier),
        (lit ''relay_address'', json_of_opt relay_address),
        (lit ''lease_seconds'', json_of_int_opt lease_seconds),
        (lit ''renewal_seconds'', json_of_int_opt renewal_seconds),
        (lit ''rebinding_seconds'', json_of_int_opt rebinding_seconds),
        (lit ''hostname'', json_of_opt hostname),
        (lit ''vendor_class'', json_of_opt vendor_class),
        (lit ''routers'', JList routers),
        (lit ''dns_servers'', JList dns_servers),
        (lit ''domain_name'', json_of_opt domain_name),
        (lit ''is_renewal'', JBool (mt \<in> {Request, Ack} \<and> client_address \<noteq> None)),
        (lit ''interface'', json_of_opt (fr_interface frame))], lease_seconds))))))))))))"

definition parse_dhcp :: "unidata \<Rightarrow> (pystr \<Rightarrow> pystr) \<Rightarrow> passive_frame \<Rightarrow> observation list result" where
  "parse_dhcp U redact frame =
     bindR (dhcp_header_check U frame) (\<lambda>_.
     bindR (dhcp_options (fr_payload frame)) (\<lambda>options.
     bindR (dhcp_message_type (fr_payload frame) options) (\<lambda>mt.
     bindR (dhcp_fields redact frame options mt) (\<lambda>(flds, lease_seconds).
     bindR (case lease_seconds of
         Some n \<Rightarrow> if mt \<in> {Offer, Ack}
           then bindR (dt_add (fr_observed_at frame) (seconds n)) (\<lambda>d. Inr (Some d)) else Inr None
       | None \<Rightarrow> Inr None) (\<lambda>expires_at.
     Inr [\<lparr>ob_kind = lit ''dhcp_message'', ob_fields = flds, ob_source = lit ''passive.dhcp'',
       ob_observed_at = Some (fr_observed_at frame), ob_expires_at = expires_at\<rparr>])))))"

section \<open>Address reuse\<close>

text \<open>\<open>DhcpParser\<close>: the state is the table of leases, address to client.\<close>

type_synonym leases = "(pystr, pystr) odict"

definition new_dhcp_parser :: "int \<Rightarrow> leases result" where
  "new_dhcp_parser max_tracked_leases =
     (if max_tracked_leases < 1 then Inl (ValueError (lit ''DHCP lease tracking capacity must be positive''))
      else Inr [])"

text \<open>The address and the client of an acknowledged lease, when the message has both.\<close>

definition lease_of :: "fields \<Rightarrow> (pystr \<times> pystr) option" where
  "lease_of flds =
     (if fget flds ''message_type'' \<noteq> Some (jstr ''ack'') then None
      else (case fget flds ''assigned_address'' of
        Some (JStr assigned) \<Rightarrow>
          (case (fget flds ''client_mac'', fget flds ''client_identifier'') of
             (Some (JStr mac), ident) \<Rightarrow>
               if mac \<noteq> [] then Some (assigned, mac)
               else (case ident of Some (JStr i) \<Rightarrow> if i \<noteq> [] then Some (assigned, i) else None | _ \<Rightarrow> None)
           | (_, Some (JStr i)) \<Rightarrow> if i \<noteq> [] then Some (assigned, i) else None
           | _ \<Rightarrow> None)
      | _ \<Rightarrow> None))"

definition address_reuse :: "observation \<Rightarrow> pystr \<Rightarrow> pystr \<Rightarrow> pystr \<Rightarrow> observation" where
  "address_reuse message assigned previous client =
     \<lparr>ob_kind = lit ''dhcp_address_reuse'',
      ob_fields = [(lit ''address'', JStr assigned), (lit ''previous_client'', JStr previous),
        (lit ''current_client'', JStr client),
        (lit ''interface'', case fget (ob_fields message) ''interface'' of None \<Rightarrow> JNull | Some v \<Rightarrow> v)],
      ob_source = lit ''passive.dhcp'', ob_observed_at = ob_observed_at message, ob_expires_at = None\<rparr>"

definition track_lease :: "nat \<Rightarrow> leases \<Rightarrow> observation \<Rightarrow> leases \<times> observation list" where
  "track_lease cap leases message =
     (case lease_of (ob_fields message) of
        None \<Rightarrow> (leases, [message])
      | Some (assigned, client) \<Rightarrow>
          (od_store cap assigned client leases,
           message # (case map_of leases assigned of
             Some previous \<Rightarrow> if previous \<noteq> client then [address_reuse message assigned previous client] else []
           | None \<Rightarrow> [])))"

definition dhcp_parser :: "unidata \<Rightarrow> (pystr \<Rightarrow> pystr) \<Rightarrow> nat \<Rightarrow> leases parser" where
  "dhcp_parser U redact cap leases frame =
     (case parse_dhcp U redact frame of
        Inl e \<Rightarrow> (leases, Inl e)
      | Inr parsed \<Rightarrow> (case track_lease cap leases (hd parsed) of (leases', obs) \<Rightarrow> (leases', Inr (map Obs obs))))"

section \<open>The option area as a grammar\<close>

text \<open>
  What RFC 2132 lets an option area be: pads, options of code, length and value, and an end
  marker after which anything may follow.
\<close>

inductive option_area :: "bytes \<Rightarrow> options \<Rightarrow> bool" where
  area_end: "option_area (255 # rest) []"
| area_pad: "option_area bs os \<Longrightarrow> option_area (0 # bs) os"
| area_option: "code \<noteq> 0 \<Longrightarrow> code \<noteq> 255 \<Longrightarrow> length v < 256 \<Longrightarrow> option_area bs os \<Longrightarrow>
    option_area (code # of_nat (length v) # v @ bs) ((code, v) # os)"

inductive_simps area_Nil: "option_area [] os"
inductive_simps area_Cons: "option_area (b # bs) os"

lemma area_step:
  assumes "code \<noteq> 0" "code \<noteq> 255"
  shows "option_area (code # l # bs) os \<longleftrightarrow>
    unat l \<le> length bs \<and> (\<exists>os'. os = (code, take (unat l) bs) # os' \<and> option_area (drop (unat l) bs) os')"
    (is "_ \<longleftrightarrow> ?R")
proof
  assume "option_area (code # l # bs) os"
  with assms obtain v bs' os' where v: "l = of_nat (length v)" "bs = v @ bs'" "os = (code, v) # os'"
    "length v < 256" "option_area bs' os'"
    by (auto simp: area_Cons)
  then have "unat l = length v" by (simp add: unat_of_nat)
  with v show ?R by simp
next
  assume r: ?R
  then obtain os' where "os = (code, take (unat l) bs) # os'" "option_area (drop (unat l) bs) os'" by blast
  moreover have len: "length (take (unat l) bs) = unat l" using r by simp
  moreover have "of_nat (length (take (unat l) bs)) = l" "length (take (unat l) bs) < 256"
    unfolding len using unat_byte [of l] by simp_all
  ultimately show "option_area (code # l # bs) os"
    using assms area_option [of code "take (unat l) bs" "drop (unat l) bs" os'] by simp
qed

lemma area_single: "code \<noteq> 0 \<Longrightarrow> code \<noteq> 255 \<Longrightarrow> \<not> option_area [code] os"
  by (simp add: area_Cons)

lemma drop_two: "Suc i < length p \<Longrightarrow> drop i p = p ! i # p ! Suc i # drop (Suc (Suc i)) p"
  by (simp add: Cons_nth_drop_Suc)

lemma od_ok_append_new: "od_ok (d @ (k, v) # d') \<Longrightarrow> map_of d k = None"
  by (auto simp: od_ok_def map_of_eq_None_iff)

lemma options_loop_iff:
  "od_ok res \<Longrightarrow> options_loop p off res = Inr out \<longleftrightarrow>
     (\<exists>os. option_area (drop off p) os \<and> out = res @ os \<and> od_ok out)"
proof (induction p off res rule: options_loop.induct)
  case (1 p off res)
  show ?case
  proof (cases "off < length p")
    case False
    then show ?thesis by (simp add: options_loop.simps [of p off] area_Nil)
  next
    case off: True
    let ?c = "p ! off"
    have d1: "drop off p = ?c # drop (Suc off) p" using off by (simp add: Cons_nth_drop_Suc)
    consider "?c = 0" | "?c = 255" | "?c \<noteq> 0" "?c \<noteq> 255" "length p \<le> Suc off"
      | "?c \<noteq> 0" "?c \<noteq> 255" "Suc off < length p" by linarith
    then show ?thesis
    proof cases
      case 1
      with "1.IH"(1) [OF off refl] "1.prems" off d1 show ?thesis
        by (simp add: options_loop.simps [of p off] area_Cons)
    next
      case 2
      with off d1 "1.prems" show ?thesis
        by (auto simp: options_loop.simps [of p off] area_Cons)
    next
      case 3
      with off d1 show ?thesis
        by (simp add: options_loop.simps [of p off] area_single)
    next
      case 4
      let ?l = "p ! Suc off"
      let ?len = "unat ?l" and ?rest = "drop (Suc (Suc off)) p"
      have d2: "drop off p = ?c # ?l # ?rest" using 4 by (simp add: drop_two)
      have area: "option_area (drop off p) os \<longleftrightarrow> ?len \<le> length ?rest \<and>
          (\<exists>os'. os = (?c, take ?len ?rest) # os' \<and> option_area (drop (off + 2 + ?len) p) os')" for os
        unfolding d2 area_step [OF 4(1,2)] by (simp add: add.commute)
      show ?thesis
      proof (cases "off + 2 + ?len \<le> length p \<and> map_of res ?c = None")
        case False
        then have "options_loop p off res \<noteq> Inr out"
          using 4 off by (auto simp: options_loop.simps [of p off] Let_def)
        moreover have "\<not> (\<exists>os. option_area (drop off p) os \<and> out = res @ os \<and> od_ok out)"
          using False 4 unfolding area by (auto dest: od_ok_append_new)
        ultimately show ?thesis by blast
      next
        case True
        let ?res = "res @ [(?c, take ?len ?rest)]"
        have step: "options_loop p off res = options_loop p (off + 2 + ?len) ?res"
          using 4 off True by (simp add: options_loop.simps [of p off] Let_def od_set_new)
        have ok: "od_ok ?res" using True "1.prems" by (auto simp: od_ok_def map_of_eq_None_iff)
        have "options_loop p (off + 2 + ?len) ?res = Inr out \<longleftrightarrow>
            (\<exists>os. option_area (drop (off + 2 + ?len) p) os \<and> out = ?res @ os \<and> od_ok out)"
          using "1.IH"(2) [OF off refl 4(1,2), of ?len "off + 2 + ?len"] True 4 ok od_set_new [of res ?c]
          by simp
        then show ?thesis unfolding step area using True 4 by auto
      qed
    qed
  qed
qed

section \<open>What a parsed message says\<close>

lemma options_option_area:
  "dhcp_options p = Inr os \<longleftrightarrow> option_area (drop 240 p) os \<and> od_ok os"
  by (auto simp: dhcp_options_def DHCP_FIXED_BYTES_def options_loop_iff)

lemma fixed_option_Inr:
  "fixed_option os code n t = Inr v \<longleftrightarrow> map_of os code = v \<and> (\<forall>x. v = Some x \<longrightarrow> length x = n)"
  by (auto simp: fixed_option_def split: option.splits if_splits)

lemma seconds_option_Inr:
  "seconds_option os code = Inr n \<longleftrightarrow>
     (\<exists>v. map_of os code = v \<and> (\<forall>x. v = Some x \<longrightarrow> length x = 4) \<and> n = map_option be_int v)"
  by (auto simp: seconds_option_def result_simps fixed_option_Inr)

lemma dhcp_message_type_Inr:
  "dhcp_message_type payload os = Inr mt \<longleftrightarrow>
     (\<exists>b. map_of os 53 = Some [b] \<and> message_types (uint b) = Some mt) \<and>
     (mt \<in> set client_messages \<longrightarrow> payload ! 0 = 1) \<and> (mt \<in> set server_messages \<longrightarrow> payload ! 0 = 2)"
  by (auto simp: dhcp_message_type_def result_simps fixed_option_Inr length_Suc_conv split: option.splits if_splits)

lemma text_clean_simps [simp]: "text_clean None" "text_clean (Some s) = scalars s" "text_clean (map_option ipv4_of_bytes v)"
  by (simp_all add: text_clean_def split: option.split)

lemma text_clean_nonzero [simp]: "text_clean (nonzero_ipv4 raw)"
  by (simp add: nonzero_ipv4_def Let_def)

lemma scalars_message_name [simp]: "scalars (message_name mt)"
  by (cases mt) simp_all

lemma address_chunks_clean: "list_all clean_json (address_chunks v)"
  by (induction v rule: address_chunks.induct) auto

lemma address_list_clean: "address_list_option os code = Inr js \<Longrightarrow> list_all clean_json js"
  by (auto simp: address_list_option_def address_chunks_clean split: option.splits if_splits)

lemma text_option_clean:
  assumes "\<And>s. scalars s \<Longrightarrow> scalars (redact s)" "text_option redact os code = Inr t"
  shows "text_clean t"
  using assms(2)
  by (auto simp: text_option_def text_clean_def Let_def intro!: assms(1) scalars_strip split: option.splits if_splits)

lemma or_else_clean: "text_clean x \<Longrightarrow> text_clean y \<Longrightarrow> text_clean (or_else x y)"
  by (cases x) (simp_all add: or_else_def)

lemma dhcp_fields_Inr:
  assumes "dhcp_fields redact frame os mt = Inr (flds, lease)"
  shows "seconds_option os 51 = Inr lease \<and> fget flds ''message_type'' = Some (JStr (message_name mt))"
  using assms by (auto simp: dhcp_fields_def Let_def result_simps)

lemma dhcp_fields_clean:
  assumes redact: "\<And>s. scalars s \<Longrightarrow> scalars (redact s)" and "text_clean (fr_interface frame)"
    and "dhcp_fields redact frame os mt = Inr (flds, lease)"
  shows "clean_json (JDict flds)"
  using assms(2,3)
  unfolding dhcp_fields_def Let_def bindR_eq_Inr
  apply (elim exE conjE)
  apply (simp only: sum.inject prod.inject, elim conjE, hypsubst)
  apply (simp add: or_else_clean text_option_clean [OF redact] address_list_clean split: option.split)
  done

text \<open>The inversion the later proofs use.\<close>

lemma parse_dhcp_Inr:
  assumes "parse_dhcp U redact frame = Inr obs"
  obtains os mt lease ob where
    "obs = [ob]" "dhcp_header_check U frame = Inr ()" "dhcp_options (fr_payload frame) = Inr os"
    "dhcp_message_type (fr_payload frame) os = Inr mt"
    "dhcp_fields redact frame os mt = Inr (ob_fields ob, lease)"
    "ob_kind ob = lit ''dhcp_message''" "ob_source ob = lit ''passive.dhcp''"
    "ob_observed_at ob = Some (fr_observed_at frame)"
    "(case lease of Some n \<Rightarrow> if mt \<in> {Offer, Ack}
            then bindR (dt_add (fr_observed_at frame) (seconds n)) (\<lambda>d. Inr (Some d)) else Inr None
        | None \<Rightarrow> Inr None) = Inr (ob_expires_at ob)"
proof -
  from assms obtain v os mt fl ex where h: "dhcp_header_check U frame = Inr v"
    "dhcp_options (fr_payload frame) = Inr os" "dhcp_message_type (fr_payload frame) os = Inr mt"
    "dhcp_fields redact frame os mt = Inr fl"
    "(case snd fl of Some n \<Rightarrow> if mt \<in> {Offer, Ack}
            then bindR (dt_add (fr_observed_at frame) (seconds n)) (\<lambda>d. Inr (Some d)) else Inr None
        | None \<Rightarrow> Inr None) = Inr ex"
    and obs: "[\<lparr>ob_kind = lit ''dhcp_message'', ob_fields = fst fl, ob_source = lit ''passive.dhcp'',
       ob_observed_at = Some (fr_observed_at frame), ob_expires_at = ex\<rparr>] = obs"
    unfolding parse_dhcp_def bindR_eq_Inr prod.case_eq_if sum.inject by blast
  show thesis by (rule that [OF obs [symmetric] _ h(2,3), of "snd fl"]) (use h in simp_all)
qed

lemma lease_expiry:
  assumes "(case lease of Some n \<Rightarrow> if mt \<in> {Offer, Ack}
            then bindR (dt_add t0 (seconds n)) (\<lambda>d. Inr (Some d)) else Inr None
        | None \<Rightarrow> Inr None) = Inr ex"
  shows "(ex = None \<longleftrightarrow> lease = None \<or> mt \<notin> {Offer, Ack}) \<and>
    (\<forall>d. ex = Some d \<longrightarrow> (\<exists>n. lease = Some n \<and> dt_add t0 (seconds n) = Inr d))"
  using assms by (auto simp: result_simps split: option.splits if_splits)

lemma utc_stamp_dt_add: "utc_stamp t0 \<Longrightarrow> dt_add t0 n = Inr d \<Longrightarrow> utc_stamp d"
  by (auto simp: utc_stamp_iff split: if_splits)

section \<open>The stateful parser\<close>

lemma parse_dhcp_clean:
  assumes "\<And>s. scalars s \<Longrightarrow> scalars (redact s)" "clean_frame frame" "parse_dhcp U redact frame = Inr obs"
    "ob \<in> set obs"
  shows "clean_observation ob"
proof -
  from assms(3) obtain os mt lease ob' where ob: "obs = [ob']"
    "dhcp_fields redact frame os mt = Inr (ob_fields ob', lease)" "ob_kind ob' = lit ''dhcp_message''"
    "ob_source ob' = lit ''passive.dhcp''" "ob_observed_at ob' = Some (fr_observed_at frame)"
    and ex: "(case lease of Some n \<Rightarrow> if mt \<in> {Offer, Ack}
            then bindR (dt_add (fr_observed_at frame) (seconds n)) (\<lambda>d. Inr (Some d)) else Inr None
        | None \<Rightarrow> Inr None) = Inr (ob_expires_at ob')"
    by (rule parse_dhcp_Inr)
  have "clean_json (JDict (ob_fields ob'))"
    using dhcp_fields_clean [OF assms(1) _ ob(2)] assms(2) by (simp add: clean_frame_def)
  moreover have "utc_stamp d" if "ob_expires_at ob' = Some d" for d
    using lease_expiry [OF ex] that assms(2) utc_stamp_dt_add by (auto simp: clean_frame_def)
  ultimately show ?thesis
    using ob assms(2,4) by (auto simp: clean_observation_def clean_frame_def split: option.split)
qed

definition leases_ok :: "nat \<Rightarrow> leases \<Rightarrow> bool" where
  "leases_ok cap l \<longleftrightarrow> lru.bounded cap l \<and> (\<forall>e \<in> set l. scalars (fst e) \<and> scalars (snd e))"

lemma lease_of_clean: "clean_json (JDict flds) \<Longrightarrow> lease_of flds = Some (a, cl) \<Longrightarrow> scalars a \<and> scalars cl"
proof -
  assume c: "clean_json (JDict flds)" and l: "lease_of flds = Some (a, cl)"
  have get: "scalars s" if "fget flds k = Some (JStr s)" for k s
    using that c by (auto simp: fget_def list_all_iff dest!: map_of_SomeD)
  show ?thesis using l get by (auto simp: lease_of_def split: option.splits if_splits json.splits)
qed

lemma leases_ok_store:
  assumes "leases_ok cap l" "scalars a" "scalars cl"
  shows "leases_ok cap (od_store cap a cl l)"
  using assms lru.bounded_store [of cap l a cl] od_store_sub [of cap a cl l]
  by (auto simp: leases_ok_def)

lemma track_lease_clean:
  assumes "leases_ok cap l" "clean_observation ob" "track_lease cap l ob = (l', obs)"
  shows "leases_ok cap l' \<and> list_all clean_observation obs"
proof (cases "lease_of (ob_fields ob)")
  case (Some e)
  obtain a cl where e: "e = (a, cl)" by fastforce
  have sc: "scalars a" "scalars cl"
    using lease_of_clean [of "ob_fields ob" a cl] Some e assms(2)
    by (simp_all add: clean_observation_def del: clean_json.simps)
  have prev: "scalars p" if "map_of l a = Some p" for p
    using that assms(1) by (auto simp: leases_ok_def dest!: map_of_SomeD)
  have iface: "clean_json v" if "fget (ob_fields ob) ''interface'' = Some v" for v
    using that assms(2) by (auto simp: fget_def clean_observation_def list_all_iff dest!: map_of_SomeD)
  have "clean_observation (address_reuse ob a p cl)" if "map_of l a = Some p" for p
    using that sc prev iface assms(2)
    by (simp add: clean_observation_def address_reuse_def split: option.split)
  then show ?thesis
    using assms Some e sc leases_ok_store by (auto simp: track_lease_def split: option.splits)
qed (use assms in \<open>auto simp: track_lease_def\<close>)

text \<open>The pipeline's contract, for a redactor that does not introduce surrogates.\<close>

definition redacts_text :: "(pystr \<Rightarrow> pystr) \<Rightarrow> bool" where
  "redacts_text redact \<longleftrightarrow> (\<forall>s. scalars s \<longrightarrow> scalars (redact s))"

lemma dhcp_parser_step:
  assumes "redacts_text redact" "leases_ok cap l" "clean_frame f"
  shows "leases_ok cap (fst (dhcp_parser U redact cap l f)) \<and>
    (\<forall>its. snd (dhcp_parser U redact cap l f) = Inr its \<longrightarrow> (\<forall>it \<in> set its. \<exists>ob. it = Obs ob \<and> clean_observation ob))"
proof (cases "parse_dhcp U redact f")
  case (Inr obs)
  have "hd obs \<in> set obs" using parse_dhcp_Inr [OF Inr] by fastforce
  with Inr assms have "clean_observation (hd obs)"
    by (intro parse_dhcp_clean [of redact f U obs]) (auto simp: redacts_text_def)
  moreover obtain l' os where t: "track_lease cap l (hd obs) = (l', os)" by fastforce
  ultimately show ?thesis
    using track_lease_clean [OF assms(2) _ t] Inr t by (auto simp: dhcp_parser_def list_all_iff)
qed (use assms in \<open>simp add: dhcp_parser_def\<close>)

interpretation dhcp: passive_parser "dhcp_parser U redact cap" "\<lambda>l. redacts_text redact \<and> leases_ok cap l"
  by unfold_locales (auto simp: dhcp_parser_step dest: dhcp_parser_step)

text \<open>Which lease, if any, a frame acknowledges.\<close>

definition acked :: "unidata \<Rightarrow> (pystr \<Rightarrow> pystr) \<Rightarrow> passive_frame \<Rightarrow> (pystr \<times> pystr) option" where
  "acked U redact f = (case parse_dhcp U redact f of Inl e \<Rightarrow> None | Inr obs \<Rightarrow> lease_of (ob_fields (hd obs)))"

abbreviation stored :: "nat \<Rightarrow> (pystr \<times> pystr) list \<Rightarrow> leases" where
  "stored cap kvs \<equiv> fold (\<lambda>(k, v). od_store cap k v) kvs []"

lemma dhcp_parser_leases:
  "fst (dhcp_parser U redact cap l f) =
     (case acked U redact f of None \<Rightarrow> l | Some (a, cl) \<Rightarrow> od_store cap a cl l)"
  by (auto simp: dhcp_parser_def acked_def track_lease_def split: sum.splits option.splits)

lemma run_parser_leases:
  "fst (run_parser (dhcp_parser U redact cap) l fs) =
     fold (\<lambda>(k, v). od_store cap k v) (List.map_filter (acked U redact) fs) l"
proof (induction fs arbitrary: l)
  case (Cons f fs)
  have "fst (run_parser (dhcp_parser U redact cap) l (f # fs)) =
      fst (run_parser (dhcp_parser U redact cap) (fst (dhcp_parser U redact cap l f)) fs)"
    by (simp split: prod.split)
  with Cons show ?case by (auto simp: dhcp_parser_leases List.map_filter_simps split: option.splits)
qed (simp add: List.map_filter_simps)

lemma reuse_reported:
  assumes "snd (dhcp_parser U redact cap l f) = Inr its" "Obs ob \<in> set its"
    "ob_kind ob = lit ''dhcp_address_reuse''"
  shows "\<exists>a prev cl. acked U redact f = Some (a, cl) \<and> map_of l a = Some prev \<and> prev \<noteq> cl \<and>
    take 3 (ob_fields ob) = [(lit ''address'', JStr a), (lit ''previous_client'', JStr prev), (lit ''current_client'', JStr cl)]"
proof -
  from assms(1) obtain obs where p: "parse_dhcp U redact f = Inr obs"
    and its: "its = map Obs (snd (track_lease cap l (hd obs)))"
    by (auto simp: dhcp_parser_def split: sum.splits prod.splits)
  have "ob_kind (hd obs) = lit ''dhcp_message''" using p by (rule parse_dhcp_Inr) simp
  then have "ob \<noteq> hd obs" using assms(3) by auto
  with assms(2,3) its p show ?thesis
    by (auto simp: track_lease_def acked_def address_reuse_def split: option.splits if_splits)
qed

section \<open>A concrete message\<close>

text \<open>An acknowledgement of 10.0.0.5 for sixty seconds.\<close>

definition demo_ack :: "bytes \<Rightarrow> passive_frame" where
  "demo_ack mac = \<lparr>fr_protocol = lit ''dhcp'',
     fr_payload = [2, 1, 6, 0, 0, 0, 0, 1] @ replicate 8 0 @ [10, 0, 0, 5] @ replicate 8 0 @ mac @ replicate 202 0
       @ DHCP_MAGIC_COOKIE @ [53, 1, 5, 51, 4, 0, 0, 0, 60, 255],
     fr_observed_at = utc_dt 0, fr_interface = None\<rparr>"

lemma demo_ack_options:
  "length mac = 6 \<Longrightarrow> dhcp_options (fr_payload (demo_ack mac)) = Inr [(53, [5]), (51, [0, 0, 0, 60])]"
  unfolding options_option_area
  by (simp add: demo_ack_def DHCP_MAGIC_COOKIE_def area_step area_end od_ok_def)

lemma demo_ack_header: "length mac = 6 \<Longrightarrow> dhcp_header_check U (demo_ack mac) = Inr ()"
  by (simp add: dhcp_header_check_def demo_ack_def DHCP_MAGIC_COOKIE_def DHCP_FIXED_BYTES_def slice_def
      BOOTP_HEADER_BYTES_def MAX_DHCP_FRAME_BYTES_def casefold_def lit_def ascii_lower_def)

lemma demo_ack_parse:
  assumes "length mac = 6"
  shows "\<exists>ob. parse_dhcp U redact (demo_ack mac) = Inr [ob] \<and> lease_of (ob_fields ob) = Some (lit ''10.0.0.5'', mac_text mac) \<and>
    ob_expires_at ob = Some (utc_dt (seconds 60))"
proof -
  have ip: "ipv4_of_bytes [10, 0, 0, 5] = lit ''10.0.0.5''"
    by (simp add: ipv4_of_bytes_def ipv4_text_def octets_def be_int_def dec_digits_small dec_digits_step lit_def)
  have zero: "ipv4_of_bytes [0, 0, 0, 0] = lit ''0.0.0.0''"
    by (simp add: ipv4_of_bytes_def ipv4_text_def octets_def be_int_def dec_digits_small lit_def)
  have mt: "dhcp_message_type (fr_payload (demo_ack mac)) [(53, [5]), (51, [0, 0, 0, 60])] = Inr Ack"
    by (simp add: dhcp_message_type_def fixed_option_def message_types_def demo_ack_def client_messages_def server_messages_def)
  have "mac_text mac \<noteq> []" using assms by (cases mac; cases "tl mac") (auto simp: mac_text_def hex2_def)
  then show ?thesis
    using assms
    by (simp add: parse_dhcp_def demo_ack_header demo_ack_options mt dhcp_fields_def Let_def fixed_option_def
        seconds_option_def text_option_def address_list_option_def)
      (simp add: demo_ack_def slice_def nonzero_ipv4_def ip zero or_else_def be_int_def lease_of_def seconds_def
        dt_in_range_def dt_min_def dt_max_def Let_def)
qed

section \<open>Properties\<close>

text \<open>C4. The option loop accepts exactly the option areas of the wire format: the bytes after the fixed
  header are pads and code/length/value triples up to an end marker, no code occurs twice, and the
  result lists the options in the order of the wire. Every other input is a parse error.\<close>

theorem dhcp_options_grammar:
  "dhcp_options p = Inr os \<longleftrightarrow> option_area (drop 240 p) os \<and> distinct (map fst os)"
  by (simp add: options_option_area od_ok_def)

text \<open>What a parsed message says is on the wire: \<open>parse_dhcp\<close> succeeds only on frames within the size
  limits whose message type is option 53 and agrees with the BOOTP operation; it yields one
  observation, named after that type, and the observation expires exactly for offers and
  acknowledgements with a lease time, that many seconds after the frame was seen.\<close>

theorem dhcp_message_sound:
  assumes "parse_dhcp U redact frame = Inr obs"
  shows "\<exists>ob os b mt. obs = [ob] \<and> dhcp_options (fr_payload frame) = Inr os \<and>
    240 \<le> length (fr_payload frame) \<and> length (fr_payload frame) \<le> 4096 \<and>
    map_of os 53 = Some [b] \<and> message_types (uint b) = Some mt \<and>
    fget (ob_fields ob) ''message_type'' = Some (JStr (message_name mt)) \<and>
    (fr_payload frame ! 0 = 1 \<longleftrightarrow> mt \<in> {Discover, Request, Decline, Release, Inform}) \<and>
    (ob_expires_at ob = None \<longleftrightarrow> map_of os 51 = None \<or> mt \<notin> {Offer, Ack}) \<and>
    (\<forall>d. ob_expires_at ob = Some d \<longrightarrow>
      (\<exists>v. map_of os 51 = Some v \<and> length v = 4 \<and> dt_add (fr_observed_at frame) (seconds (be_int v)) = Inr d))"
proof -
  from assms obtain os mt lease ob where h: "obs = [ob]" "dhcp_header_check U frame = Inr ()"
    "dhcp_options (fr_payload frame) = Inr os" "dhcp_message_type (fr_payload frame) os = Inr mt"
    "dhcp_fields redact frame os mt = Inr (ob_fields ob, lease)"
    and ex: "(case lease of Some n \<Rightarrow> if mt \<in> {Offer, Ack}
            then bindR (dt_add (fr_observed_at frame) (seconds n)) (\<lambda>d. Inr (Some d)) else Inr None
        | None \<Rightarrow> Inr None) = Inr (ob_expires_at ob)"
    by (rule parse_dhcp_Inr)
  have size: "240 \<le> length (fr_payload frame)" "length (fr_payload frame) \<le> 4096"
    using h(2) by (auto simp: dhcp_header_check_def Let_def DHCP_FIXED_BYTES_def MAX_DHCP_FRAME_BYTES_def split: if_splits)
  obtain b where b: "map_of os 53 = Some [b]" "message_types (uint b) = Some mt"
    and op: "mt \<in> set client_messages \<longrightarrow> fr_payload frame ! 0 = 1" "mt \<in> set server_messages \<longrightarrow> fr_payload frame ! 0 = 2"
    using h(4) unfolding dhcp_message_type_Inr by blast
  have role: "fr_payload frame ! 0 = 1 \<longleftrightarrow> mt \<in> {Discover, Request, Decline, Release, Inform}"
    using op by (cases mt) (simp_all add: client_messages_def server_messages_def)
  have lease: "map_of os 51 = v \<Longrightarrow> lease = map_option be_int v \<and> (\<forall>x. v = Some x \<longrightarrow> length x = 4)" for v
    using dhcp_fields_Inr [OF h(5)] by (simp add: seconds_option_Inr)
  show ?thesis
    using h(1,3) size b role dhcp_fields_Inr [OF h(5)] lease_expiry [OF ex] lease [OF refl]
    by (intro exI [of _ ob] exI [of _ os] exI [of _ b] exI [of _ mt]) auto
qed

theorem dhcp_message_sound_witness:
  "\<exists>ob. parse_dhcp (\<lambda>c. [c]) id (demo_ack [1, 2, 3, 4, 5, 6]) = Inr [ob] \<and>
    fget (ob_fields ob) ''message_type'' = Some (jstr ''ack'')"
proof -
  obtain ob where ob: "parse_dhcp (\<lambda>c. [c]) id (demo_ack [1, 2, 3, 4, 5, 6]) = Inr [ob]"
    using demo_ack_parse [of "[1, 2, 3, 4, 5, 6]" "\<lambda>c. [c]" id] by auto
  with dhcp_message_sound [OF ob] demo_ack_options [of "[1, 2, 3, 4, 5, 6]"] show ?thesis
    by (auto simp: message_types_def)
qed

text \<open>An address-reuse report is never invented, whatever was evicted: if the parser reports it on the
  frame \<open>i\<close> of a run, that frame acknowledges the address to the client it names and an earlier frame
  acknowledged the same address to the previous, different client. The lease table stays within its
  capacity.\<close>

theorem dhcp_reuse_sound:
  assumes "1 \<le> cap" "i < length fs" "snd (run_parser (dhcp_parser U redact cap) [] fs) ! i = Inr its"
    and "Obs ob \<in> set its" "ob_kind ob = lit ''dhcp_address_reuse''"
  shows "length (fst (run_parser (dhcp_parser U redact cap) [] fs)) \<le> cap \<and>
    (\<exists>j a prev cl. j < i \<and> acked U redact (fs ! j) = Some (a, prev) \<and> acked U redact (fs ! i) = Some (a, cl) \<and>
      prev \<noteq> cl \<and> take 3 (ob_fields ob) = [(lit ''address'', JStr a), (lit ''previous_client'', JStr prev),
        (lit ''current_client'', JStr cl)])"
proof
  show "length (fst (run_parser (dhcp_parser U redact cap) [] fs)) \<le> cap"
    using lru.bounded_stores [of cap "[]" "List.map_filter (acked U redact) fs"]
    by (simp add: run_parser_leases lru.bounded_def)
  let ?l = "fst (run_parser (dhcp_parser U redact cap) [] (take i fs))"
  have "snd (dhcp_parser U redact cap ?l (fs ! i)) = Inr its"
    using assms(2,3) by (simp add: run_parser_nth)
  from reuse_reported [OF this assms(4,5)] obtain a prev cl where
    r: "acked U redact (fs ! i) = Some (a, cl)" "map_of ?l a = Some prev" "prev \<noteq> cl"
      "take 3 (ob_fields ob) = [(lit ''address'', JStr a), (lit ''previous_client'', JStr prev), (lit ''current_client'', JStr cl)]"
    by blast
  have "(a, prev) \<in> set (List.map_filter (acked U redact) (take i fs))"
    using lru.get_stores [OF assms(1), of "[]"] r(2) by (auto simp: run_parser_leases)
  then obtain f where "f \<in> set (take i fs)" "acked U redact f = Some (a, prev)"
    by (auto simp: List.map_filter_def)
  then obtain j where "j < i" "acked U redact (fs ! j) = Some (a, prev)"
    by (auto simp: in_set_conv_nth)
  with r show "\<exists>j a prev cl. j < i \<and> acked U redact (fs ! j) = Some (a, prev) \<and> acked U redact (fs ! i) = Some (a, cl) \<and>
      prev \<noteq> cl \<and> take 3 (ob_fields ob) = [(lit ''address'', JStr a), (lit ''previous_client'', JStr prev),
        (lit ''current_client'', JStr cl)]"
    by blast
qed

text \<open>While the acknowledged addresses fit the table, reuse detection is exact: a report accompanies the
  frame \<open>i\<close> if and only if it acknowledges an address whose latest earlier acknowledgement went to
  another client.\<close>

theorem dhcp_reuse_exact:
  assumes "i < length fs" "card (fst ` set (List.map_filter (acked U redact) (take i fs))) \<le> cap"
    and "snd (run_parser (dhcp_parser U redact cap) [] fs) ! i = Inr its"
  shows "(\<exists>ob. Obs ob \<in> set its \<and> ob_kind ob = lit ''dhcp_address_reuse'') \<longleftrightarrow>
    (\<exists>a prev cl. acked U redact (fs ! i) = Some (a, cl) \<and> prev \<noteq> cl \<and>
      map_of (rev (List.map_filter (acked U redact) (take i fs))) a = Some prev)"
proof -
  let ?l = "fst (run_parser (dhcp_parser U redact cap) [] (take i fs))"
  have its: "snd (dhcp_parser U redact cap ?l (fs ! i)) = Inr its"
    using assms(1,3) by (simp add: run_parser_nth)
  have l: "map_of ?l = map_of (rev (List.map_filter (acked U redact) (take i fs)))"
    using od_stores_exact [OF assms(2)] by (simp add: run_parser_leases)
  have "\<exists>ob. Obs ob \<in> set its \<and> ob_kind ob = lit ''dhcp_address_reuse''"
    if "acked U redact (fs ! i) = Some (a, cl)" "map_of ?l a = Some prev" "prev \<noteq> cl" for a prev cl
    using its that by (auto simp: dhcp_parser_def acked_def track_lease_def address_reuse_def split: sum.splits)
  then show ?thesis unfolding l [symmetric] using reuse_reported [OF its] by blast
qed

lemma demo_ack_acked: "length mac = 6 \<Longrightarrow> acked U redact (demo_ack mac) = Some (lit ''10.0.0.5'', mac_text mac)"
  using demo_ack_parse [of mac U redact] by (auto simp: acked_def)

abbreviation demo_acks :: "passive_frame list" where
  "demo_acks \<equiv> [demo_ack [1, 2, 3, 4, 5, 6], demo_ack [1, 2, 3, 4, 5, 7]]"

lemma demo_acks_run:
  "\<exists>its. snd (run_parser (dhcp_parser U redact 1) [] demo_acks) ! 1 = Inr its"
proof -
  obtain ob where "parse_dhcp U redact (demo_ack [1, 2, 3, 4, 5, 7]) = Inr [ob]"
    using demo_ack_parse [of "[1, 2, 3, 4, 5, 7]" U redact] by auto
  then show ?thesis by (simp add: run_parser_nth dhcp_parser_def split: prod.split del: run_parser.simps)
qed

theorem dhcp_reuse_exact_witness:
  "\<exists>its ob. snd (run_parser (dhcp_parser (\<lambda>c. [c]) id 1) [] demo_acks) ! 1 = Inr its \<and> Obs ob \<in> set its \<and>
    ob_kind ob = lit ''dhcp_address_reuse''"
proof -
  obtain its where its: "snd (run_parser (dhcp_parser (\<lambda>c. [c]) id 1) [] demo_acks) ! 1 = Inr its"
    using demo_acks_run by blast
  have "mac_text [1, 2, 3, 4, 5, 6] \<noteq> mac_text [1, 2, 3, 4, 5, 7]"
    by (simp add: mac_text_def hex2_def hex_digit_def)
  then have "\<exists>ob. Obs ob \<in> set its \<and> ob_kind ob = lit ''dhcp_address_reuse''"
    using dhcp_reuse_exact [OF _ _ its] by (simp add: demo_ack_acked List.map_filter_simps)
  with its show ?thesis by blast
qed

theorem dhcp_reuse_sound_witness:
  "\<exists>j < 1. acked (\<lambda>c. [c]) id (demo_acks ! j) = Some (lit ''10.0.0.5'', mac_text [1, 2, 3, 4, 5, 6])"
proof -
  let ?l = "[(lit ''10.0.0.5'', mac_text [1, 2, 3, 4, 5, 6])]"
  have ne: "mac_text [1, 2, 3, 4, 5, 6] \<noteq> mac_text [1, 2, 3, 4, 5, 7]"
    by (simp add: mac_text_def hex2_def hex_digit_def)
  obtain its where its: "snd (run_parser (dhcp_parser (\<lambda>c. [c]) id 1) [] demo_acks) ! 1 = Inr its"
    using demo_acks_run by blast
  have "fst (run_parser (dhcp_parser (\<lambda>c. [c]) id 1) [] (take 1 demo_acks)) = ?l"
    by (simp add: run_parser_leases demo_ack_acked List.map_filter_simps od_store_def od_set_def od_move_to_end_def
        od_evict_def del: run_parser.simps)
  then have "snd (dhcp_parser (\<lambda>c. [c]) id 1 ?l (demo_ack [1, 2, 3, 4, 5, 7])) = Inr its"
    using its by (simp add: run_parser_nth del: run_parser.simps)
  then have "\<exists>ob. Obs ob \<in> set its \<and> ob_kind ob = lit ''dhcp_address_reuse''"
    using demo_ack_acked [of "[1, 2, 3, 4, 5, 7]" "\<lambda>c. [c]" id] ne
    by (auto simp: dhcp_parser_def acked_def track_lease_def address_reuse_def split: sum.splits)
  then obtain ob where "Obs ob \<in> set its" "ob_kind ob = lit ''dhcp_address_reuse''" by blast
  from dhcp_reuse_sound [OF _ _ its this] show ?thesis by (auto simp: demo_ack_acked)
qed

end
