(* ===== verification/Link_Layer.thy ===== *)
theory Link_Layer
  imports Parser_Contract
begin

text \<open>
  \<open>link_layer.py\<close>: the LLDP and CDP parsers. Both split the payload into type-length-value units
  with a generator that may raise (a \<open>stream\<close>) and fold the units into the field dictionary of one
  neighbour observation. The loop state of a generator is \<open>payload[offset:]\<close>.
\<close>

unbundle bit_operations_syntax

definition MAX_LLDP_BYTES :: nat where "MAX_LLDP_BYTES = 4096"
definition MAX_CDP_BYTES :: nat where "MAX_CDP_BYTES = 8192"
definition MAX_TLVS :: nat where "MAX_TLVS = 128"
definition IEEE_8021_OUI :: bytes where "IEEE_8021_OUI = [0x00, 0x80, 0xc2]"

definition LLDP_CAPABILITIES :: "(int \<times> string) list" where
  "LLDP_CAPABILITIES =
     [(0x0001, ''other''), (0x0002, ''repeater''), (0x0004, ''bridge''), (0x0008, ''wlan_access_point''),
      (0x0010, ''router''), (0x0020, ''telephone''), (0x0040, ''docsis''), (0x0080, ''station''),
      (0x0100, ''customer_vlan''), (0x0200, ''service_vlan''), (0x0400, ''two_port_mac_relay'')]"

definition CDP_CAPABILITIES :: "(int \<times> string) list" where
  "CDP_CAPABILITIES =
     [(0x0001, ''router''), (0x0002, ''transparent_bridge''), (0x0004, ''source_route_bridge''),
      (0x0008, ''switch''), (0x0010, ''host''), (0x0020, ''igmp''), (0x0040, ''repeater''),
      (0x0080, ''telephone''), (0x0100, ''remotely_managed''), (0x0200, ''two_port_mac_relay'')]"

abbreviation parse_error :: "pystr \<Rightarrow> 'a result" where
  "parse_error s \<equiv> Inl (PassiveParseError s)"

section \<open>Value decoders\<close>

definition label_text :: "bytes \<Rightarrow> nat \<Rightarrow> pystr \<Rightarrow> pystr result" where
  "label_text value maximum label =
     (if value = [] \<or> maximum < length value \<or> 0 \<in> set value then parse_error (lit ''invalid '' @ label)
      else (case utf8_decode value of
        None \<Rightarrow> parse_error (lit ''invalid UTF-8 in '' @ label)
      | Some s \<Rightarrow> Inr s))"

definition network_address :: "bytes \<Rightarrow> pystr \<Rightarrow> pystr result" where
  "network_address value label =
     (if length value < 2 then parse_error (lit ''invalid '' @ label @ lit '' network address'')
      else (let family = hd value; packed = tl value;
                expected = (if family = 1 then 4 else if family = 2 then 16 else 0)
        in if expected = 0 \<or> length packed \<noteq> expected
           then parse_error (lit ''unsupported '' @ label @ lit '' address family'')
           else (case ip_address_of_bytes packed of
               Inl (ValueError e) \<Rightarrow> parse_error (lit ''invalid '' @ label @ lit '' address'')
             | r \<Rightarrow> r)))"

datatype identity = Chassis | Port

fun identity_text :: "identity \<Rightarrow> pystr" where
  "identity_text Chassis = lit ''chassis''"
| "identity_text Port = lit ''port''"

fun subtype_names :: "identity \<Rightarrow> (int \<times> string) list" where
  "subtype_names Chassis = [(1, ''chassis_component''), (2, ''interface_alias''), (3, ''port_component''),
     (4, ''mac_address''), (5, ''network_address''), (6, ''interface_name''), (7, ''locally_assigned'')]"
| "subtype_names Port = [(1, ''interface_alias''), (2, ''port_component''), (3, ''mac_address''),
     (4, ''network_address''), (5, ''interface_name''), (6, ''agent_circuit_id''), (7, ''locally_assigned'')]"

definition link_identifier :: "bytes \<Rightarrow> identity \<Rightarrow> (pystr \<times> pystr) result" where
  "link_identifier value identity =
     (if length value < 2 then parse_error (lit ''invalid LLDP '' @ identity_text identity @ lit '' ID'')
      else (let subtype = uint (hd value); body = tl value;
                mac_subtype = (if identity = Chassis then 4 else 3);
                network_subtype = (if identity = Chassis then 5 else 4)
        in bindR
          (if subtype = mac_subtype then
             (if length body \<noteq> 6 then parse_error (lit ''invalid LLDP '' @ identity_text identity @ lit '' MAC'')
              else Inr (mac_text body))
           else if subtype = network_subtype then network_address body (lit ''LLDP '' @ identity_text identity)
           else label_text body 255 (lit ''LLDP '' @ identity_text identity @ lit '' ID'')) (\<lambda>ident.
          Inr (case map_of (subtype_names identity) subtype of
                 Some name \<Rightarrow> lit name | None \<Rightarrow> lit ''unknown_'' @ str_int subtype, ident))))"

definition capability_names :: "int \<Rightarrow> (int \<times> string) list \<Rightarrow> json" where
  "capability_names value defs = JList (map (\<lambda>(b, name). jstr name) (filter (\<lambda>(b, name). value AND b \<noteq> 0) defs))"

definition lldp_capabilities :: "bytes \<Rightarrow> (json \<times> json) result" where
  "lldp_capabilities value =
     (if length value \<noteq> 4 then parse_error (lit ''invalid LLDP capabilities'')
      else Inr (capability_names (be_int (take 2 value)) LLDP_CAPABILITIES,
                capability_names (be_int (drop 2 value)) LLDP_CAPABILITIES))"

definition lldp_management_address :: "bytes \<Rightarrow> pystr result" where
  "lldp_management_address value =
     (if length value < 7 then parse_error (lit ''invalid LLDP management address'')
      else (let address_length = unat (hd value)
        in if address_length < 2 \<or> length value < 1 + address_length + 5
           then parse_error (lit ''truncated LLDP management address'')
           else network_address (slice 1 (1 + address_length) value) (lit ''LLDP management'')))"

definition lldp_organizational :: "bytes \<Rightarrow> int option result" where
  "lldp_organizational value =
     (if length value < 4 then parse_error (lit ''truncated LLDP organizational TLV'')
      else if take 3 value = IEEE_8021_OUI \<and> value ! 3 = 1 then
        (if length value \<noteq> 6 then parse_error (lit ''invalid LLDP port VLAN TLV'')
         else Inr (Some (be_int (drop 4 value))))
      else Inr None)"

section \<open>Units\<close>

type_synonym tlv = "int \<times> bytes"

abbreviation raising :: "string \<Rightarrow> tlv stream" where
  "raising s \<equiv> ([], Some (PassiveParseError (lit s)))"

function lldp_loop :: "bytes \<Rightarrow> nat \<Rightarrow> tlv stream" where
  "lldp_loop rest n_seen =
     (if rest = [] then ([], None)
      else if length rest < 2 then raising ''truncated LLDP TLV header''
      else (let header = be_int (take 2 rest); rest = drop 2 rest;
                tlv_type = header div 512; len = nat (header mod 512)
        in if length rest < len then raising ''truncated LLDP TLV value''
           else if MAX_TLVS < n_seen + 1 then raising ''too many LLDP TLVs''
           else (let value = take len rest; rest = drop len rest
             in if tlv_type = 0 then
                  (if len \<noteq> 0 then raising ''invalid LLDP end TLV''
                   else if \<not> list_all (\<lambda>b. b = 0) rest
                   then raising ''non-padding bytes follow LLDP end TLV''
                   else ([(tlv_type, value)], None))
                else yield (tlv_type, value) (lldp_loop rest (n_seen + 1)))))"
  by pat_completeness auto
termination
  by (relation "measure (\<lambda>(rest, n_seen). length rest)") auto

declare lldp_loop.simps [simp del]

definition lldp_tlvs :: "bytes \<Rightarrow> tlv stream" where
  "lldp_tlvs payload =
     (if \<not> (2 \<le> length payload \<and> length payload \<le> MAX_LLDP_BYTES) then raising ''LLDP frame length is invalid''
      else lldp_loop payload 0)"

function cdp_loop :: "bytes \<Rightarrow> nat \<Rightarrow> tlv stream" where
  "cdp_loop rest n_seen =
     (if rest = [] then ([], None)
      else if length rest < 4 then raising ''truncated CDP TLV header''
      else (let tlv_type = be_int (take 2 rest); len = nat (be_int (slice 2 4 rest))
        in if len < 4 \<or> length rest < len then raising ''invalid or truncated CDP TLV''
           else if MAX_TLVS < n_seen + 1 then raising ''too many CDP TLVs''
           else yield (tlv_type, slice 4 len rest) (cdp_loop (drop len rest) (n_seen + 1))))"
  by pat_completeness auto
termination
  by (relation "measure (\<lambda>(rest, n_seen). length rest)") auto

declare cdp_loop.simps [simp del]

definition cdp_tlvs :: "bytes \<Rightarrow> tlv stream" where
  "cdp_tlvs payload = cdp_loop payload 0"

text \<open>
  \<open>_cdp_addresses\<close>: one iteration reads an entry from \<open>value[offset:]\<close> and gives the address text, if
  the entry has one, and the bytes after it.
\<close>

definition cdp_address :: "bytes \<Rightarrow> (pystr option \<times> bytes) result" where
  "cdp_address rest =
     (if length rest < 2 then parse_error (lit ''truncated CDP address protocol'')
      else (let protocol_length = unat (rest ! 1); rest1 = drop 2 rest
        in if length rest1 < protocol_length then parse_error (lit ''truncated CDP address protocol value'')
           else (let protocol = take protocol_length rest1; rest2 = drop protocol_length rest1
             in if length rest2 < 2 then parse_error (lit ''truncated CDP address length'')
                else (let address_length = nat (be_int (take 2 rest2)); rest3 = drop 2 rest2
                  in if length rest3 < address_length then parse_error (lit ''truncated CDP address value'')
                     else (let address = take address_length rest3; rest4 = drop address_length rest3
                       in if protocol = [0xcc] \<or> address_length \<in> {4, 16}
                          then bindR (ip_address_of_bytes address) (\<lambda>t. Inr (Some t, rest4))
                          else Inr (None, rest4))))))"

fun cdp_address_loop :: "nat \<Rightarrow> bytes \<Rightarrow> pystr list \<Rightarrow> pystr list result" where
  "cdp_address_loop 0 rest result =
     (if rest \<noteq> [] then parse_error (lit ''trailing bytes in CDP addresses'') else Inr result)"
| "cdp_address_loop (Suc n) rest result =
     bindR (cdp_address rest) (\<lambda>r. cdp_address_loop n (snd r) (case fst r of None \<Rightarrow> result | Some t \<Rightarrow> result @ [t]))"

definition cdp_addresses :: "bytes \<Rightarrow> pystr list result" where
  "cdp_addresses value =
     (if length value < 4 then parse_error (lit ''truncated CDP addresses'')
      else (let n_seen = be_int (take 4 value)
        in if 64 < n_seen then parse_error (lit ''too many CDP addresses'')
           else cdp_address_loop (nat n_seen) (drop 4 value) []))"

section \<open>The parsers\<close>

abbreviation set_text :: "string \<Rightarrow> fields \<Rightarrow> pystr \<Rightarrow> fields result" where
  "set_text k flds s \<equiv> Inr (fset k (JStr s) flds)"

definition lldp_field :: "fields \<Rightarrow> tlv \<Rightarrow> fields result" where
  "lldp_field flds tlv =
     (case tlv of (tlv_type, value) \<Rightarrow>
      if tlv_type = 1 then bindR (link_identifier value Chassis) (\<lambda>(subtype, ident).
        Inr (fset ''chassis_id'' (JStr ident) (fset ''chassis_id_subtype'' (JStr subtype) flds)))
      else if tlv_type = 2 then bindR (link_identifier value Port) (\<lambda>(subtype, ident).
        Inr (fset ''port_id'' (JStr ident) (fset ''port_id_subtype'' (JStr subtype) flds)))
      else if tlv_type = 3 then
        (if length value \<noteq> 2 then parse_error (lit ''invalid LLDP TTL'')
         else Inr (fset ''ttl_seconds'' (JInt (be_int value)) flds))
      else if tlv_type = 4 then bindR (label_text value 512 (lit ''LLDP port description'')) (set_text ''port_description'' flds)
      else if tlv_type = 5 then bindR (label_text value 255 (lit ''LLDP system name'')) (set_text ''system_name'' flds)
      else if tlv_type = 6 then bindR (label_text value 1024 (lit ''LLDP system description'')) (set_text ''system_description'' flds)
      else if tlv_type = 7 then bindR (lldp_capabilities value) (\<lambda>(supported, enabled).
        Inr (fset ''capabilities_enabled'' enabled (fset ''capabilities_supported'' supported flds)))
      else if tlv_type = 8 then bindR (lldp_management_address value) (set_text ''management_address'' flds)
      else if tlv_type = 127 then bindR (lldp_organizational value) (\<lambda>vlan.
        Inr (case vlan of None \<Rightarrow> flds | Some v \<Rightarrow> fset ''vlan_id'' (JInt v) flds))
      else Inr flds)"

text \<open>One iteration of the loop in \<open>parse_lldp\<close> over (fields, required, ended).\<close>

definition lldp_unit :: "fields \<times> int set \<times> bool \<Rightarrow> tlv \<Rightarrow> (fields \<times> int set \<times> bool) result" where
  "lldp_unit s tlv =
     (case s of (flds, required, ended) \<Rightarrow>
      if fst tlv = 0 then Inr (flds, required, True)
      else if fst tlv \<in> {1, 2, 3} \<and> fst tlv \<in> required then parse_error (lit ''duplicate mandatory LLDP TLV'')
      else bindR (lldp_field flds tlv) (\<lambda>flds'.
        Inr (flds', if fst tlv \<in> {1, 2, 3} then insert (fst tlv) required else required, ended)))"

definition neighbor_observation :: "passive_frame \<Rightarrow> string \<Rightarrow> fields \<Rightarrow> int \<Rightarrow> observation list result" where
  "neighbor_observation frame src flds ttl =
     bindR (dt_add (fr_observed_at frame) (seconds ttl)) (\<lambda>expires.
       Inr [\<lparr>ob_kind = lit ''link_layer_neighbor'', ob_fields = flds, ob_source = lit src,
         ob_observed_at = Some (fr_observed_at frame), ob_expires_at = Some expires\<rparr>])"

definition parse_lldp :: "passive_frame \<Rightarrow> observation list result" where
  "parse_lldp frame =
     (if fr_protocol frame \<noteq> lit ''lldp'' then parse_error (lit ''LLDP parser received a different protocol'')
      else (let flds = [(lit ''protocol'', jstr ''lldp'')];
                flds = (case fr_interface frame of None \<Rightarrow> flds | Some i \<Rightarrow> fset ''local_interface'' (JStr i) flds)
        in bindR (consume lldp_unit (flds, {}, False) (lldp_tlvs (fr_payload frame))) (\<lambda>(flds, required, ended).
          if \<not> ended then parse_error (lit ''LLDP end TLV is missing'')
          else if required \<noteq> {1, 2, 3} then parse_error (lit ''LLDP mandatory TLVs are missing'')
          else (case fget flds ''ttl_seconds'' of
              None \<Rightarrow> Inl (KeyError (lit ''ttl_seconds''))
            | Some (JInt ttl) \<Rightarrow> neighbor_observation frame ''passive:lldp'' flds ttl
            | Some _ \<Rightarrow> Inl AssertionError))))"

definition set_addresses :: "fields \<Rightarrow> pystr list \<Rightarrow> fields result" where
  "set_addresses flds addresses =
     Inr (if addresses = [] then flds
       else fset ''management_addresses'' (JList (map JStr addresses))
         (fset ''management_address'' (JStr (hd addresses)) flds))"

definition cdp_field :: "fields \<Rightarrow> tlv \<Rightarrow> fields result" where
  "cdp_field flds tlv =
     (case tlv of (tlv_type, value) \<Rightarrow>
      if tlv_type = 0x0001 then bindR (label_text value 255 (lit ''CDP device ID'')) (\<lambda>ident.
        Inr (fset ''system_name'' (JStr ident) (fset ''chassis_id'' (JStr ident)
          (fset ''chassis_id_subtype'' (jstr ''device_name'') flds))))
      else if tlv_type = 0x0002 then bindR (cdp_addresses value) (set_addresses flds)
      else if tlv_type = 0x0003 then bindR (label_text value 255 (lit ''CDP port ID'')) (\<lambda>ident.
        Inr (fset ''port_id'' (JStr ident) (fset ''port_id_subtype'' (jstr ''interface_name'') flds)))
      else if tlv_type = 0x0004 then
        (if length value \<noteq> 4 then parse_error (lit ''invalid CDP capabilities'')
         else Inr (fset ''capabilities_enabled'' (capability_names (be_int value) CDP_CAPABILITIES) flds))
      else if tlv_type = 0x0005 then bindR (label_text value 1024 (lit ''CDP software version'')) (set_text ''system_description'' flds)
      else if tlv_type = 0x0006 then bindR (label_text value 255 (lit ''CDP platform'')) (set_text ''platform'' flds)
      else if tlv_type = 0x000A then
        (if length value \<noteq> 2 then parse_error (lit ''invalid CDP native VLAN'')
         else Inr (fset ''vlan_id'' (JInt (be_int value)) flds))
      else if tlv_type = 0x0016 then bindR (cdp_addresses value) (set_addresses flds)
      else Inr flds)"

definition parse_cdp :: "passive_frame \<Rightarrow> observation list result" where
  "parse_cdp frame =
     (let payload = fr_payload frame in
      if fr_protocol frame \<noteq> lit ''cdp'' then parse_error (lit ''CDP parser received a different protocol'')
      else if \<not> (4 \<le> length payload \<and> length payload \<le> MAX_CDP_BYTES) then parse_error (lit ''CDP frame length is invalid'')
      else if payload ! 0 \<notin> {1, 2} then parse_error (lit ''unsupported CDP version'')
      else (let ttl = uint (payload ! 1);
                flds = [(lit ''protocol'', jstr ''cdp''), (lit ''protocol_version'', JInt (uint (payload ! 0))),
                  (lit ''ttl_seconds'', JInt ttl)];
                flds = (case fr_interface frame of None \<Rightarrow> flds | Some i \<Rightarrow> fset ''local_interface'' (JStr i) flds)
        in bindR (consume cdp_field flds (cdp_tlvs (drop 4 payload))) (\<lambda>flds.
          if fget flds ''chassis_id'' = None \<or> fget flds ''port_id'' = None
          then parse_error (lit ''CDP device or port identity is missing'')
          else neighbor_observation frame ''passive:cdp'' flds ttl)))"

text \<open>\<open>link_layer_parsers()\<close>\<close>

definition link_layer_parsers :: "(pystr \<times> 'p parser list) list" where
  "link_layer_parsers = [(lit ''lldp'', [stateless parse_lldp]), (lit ''cdp'', [stateless parse_cdp])]"

section \<open>The generators against the wire format\<close>

definition lldp_encode :: "tlv \<Rightarrow> bytes" where
  "lldp_encode u = be16 (fst u * 512 + int (length (snd u))) @ snd u"

definition lldp_unit_ok :: "tlv \<Rightarrow> bool" where
  "lldp_unit_ok u \<longleftrightarrow> 1 \<le> fst u \<and> fst u \<le> 127 \<and> length (snd u) \<le> 511"

text \<open>An LLDPDU: units of type 1 to 127, then possibly the end unit and zero padding.\<close>

inductive lldp_wire :: "bytes \<Rightarrow> tlv list \<Rightarrow> bool" where
  wire_none: "lldp_wire [] []"
| wire_end: "lldp_wire (0 # 0 # replicate k 0) [(0, [])]"
| wire_unit: "lldp_unit_ok u \<Longrightarrow> lldp_wire bs us \<Longrightarrow> lldp_wire (lldp_encode u @ bs) (u # us)"

lemma lldp_loop_unit:
  assumes "lldp_unit_ok u"
  shows "lldp_loop (lldp_encode u @ bs) n =
    (if MAX_TLVS < n + 1 then raising ''too many LLDP TLVs'' else yield u (lldp_loop bs (n + 1)))"
proof -
  obtain t v where u: "u = (t, v)" by fastforce
  have t: "1 \<le> t" "t \<le> 127" "length v \<le> 511" using assms u by (simp_all add: lldp_unit_ok_def)
  let ?h = "t * 512 + int (length v)"
  have h: "be_int (be16 ?h) = ?h" using t by simp
  have "?h div 512 = t" "?h mod 512 = int (length v)" using t by simp_all
  then show ?thesis
    using t h by (subst lldp_loop.simps) (simp add: u lldp_encode_def Let_def)
qed

lemma lldp_loop_end: "n < MAX_TLVS \<Longrightarrow> lldp_loop (0 # 0 # replicate k 0) n = ([(0, [])], None)"
  by (subst lldp_loop.simps) (simp add: bytes_simps list_all_iff)

lemma lldp_loop_complete:
  "lldp_wire bs us \<Longrightarrow> n + length us \<le> MAX_TLVS \<Longrightarrow> lldp_loop bs n = (us, None)"
proof (induction arbitrary: n rule: lldp_wire.induct)
  case wire_none
  show ?case by (subst lldp_loop.simps) simp
next
  case (wire_end k)
  then show ?case by (simp add: lldp_loop_end)
next
  case (wire_unit u bs us)
  then show ?case using wire_unit.IH [of "n + 1"] by (simp add: lldp_loop_unit prod_eq_iff)
qed


lemma lldp_loop_sound:
  "lldp_loop bs n = (us, None) \<Longrightarrow> lldp_wire bs us \<and> (us = [] \<or> n + length us \<le> MAX_TLVS)"
proof (induction bs n arbitrary: us rule: lldp_loop.induct)
  case (1 bs n)
  show ?case
  proof (cases "bs = []")
    case True
    with 1 have "us = []" by (subst (asm) (2) lldp_loop.simps) simp
    with True show ?thesis by (simp add: wire_none)
  next
    case False
    note loop = "1.prems" [unfolded lldp_loop.simps [of bs n]]
    from False loop have "2 \<le> length bs" by (auto split: if_splits)
    then obtain a b body where bs: "bs = a # b # body" using two_bytes by blast
    define h where "h = be_int [a, b]"
    let ?len = "nat (h mod 512)"
    have h: "0 \<le> h" "h < 65536" using be_int_bounds [of "[a, b]"] by (simp_all add: h_def)
    have e: "be_int (take 2 bs) = h" "drop 2 bs = body" by (simp_all add: bs h_def)
    have len: "?len \<le> length body" and n: "n + 1 \<le> MAX_TLVS"
      using loop False by (auto simp: bs h_def [symmetric] Let_def split: if_splits)
    show ?thesis
    proof (cases "h div 512 = 0")
      case True
      with loop False len n have l0: "h mod 512 = 0" and z: "list_all (\<lambda>x. x = 0) body" and us: "us = [(0, [])]"
        by (auto simp: bs h_def [symmetric] Let_def split: if_splits)
      from True l0 have "h = 0" by presburger
      then have "[a, b] = be16 0" by (metis be16_be_int h_def)
      then have ab: "a = 0 \<and> b = 0" by (simp add: be16_def byte_of_def)
      have "body = replicate (length body) 0" using z by (simp add: list_all_iff replicate_eqI)
      then have "lldp_wire bs us" using wire_end [of "length body"] ab us bs by simp
      with us n show ?thesis by simp
    next
      case False2: False
      let ?u = "(h div 512, take ?len body)"
      obtain us' where us: "us = ?u # us'" and tl: "lldp_loop (drop ?len body) (n + 1) = (us', None)"
        using loop False False2 len n
        by (auto simp: bs h_def [symmetric] Let_def yield_def prod_eq_iff)
      have ok: "lldp_unit_ok ?u" using False2 h by (auto simp: lldp_unit_ok_def) 
      have enc: "lldp_encode ?u = a # b # take ?len body"
      proof -
        have "h div 512 * 512 + int (length (take ?len body)) = h" using len by simp
        then show ?thesis using be16_be_int [of a b] by (simp add: lldp_encode_def h_def)
      qed
      have "lldp_wire (drop ?len body) us' \<and> (us' = [] \<or> n + 1 + length us' \<le> MAX_TLVS)"
        by (rule "1.IH" [OF False _ refl refl refl refl _ _ refl refl, unfolded e])
          (use tl False2 len n bs in simp_all)
      then show ?thesis
        using wire_unit [OF ok, of "drop ?len body" us'] us enc bs n by auto
    qed
  qed
qed

text \<open>A CDP unit carries its own length, header included; there is no end unit.\<close>

definition cdp_encode :: "tlv \<Rightarrow> bytes" where
  "cdp_encode u = be16 (fst u) @ be16 (int (length (snd u)) + 4) @ snd u"

definition cdp_unit_ok :: "tlv \<Rightarrow> bool" where
  "cdp_unit_ok u \<longleftrightarrow> 0 \<le> fst u \<and> fst u < 65536 \<and> length (snd u) + 4 < 65536"

lemma cdp_loop_unit:
  assumes "cdp_unit_ok u"
  shows "cdp_loop (cdp_encode u @ bs) n =
    (if MAX_TLVS < n + 1 then raising ''too many CDP TLVs'' else yield u (cdp_loop bs (n + 1)))"
proof -
  obtain t v where u: "u = (t, v)" by fastforce
  have t: "0 \<le> t" "t < 65536" "length v + 4 < 65536" using assms u by (simp_all add: cdp_unit_ok_def)
  have "be_int (be16 (int (length v) + 4)) = int (length v) + 4" using t by simp
  then have len: "nat (be_int (slice 2 4 (be16 t @ be16 (int (length v) + 4) @ v @ bs))) = length v + 4"
    by (simp add: slice_def nat_add_distrib)
  have "slice 4 (length v + 4) (be16 t @ be16 (int (length v) + 4) @ v @ bs) = v"
    "drop (length v + 4) (be16 t @ be16 (int (length v) + 4) @ v @ bs) = bs"
    by (simp_all add: slice_def)
  then show ?thesis
    using t len by (subst cdp_loop.simps) (simp add: u cdp_encode_def Let_def)
qed

lemma cdp_loop_complete:
  "list_all cdp_unit_ok us \<Longrightarrow> n + length us \<le> MAX_TLVS \<Longrightarrow> cdp_loop (concat (map cdp_encode us)) n = (us, None)"
proof (induction us arbitrary: n)
  case Nil
  show ?case by (subst cdp_loop.simps) simp
next
  case (Cons u us)
  then show ?case using Cons.IH [of "n + 1"] by (simp add: cdp_loop_unit prod_eq_iff)
qed

lemma cdp_loop_sound:
  "cdp_loop bs n = (us, None) \<Longrightarrow> bs = concat (map cdp_encode us) \<and> list_all cdp_unit_ok us \<and>
     (us = [] \<or> n + length us \<le> MAX_TLVS)"
proof (induction bs n arbitrary: us rule: cdp_loop.induct)
  case (1 bs n)
  note loop = "1.prems" [unfolded cdp_loop.simps [of bs n]]
  show ?case
  proof (cases "bs = []")
    case False
    from False loop have l4: "4 \<le> length bs" by (auto split: if_splits)
    then obtain a b rest1 where "bs = a # b # rest1" "2 \<le> length rest1" using two_bytes [of bs] by force
    then obtain c d body where bs: "bs = a # b # c # d # body" using two_bytes by blast
    define len where "len = nat (be_int [c, d])"
    have be: "0 \<le> be_int [c, d]" "be_int [c, d] < 65536" using be_int_bounds [of "[c, d]"] by simp_all
    have e: "be_int (take 2 bs) = be_int [a, b]" "nat (be_int (slice 2 4 bs)) = len"
      by (simp_all add: bs slice_def len_def)
    have n: "n + 1 \<le> MAX_TLVS" and len: "4 \<le> len" "len \<le> length bs"
      using loop False by (auto simp: e Let_def split: if_splits)
    let ?u = "(be_int [a, b], slice 4 len bs)"
    obtain us' where us: "us = ?u # us'" and tl: "cdp_loop (drop len bs) (n + 1) = (us', None)"
      using loop False len n l4 by (auto simp: e Let_def yield_def prod_eq_iff split: if_splits)
    have l: "length (slice 4 len bs) + 4 = len" using len by (simp add: slice_def)
    then have il: "int (length (slice 4 len bs)) + 4 = be_int [c, d]" using be by (simp add: len_def)
    have ok: "cdp_unit_ok ?u"
      using be_int_bounds [of "[a, b]"] il be by (simp add: cdp_unit_ok_def)
    have "cdp_encode ?u = take len bs"
    proof -
      have "take len bs = take 4 bs @ slice 4 len bs"
        using len by (metis le_add_diff_inverse slice_def take_add)
      then show ?thesis using il by (simp add: cdp_encode_def bs)
    qed
    moreover have "drop len bs = concat (map cdp_encode us') \<and> list_all cdp_unit_ok us' \<and>
        (us' = [] \<or> n + 1 + length us' \<le> MAX_TLVS)"
      by (rule "1.IH" [OF False _ refl refl _ _, unfolded e]) (use tl len n bs in simp_all)
    ultimately show ?thesis using us ok n append_take_drop_id [of len bs] by auto
  qed (use loop in simp)
qed

text \<open>An IPv4 entry of an address list, and what the address loop reads of a list of them.\<close>

definition cdp_ipv4_entry :: "bytes \<Rightarrow> bytes" where
  "cdp_ipv4_entry raw = [1, 1, 0xcc, 0, 4] @ raw"

lemma cdp_address_entry:
  "length raw = 4 \<Longrightarrow> cdp_address (cdp_ipv4_entry raw @ rest) = Inr (Some (ipv4_of_bytes raw), rest)"
  by (simp add: cdp_address_def cdp_ipv4_entry_def bytes_simps Let_def ip_address_of_bytes_def)

lemma cdp_address_loop_entries:
  "(\<And>r. r \<in> set raws \<Longrightarrow> length r = 4) \<Longrightarrow>
     cdp_address_loop (length raws) (concat (map cdp_ipv4_entry raws)) acc = Inr (acc @ map ipv4_of_bytes raws)"
  by (induction raws arbitrary: acc) (simp_all add: cdp_address_entry)

lemma cdp_address_loop_bound:
  "cdp_address_loop n rest acc = Inr out \<Longrightarrow> length out \<le> length acc + n"
  by (induction n rest acc rule: cdp_address_loop.induct)
    (fastforce simp: result_simps split: if_splits option.splits)+

section \<open>Clean fields\<close>

lemma label_text_scalars: "label_text v n label = Inr s \<Longrightarrow> scalars s"
  by (auto simp: label_text_def scalars_decode split: if_splits option.splits)

lemma network_address_scalars: "network_address v label = Inr s \<Longrightarrow> scalars s"
  by (auto simp: network_address_def Let_def scalars_ip_address split: if_splits sum.splits exn.splits)

lemma link_identifier_scalars: "link_identifier v i = Inr (t, s) \<Longrightarrow> scalars t \<and> scalars s"
  by (auto simp: link_identifier_def Let_def result_simps label_text_scalars network_address_scalars
      split: if_splits option.splits)

lemma capability_names_clean [simp]: "clean_json (capability_names v defs)"
  by (auto simp: capability_names_def list_all_iff [of clean_json])

lemma lldp_management_scalars: "lldp_management_address v = Inr s \<Longrightarrow> scalars s"
  by (auto simp: lldp_management_address_def Let_def network_address_scalars split: if_splits)

lemma cdp_address_scalars: "cdp_address rest = Inr (Some t, rest') \<Longrightarrow> scalars t"
  by (auto simp: cdp_address_def Let_def result_simps scalars_ip_address split: if_splits)

lemma cdp_address_loop_scalars:
  "cdp_address_loop n rest acc = Inr out \<Longrightarrow> \<forall>t \<in> set acc. scalars t \<Longrightarrow> \<forall>t \<in> set out. scalars t"
proof (induction n rest acc rule: cdp_address_loop.induct)
  case (2 n rest acc)
  then obtain r where r: "cdp_address rest = Inr r"
    and l: "cdp_address_loop n (snd r) (case fst r of None \<Rightarrow> acc | Some t \<Rightarrow> acc @ [t]) = Inr out"
    by (auto simp: result_simps)
  have "\<forall>t \<in> set (case fst r of None \<Rightarrow> acc | Some t \<Rightarrow> acc @ [t]). scalars t"
    using r "2.prems"(2) cdp_address_scalars [of rest _ "snd r"] by (auto split: option.split simp: prod_eq_iff)
  from "2.IH" [OF r l this] show ?case .
qed (auto split: if_splits)

lemma cdp_addresses_clean: "cdp_addresses v = Inr out \<Longrightarrow> \<forall>t \<in> set out. scalars t"
  by (auto simp: cdp_addresses_def Let_def split: if_splits dest!: cdp_address_loop_scalars)

lemma lldp_field_clean:
  assumes "clean_json (JDict flds)" "lldp_field flds u = Inr flds'"
  shows "clean_json (JDict flds')"
  using assms
  by (auto simp: lldp_field_def lldp_capabilities_def result_simps simp del: clean_json.simps(3)
      split: prod.splits if_splits option.splits
      dest!: link_identifier_scalars label_text_scalars lldp_management_scalars)

lemma set_addresses_clean:
  assumes "clean_json (JDict flds)" "\<forall>t \<in> set addresses. scalars t" "set_addresses flds addresses = Inr flds'"
  shows "clean_json (JDict flds')"
  using assms
  by (cases addresses)
    (auto simp: set_addresses_def list_all_iff [of clean_json] simp del: clean_json.simps(3))

lemma cdp_field_clean:
  assumes "clean_json (JDict flds)" "cdp_field flds u = Inr flds'"
  shows "clean_json (JDict flds')"
  using assms
  by (auto simp: cdp_field_def result_simps simp del: clean_json.simps(3)
      split: prod.splits if_splits dest!: label_text_scalars cdp_addresses_clean
      intro: set_addresses_clean)

lemma neighbor_observation_Inr:
  "neighbor_observation frame src flds ttl = Inr obs \<longleftrightarrow>
     (\<exists>d. dt_add (fr_observed_at frame) (seconds ttl) = Inr d \<and>
       obs = [\<lparr>ob_kind = lit ''link_layer_neighbor'', ob_fields = flds, ob_source = lit src,
         ob_observed_at = Some (fr_observed_at frame), ob_expires_at = Some d\<rparr>])"
  by (auto simp: neighbor_observation_def result_simps)

lemma neighbor_observation_clean:
  assumes "clean_frame frame" "clean_json (JDict flds)" "src \<noteq> ''''"
    and "neighbor_observation frame src flds ttl = Inr obs" "ob \<in> set obs"
  shows "clean_observation ob"
proof -
  from assms(4) obtain d where d: "dt_add (fr_observed_at frame) (seconds ttl) = Inr d"
    "obs = [\<lparr>ob_kind = lit ''link_layer_neighbor'', ob_fields = flds, ob_source = lit src,
       ob_observed_at = Some (fr_observed_at frame), ob_expires_at = Some d\<rparr>]"
    unfolding neighbor_observation_Inr by blast
  moreover have "utc_stamp d" using assms(1) d(1) by (auto simp: clean_frame_def utc_stamp_iff split: if_splits)
  ultimately show ?thesis using assms by (simp add: clean_observation_def clean_frame_def)
qed

lemma lldp_unit_clean:
  assumes "lldp_unit s u = Inr s'" "clean_json (JDict (fst s))"
  shows "clean_json (JDict (fst s'))"
proof (cases s)
  case (fields f r e)
  then show ?thesis using assms lldp_field_clean [of f u "fst s'"]
    by (auto simp: lldp_unit_def result_simps simp del: clean_json.simps(3) split: if_splits)
qed

lemma parse_lldp_clean:
  assumes "clean_frame frame" "parse_lldp frame = Inr obs" "ob \<in> set obs"
  shows "clean_observation ob"
proof -
  let ?f0 = "case fr_interface frame of None \<Rightarrow> [(lit ''protocol'', jstr ''lldp'')]
    | Some i \<Rightarrow> fset ''local_interface'' (JStr i) [(lit ''protocol'', jstr ''lldp'')]"
  have "clean_json (JDict [(lit ''protocol'', jstr ''lldp'')])" by simp
  then have f0: "clean_json (JDict ?f0)"
    using assms(1)
    by (cases "fr_interface frame") (simp_all add: clean_frame_def text_clean_def del: clean_json.simps(3))
  from assms(2) obtain flds req en ttl where
    c: "foldR lldp_unit (?f0, {}, False) (fst (lldp_tlvs (fr_payload frame))) = Inr (flds, req, en)"
    and n: "neighbor_observation frame ''passive:lldp'' flds ttl = Inr obs"
    by (auto simp: parse_lldp_def Let_def result_simps split: if_splits option.splits json.splits)
  have "clean_json (JDict (fst (flds, req, en)))"
    using c
    by (rule foldR_invariant [where P = "\<lambda>s. clean_json (JDict (fst s))"])
      (use f0 lldp_unit_clean in \<open>simp_all only: fst_conv\<close>)
  with n assms show ?thesis using neighbor_observation_clean [of frame flds "''passive:lldp''"] by simp
qed

lemma parse_cdp_Inr:
  assumes "parse_cdp frame = Inr obs"
  obtains us flds f0 where
    "cdp_tlvs (drop 4 (fr_payload frame)) = (us, None)" "foldR cdp_field f0 us = Inr flds"
    "f0 = (let f = [(lit ''protocol'', jstr ''cdp''), (lit ''protocol_version'', JInt (uint (fr_payload frame ! 0))),
       (lit ''ttl_seconds'', JInt (uint (fr_payload frame ! 1)))]
      in case fr_interface frame of None \<Rightarrow> f | Some i \<Rightarrow> fset ''local_interface'' (JStr i) f)"
    "4 \<le> length (fr_payload frame)" "fget flds ''chassis_id'' \<noteq> None" "fget flds ''port_id'' \<noteq> None"
    "neighbor_observation frame ''passive:cdp'' flds (uint (fr_payload frame ! 1)) = Inr obs"
  using assms by (auto simp: parse_cdp_def Let_def result_simps prod_eq_iff split: if_splits)

lemma parse_cdp_clean:
  assumes "clean_frame frame" "parse_cdp frame = Inr obs" "ob \<in> set obs"
  shows "clean_observation ob"
  using assms(2)
proof (rule parse_cdp_Inr)
  fix us flds f0
  assume c: "foldR cdp_field f0 us = Inr flds"
    and f0: "f0 = (let f = [(lit ''protocol'', jstr ''cdp''), (lit ''protocol_version'', JInt (uint (fr_payload frame ! 0))),
       (lit ''ttl_seconds'', JInt (uint (fr_payload frame ! 1)))]
      in case fr_interface frame of None \<Rightarrow> f | Some i \<Rightarrow> fset ''local_interface'' (JStr i) f)"
    and n: "neighbor_observation frame ''passive:cdp'' flds (uint (fr_payload frame ! 1)) = Inr obs"
  have "clean_json (JDict [(lit ''protocol'', jstr ''cdp''), (lit ''protocol_version'', JInt (uint (fr_payload frame ! 0))),
       (lit ''ttl_seconds'', JInt (uint (fr_payload frame ! 1)))])" by simp
  then have "clean_json (JDict f0)"
    using assms(1)
    by (cases "fr_interface frame") (simp_all add: f0 Let_def clean_frame_def text_clean_def del: clean_json.simps(3))
  with c have "clean_json (JDict flds)"
    by (rule foldR_invariant [where P = "\<lambda>s. clean_json (JDict s)"]) (rule cdp_field_clean)
  then show "clean_observation ob"
    using neighbor_observation_clean [OF assms(1) _ _ n assms(3)] by simp
qed

interpretation lldp: passive_parser "stateless parse_lldp" "\<lambda>_. True"
  by (rule stateless_contract) (rule parse_lldp_clean)

interpretation cdp: passive_parser "stateless parse_cdp" "\<lambda>_. True"
  by (rule stateless_contract) (rule parse_cdp_clean)

section \<open>What an LLDP observation says\<close>

lemma lldp_field_keeps:
  assumes "lldp_field flds (t, v) = Inr flds'"
  shows "fget flds' ''ttl_seconds'' = (if t = 3 then Some (JInt (be_int v)) else fget flds ''ttl_seconds'')"
    and "t \<noteq> 1 \<Longrightarrow> fget flds' ''chassis_id'' = fget flds ''chassis_id''"
    and "t \<noteq> 2 \<Longrightarrow> fget flds' ''port_id'' = fget flds ''port_id''"
    and "t = 3 \<Longrightarrow> length v = 2"
    and "t = 1 \<Longrightarrow> \<exists>s i. link_identifier v Chassis = Inr (s, i) \<and> fget flds' ''chassis_id'' = Some (JStr i)"
    and "t = 2 \<Longrightarrow> \<exists>s i. link_identifier v Port = Inr (s, i) \<and> fget flds' ''port_id'' = Some (JStr i)"
  using assms by (auto simp: lldp_field_def result_simps split: prod.splits if_splits option.splits)

definition mandatory :: "tlv list \<Rightarrow> int list" where
  "mandatory us = filter (\<lambda>t. t \<in> {1, 2, 3}) (map fst us)"

definition lldp_reads :: "tlv list \<Rightarrow> fields \<times> int set \<times> bool \<Rightarrow> bool" where
  "lldp_reads us s \<longleftrightarrow>
     (case s of (flds, required, ended) \<Rightarrow>
       distinct (mandatory us) \<and> required = set (mandatory us) \<and> (ended \<longleftrightarrow> 0 \<in> fst ` set us) \<and>
       (\<forall>v. (3, v) \<in> set us \<longrightarrow> fget flds ''ttl_seconds'' = Some (JInt (be_int v)) \<and> length v = 2) \<and>
       (\<forall>v. (1, v) \<in> set us \<longrightarrow> (\<exists>s i. link_identifier v Chassis = Inr (s, i) \<and> fget flds ''chassis_id'' = Some (JStr i))) \<and>
       (\<forall>v. (2, v) \<in> set us \<longrightarrow> (\<exists>s i. link_identifier v Port = Inr (s, i) \<and> fget flds ''port_id'' = Some (JStr i))))"

lemma mandatory_mem: "t \<in> set (mandatory us) \<longleftrightarrow> t \<in> {1, 2, 3} \<and> (\<exists>v. (t, v) \<in> set us)"
  by (force simp: mandatory_def)

lemma lldp_reads_step:
  assumes "lldp_reads us s" "lldp_unit s u = Inr s'"
  shows "lldp_reads (us @ [u]) s'"
proof -
  obtain t v where u: "u = (t, v)" by fastforce
  obtain f r e where s: "s = (f, r, e)" by (cases s)
  have m: "mandatory (us @ [u]) = mandatory us @ (if t \<in> {1, 2, 3} then [t] else [])"
    by (simp add: mandatory_def u)
  show ?thesis
  proof (cases "t = 0")
    case True
    with assms u s m show ?thesis by (auto simp: lldp_unit_def lldp_reads_def)
  next
    case False
    with assms(2) u s obtain f' where f': "lldp_field f (t, v) = Inr f'"
      and s': "s' = (f', if t \<in> {1, 2, 3} then insert t r else r, e)" and new: "t \<in> {1, 2, 3} \<Longrightarrow> t \<notin> r"
      by (auto simp: lldp_unit_def result_simps split: if_splits)
    have fresh: "(t, w) \<notin> set us" if "t \<in> {1, 2, 3}" for w
      using new [OF that] assms(1) s that mandatory_mem [of t us] by (auto simp: lldp_reads_def)
    show ?thesis
      using assms(1) lldp_field_keeps [OF f'] fresh False new
      unfolding lldp_reads_def s s' m [unfolded u] u prod.case
      by (cases "t = 1"; cases "t = 2"; intro conjI; auto split: if_splits)
  qed
qed

lemma lldp_fold_reads:
  "foldR lldp_unit (f0, {}, False) us = Inr s \<Longrightarrow> lldp_reads us s"
proof (induction us arbitrary: s rule: rev_induct)
  case (snoc u us)
  then show ?case by (auto simp: foldR_append result_simps intro: lldp_reads_step)
qed (auto simp: lldp_reads_def mandatory_def)

section \<open>Properties\<close>

text \<open>C5. The LLDP generator accepts exactly the LLDPDUs of the standard: it ends without an exception if and
  only if the payload is within the size limits and is a sequence of at most 128 units of types 1 to
  127, possibly ended by the empty end unit with nothing but zero padding after it; and what it yields
  are those units, so encoding what it yields gives the payload back.\<close>

theorem lldp_tlvs_wire:
  "lldp_tlvs p = (us, None) \<longleftrightarrow>
     2 \<le> length p \<and> length p \<le> 4096 \<and> length us \<le> 128 \<and> lldp_wire p us"
  using lldp_loop_sound [of p 0 us] lldp_loop_complete [of p us 0]
  by (auto simp: lldp_tlvs_def MAX_LLDP_BYTES_def MAX_TLVS_def)

text \<open>C6. The CDP generator inverts the CDP encoding: it ends without an exception if and only if the
  bytes are the encoding of at most 128 units, and it yields exactly those units.\<close>

theorem cdp_tlvs_wire:
  "cdp_tlvs p = (us, None) \<longleftrightarrow> length us \<le> 128 \<and> list_all cdp_unit_ok us \<and> p = concat (map cdp_encode us)"
  using cdp_loop_sound [of p 0 us] cdp_loop_complete [of us 0]
  by (auto simp: cdp_tlvs_def MAX_TLVS_def)

text \<open>What an LLDP observation says is on the wire: parsing succeeds only on an LLDPDU with an end unit
  and exactly one chassis, one port and one time-to-live unit; the observation names that chassis and
  that port, and expires as many seconds after the frame as the time to live says.\<close>

theorem lldp_observation_sound:
  assumes "parse_lldp frame = Inr obs"
  shows "\<exists>ob us cv pv tv cs ci ps pi. obs = [ob] \<and> lldp_wire (fr_payload frame) us \<and> 0 \<in> fst ` set us \<and>
    distinct (mandatory us) \<and> set (mandatory us) = {1, 2, 3} \<and>
    (1, cv) \<in> set us \<and> link_identifier cv Chassis = Inr (cs, ci) \<and> fget (ob_fields ob) ''chassis_id'' = Some (JStr ci) \<and>
    (2, pv) \<in> set us \<and> link_identifier pv Port = Inr (ps, pi) \<and> fget (ob_fields ob) ''port_id'' = Some (JStr pi) \<and>
    (3, tv) \<in> set us \<and> length tv = 2 \<and> fget (ob_fields ob) ''ttl_seconds'' = Some (JInt (be_int tv)) \<and>
    (\<exists>d. ob_expires_at ob = Some d \<and> dt_add (fr_observed_at frame) (seconds (be_int tv)) = Inr d)"
proof -
  from assms obtain f0 us flds req en ttl where
    tl: "lldp_tlvs (fr_payload frame) = (us, None)" and c: "foldR lldp_unit (f0, {}, False) us = Inr (flds, req, en)"
    and e: en "req = {1, 2, 3}" "fget flds ''ttl_seconds'' = Some (JInt ttl)"
    and n: "neighbor_observation frame ''passive:lldp'' flds ttl = Inr obs"
    by (auto simp: parse_lldp_def Let_def result_simps prod_eq_iff split: if_splits option.splits json.splits)
  have wire: "lldp_wire (fr_payload frame) us"
    using tl lldp_loop_sound by (auto simp: lldp_tlvs_def split: if_splits)
  note r = lldp_fold_reads [OF c, unfolded lldp_reads_def prod.case]
  have "1 \<in> set (mandatory us)" "2 \<in> set (mandatory us)" "3 \<in> set (mandatory us)" using r e by auto
  then obtain cv pv tv where m: "(1, cv) \<in> set us" "(2, pv) \<in> set us" "(3, tv) \<in> set us"
    unfolding mandatory_mem by blast
  with r obtain cs ci ps pi where i: "link_identifier cv Chassis = Inr (cs, ci)" "fget flds ''chassis_id'' = Some (JStr ci)"
    "link_identifier pv Port = Inr (ps, pi)" "fget flds ''port_id'' = Some (JStr pi)"
    by blast
  have t: "ttl = be_int tv" "length tv = 2" using r m(3) e(3) by auto
  obtain d where d: "dt_add (fr_observed_at frame) (seconds (be_int tv)) = Inr d"
    and obs: "obs = [\<lparr>ob_kind = lit ''link_layer_neighbor'', ob_fields = flds, ob_source = lit ''passive:lldp'',
         ob_observed_at = Some (fr_observed_at frame), ob_expires_at = Some d\<rparr>]"
    using n unfolding neighbor_observation_Inr t(1) by blast
  have s: "0 \<in> fst ` set us" "distinct (mandatory us)" "set (mandatory us) = {1, 2, 3}"
    "fget flds ''ttl_seconds'' = Some (JInt (be_int tv))"
    using r e t by auto
  show ?thesis
    unfolding obs
    by (intro exI conjI, rule refl) (use wire s m i t d in \<open>simp_all only: observation.simps\<close>)
qed

definition demo_units :: "tlv list" where
  "demo_units = [(1, [7, 65]), (2, [7, 66]), (3, [0, 120]), (0, [])]"

definition demo_lldp :: passive_frame where
  "demo_lldp = \<lparr>fr_protocol = lit ''lldp'',
     fr_payload = lldp_encode (1, [7, 65]) @ lldp_encode (2, [7, 66]) @ lldp_encode (3, [0, 120]) @ 0 # 0 # replicate 1 0,
     fr_observed_at = utc_dt 0, fr_interface = None\<rparr>"

lemma demo_lldp_tlvs: "lldp_tlvs (fr_payload demo_lldp) = (demo_units, None)"
proof -
  have "lldp_wire (fr_payload demo_lldp) demo_units"
    unfolding demo_lldp_def demo_units_def passive_frame.simps
    by (intro wire_unit wire_end) (simp_all add: lldp_unit_ok_def)
  moreover have "length (fr_payload demo_lldp) = 15" by (simp add: demo_lldp_def lldp_encode_def)
  ultimately show ?thesis
    using lldp_loop_complete [of "fr_payload demo_lldp" demo_units 0]
    by (simp add: lldp_tlvs_def MAX_LLDP_BYTES_def MAX_TLVS_def demo_units_def)
qed

lemma demo_lldp_parse: "\<exists>ob. parse_lldp demo_lldp = Inr [ob]"
proof -
  have "utf8_decode [65] = Some [65]" "utf8_decode [66] = Some [66]"
    by (simp_all add: utf8_decode_def utf8_char_def utf8_lead_def Let_def)
  then have "link_identifier [7, 65] Chassis = Inr (lit ''locally_assigned'', [65])"
    "link_identifier [7, 66] Port = Inr (lit ''locally_assigned'', [66])"
    by (simp_all add: link_identifier_def label_text_def)
  then have "foldR lldp_unit ([(lit ''protocol'', jstr ''lldp'')], {}, False) demo_units =
      Inr (fset ''ttl_seconds'' (JInt 120) (fset ''port_id'' (JStr [66]) (fset ''port_id_subtype'' (jstr ''locally_assigned'')
        (fset ''chassis_id'' (JStr [65]) (fset ''chassis_id_subtype'' (jstr ''locally_assigned'')
          [(lit ''protocol'', jstr ''lldp'')])))), {1, 2, 3}, True)"
    by (simp add: demo_units_def lldp_unit_def lldp_field_def be_int_two insert_commute)
  then show ?thesis
    by (simp add: parse_lldp_def demo_lldp_tlvs consume_def)
      (simp add: demo_lldp_def neighbor_observation_def seconds_def dt_in_range_def dt_min_def dt_max_def)
qed

theorem lldp_observation_sound_witness:
  "\<exists>ob us. parse_lldp demo_lldp = Inr [ob] \<and> lldp_wire (fr_payload demo_lldp) us \<and> set (mandatory us) = {1, 2, 3}"
proof -
  obtain ob where ob: "parse_lldp demo_lldp = Inr [ob]" using demo_lldp_parse by blast
  from lldp_observation_sound [OF ob] ob show ?thesis by blast
qed

end
