(* ===== verification/Mdns.thy ===== *)
theory Mdns
  imports Parser_Contract
begin

text \<open>
  \<open>mdns.py\<close>: a parser for mDNS responses. Names are read with bounded pointer chasing; the records a
  message announces enter a bounded cache from which they leave by goodbye, expiry or eviction, and
  every such event is an observation.
\<close>

unbundle bit_operations_syntax

abbreviation parse_error :: "string \<Rightarrow> 'a result" where
  "parse_error s \<equiv> Inl (PassiveParseError (lit s))"

definition MAX_POINTER_JUMPS :: nat where "MAX_POINTER_JUMPS = 16"

section \<open>Names\<close>

text \<open>One label: its text and the wire length so far, or the exception.\<close>

definition read_label :: "bytes \<Rightarrow> nat \<Rightarrow> nat \<Rightarrow> nat \<Rightarrow> (pystr \<times> nat) result" where
  "read_label message cursor len wire_length =
     (if length message < cursor + len then parse_error ''invalid or truncated mDNS label''
      else (let wire_length = wire_length + (len + 1) in
        if 255 < wire_length then parse_error ''mDNS name exceeds DNS wire limit''
        else (case utf8_decode (slice cursor (cursor + len) message) of
            None \<Rightarrow> parse_error ''invalid UTF-8 in mDNS name''
          | Some label \<Rightarrow>
              if list_ex (\<lambda>c. c < 0x20) label then parse_error ''invalid mDNS label''
              else Inr (label, wire_length))))"

text \<open>
  The loop of \<open>_read_name\<close>. Its state is the cursor, the labels so far, the offset after the name once
  a pointer has fixed it, the pointer targets visited, the wire length and the number of jumps.
\<close>

function name_loop ::
    "bytes \<Rightarrow> nat \<Rightarrow> pystr list \<Rightarrow> nat option \<Rightarrow> nat set \<Rightarrow> nat \<Rightarrow> nat \<Rightarrow> (pystr list \<times> nat) result" where
  "name_loop message cursor labels consumed visited wire_length jumps =
     (if length message \<le> cursor then parse_error ''truncated mDNS name''
      else if (message ! cursor) AND 0xC0 = 0xC0 then
        (if length message \<le> cursor + 1 then parse_error ''truncated mDNS compression pointer''
         else if length message \<le> nat (be_int [(message ! cursor) AND 0x3F, message ! (cursor + 1)])
           \<or> nat (be_int [(message ! cursor) AND 0x3F, message ! (cursor + 1)]) \<in> visited
           \<or> MAX_POINTER_JUMPS \<le> jumps
         then parse_error ''invalid or looping mDNS compression pointer''
         else name_loop message (nat (be_int [(message ! cursor) AND 0x3F, message ! (cursor + 1)])) labels
           (case consumed of None \<Rightarrow> Some (cursor + 2) | Some k \<Rightarrow> Some k)
           (insert (nat (be_int [(message ! cursor) AND 0x3F, message ! (cursor + 1)])) visited)
           wire_length (jumps + 1))
      else if (message ! cursor) AND 0xC0 \<noteq> 0 then parse_error ''invalid mDNS label encoding''
      else if message ! cursor = 0
        then Inr (labels, case consumed of None \<Rightarrow> cursor + 1 | Some k \<Rightarrow> k)
      else (case read_label message (cursor + 1) (unat (message ! cursor)) wire_length of
          Inl e \<Rightarrow> Inl e
        | Inr (label, wire_length') \<Rightarrow>
            name_loop message (cursor + 1 + unat (message ! cursor)) (labels @ [label]) consumed visited
              wire_length' jumps))"
  by pat_completeness auto
termination
  by (relation "measures [\<lambda>(message, cursor, labels, consumed, visited, wire_length, jumps). MAX_POINTER_JUMPS - jumps,
        \<lambda>(message, cursor, labels, consumed, visited, wire_length, jumps). length message - cursor]") auto

declare name_loop.simps [simp del]

definition read_name :: "unidata \<Rightarrow> bytes \<Rightarrow> nat \<Rightarrow> (pystr \<times> nat) result" where
  "read_name U message offset =
     (if length message \<le> offset then parse_error ''truncated mDNS name''
      else bindR (name_loop message offset [] None {} 1 0) (\<lambda>(labels, consumed).
        Inr (casefold U (join (lit ''.'') labels), consumed)))"

section \<open>Messages\<close>

text \<open>
  \<open>redact_item key value\<close> is the redactor's \<open>value({key: value})[key]\<close>; \<open>local_offset\<close> the local UTC
  offset \<open>astimezone\<close> assumes for a naive time.
\<close>

record mdns_config =
  max_message_bytes :: nat
  max_questions :: nat
  max_records :: nat
  max_txt_bytes :: nat
  max_cache_entries :: nat
  max_ttl_seconds :: nat
  redact_item :: "pystr \<Rightarrow> pystr \<Rightarrow> pystr"
  mdns_uni :: unidata
  local_offset :: "int \<Rightarrow> int"

definition new_mdns_config ::
    "int \<Rightarrow> int \<Rightarrow> int \<Rightarrow> int \<Rightarrow> int \<Rightarrow> int \<Rightarrow> (pystr \<Rightarrow> pystr \<Rightarrow> pystr) \<Rightarrow> unidata \<Rightarrow> (int \<Rightarrow> int) \<Rightarrow> mdns_config result" where
  "new_mdns_config message_bytes questions records txt cache ttl redact U lz =
     (if list_ex (\<lambda>v. v < 1) [message_bytes, questions, records, txt, cache, ttl]
      then Inl (ValueError (lit ''mDNS parser bounds must be positive''))
      else Inr \<lparr>max_message_bytes = nat message_bytes, max_questions = nat questions, max_records = nat records,
        max_txt_bytes = nat txt, max_cache_entries = nat cache, max_ttl_seconds = nat ttl,
        redact_item = redact, mdns_uni = U, local_offset = lz\<rparr>)"

datatype rdata = Address pystr | Pointer pystr | Service int int int pystr | Attributes fields

record mdns_record =
  rec_name :: pystr
  rec_type :: int
  rec_ttl :: int
  rec_value :: rdata

text \<open>\<open>str.partition("=")\<close>: the key, whether the separator occurs, and the value.\<close>

definition partition_eq :: "pystr \<Rightarrow> pystr \<times> bool \<times> pystr" where
  "partition_eq s = (takeWhile (\<lambda>c. c \<noteq> 61) s, 61 \<in> set s, tl (dropWhile (\<lambda>c. c \<noteq> 61) s))"

definition txt_add :: "pystr \<Rightarrow> pystr \<Rightarrow> fields \<Rightarrow> fields" where
  "txt_add key redacted vs =
     (case map_of vs key of
        None \<Rightarrow> od_set key (JStr redacted) vs
      | Some (JList xs) \<Rightarrow> od_set key (JList (xs @ [JStr redacted])) vs
      | Some v \<Rightarrow> od_set key (JList [v, JStr redacted]) vs)"

definition txt_item :: "mdns_config \<Rightarrow> bytes \<Rightarrow> fields \<Rightarrow> fields result" where
  "txt_item c raw vs =
     (case utf8_decode raw of
        None \<Rightarrow> parse_error ''invalid UTF-8 in DNS-SD TXT item''
      | Some item \<Rightarrow>
          (case partition_eq item of (key, separator, value) \<Rightarrow>
            if key = [] \<or> 255 < length key \<or> list_ex (\<lambda>ch. ch < 0x20) key
            then parse_error ''invalid DNS-SD TXT key''
            else Inr (txt_add key (redact_item c key (if separator then value else [])) vs)))"

text \<open>\<open>_parse_txt\<close>; the loop state is \<open>data[offset:]\<close>.\<close>

function parse_txt :: "mdns_config \<Rightarrow> bytes \<Rightarrow> fields \<Rightarrow> fields result" where
  "parse_txt c [] vs = Inr vs"
| "parse_txt c (len # rest) vs =
     (if length rest < unat len then parse_error ''truncated DNS-SD TXT item''
      else bindR (txt_item c (take (unat len) rest) vs) (\<lambda>vs'. parse_txt c (drop (unat len) rest) vs'))"
  by pat_completeness auto
termination
  by (relation "measure (\<lambda>(c, data, vs). length data)") auto

definition parse_rdata :: "mdns_config \<Rightarrow> bytes \<Rightarrow> nat \<Rightarrow> nat \<Rightarrow> int \<Rightarrow> rdata option result" where
  "parse_rdata c payload start stop record_type =
     (if record_type = 1 then
        (if stop - start \<noteq> 4 then parse_error ''invalid mDNS IPv4 address length''
         else Inr (Some (Address (ipv4_of_bytes (slice start stop payload)))))
      else if record_type = 12 then
        bindR (read_name (mdns_uni c) payload start) (\<lambda>(name, consumed).
          if consumed \<noteq> stop then parse_error ''invalid DNS-SD PTR data'' else Inr (Some (Pointer name)))
      else if record_type = 33 then
        (if stop - start < 7 then parse_error ''truncated DNS-SD SRV data''
         else bindR (read_name (mdns_uni c) payload (start + 6)) (\<lambda>(target, consumed).
           if consumed \<noteq> stop then parse_error ''invalid DNS-SD SRV data''
           else Inr (Some (Service (be_int (slice start (start + 2) payload)) (be_int (slice (start + 2) (start + 4) payload))
             (be_int (slice (start + 4) (start + 6) payload)) target))))
      else if record_type = 16 then
        (if max_txt_bytes c < stop - start then parse_error ''DNS-SD TXT data exceeds configured limit''
         else bindR (parse_txt c (slice start stop payload) []) (\<lambda>vs. Inr (Some (Attributes vs))))
      else Inr None)"

fun skip_questions :: "mdns_config \<Rightarrow> bytes \<Rightarrow> nat \<Rightarrow> nat \<Rightarrow> nat result" where
  "skip_questions c payload 0 offset = Inr offset"
| "skip_questions c payload (Suc n) offset =
     bindR (read_name (mdns_uni c) payload offset) (\<lambda>r.
       if length payload < snd r + 4 then parse_error ''truncated mDNS question''
       else skip_questions c payload n (snd r + 4))"

text \<open>One resource record at an offset: the record, if it is of interest, and the next offset.\<close>

definition read_record :: "mdns_config \<Rightarrow> bytes \<Rightarrow> nat \<Rightarrow> (mdns_record list \<times> nat) result" where
  "read_record c payload offset =
     bindR (read_name (mdns_uni c) payload offset) (\<lambda>(name, offset).
       if length payload < offset + 10 then parse_error ''truncated mDNS resource-record header''
       else (let record_type = be_int (slice offset (offset + 2) payload);
                 record_class = be_int (slice (offset + 2) (offset + 4) payload);
                 ttl = be_int (slice (offset + 4) (offset + 8) payload);
                 len = nat (be_int (slice (offset + 8) (offset + 10) payload));
                 offset = offset + 10; stop = offset + len
         in if length payload < stop then parse_error ''truncated mDNS resource-record data''
            else if record_class AND 0x7FFF = 1 then
              bindR (parse_rdata c payload offset stop record_type) (\<lambda>value.
                Inr (case value of None \<Rightarrow> []
                  | Some v \<Rightarrow> [\<lparr>rec_name = name, rec_type = record_type, rec_ttl = ttl, rec_value = v\<rparr>], stop))
            else Inr ([], stop)))"

fun read_records :: "mdns_config \<Rightarrow> bytes \<Rightarrow> nat \<Rightarrow> nat \<Rightarrow> (mdns_record list \<times> nat) result" where
  "read_records c payload 0 offset = Inr ([], offset)"
| "read_records c payload (Suc n) offset =
     bindR (read_record c payload offset) (\<lambda>r.
       bindR (read_records c payload n (snd r)) (\<lambda>rs. Inr (fst r @ fst rs, snd rs)))"

definition parse_message :: "mdns_config \<Rightarrow> bytes \<Rightarrow> mdns_record list result" where
  "parse_message c payload =
     (if max_message_bytes c < length payload then parse_error ''mDNS message exceeds configured size limit''
      else if length payload < 12 then parse_error ''truncated mDNS header''
      else (let flags = be_int (slice 2 4 payload); questions = be_int (slice 4 6 payload);
                answers = be_int (slice 6 8 payload); authorities = be_int (slice 8 10 payload);
                additionals = be_int (slice 10 12 payload)
        in if flags AND 0x8000 = 0 then Inr []
           else (let record_count = answers + authorities + additionals
             in if int (max_questions c) < questions \<or> int (max_records c) < record_count
                then parse_error ''mDNS section count exceeds configured limit''
                else bindR (skip_questions c payload (nat questions) 12) (\<lambda>offset.
                  bindR (read_records c payload (nat record_count) offset) (\<lambda>(records, offset).
                    if offset \<noteq> length payload then parse_error ''mDNS message has trailing data''
                    else Inr records)))))"

section \<open>Observations and the cache\<close>

definition record_fields :: "mdns_record \<Rightarrow> pystr \<Rightarrow> (pystr \<times> fields) result" where
  "record_fields r action =
     (case (rec_type r, rec_value r) of
        (t, Pointer name) \<Rightarrow>
          if t = 12 then Inr (lit ''mdns_service'',
            [(lit ''service_type'', JStr (rec_name r)), (lit ''instance'', JStr name), (lit ''action'', JStr action)])
          else Inl AssertionError
      | (t, Service priority weight port hostname) \<Rightarrow>
          if t = 33 then Inr (lit ''mdns_instance'',
            [(lit ''instance'', JStr (rec_name r)), (lit ''hostname'', JStr hostname), (lit ''port'', JInt port),
             (lit ''priority'', JInt priority), (lit ''weight'', JInt weight), (lit ''action'', JStr action)])
          else Inl AssertionError
      | (t, Address a) \<Rightarrow>
          if t = 1 then Inr (lit ''mdns_address'',
            [(lit ''hostname'', JStr (rec_name r)), (lit ''address'', JStr a), (lit ''action'', JStr action)])
          else Inl AssertionError
      | (t, Attributes txt) \<Rightarrow>
          if t = 16 then Inr (lit ''mdns_txt'',
            [(lit ''instance'', JStr (rec_name r)), (lit ''txt'', JDict txt), (lit ''action'', JStr action)])
          else Inl AssertionError)"

definition mdns_observation :: "mdns_config \<Rightarrow> mdns_record \<Rightarrow> int \<Rightarrow> observation result" where
  "mdns_observation c r ts =
     (let ttl = min (rec_ttl r) (int (max_ttl_seconds c));
          action = (if rec_ttl r = 0 then lit ''goodbye'' else lit ''announce'')
      in bindR (if rec_ttl r = 0 then Inr (utc_dt ts) else dt_add (utc_dt ts) (seconds ttl)) (\<lambda>expires_at.
         bindR (record_fields r action) (\<lambda>(kind, flds).
         Inr \<lparr>ob_kind = kind, ob_fields = flds, ob_source = lit ''mdns'', ob_observed_at = Some (utc_dt ts),
           ob_expires_at = Some expires_at\<rparr>)))"

text \<open>
  \<open>_identity\<close>: the kind and the sorted items without the action. The code takes the \<open>repr\<close> of the
  items, an injective encoding of them; the model keeps the items.
\<close>

type_synonym cache_key = "pystr \<times> (pystr \<times> json) list"

definition record_identity :: "observation \<Rightarrow> cache_key" where
  "record_identity ob = (ob_kind ob, sort_key fst (filter (\<lambda>kv. fst kv \<noteq> lit ''action'') (ob_fields ob)))"

type_synonym mdns_cache = "(cache_key, observation \<times> int) odict"

definition expired_observation :: "int \<Rightarrow> observation \<Rightarrow> observation" where
  "expired_observation ts ob =
     ob\<lparr>ob_fields := fset ''action'' (jstr ''expired'') (ob_fields ob),
        ob_observed_at := Some (utc_dt ts), ob_expires_at := Some (utc_dt ts)\<rparr>"

text \<open>The loop of \<open>expire\<close> over a snapshot of the items.\<close>

fun expire_loop ::
    "int \<Rightarrow> (cache_key \<times> observation \<times> int) list \<Rightarrow> mdns_cache \<Rightarrow> observation list \<Rightarrow> mdns_cache \<times> observation list" where
  "expire_loop ts [] cache out = (cache, out)"
| "expire_loop ts ((ident, ob, expires_at) # items) cache out =
     (if ts < expires_at then expire_loop ts items cache out
      else expire_loop ts items (od_pop ident cache) (out @ [expired_observation ts ob]))"

definition mdns_expire_at :: "int \<Rightarrow> mdns_cache \<Rightarrow> mdns_cache \<times> observation list" where
  "mdns_expire_at ts cache = expire_loop ts cache cache []"

definition mdns_expire :: "mdns_cache \<Rightarrow> datetime \<Rightarrow> (mdns_cache \<times> observation list) result" where
  "mdns_expire cache now =
     bindR (utc_instant (ValueError (lit ''mDNS cache expiry time must be timezone-aware'')) now)
       (\<lambda>ts. Inr (mdns_expire_at ts cache))"

text \<open>\<open>cache[k] = v; cache.move_to_end(k); while len(cache) > cap: cache.popitem(last=False)\<close>\<close>

definition cache_store :: "nat \<Rightarrow> cache_key \<Rightarrow> observation \<times> int \<Rightarrow> mdns_cache \<Rightarrow> mdns_cache" where
  "cache_store cap k v cache =
     (let d = od_move_to_end k (od_set k v cache) in drop (length d - cap) d)"

text \<open>The record loop of \<open>__call__\<close>; an exception leaves the cache as the earlier records made it.\<close>

fun apply_records ::
    "mdns_config \<Rightarrow> int \<Rightarrow> mdns_record list \<Rightarrow> mdns_cache \<Rightarrow> observation list \<Rightarrow> mdns_cache \<times> observation list result" where
  "apply_records c ts [] cache out = (cache, Inr out)"
| "apply_records c ts (r # rs) cache out =
     (case mdns_observation c r ts of
        Inl e \<Rightarrow> (cache, Inl e)
      | Inr ob \<Rightarrow>
          if rec_ttl r = 0 then apply_records c ts rs (od_pop (record_identity ob) cache) (out @ [ob])
          else (case ob_expires_at ob of
              Some (Aware t off) \<Rightarrow>
                apply_records c ts rs (cache_store (max_cache_entries c) (record_identity ob) (ob, t - off) cache) (out @ [ob])
            | _ \<Rightarrow> (cache, Inl AssertionError)))"

definition mdns_parser :: "mdns_config \<Rightarrow> mdns_cache parser" where
  "mdns_parser c cache frame =
     (if casefold (mdns_uni c) (fr_protocol frame) \<notin> {lit ''mdns'', lit ''dns-sd''}
      then (cache, parse_error ''mDNS parser received an unexpected protocol'')
      else (case as_utc (local_offset c) (fr_observed_at frame) of
          Inl e \<Rightarrow> (cache, Inl e)
        | Inr ts \<Rightarrow>
            (case mdns_expire_at ts cache of (cache', expired) \<Rightarrow>
              (case parse_message c (fr_payload frame) of
                 Inl e \<Rightarrow> (cache', Inl e)
               | Inr records \<Rightarrow>
                   (case apply_records c ts records cache' expired of
                      (cache'', Inl e) \<Rightarrow> (cache'', Inl e)
                    | (cache'', Inr obs) \<Rightarrow> (cache'', Inr (map Obs obs)))))))"

section \<open>Names: bounds and round trips\<close>

lemma read_label_Inr:
  "read_label message cursor len w = Inr (label, w') \<Longrightarrow>
     cursor + len \<le> length message \<and> w' = w + (len + 1) \<and> w' \<le> 255 \<and> scalars label \<and> (\<forall>ch \<in> set label. 0x20 \<le> ch)"
  by (auto simp: read_label_def Let_def list_ex_iff scalars_decode not_less split: if_splits option.splits)

text \<open>What the loop keeps: the name ends inside the message, after where it began.\<close>

lemma name_loop_Inr:
  "name_loop message cursor labels consumed visited w jumps = Inr (ls, k) \<Longrightarrow>
     (case consumed of None \<Rightarrow> cursor < k \<and> k \<le> length message | Some k' \<Rightarrow> k = k')"
proof (induction message cursor labels consumed visited w jumps rule: name_loop.induct)
  case (1 message cursor labels consumed visited w jumps)
  note loop = "1.prems" [unfolded name_loop.simps [of message cursor]]
  show ?case
  proof (cases "(message ! cursor) AND 0xC0 = 0xC0")
    case True
    with loop "1.IH"(1) show ?thesis by (auto split: if_splits option.splits)
  next
    case False
    with loop "1.IH"(2) show ?thesis
      by (auto split: if_splits option.splits sum.splits prod.splits dest!: read_label_Inr) fastforce+
  qed
qed

lemma name_loop_labels:
  "name_loop message cursor labels consumed visited w jumps = Inr (ls, k) \<Longrightarrow>
     list_all scalars labels \<Longrightarrow> list_all scalars ls"
proof (induction message cursor labels consumed visited w jumps rule: name_loop.induct)
  case (1 message cursor labels consumed visited w jumps)
  note loop = "1.prems"(1) [unfolded name_loop.simps [of message cursor]]
  show ?case
  proof (cases "(message ! cursor) AND 0xC0 = 0xC0")
    case True
    with loop "1.IH"(1) "1.prems"(2) show ?thesis by (auto split: if_splits option.splits)
  next
    case False
    with loop "1.IH"(2) "1.prems"(2) show ?thesis
      by (auto split: if_splits option.splits sum.splits prod.splits dest!: read_label_Inr)
  qed
qed

text \<open>The size of a name: every label counts its bytes and a length byte, and the total stays below 256.\<close>

definition name_size :: "pystr list \<Rightarrow> nat" where
  "name_size ls = sum_list (map (\<lambda>l. length l + 1) ls)"

lemma utf8_items_length: "length (utf8_items bs) \<le> length bs"
proof (induction bs rule: utf8_items.induct)
  case (2 b bs)
  have "length (utf8_items (drop (snd (utf8_char b bs)) bs)) \<le> length bs"
    using 2 [OF refl] by (simp add: order_trans)
  then show ?case by (simp add: Let_def)
qed simp

lemma utf8_decode_length: "utf8_decode bs = Some s \<Longrightarrow> length s \<le> length bs"
  using utf8_items_length [of bs] by (auto simp: utf8_decode_def Let_def split: if_splits)

lemma read_label_size: "read_label message cursor len w = Inr (label, w') \<Longrightarrow> length label \<le> len"
  by (auto simp: read_label_def Let_def slice_def split: if_splits option.splits dest!: utf8_decode_length)

lemma name_loop_size:
  "name_loop message cursor labels consumed visited w jumps = Inr (ls, k) \<Longrightarrow>
     name_size labels + 1 \<le> w \<Longrightarrow> w \<le> 255 \<Longrightarrow> name_size ls + 1 \<le> 255"
proof (induction message cursor labels consumed visited w jumps rule: name_loop.induct)
  case (1 message cursor labels consumed visited w jumps)
  note loop = "1.prems"(1) [unfolded name_loop.simps [of message cursor]]
  show ?case
  proof (cases "(message ! cursor) AND 0xC0 = 0xC0")
    case True
    with loop "1.IH"(1) "1.prems"(2,3) show ?thesis by (auto split: if_splits option.splits)
  next
    case False
    show ?thesis
    proof (cases "read_label message (cursor + 1) (unat (message ! cursor)) w")
      case (Inr r)
      obtain label w' where r: "r = (label, w')" by fastforce
      have "name_size (labels @ [label]) + 1 \<le> w'" "w' \<le> 255"
        using read_label_Inr read_label_size Inr r "1.prems"(2) by (fastforce simp: name_size_def)+
      with False loop "1.IH"(2) "1.prems"(2,3) Inr r show ?thesis by (auto split: if_splits)
    qed (use False loop "1.prems"(2,3) in \<open>auto split: if_splits\<close>)
  qed
qed

text \<open>The encoder side: labels on the wire and a compression pointer.\<close>

definition label_bytes :: "pystr \<Rightarrow> bytes" where
  "label_bytes l = concat (map utf8_encode_char l)"

definition label_ok :: "pystr \<Rightarrow> bool" where
  "label_ok l \<longleftrightarrow> l \<noteq> [] \<and> scalars l \<and> (\<forall>c \<in> set l. 0x20 \<le> c) \<and> length (label_bytes l) < 64"

definition encode_labels :: "pystr list \<Rightarrow> bytes" where
  "encode_labels ls = concat (map (\<lambda>l. byte_of (int (length (label_bytes l))) # label_bytes l) ls)"

definition encode_pointer :: "nat \<Rightarrow> bytes" where
  "encode_pointer p = [192 + byte_of (int p div 256), byte_of (int p mod 256)]"

lemma encode_pointer_length [simp]: "length (encode_pointer p) = 2" "encode_pointer p \<noteq> []"
  by (simp_all add: encode_pointer_def)

lemma small_byte_and: "uint (b :: 8 word) < 64 \<Longrightarrow> b AND 0xC0 = 0 \<and> b AND 0x3F = b"
proof -
  assume "uint b < 64"
  then have "take_bit 6 (uint b) = uint b" by (simp add: take_bit_int_eq_self_iff)
  then have "take_bit 6 b = b" by (metis unsigned_take_bit_eq word_uint_eqI)
  then have m: "b AND 63 = b" by (simp add: take_bit_eq_mask mask_eq_exp_minus_1)
  then have "b AND 0xC0 = b AND (63 AND 0xC0)" by (metis and.assoc)
  with m show ?thesis by simp
qed

lemma pointer_byte_and:
  assumes "uint (b :: 8 word) < 64"
  shows "(192 + b) AND 0xC0 = 0xC0" and "(192 + b) AND 0x3F = b"
proof -
  have b: "b AND 0xC0 = 0" "b AND 0x3F = b" using small_byte_and [OF assms] by simp_all
  then have "192 AND b = 0" by (simp add: and.commute)
  then have s: "192 + b = 192 OR b" by (rule disjunctive_add_eq_or)
  show "(192 + b) AND 0xC0 = 0xC0" unfolding s using b by (simp add: bit.conj_disj_distrib2)
  show "(192 + b) AND 0x3F = b" unfolding s using b by (simp add: bit.conj_disj_distrib2)
qed

lemma utf8_decode_encode: "scalars l \<Longrightarrow> utf8_decode (label_bytes l) = Some l"
  using utf8_roundtrip [of l "label_bytes l"] by (simp add: utf8_encode_def label_bytes_def)

lemma label_bytes_ne: "l \<noteq> [] \<Longrightarrow> label_bytes l \<noteq> []"
  using utf8_encode_char_ne by (cases l) (auto simp: label_bytes_def, metis list.distinct(1))

lemma name_loop_encoded:
  assumes "list_all label_ok ls" "w + length (encode_labels ls) \<le> 255" "cursor = length pre"
    and "message = pre @ encode_labels ls @ post" "post \<noteq> []"
  shows "name_loop message cursor labels consumed visited w jumps =
    name_loop message (cursor + length (encode_labels ls)) (labels @ ls) consumed visited
      (w + length (encode_labels ls)) jumps"
  using assms
proof (induction ls arbitrary: pre cursor w labels)
  case (Cons l ls)
  let ?b = "label_bytes l"
  let ?n = "byte_of (int (length ?b))"
  have l: "l \<noteq> []" "scalars l" "\<forall>c \<in> set l. 0x20 \<le> c" "length ?b < 64"
    using Cons.prems(1) by (simp_all add: label_ok_def)
  have un: "uint ?n = int (length ?b)" using l(4) by (simp add: uint_byte_of)
  then have nn: "unat ?n = length ?b" "?n \<noteq> 0" "?n AND 0xC0 = 0"
    using small_byte_and [of ?n] l(1,4) label_bytes_ne [of l] by (auto simp: unat_eq_nat_uint) 
  have enc: "encode_labels (l # ls) = ?n # ?b @ encode_labels ls" by (simp add: encode_labels_def)
  have msg: "message = pre @ ?n # ?b @ encode_labels ls @ post" using Cons.prems(4) enc by simp
  have at: "message ! cursor = ?n" "\<not> length message \<le> cursor" using msg Cons.prems(3) by simp_all
  have "slice (cursor + 1) (cursor + 1 + length ?b) message = ?b"
    using msg Cons.prems(3) by (simp add: slice_def)
  then have lab: "read_label message (cursor + 1) (length ?b) w = Inr (l, w + (length ?b + 1))"
    using msg Cons.prems(2,3) l enc utf8_decode_encode [OF l(2)]
    by (auto simp: read_label_def Let_def list_ex_iff)
  have "name_loop message cursor labels consumed visited w jumps =
      name_loop message (cursor + 1 + length ?b) (labels @ [l]) consumed visited (w + (length ?b + 1)) jumps"
    using at nn lab by (subst name_loop.simps) simp
  also have "\<dots> = name_loop message (cursor + 1 + length ?b + length (encode_labels ls)) ((labels @ [l]) @ ls) consumed
      visited (w + (length ?b + 1) + length (encode_labels ls)) jumps"
    by (rule Cons.IH [where pre = "pre @ ?n # ?b"]) (use Cons.prems msg enc in simp_all)
  finally show ?case by (simp add: enc add.assoc)
qed (simp add: encode_labels_def)

lemma name_loop_zero:
  "cursor < length message \<Longrightarrow> message ! cursor = 0 \<Longrightarrow>
     name_loop message cursor labels consumed visited w jumps =
       Inr (labels, case consumed of None \<Rightarrow> cursor + 1 | Some k \<Rightarrow> k)"
  by (subst name_loop.simps) simp

lemma read_name_plain:
  assumes "list_all label_ok ls" "length (encode_labels ls) \<le> 254"
  shows "read_name U (pre @ encode_labels ls @ 0 # post) (length pre) =
    Inr (casefold U (join (lit ''.'') ls), length pre + length (encode_labels ls) + 1)"
proof -
  let ?m = "pre @ encode_labels ls @ 0 # post"
  have "name_loop ?m (length pre) [] None {} 1 0 =
      name_loop ?m (length pre + length (encode_labels ls)) ([] @ ls) None {} (1 + length (encode_labels ls)) 0"
    by (rule name_loop_encoded [where post = "0 # post"]) (use assms in simp_all)
  also have "\<dots> = Inr (ls, length pre + length (encode_labels ls) + 1)"
    by (subst name_loop_zero) (simp_all add: nth_append)
  finally show ?thesis by (simp add: read_name_def)
qed

lemma read_name_pointed:
  assumes "list_all label_ok ls" "list_all label_ok ts" "length (encode_labels ls) + length (encode_labels ts) \<le> 254"
    and "length pre < 16384"
  shows "read_name U (pre @ encode_labels ts @ [0] @ mid @ encode_labels ls @ encode_pointer (length pre) @ post)
      (length (pre @ encode_labels ts @ [0] @ mid)) =
    Inr (casefold U (join (lit ''.'') (ls @ ts)),
      length (pre @ encode_labels ts @ [0] @ mid) + length (encode_labels ls) + 2)"
proof -
  let ?m = "pre @ encode_labels ts @ [0] @ mid @ encode_labels ls @ encode_pointer (length pre) @ post"
  let ?s = "length (pre @ encode_labels ts @ [0] @ mid)"
  let ?c = "?s + length (encode_labels ls)"
  let ?hi = "byte_of (int (length pre) div 256)" and ?lo = "byte_of (int (length pre) mod 256)"
  have hi: "uint ?hi = int (length pre) div 256" "uint ?lo = int (length pre) mod 256"
    using assms(4) by (simp_all add: uint_byte_of)
  then have small: "uint ?hi < 64" using assms(4) by simp
  have enc: "encode_pointer (length pre) = [192 + ?hi, ?lo]" by (simp add: encode_pointer_def)
  have m: "?m = (pre @ encode_labels ts @ [0] @ mid @ encode_labels ls) @ (192 + ?hi) # ?lo # post"
    by (simp add: enc)
  have "length (pre @ encode_labels ts @ [0] @ mid @ encode_labels ls) = ?c" by simp
  then have at: "?m ! ?c = 192 + ?hi" "?m ! (?c + 1) = ?lo" "?c + 1 < length ?m"
    unfolding m by (simp_all only: nth_append_length nth_append) simp_all
  have "be_int [(192 + ?hi) AND 0x3F, ?lo] = int (length pre)"
    using pointer_byte_and [OF small] hi by (simp add: be_int_two)
  then have p: "nat (be_int [(192 + ?hi) AND 0x3F, ?lo]) = length pre" by simp
  have "name_loop ?m ?s [] None {} 1 0 = name_loop ?m ?c ([] @ ls) None {} (1 + length (encode_labels ls)) 0"
    by (rule name_loop_encoded [where post = "encode_pointer (length pre) @ post"]) (use assms in \<open>simp_all add: enc\<close>)
  also have "\<dots> = name_loop ?m (length pre) ls (Some (?c + 2)) {length pre} (1 + length (encode_labels ls)) 1"
    using at p pointer_byte_and(1) [OF small]
    by (subst name_loop.simps) (simp add: MAX_POINTER_JUMPS_def)
  also have "\<dots> = name_loop ?m (length pre + length (encode_labels ts)) (ls @ ts) (Some (?c + 2)) {length pre}
      (1 + length (encode_labels ls) + length (encode_labels ts)) 1"
    by (rule name_loop_encoded [where post = "[0] @ mid @ encode_labels ls @ encode_pointer (length pre) @ post"])
      (use assms in simp_all)
  also have "\<dots> = Inr (ls @ ts, ?c + 2)"
    by (subst name_loop_zero) (simp_all add: nth_append)
  finally show ?thesis using at(3) by (simp add: read_name_def)
qed

lemma mdns_name_bounds_lemma:
  assumes "read_name U message offset = Inr (name, k)"
  shows "offset < k \<and> k \<le> length message \<and>
    (\<exists>ls. name = casefold U (join (lit ''.'') ls) \<and> list_all scalars ls \<and> name_size ls \<le> 254)"
proof -
  from assms obtain ls where loop: "name_loop message offset [] None {} 1 0 = Inr (ls, k)"
    and name: "name = casefold U (join (lit ''.'') ls)"
    by (auto simp: read_name_def result_simps split: if_splits)
  show ?thesis
    using name_loop_Inr [OF loop] name_loop_labels [OF loop] name_loop_size [OF loop] name
    by (auto simp: name_size_def)
qed

section \<open>The cache\<close>

lemma expire_loop_spec:
  "expire_loop ts items cache out =
     (fold (\<lambda>e c. od_pop (fst e) c) (filter (\<lambda>e. \<not> ts < snd (snd e)) items) cache,
      out @ map (\<lambda>e. expired_observation ts (fst (snd e))) (filter (\<lambda>e. \<not> ts < snd (snd e)) items))"
  by (induction ts items cache out rule: expire_loop.induct) simp_all

text \<open>The expiry loop splits the cache into what is still alive and what is due.\<close>

lemma mdns_expire_at_spec:
  assumes "od_ok cache"
  shows "mdns_expire_at ts cache = (filter (\<lambda>e. ts < snd (snd e)) cache,
    map (\<lambda>e. expired_observation ts (fst (snd e))) (filter (\<lambda>e. \<not> ts < snd (snd e)) cache))"
  by (simp add: mdns_expire_at_def expire_loop_spec fold_pop_filter [OF assms])












text \<open>A goodbye has the identity of the announcement it revokes.\<close>

lemma record_fields_identity:
  assumes "record_fields r action = Inr (k, f)" "record_fields r' action' = Inr (k', f')"
    and "rec_name r' = rec_name r" "rec_type r' = rec_type r" "rec_value r' = rec_value r"
  shows "k' = k \<and> filter (\<lambda>kv. fst kv \<noteq> lit ''action'') f' = filter (\<lambda>kv. fst kv \<noteq> lit ''action'') f"
  using assms by (auto simp: record_fields_def split: rdata.splits if_splits)

lemma identity_ttl:
  assumes "mdns_observation c r ts = Inr ob" "mdns_observation c r' ts' = Inr ob'"
    and "rec_name r' = rec_name r" "rec_type r' = rec_type r" "rec_value r' = rec_value r"
  shows "record_identity ob' = record_identity ob"
  using assms record_fields_identity [OF _ _ assms(3-5)]
  by (fastforce simp: mdns_observation_def Let_def result_simps record_identity_def)

lemma apply_records_app:
  "apply_records c ts (rs @ rs') cache out =
     (case apply_records c ts rs cache out of
        (cache', Inl e) \<Rightarrow> (cache', Inl e)
      | (cache', Inr out') \<Rightarrow> apply_records c ts rs' cache' out')"
  by (induction c ts rs cache out rule: apply_records.induct)
    (auto split: sum.splits option.splits datetime.splits)

section \<open>The pipeline's contract\<close>

definition mdns_text_ok :: "mdns_config \<Rightarrow> bool" where
  "mdns_text_ok c \<longleftrightarrow> (\<forall>ch. is_scalar ch \<longrightarrow> scalars (mdns_uni c ch)) \<and>
     (\<forall>k v. scalars k \<longrightarrow> scalars v \<longrightarrow> scalars (redact_item c k v))"

lemma scalars_casefold:
  assumes "\<And>ch. is_scalar ch \<Longrightarrow> scalars (U ch)" "scalars s"
  shows "scalars (casefold U s)"
  using assms(2)
proof (induction s)
  case (Cons ch s)
  then have "is_scalar (ascii_lower ch)" if "ch < 128" using that by (auto simp: ascii_lower_def is_scalar_def)
  with Cons assms(1) show ?case by (simp add: casefold_Cons)
qed simp

lemma read_name_scalars:
  assumes "mdns_text_ok c" "read_name (mdns_uni c) message offset = Inr (name, k)"
  shows "scalars name"
proof -
  obtain ls where ls: "name = casefold (mdns_uni c) (join (lit ''.'') ls)" "list_all scalars ls"
    using mdns_name_bounds_lemma [OF assms(2)] by blast
  then have "scalars (join (lit ''.'') ls)" by (intro scalars_join) (auto simp: list_all_iff [of scalars])
  then show ?thesis using ls assms(1) by (auto simp: mdns_text_ok_def intro: scalars_casefold)
qed

lemma txt_add_clean:
  assumes "clean_json (JDict vs)" "scalars k" "scalars r"
  shows "clean_json (JDict (txt_add k r vs))"
proof -
  have old: "clean_json v" if "map_of vs k = Some v" for v
    using that assms(1) by (auto simp: list_all_iff [of "\<lambda>kv. _ kv \<and> _ kv"] dest!: map_of_SomeD)
  have set: "clean_json (JDict (od_set k v vs))" if "clean_json v" for v
    using od_set_sub [of k v vs] assms that by (auto simp: list_all_iff [of "\<lambda>kv. _ kv \<and> _ kv"])
  show ?thesis
    using old assms(3) by (auto simp: txt_add_def simp del: clean_json.simps(3) intro!: set split: option.split json.split)
qed

lemma txt_item_clean:
  assumes "mdns_text_ok c" "txt_item c raw vs = Inr vs'" "clean_json (JDict vs)"
  shows "clean_json (JDict vs')"
proof -
  from assms(2) obtain item where item: "utf8_decode raw = Some item"
    and vs': "vs' = txt_add (takeWhile (\<lambda>c. c \<noteq> 61) item)
      (redact_item c (takeWhile (\<lambda>c. c \<noteq> 61) item)
        (if 61 \<in> set item then tl (dropWhile (\<lambda>c. c \<noteq> 61) item) else [])) vs"
    by (auto simp: txt_item_def partition_eq_def split: option.splits if_splits)
  have s: "scalars item" using item by (rule scalars_decode)
  then have "scalars (takeWhile (\<lambda>c. c \<noteq> 61) item)" "scalars (tl (dropWhile (\<lambda>c. c \<noteq> 61) item))"
    using set_tl_subset [of "dropWhile (\<lambda>c. c \<noteq> 61) item"]
    by (auto simp: list_all_iff dest: set_takeWhileD set_dropWhileD)
  then show ?thesis unfolding vs' using assms(1,3) by (intro txt_add_clean) (auto simp: mdns_text_ok_def)
qed

lemma parse_txt_clean:
  "parse_txt c data vs = Inr vs' \<Longrightarrow> mdns_text_ok c \<Longrightarrow> clean_json (JDict vs) \<Longrightarrow> clean_json (JDict vs')"
  by (induction c data vs rule: parse_txt.induct)
    (auto simp: result_simps simp del: clean_json.simps(3) split: if_splits intro: txt_item_clean)

lemma parse_txt_clean0: "mdns_text_ok c \<Longrightarrow> parse_txt c data [] = Inr vs \<Longrightarrow> clean_json (JDict vs)"
  by (rule parse_txt_clean [where vs = "[]"]) (assumption | simp)+

fun clean_rdata :: "rdata \<Rightarrow> bool" where
  "clean_rdata (Address a) = scalars a"
| "clean_rdata (Pointer n) = scalars n"
| "clean_rdata (Service p w port t) = scalars t"
| "clean_rdata (Attributes vs) = clean_json (JDict vs)"

lemma parse_rdata_clean:
  assumes "mdns_text_ok c" "parse_rdata c payload start stop t = Inr (Some v)"
  shows "clean_rdata v"
  using assms
  by (auto simp: parse_rdata_def result_simps simp del: clean_json.simps(3) split: if_splits prod.splits
      intro: read_name_scalars parse_txt_clean0)

definition clean_record :: "mdns_record \<Rightarrow> bool" where
  "clean_record r \<longleftrightarrow> scalars (rec_name r) \<and> clean_rdata (rec_value r)"

lemma read_record_clean:
  assumes "mdns_text_ok c" "read_record c p off = Inr (rs, k)" "r \<in> set rs"
  shows "clean_record r"
proof -
  from assms(2,3) obtain name off' t v start stop where "read_name (mdns_uni c) p off = Inr (name, off')"
    "parse_rdata c p start stop t = Inr (Some v)" "rec_name r = name" "rec_value r = v"
    by (auto simp: read_record_def Let_def result_simps split: if_splits option.splits)
  then show ?thesis
    using read_name_scalars [OF assms(1)] parse_rdata_clean [OF assms(1)] by (simp add: clean_record_def)
qed

lemma read_records_clean:
  assumes "mdns_text_ok c"
  shows "read_records c p n off = Inr rs \<Longrightarrow> r \<in> set (fst rs) \<Longrightarrow> clean_record r"
proof (induction n arbitrary: off rs)
  case (Suc n)
  then obtain r1 rs1 where "read_record c p off = Inr r1" "read_records c p n (snd r1) = Inr rs1" "fst rs = fst r1 @ fst rs1"
    by (auto simp: result_simps)
  then show ?case
    using Suc.prems(2) read_record_clean [OF assms, of p off "fst r1" "snd r1" r] Suc.IH [of "snd r1" rs1]
    by (metis Un_iff prod.collapse set_append)
qed simp

lemma parse_message_clean: "mdns_text_ok c \<Longrightarrow> parse_message c p = Inr rs \<Longrightarrow> r \<in> set rs \<Longrightarrow> clean_record r"
  by (auto simp: parse_message_def Let_def result_simps split: if_splits dest: read_records_clean)

lemma mdns_observation_clean:
  assumes "clean_record r" "dt_in_range ts" "mdns_observation c r ts = Inr ob"
  shows "clean_observation ob"
  using assms
  by (auto simp: mdns_observation_def Let_def result_simps clean_observation_def record_fields_def clean_record_def
      utc_stamp_def split: if_splits rdata.splits)

definition mdns_clean :: "mdns_cache \<Rightarrow> bool" where
  "mdns_clean cache \<longleftrightarrow> (\<forall>e \<in> set cache. clean_observation (fst (snd e)))"

lemma mdns_clean_store:
  assumes "mdns_clean cache" "clean_observation ob"
  shows "mdns_clean (cache_store cap k (ob, x) cache)"
proof -
  have "set (od_move_to_end k (od_set k (ob, x) cache)) \<subseteq> insert (k, ob, x) (set cache)"
    unfolding od_move_set by (auto simp: AList.delete_eq)
  then show ?thesis
    using assms by (auto simp: mdns_clean_def cache_store_def Let_def dest!: in_set_dropD)
qed

lemma mdns_clean_pop: "mdns_clean cache \<Longrightarrow> mdns_clean (od_pop k cache)"
  using od_pop_sub [of k cache] by (auto simp: mdns_clean_def)

lemma apply_records_clean:
  "apply_records c ts rs cache out = (cache', res) \<Longrightarrow> mdns_clean cache \<Longrightarrow> list_all clean_record rs \<Longrightarrow>
     list_all clean_observation out \<Longrightarrow> dt_in_range ts \<Longrightarrow>
     mdns_clean cache' \<and> (\<forall>obs. res = Inr obs \<longrightarrow> list_all clean_observation obs)"
proof (induction c ts rs cache out rule: apply_records.induct)
  case (2 c ts r rs cache out)
  have st: "mdns_clean (cache_store cap k (ob, x) cache)" if "clean_observation ob" for cap k ob x
    using "2.prems"(2) that by (rule mdns_clean_store)
  have pop: "mdns_clean (od_pop k cache)" for k using "2.prems"(2) by (rule mdns_clean_pop)
  show ?case
    using 2 st pop mdns_observation_clean [of r ts c]
    by (auto split: sum.splits if_splits option.splits datetime.splits)
qed auto

lemma expire_loop_clean:
  "expire_loop ts items cache out = (cache', out') \<Longrightarrow> dt_in_range ts \<Longrightarrow> mdns_clean items \<Longrightarrow> mdns_clean cache \<Longrightarrow>
     list_all clean_observation out \<Longrightarrow> mdns_clean cache' \<and> list_all clean_observation out'"
proof (induction ts items cache out rule: expire_loop.induct)
  case (2 ts ident ob expires_at items cache out)
  have "clean_observation (expired_observation ts ob)" if "clean_observation ob"
    using that "2.prems"(2) clean_fset [of "ob_fields ob" "jstr ''expired''" "''action''"]
    by (simp add: clean_observation_def expired_observation_def utc_stamp_def del: clean_json.simps(3))
  with 2 show ?case by (auto simp: mdns_clean_def split: if_splits dest: mdns_clean_pop [unfolded mdns_clean_def])
qed auto

lemma mdns_parser_clean:
  assumes "mdns_text_ok c" "mdns_clean cache" "mdns_parser c cache frame = (cache', res)"
  shows "mdns_clean cache' \<and> (\<forall>its. res = Inr its \<longrightarrow> (\<forall>it \<in> set its. \<exists>ob. it = Obs ob \<and> clean_observation ob))"
proof -
  consider "cache' = cache" "\<exists>e. res = Inl e" | ts cache1 out where
      "as_utc (local_offset c) (fr_observed_at frame) = Inr ts" "mdns_expire_at ts cache = (cache1, out)"
      "\<exists>e. cache' = cache1 \<and> res = Inl e"
    | ts cache1 out rs r where
      "as_utc (local_offset c) (fr_observed_at frame) = Inr ts" "mdns_expire_at ts cache = (cache1, out)"
      "parse_message c (fr_payload frame) = Inr rs" "apply_records c ts rs cache1 out = (cache', r)"
      "res = (case r of Inl e \<Rightarrow> Inl e | Inr obs \<Rightarrow> Inr (map Obs obs))"
    using assms(3) by (auto simp: mdns_parser_def split: if_splits sum.splits prod.splits)
  then show ?thesis
  proof cases
    case 2
    then have "dt_in_range ts" by (auto simp: as_utc_def dest: utc_instant_range)
    with 2 show ?thesis
      using expire_loop_clean [of ts cache cache "[]" cache1 out] assms(2) by (auto simp: mdns_expire_at_def)
  next
    case 3
    then have ts: "dt_in_range ts" by (auto simp: as_utc_def dest: utc_instant_range)
    have "mdns_clean cache1 \<and> list_all clean_observation out"
      using 3(2) expire_loop_clean [of ts cache cache "[]" cache1 out] assms(2) ts by (auto simp: mdns_expire_at_def)
    moreover have "list_all clean_record rs" using parse_message_clean [OF assms(1) 3(3)] by (auto simp: list_all_iff)
    ultimately show ?thesis
      using apply_records_clean [OF 3(4) _ _ _ ts] 3(5) by (auto simp: list_all_iff split: sum.splits)
  qed (use assms(2) in auto)
qed

interpretation mdns: passive_parser "mdns_parser c" "\<lambda>cache. mdns_text_ok c \<and> mdns_clean cache"
  by unfold_locales (use mdns_parser_clean in \<open>fastforce simp: prod_eq_iff\<close>)+

section \<open>Properties\<close>

text \<open>C7. Names survive the wire, plain and compressed: reading at the encoding of a list of labels gives
  their dotted, case-folded text and the offset just after them; when the encoding ends in a
  compression pointer to an earlier name, the earlier labels are appended and the offset is the one
  after the pointer.\<close>

theorem mdns_name_roundtrip:
  assumes "list_all label_ok ls" "list_all label_ok ts" "length (encode_labels ls) + length (encode_labels ts) \<le> 254"
    and "length pre < 16384"
  shows "read_name U (pre @ encode_labels ls @ 0 # post) (length pre) =
      Inr (casefold U (join (lit ''.'') ls), length pre + length (encode_labels ls) + 1) \<and>
    read_name U (pre @ encode_labels ts @ [0] @ mid @ encode_labels ls @ encode_pointer (length pre) @ post)
      (length (pre @ encode_labels ts @ [0] @ mid)) =
      Inr (casefold U (join (lit ''.'') (ls @ ts)),
        length (pre @ encode_labels ts @ [0] @ mid) + length (encode_labels ls) + 2)"
  by (intro conjI read_name_plain read_name_pointed) (use assms in simp_all)

theorem mdns_name_roundtrip_witness:
  "read_name (\<lambda>c. [c]) ([] @ encode_labels [lit ''local''] @ [0] @ [] @ encode_labels [lit ''a''] @ encode_pointer 0 @ [])
     (length ([] @ encode_labels [lit ''local''] @ [0] @ [])) = Inr (lit ''a.local'', 11)"
proof -
  have ok: "list_all label_ok [lit ''a'']" "list_all label_ok [lit ''local'']"
    by (simp_all add: label_ok_def label_bytes_def lit_def utf8_encode_char_def is_scalar_def)
  have len: "length (encode_labels [lit ''a'']) = 2" "length (encode_labels [lit ''local'']) = 6"
    by (simp_all add: encode_labels_def label_bytes_def lit_def utf8_encode_char_def)
  have "casefold (\<lambda>c. [c]) (join (lit ''.'') [lit ''a'', lit ''local'']) = lit ''a.local''"
    by (simp add: lit_def casefold_def ascii_lower_def)
  with mdns_name_roundtrip [OF ok, of "[]" "\<lambda>c. [c]" "[]" "[]"] len show ?thesis by simp
qed

text \<open>Reading a name always terminates and stays in the message: whatever the pointers do, a name that is
  accepted ends after it began and inside the message, and its labels with their length bytes take at
  most 254 bytes.\<close>

theorem mdns_name_bounds:
  assumes "read_name U message offset = Inr (name, k)"
  shows "offset < k \<and> k \<le> length message \<and>
    (\<exists>ls. name = casefold U (join (lit ''.'') ls) \<and> list_all scalars ls \<and> name_size ls \<le> 254)"
  using mdns_name_bounds_lemma [OF assms] .

theorem mdns_name_bounds_witness:
  "\<exists>ls. lit ''a'' = casefold (\<lambda>c. [c]) (join (lit ''.'') ls) \<and> name_size ls \<le> 254"
proof -
  have "list_all label_ok [lit ''a'']" "length (encode_labels [lit ''a'']) = 2"
    by (simp_all add: label_ok_def label_bytes_def lit_def utf8_encode_char_def is_scalar_def encode_labels_def)
  then have "read_name (\<lambda>c. [c]) ([] @ encode_labels [lit ''a''] @ 0 # []) (length []) =
      Inr (casefold (\<lambda>c. [c]) (join (lit ''.'') [lit ''a'']), 3)"
    using read_name_plain [of "[lit ''a'']" "\<lambda>c. [c]" "[]" "[]"] by simp
  moreover have "casefold (\<lambda>c. [c]) (join (lit ''.'') [lit ''a'']) = lit ''a''"
    by (simp add: lit_def casefold_def ascii_lower_def)
  ultimately show ?thesis using mdns_name_bounds by (metis (no_types))
qed


definition demo_mdns :: mdns_config where
  "demo_mdns = \<lparr>max_message_bytes = 9000, max_questions = 128, max_records = 512, max_txt_bytes = 1300,
     max_cache_entries = 2, max_ttl_seconds = 60, redact_item = (\<lambda>k v. v), mdns_uni = (\<lambda>c. [c]), local_offset = (\<lambda>t. 0)\<rparr>"

definition demo_service :: observation where
  "demo_service = \<lparr>ob_kind = lit ''mdns_service'',
     ob_fields = [(lit ''service_type'', jstr ''s''), (lit ''instance'', jstr ''i''), (lit ''action'', jstr ''announce'')],
     ob_source = lit ''mdns'', ob_observed_at = Some (utc_dt 0), ob_expires_at = Some (utc_dt 1000000)\<rparr>"

definition demo_cache :: mdns_cache where
  "demo_cache = [(record_identity demo_service, demo_service, 1000000)]"

definition demo_mdns_frame :: "bytes \<Rightarrow> passive_frame" where
  "demo_mdns_frame payload = \<lparr>fr_protocol = lit ''mdns'', fr_payload = payload, fr_observed_at = utc_dt 2000000,
     fr_interface = None\<rparr>"


lemma demo_mdns_time:
  "casefold (mdns_uni demo_mdns) (fr_protocol (demo_mdns_frame p)) = lit ''mdns''"
  "as_utc (local_offset demo_mdns) (fr_observed_at (demo_mdns_frame p)) = Inr 2000000"
  by (simp_all add: demo_mdns_def demo_mdns_frame_def casefold_def lit_def ascii_lower_def as_utc_def
      dt_in_range_def dt_min_def dt_max_def)


text \<open>A goodbye revokes its announcement: after a message whose last record is a goodbye (time to live
  zero), the cache holds no entry for that name, type and value, whatever was announced before and
  with whatever time to live.\<close>

theorem mdns_goodbye_removes:
  assumes "apply_records c ts (rs @ [r]) cache out = (cache', Inr obs)" "rec_ttl r = 0"
    and "mdns_observation c r' ts' = Inr announced"
    and "rec_name r' = rec_name r" "rec_type r' = rec_type r" "rec_value r' = rec_value r"
  shows "map_of cache' (record_identity announced) = None \<and>
    fget (ob_fields (last obs)) ''action'' = Some (jstr ''goodbye'')"
proof -
  from assms(1,2) obtain cache1 out1 ob where ob: "mdns_observation c r ts = Inr ob"
    and e: "cache' = od_pop (record_identity ob) cache1" "obs = out1 @ [ob]"
    by (auto simp: apply_records_app split: prod.splits sum.splits)
  have "record_identity announced = record_identity ob" by (rule identity_ttl [OF ob assms(3-6)])
  moreover have "fget (ob_fields ob) ''action'' = Some (jstr ''goodbye'')"
    using ob assms(2) by (auto simp: mdns_observation_def Let_def result_simps record_fields_def split: rdata.splits if_splits)
  ultimately show ?thesis using e by (simp add: od_get_pop)
qed

definition demo_record :: "int \<Rightarrow> mdns_record" where
  "demo_record ttl = \<lparr>rec_name = lit ''s'', rec_type = 12, rec_ttl = ttl, rec_value = Pointer (lit ''i'')\<rparr>"

theorem mdns_goodbye_removes_witness:
  "map_of (fst (apply_records demo_mdns 0 [demo_record 0] demo_cache [])) (record_identity demo_service) = None"
proof -
  obtain cache' obs where a: "apply_records demo_mdns 0 ([] @ [demo_record 0]) demo_cache [] = (cache', Inr obs)"
    by (simp add: demo_record_def mdns_observation_def record_fields_def)
  have "mdns_observation demo_mdns (demo_record 1) 0 = Inr demo_service"
    by (simp add: mdns_observation_def demo_record_def record_fields_def demo_service_def demo_mdns_def seconds_def
        dt_in_range_def dt_min_def dt_max_def)
  from mdns_goodbye_removes [OF a _ this] a show ?thesis by (simp add: demo_record_def)
qed

text \<open>A malformed message silences due expiries: the parser drops every due entry from its cache before it
  parses the message, and when the message is then rejected the exception replaces the result, so no
  observation ever reports that those entries expired.\<close>

theorem mdns_malformed_loses_expiry:
  assumes "od_ok cache" "casefold (mdns_uni c) (fr_protocol frame) \<in> {lit ''mdns'', lit ''dns-sd''}"
    and "as_utc (local_offset c) (fr_observed_at frame) = Inr ts" "parse_message c (fr_payload frame) = Inl e"
  shows "mdns_parser c cache frame = (filter (\<lambda>x. ts < snd (snd x)) cache, Inl e)"
  using assms by (auto simp: mdns_parser_def mdns_expire_at_spec)

theorem mdns_malformed_loses_expiry_witness:
  "mdns_parser demo_mdns demo_cache (demo_mdns_frame []) = ([], Inl (PassiveParseError (lit ''truncated mDNS header'')))"
proof -
  have "parse_message demo_mdns (fr_payload (demo_mdns_frame [])) = Inl (PassiveParseError (lit ''truncated mDNS header''))"
    by (simp add: parse_message_def demo_mdns_frame_def)
  from mdns_malformed_loses_expiry [OF _ _ demo_mdns_time(2) this, of demo_cache] show ?thesis
    by (simp add: demo_mdns_time demo_cache_def od_ok_def)
qed

end
