(* ===== verification/Neighbor.thy ===== *)
theory Neighbor
  imports Parser_Contract
begin

text \<open>
  \<open>neighbor.py\<close>: evidence that an IPv4 address was seen with a MAC address, from ARP frames and from
  kernel neighbour records, and the tracker that deduplicates, ages and compares it. Times are
  instants of UTC and durations, both in microseconds.
\<close>

abbreviation parse_error :: "string \<Rightarrow> 'a result" where
  "parse_error s \<equiv> Inl (PassiveParseError (lit s))"

definition MAX_ARP_PAYLOAD_BYTES :: nat where "MAX_ARP_PAYLOAD_BYTES = 256"

definition VALID_STATES :: "string list" where
  "VALID_STATES = [''permanent'', ''noarp'', ''reachable'', ''stale'', ''none'', ''incomplete'', ''delay'', ''probe'', ''failed'']"

section \<open>Normalisation\<close>

definition neighbor_utc :: "datetime \<Rightarrow> int result" where
  "neighbor_utc = utc_instant (ValueError (lit ''neighbor timestamp must be timezone-aware''))"

definition neighbor_ipv4 :: "pystr \<Rightarrow> pystr result" where
  "neighbor_ipv4 value =
     (case ipv4_normal value of
        None \<Rightarrow> parse_error ''neighbor IPv4 address is invalid''
      | Some s \<Rightarrow> Inr s)"

text \<open>\<open>bytes.fromhex\<close>: pairs of hexadecimal digits, with ASCII white space allowed between the pairs.\<close>

definition hex_value :: "int \<Rightarrow> int option" where
  "hex_value c =
     (if 48 \<le> c \<and> c \<le> 57 then Some (c - 48)
      else if 97 \<le> c \<and> c \<le> 102 then Some (c - 87)
      else if 65 \<le> c \<and> c \<le> 70 then Some (c - 55)
      else None)"

definition ascii_space :: "int \<Rightarrow> bool" where
  "ascii_space c \<longleftrightarrow> 9 \<le> c \<and> c \<le> 13 \<or> c = 32"

fun from_hex :: "pystr \<Rightarrow> bytes option" where
  "from_hex [] = Some []"
| "from_hex [c] = (if ascii_space c then Some [] else None)"
| "from_hex (c # d # cs) =
     (if ascii_space c then from_hex (d # cs)
      else (case (hex_value c, hex_value d) of
          (Some x, Some y) \<Rightarrow> map_option ((#) (byte_of (x * 16 + y))) (from_hex cs)
        | _ \<Rightarrow> None))"

definition neighbor_mac :: "pystr \<Rightarrow> pystr result" where
  "neighbor_mac value =
     (let plain = filter (\<lambda>c. c \<noteq> 45) (filter (\<lambda>c. c \<noteq> 58) (strip value)) in
      if length plain \<noteq> 12 then parse_error ''neighbor MAC address is invalid''
      else (case from_hex plain of
          None \<Rightarrow> parse_error ''neighbor MAC address is invalid''
        | Some raw \<Rightarrow> Inr (mac_text raw)))"

section \<open>Evidence\<close>

record neighbor_evidence =
  ev_address :: pystr
  ev_mac :: "pystr option"
  ev_interface :: pystr
  ev_state :: pystr
  ev_source :: pystr
  ev_observed_at :: int
  ev_operation :: "pystr option"

text \<open>The constructor with \<open>__post_init__\<close>.\<close>

definition new_evidence ::
    "unidata \<Rightarrow> pystr \<Rightarrow> pystr option \<Rightarrow> pystr \<Rightarrow> pystr \<Rightarrow> pystr \<Rightarrow> datetime \<Rightarrow> pystr option \<Rightarrow> neighbor_evidence result" where
  "new_evidence U address mac ifname state src observed_at operation =
     bindR (neighbor_ipv4 address) (\<lambda>address.
     bindR (case mac of None \<Rightarrow> Inr None | Some m \<Rightarrow> bindR (neighbor_mac m) (\<lambda>m. Inr (Some m))) (\<lambda>mac.
     let ifname = strip ifname; src = strip src; state = casefold U (strip state) in
     if ifname = [] \<or> src = [] then parse_error ''neighbor interface and source must not be empty''
     else if state \<notin> lit ` set VALID_STATES then parse_error ''neighbor state is unsupported''
     else bindR (neighbor_utc observed_at) (\<lambda>ts.
       Inr \<lparr>ev_address = address, ev_mac = mac, ev_interface = ifname, ev_state = state, ev_source = src,
         ev_observed_at = ts, ev_operation = operation\<rparr>)))"

definition parse_arp_evidence :: "unidata \<Rightarrow> passive_frame \<Rightarrow> neighbor_evidence result" where
  "parse_arp_evidence U frame =
     (let payload = fr_payload frame in
      if casefold U (fr_protocol frame) \<noteq> lit ''arp'' then parse_error ''ARP parser received a different protocol''
      else if length payload < 8 then parse_error ''ARP payload is shorter than its header''
      else if MAX_ARP_PAYLOAD_BYTES < length payload then parse_error ''ARP payload exceeds the parser size limit''
      else (let hardware_type = be_int (slice 0 2 payload); protocol_type = be_int (slice 2 4 payload);
                hardware_length = unat (payload ! 4); protocol_length = unat (payload ! 5);
                operation = be_int (slice 6 8 payload)
        in if hardware_type \<noteq> 1 \<or> protocol_type \<noteq> 0x0800 then parse_error ''ARP hardware or protocol type is unsupported''
           else if hardware_length \<noteq> 6 \<or> protocol_length \<noteq> 4 then parse_error ''ARP address lengths are unsupported''
           else if operation \<notin> {1, 2} then parse_error ''ARP operation is unsupported''
           else (let required = 8 + (2 * hardware_length) + (2 * protocol_length) in
             if length payload < required then parse_error ''ARP address fields are truncated''
             else (let sender_mac = mac_text (slice 8 14 payload); sender_ip = ipv4_of_bytes (slice 14 18 payload) in
               if sender_ip = lit ''0.0.0.0'' then parse_error ''ARP sender IPv4 address is unspecified''
               else new_evidence U sender_ip (Some sender_mac)
                 (case fr_interface frame of None \<Rightarrow> lit ''unknown'' | Some i \<Rightarrow> if i = [] then lit ''unknown'' else i)
                 (lit ''reachable'') (lit ''passive.arp'') (fr_observed_at frame)
                 (Some (if operation = 1 then lit ''request'' else lit ''reply''))))))"

text \<open>A decoded record of \<open>ip -j neighbour\<close>; the result is \<open>None\<close> for another interface.\<close>

definition kernel_state :: "json option \<Rightarrow> pystr result" where
  "kernel_state v =
     (case v of
        None \<Rightarrow> Inr (lit ''none'')
      | Some (JStr s) \<Rightarrow> Inr s
      | Some (JList xs) \<Rightarrow>
          (case xs of
             JStr s # rest \<Rightarrow> if list_all (\<lambda>x. case x of JStr _ \<Rightarrow> True | _ \<Rightarrow> False) rest then Inr s
               else parse_error ''kernel neighbor state is invalid''
           | _ \<Rightarrow> parse_error ''kernel neighbor state is invalid'')
      | Some _ \<Rightarrow> parse_error ''kernel neighbor state is invalid'')"

definition parse_kernel_neighbor ::
    "unidata \<Rightarrow> fields \<Rightarrow> datetime \<Rightarrow> pystr option \<Rightarrow> neighbor_evidence option result" where
  "parse_kernel_neighbor U rec observed_at selected =
     (case (fget rec ''dev'', fget rec ''dst'') of
        (Some (JStr ifname), Some (JStr address)) \<Rightarrow>
          if selected \<noteq> None \<and> Some ifname \<noteq> selected then Inr None
          else bindR (kernel_state (fget rec ''state'')) (\<lambda>state.
            bindR (case fget rec ''lladdr'' of
                None \<Rightarrow> Inr None | Some JNull \<Rightarrow> Inr None | Some (JStr m) \<Rightarrow> Inr (Some m)
              | Some _ \<Rightarrow> parse_error ''kernel neighbor lladdr must be text'') (\<lambda>mac.
            bindR (new_evidence U address mac ifname state (lit ''kernel.neighbor'') observed_at None) (\<lambda>ev. Inr (Some ev))))
      | _ \<Rightarrow> parse_error ''kernel neighbor requires dev and dst strings'')"

section \<open>The tracker\<close>

record tracked_neighbor =
  tr_evidence :: neighbor_evidence
  tr_first_seen :: int
  tr_last_seen :: int
  tr_last_emitted :: int
  tr_expires_at :: int

type_synonym neighbor_key = "pystr \<times> pystr option \<times> pystr"
type_synonym neighbors = "(neighbor_key, tracked_neighbor) odict"

record tracker_config =
  tc_max_age :: int
  tc_dedupe_window :: int
  tc_max_entries :: nat

definition new_tracker :: "int \<Rightarrow> int \<Rightarrow> int \<Rightarrow> (tracker_config \<times> neighbors) result" where
  "new_tracker max_age dedupe_window max_entries =
     (if max_age \<le> 0 \<or> dedupe_window < 0 \<or> max_entries < 1
      then Inl (ValueError (lit ''neighbor age, dedupe, and capacity bounds are invalid''))
      else Inr (\<lparr>tc_max_age = max_age, tc_dedupe_window = dedupe_window, tc_max_entries = nat max_entries\<rparr>, []))"

definition tracked_observation :: "tracked_neighbor \<Rightarrow> observation" where
  "tracked_observation tr =
     (let ev = tr_evidence tr in
      \<lparr>ob_kind = lit ''neighbor_observation'',
       ob_fields = [(lit ''address'', JStr (ev_address ev)), (lit ''mac_address'', json_of_opt (ev_mac ev)),
         (lit ''interface'', JStr (ev_interface ev)), (lit ''state'', JStr (ev_state ev)),
         (lit ''operation'', json_of_opt (ev_operation ev)), (lit ''first_seen'', JStr (isoformat (tr_first_seen tr))),
         (lit ''last_seen'', JStr (isoformat (tr_last_seen tr)))],
       ob_source = ev_source ev, ob_observed_at = Some (utc_dt (ev_observed_at ev)),
       ob_expires_at = Some (utc_dt (tr_expires_at tr))\<rparr>)"

definition neighbor_conflict :: "string \<Rightarrow> neighbor_evidence \<Rightarrow> fields \<Rightarrow> observation" where
  "neighbor_conflict kind ev details =
     \<lparr>ob_kind = lit kind,
      ob_fields = [(lit ''address'', JStr (ev_address ev)), (lit ''mac_address'', json_of_opt (ev_mac ev)),
        (lit ''interface'', JStr (ev_interface ev))] @ details,
      ob_source = ev_source ev, ob_observed_at = Some (utc_dt (ev_observed_at ev)), ob_expires_at = None\<rparr>"

text \<open>\<open>sorted({... for item in entries.values() if ...})\<close>\<close>

definition prior_macs :: "neighbor_evidence \<Rightarrow> pystr \<Rightarrow> neighbors \<Rightarrow> pystr list" where
  "prior_macs ev mac entries =
     sort (remdups (List.map_filter (\<lambda>(k, tr).
       if ev_address (tr_evidence tr) = ev_address ev \<and> ev_interface (tr_evidence tr) = ev_interface ev
          \<and> ev_mac (tr_evidence tr) \<noteq> None \<and> ev_mac (tr_evidence tr) \<noteq> Some mac
       then ev_mac (tr_evidence tr) else None) entries))"

definition prior_addresses :: "neighbor_evidence \<Rightarrow> pystr \<Rightarrow> neighbors \<Rightarrow> pystr list" where
  "prior_addresses ev mac entries =
     sort (remdups (List.map_filter (\<lambda>(k, tr).
       if ev_mac (tr_evidence tr) = Some mac \<and> ev_interface (tr_evidence tr) = ev_interface ev
          \<and> ev_address (tr_evidence tr) \<noteq> ev_address ev
       then Some (ev_address (tr_evidence tr)) else None) entries))"

definition neighbor_conflicts :: "neighbor_evidence \<Rightarrow> neighbors \<Rightarrow> observation list" where
  "neighbor_conflicts ev entries =
     (case ev_mac ev of
        None \<Rightarrow> []
      | Some mac \<Rightarrow>
          (let macs = prior_macs ev mac entries; addresses = prior_addresses ev mac entries in
           (if macs = [] then []
            else [neighbor_conflict ''neighbor_ip_reuse'' ev
              [(lit ''previous_macs'', JList (map JStr macs)), (lit ''current_mac'', JStr mac)]]) @
           (if addresses = [] then []
            else [neighbor_conflict ''neighbor_mac_movement'' ev
              [(lit ''previous_addresses'', JList (map JStr addresses)), (lit ''current_address'', JStr (ev_address ev))]])))"

definition evidence_key :: "neighbor_evidence \<Rightarrow> neighbor_key" where
  "evidence_key ev = (ev_address ev, ev_mac ev, ev_interface ev)"

text \<open>
  \<open>now + max_age\<close> raises past the year 9999; for a known neighbour the last-seen time has been
  written by then.
\<close>

definition expiry_of :: "tracker_config \<Rightarrow> int \<Rightarrow> int result" where
  "expiry_of c now =
     (if dt_in_range (now + tc_max_age c) then Inr (now + tc_max_age c)
      else Inl (OverflowError (lit ''date value out of range'')))"

definition tracker_observe :: "tracker_config \<Rightarrow> neighbors \<Rightarrow> neighbor_evidence \<Rightarrow> neighbors \<times> observation list result" where
  "tracker_observe c entries ev =
     (let now = ev_observed_at ev; key = evidence_key ev in
      case map_of entries key of
        Some existing \<Rightarrow>
          (case expiry_of c now of
             Inl e \<Rightarrow> (od_set key (existing\<lparr>tr_last_seen := now\<rparr>) entries, Inl e)
           | Inr expires_at \<Rightarrow>
               (let seen = existing\<lparr>tr_last_seen := now, tr_expires_at := expires_at, tr_evidence := ev\<rparr> in
                if now - tr_last_emitted existing < tc_dedupe_window c
                then (od_move_to_end key (od_set key seen entries), Inr [])
                else (let emitted = seen\<lparr>tr_last_emitted := now\<rparr> in
                  (od_move_to_end key (od_set key emitted entries), Inr [tracked_observation emitted]))))
      | None \<Rightarrow>
          (let output = neighbor_conflicts ev entries in
           case expiry_of c now of
             Inl e \<Rightarrow> (entries, Inl e)
           | Inr expires_at \<Rightarrow>
               (let tracked = \<lparr>tr_evidence = ev, tr_first_seen = now, tr_last_seen = now, tr_last_emitted = now,
                      tr_expires_at = expires_at\<rparr>
                in (od_store (tc_max_entries c) key tracked entries, Inr (tracked_observation tracked # output)))))"

definition neighbor_expired :: "int \<Rightarrow> tracked_neighbor \<Rightarrow> observation" where
  "neighbor_expired current tr =
     \<lparr>ob_kind = lit ''neighbor_expired'',
      ob_fields = [(lit ''address'', JStr (ev_address (tr_evidence tr))),
        (lit ''mac_address'', json_of_opt (ev_mac (tr_evidence tr))),
        (lit ''interface'', JStr (ev_interface (tr_evidence tr))),
        (lit ''last_seen'', JStr (isoformat (tr_last_seen tr)))],
      ob_source = ev_source (tr_evidence tr), ob_observed_at = Some (utc_dt current), ob_expires_at = None\<rparr>"

fun tracker_expire_loop ::
    "int \<Rightarrow> (neighbor_key \<times> tracked_neighbor) list \<Rightarrow> neighbors \<Rightarrow> observation list \<Rightarrow> neighbors \<times> observation list" where
  "tracker_expire_loop current [] entries out = (entries, out)"
| "tracker_expire_loop current ((key, tr) # items) entries out =
     (if current < tr_expires_at tr then tracker_expire_loop current items entries out
      else tracker_expire_loop current items (od_pop key entries) (out @ [neighbor_expired current tr]))"

definition tracker_expire :: "neighbors \<Rightarrow> datetime \<Rightarrow> (neighbors \<times> observation list) result" where
  "tracker_expire entries now =
     bindR (neighbor_utc now) (\<lambda>current. Inr (tracker_expire_loop current entries entries []))"

definition arp_parser :: "unidata \<Rightarrow> tracker_config \<Rightarrow> neighbors parser" where
  "arp_parser U c entries frame =
     (case parse_arp_evidence U frame of
        Inl e \<Rightarrow> (entries, Inl e)
      | Inr ev \<Rightarrow> (case tracker_observe c entries ev of
            (entries', Inl e) \<Rightarrow> (entries', Inl e)
          | (entries', Inr obs) \<Rightarrow> (entries', Inr (map Obs obs))))"

section \<open>MAC addresses\<close>

lemma hex_value_digit: "0 \<le> d \<Longrightarrow> d < 16 \<Longrightarrow> hex_value (hex_digit d) = Some d"
  by (simp add: hex_value_def hex_digit_def)

lemma hex_digit_range: "0 \<le> d \<Longrightarrow> d < 16 \<Longrightarrow> 48 \<le> hex_digit d \<and> hex_digit d \<le> 102 \<and> hex_digit d \<noteq> 58"
  by (simp add: hex_digit_def)

lemma byte_nibbles: "0 \<le> uint (b :: 8 word) div 16" "uint (b :: 8 word) div 16 < 16" "0 \<le> uint b mod 16" "uint b mod 16 < 16"
  using uint_byte [of b] by - linarith+

lemma hex2_digits: "c \<in> set (hex2 b) \<Longrightarrow> 48 \<le> c \<and> c \<le> 102 \<and> c \<noteq> 58"
  using hex_digit_range [OF byte_nibbles(1,2)] hex_digit_range [OF byte_nibbles(3,4)] by (auto simp: hex2_def)

lemma from_hex_bytes: "from_hex (hex_bytes raw @ rest) = map_option ((@) raw) (from_hex rest)"
proof (induction raw)
  case (Cons b raw)
  have "\<not> ascii_space (hex_digit (uint b div 16))"
    using hex_digit_range [OF byte_nibbles(1,2), of b] by (auto simp: ascii_space_def)
  moreover have "byte_of (uint b div 16 * 16 + uint b mod 16) = b" by simp
  ultimately show ?case
    using Cons by (simp add: hex_bytes_def hex2_def hex_value_digit byte_nibbles option.map_comp comp_def)
qed (simp add: hex_bytes_def option.map_ident)

lemma from_hex_length:
  "from_hex s = Some raw \<Longrightarrow> 2 * length raw + length (filter ascii_space s) = length s"
proof (induction s arbitrary: raw rule: from_hex.induct)
  case (3 c d cs)
  show ?case
  proof (cases "ascii_space c")
    case True
    with 3 show ?thesis by simp
  next
    case False
    with "3.prems" obtain x y raw' where r: "hex_value c = Some x" "hex_value d = Some y" "from_hex cs = Some raw'"
      "raw = byte_of (x * 16 + y) # raw'"
      by (auto split: option.splits)
    then have "\<not> ascii_space d" by (auto simp: hex_value_def ascii_space_def split: if_splits)
    with r False "3.IH"(2) show ?thesis by simp
  qed
qed (auto split: if_splits)

lemma filter_id: "(\<And>x. x \<in> set xs \<Longrightarrow> P x) \<Longrightarrow> filter P xs = xs"
  by (simp add: filter_id_conv)

lemma mac_text_filter: "filter (\<lambda>c. c \<noteq> 58) (mac_text raw) = hex_bytes raw"
proof -
  have "filter (\<lambda>c. c \<noteq> 58) (join (lit '':'') (map hex2 bs)) = concat (map hex2 bs)" for bs
  proof (induction bs rule: induct_list012)
    case (2 b)
    show ?case using hex2_digits by (simp add: filter_id)
  next
    case (3 b b' bs)
    have "filter (\<lambda>c. c \<noteq> 58) (hex2 b) = hex2 b" using hex2_digits by (intro filter_id) auto
    moreover have "filter (\<lambda>c. c \<noteq> 58) (lit '':'') = []" by (simp add: lit_def)
    ultimately show ?case using 3 by simp
  qed simp
  then show ?thesis by (simp add: mac_text_def hex_bytes_def)
qed

lemma mac_text_chars: "c \<in> set (mac_text raw) \<Longrightarrow> 48 \<le> c \<and> c \<le> 102"
proof -
  have "c \<in> set (join (lit '':'') (map hex2 bs)) \<Longrightarrow> 48 \<le> c \<and> c \<le> 102" for bs
  proof (induction bs rule: induct_list012)
    case (2 b)
    then show ?case using hex2_digits by auto
  next
    case (3 b b' bs)
    then show ?case using hex2_digits by (auto simp: lit_def)
  qed simp
  then show "c \<in> set (mac_text raw) \<Longrightarrow> 48 \<le> c \<and> c \<le> 102" by (simp add: mac_text_def)
qed

lemma length_hex_bytes: "length (hex_bytes raw) = 2 * length raw"
  by (induction raw) (simp_all add: hex_bytes_def hex2_def)

lemma mac_text_strip: "raw \<noteq> [] \<Longrightarrow> strip (mac_text raw) = mac_text raw"
proof -
  assume "raw \<noteq> []"
  then have "hex_bytes raw \<noteq> []" using length_hex_bytes [of raw] by (cases "hex_bytes raw") auto
  then have ne: "mac_text raw \<noteq> []" using mac_text_filter [of raw] by (metis filter.simps(1))
  have "\<not> py_isspace c" if "c \<in> set (mac_text raw)" for c
    using mac_text_chars [OF that] by (auto simp: py_isspace_def)
  with ne show ?thesis by (intro strip_with_id) auto
qed

text \<open>A MAC address the program formats is a fixed point of the normalisation.\<close>

lemma neighbor_mac_text: "length raw = 6 \<Longrightarrow> neighbor_mac (mac_text raw) = Inr (mac_text raw)"
proof -
  assume l: "length raw = 6"
  have "filter (\<lambda>c. c \<noteq> 45) (hex_bytes raw) = hex_bytes raw"
    using hex2_digits by (intro filter_id) (fastforce simp: hex_bytes_def)
  moreover have "from_hex (hex_bytes raw) = Some raw" using from_hex_bytes [of raw "[]"] by simp
  moreover have "strip (mac_text raw) = mac_text raw" using l by (intro mac_text_strip) auto
  ultimately show ?thesis using l by (simp add: neighbor_mac_def mac_text_filter length_hex_bytes)
qed

lemma neighbor_ipv4_bytes: "length raw = 4 \<Longrightarrow> neighbor_ipv4 (ipv4_of_bytes raw) = Inr (ipv4_of_bytes raw)"
  using be_int_bounds [of raw] parse_ipv4_text [of "be_int raw"]
  by (simp add: neighbor_ipv4_def ipv4_normal_def ipv4_of_bytes_def)

section \<open>The tracker's state\<close>

text \<open>Every entry is filed under the key of its latest evidence.\<close>

definition filed :: "neighbors \<Rightarrow> bool" where
  "filed entries \<longleftrightarrow> (\<forall>e \<in> set entries. fst e = evidence_key (tr_evidence (snd e)))"

lemma in_od_set: "od_ok d \<Longrightarrow> e \<in> set (od_set k v d) \<longleftrightarrow> e = (k, v) \<or> e \<in> set d \<and> fst e \<noteq> k"
proof -
  assume "od_ok d"
  then have "od_ok (od_set k v d)" by simp
  then have "e \<in> set (od_set k v d) \<longleftrightarrow> map_of (od_set k v d) (fst e) = Some (snd e)"
    unfolding od_ok_def by (cases e) (simp add: map_of_eq_Some_iff)
  also have "\<dots> \<longleftrightarrow> e = (k, v) \<or> map_of d (fst e) = Some (snd e) \<and> fst e \<noteq> k"
    by (cases e) (auto simp: od_get_set)
  also have "map_of d (fst e) = Some (snd e) \<longleftrightarrow> e \<in> set d"
    using \<open>od_ok d\<close> unfolding od_ok_def by (cases e) (simp add: map_of_eq_Some_iff)
  finally show ?thesis .
qed

lemma set_od_move: "od_ok d \<Longrightarrow> set (od_move_to_end k d) = set d"
proof -
  assume ok: "od_ok d"
  then have "e \<in> set (od_move_to_end k d) \<longleftrightarrow> e \<in> set d" for e
    using od_ok_move [OF ok, of k] od_get_move [of k d] unfolding od_ok_def
    by (cases e) (metis map_of_eq_Some_iff)
  then show ?thesis by blast
qed

definition tracker_ok :: "tracker_config \<Rightarrow> neighbors \<Rightarrow> bool" where
  "tracker_ok c entries \<longleftrightarrow> lru.bounded (tc_max_entries c) entries \<and> filed entries"

lemma length_od_set_known: "map_of d k = Some v' \<Longrightarrow> length (od_set k v d) = length d"
  unfolding od_set_def by (induction d) auto

lemma filed_store: "filed d \<Longrightarrow> k = evidence_key (tr_evidence v) \<Longrightarrow> filed (od_store cap k v d)"
  using od_store_sub [of cap k v d] by (auto simp: filed_def)

lemma tracker_observe_ok:
  assumes "tracker_ok c entries" "tracker_observe c entries ev = (entries', res)"
  shows "tracker_ok c entries'"
proof (cases "map_of entries (evidence_key ev)")
  case None
  with assms show ?thesis
    by (auto simp: tracker_observe_def tracker_ok_def Let_def lru.bounded_store intro: filed_store split: sum.splits)
next
  case (Some tr)
  have ok: "od_ok entries" using assms(1) by (simp add: tracker_ok_def lru.bounded_def)
  have key: "evidence_key (tr_evidence tr) = evidence_key ev"
    using assms(1) map_of_SomeD [OF Some] by (auto simp: tracker_ok_def filed_def)
  define v where "v = (case expiry_of c (ev_observed_at ev) of
      Inl e \<Rightarrow> tr\<lparr>tr_last_seen := ev_observed_at ev\<rparr>
    | Inr x \<Rightarrow> if ev_observed_at ev - tr_last_emitted tr < tc_dedupe_window c
        then tr\<lparr>tr_last_seen := ev_observed_at ev, tr_expires_at := x, tr_evidence := ev\<rparr>
        else tr\<lparr>tr_last_seen := ev_observed_at ev, tr_expires_at := x, tr_evidence := ev, tr_last_emitted := ev_observed_at ev\<rparr>)"
  have v: "evidence_key (tr_evidence v) = evidence_key ev" using key by (simp add: v_def split: sum.split)
  have e: "entries' = od_set (evidence_key ev) v entries \<or> entries' = od_move_to_end (evidence_key ev) (od_set (evidence_key ev) v entries)"
    using assms(2) Some by (auto simp: tracker_observe_def Let_def v_def split: sum.splits if_splits)
  have "lru.bounded (tc_max_entries c) entries'"
    using e ok assms(1) length_od_set_known [OF Some] by (auto simp: tracker_ok_def lru.bounded_def length_od_move)
  moreover have "filed entries'"
    using e v ok assms(1) by (auto simp: tracker_ok_def filed_def set_od_move in_od_set)
  ultimately show ?thesis by (simp add: tracker_ok_def)
qed

section \<open>Runs of the tracker\<close>

definition track_all :: "tracker_config \<Rightarrow> neighbor_evidence list \<Rightarrow> neighbors" where
  "track_all c evs = fold (\<lambda>ev entries. fst (tracker_observe c entries ev)) evs []"

lemma track_all_snoc: "track_all c (evs @ [ev]) = fst (tracker_observe c (track_all c evs) ev)"
  by (simp add: track_all_def)

lemma track_all_ok: "tracker_ok c (track_all c evs)"
proof (induction evs rule: rev_induct)
  case Nil
  show ?case by (simp add: track_all_def tracker_ok_def filed_def lru.bounded_def)
next
  case (snoc ev evs)
  then show ?case
    unfolding track_all_snoc using tracker_observe_ok [of c "track_all c evs" ev] by (metis prod.collapse)
qed

text \<open>Every tracked key comes from evidence seen; while all keys fit, every key seen is tracked.\<close>

lemma observe_keys_sub:
  assumes "tracker_ok c entries"
  shows "fst ` set (fst (tracker_observe c entries ev)) \<subseteq> insert (evidence_key ev) (fst ` set entries)"
proof -
  have ok: "od_ok entries" using assms by (simp add: tracker_ok_def lru.bounded_def)
  have "fst ` set (od_set k v entries) \<subseteq> insert k (fst ` set entries)" for k v
    using od_set_sub [of k v entries] by auto
  moreover have "fst ` set (od_move_to_end k (od_set k v entries)) \<subseteq> insert k (fst ` set entries)" for k v
    using od_set_sub [of k v entries] ok by (auto simp: set_od_move)
  moreover have "fst ` set (od_store n k v entries) \<subseteq> insert k (fst ` set entries)" for n k v
    using od_store_sub [of n k v entries] by auto
  ultimately show ?thesis
    by (simp add: tracker_observe_def Let_def split: option.split sum.split) blast
qed

lemma track_all_keys: "fst ` set (track_all c evs) \<subseteq> evidence_key ` set evs"
proof (induction evs rule: rev_induct)
  case (snoc ev evs)
  show ?case
    unfolding track_all_snoc
    by (rule order_trans [OF observe_keys_sub [OF track_all_ok]]) (use snoc in \<open>simp, blast\<close>)
qed (simp add: track_all_def)




text \<open>The conflict lists in terms of the tracked keys.\<close>

lemma set_map_filter: "y \<in> set (List.map_filter f xs) \<longleftrightarrow> (\<exists>x \<in> set xs. f x = Some y)"
  by (induction xs) (auto simp: List.map_filter_simps split: option.splits)




lemma tracker_expire_loop_spec:
  "tracker_expire_loop current items entries out =
     (fold (\<lambda>e c. od_pop (fst e) c) (filter (\<lambda>e. \<not> current < tr_expires_at (snd e)) items) entries,
      out @ map (\<lambda>e. neighbor_expired current (snd e)) (filter (\<lambda>e. \<not> current < tr_expires_at (snd e)) items))"
  by (induction current items entries out rule: tracker_expire_loop.induct) simp_all

section \<open>The pipeline's contract\<close>

lemma scalars_pad [simp]: "scalars (pad n k)"
  by (simp add: pad_def Let_def list_all_iff is_scalar_def) (use scalars_str_int in \<open>auto simp: list_all_iff is_scalar_def\<close>)

lemma scalars_isoformat [simp]: "scalars (isoformat t)"
  by (simp add: isoformat_def Let_def split: prod.split)

definition clean_evidence :: "neighbor_evidence \<Rightarrow> bool" where
  "clean_evidence ev \<longleftrightarrow> scalars (ev_address ev) \<and> text_clean (ev_mac ev) \<and> scalars (ev_interface ev) \<and>
     scalars (ev_state ev) \<and> scalars (ev_source ev) \<and> ev_source ev \<noteq> [] \<and> text_clean (ev_operation ev) \<and>
     dt_in_range (ev_observed_at ev)"

lemma new_evidence_clean:
  assumes "new_evidence U address mac ifname state src observed_at operation = Inr ev"
    and "scalars ifname" "scalars src" "text_clean operation"
  shows "clean_evidence ev"
  using assms
  by (auto simp: new_evidence_def result_simps Let_def clean_evidence_def neighbor_ipv4_def ipv4_normal_def
      neighbor_mac_def text_clean_def neighbor_utc_def scalars_strip utc_instant_range
      split: option.splits if_splits)

definition clean_neighbors :: "neighbors \<Rightarrow> bool" where
  "clean_neighbors entries \<longleftrightarrow> (\<forall>e \<in> set entries. clean_evidence (tr_evidence (snd e)))"

lemma tracked_observation_clean:
  "clean_evidence (tr_evidence tr) \<Longrightarrow> dt_in_range (tr_expires_at tr) \<Longrightarrow> clean_observation (tracked_observation tr)"
  by (simp add: clean_observation_def tracked_observation_def Let_def clean_evidence_def utc_stamp_def)

lemma neighbor_conflict_clean:
  "clean_evidence ev \<Longrightarrow> kind \<noteq> '''' \<Longrightarrow> clean_json (JDict details) \<Longrightarrow>
     clean_observation (neighbor_conflict kind ev details)"
  by (simp add: clean_observation_def neighbor_conflict_def clean_evidence_def utc_stamp_def)

lemma neighbor_conflicts_clean:
  assumes "clean_neighbors entries" "clean_evidence ev" "ob \<in> set (neighbor_conflicts ev entries)"
  shows "clean_observation ob"
proof -
  have "scalars m" if "m \<in> set (prior_macs ev mac entries)" for m mac
    using that assms(1) unfolding prior_macs_def set_sort set_remdups set_map_filter
    by (auto simp: clean_neighbors_def clean_evidence_def text_clean_def split: if_splits)
  moreover have "scalars a" if "a \<in> set (prior_addresses ev mac entries)" for a mac
    using that assms(1) unfolding prior_addresses_def set_sort set_remdups set_map_filter
    by (auto simp: clean_neighbors_def clean_evidence_def text_clean_def split: if_splits)
  ultimately show ?thesis
    using assms(2,3)
    by (cases "ev_mac ev")
      (auto simp: neighbor_conflicts_def Let_def list_all_iff [of clean_json] clean_evidence_def text_clean_def
        intro!: neighbor_conflict_clean split: if_splits)
qed

lemma clean_neighbors_set: "clean_neighbors d \<Longrightarrow> clean_evidence (tr_evidence v) \<Longrightarrow> clean_neighbors (od_set k v d)"
  using od_set_sub [of k v d] by (auto simp: clean_neighbors_def)

lemma clean_neighbors_move: "clean_neighbors d \<Longrightarrow> od_ok d \<Longrightarrow> clean_neighbors (od_move_to_end k d)"
  by (simp add: clean_neighbors_def set_od_move)

lemma clean_neighbors_store: "clean_neighbors d \<Longrightarrow> clean_evidence (tr_evidence v) \<Longrightarrow> clean_neighbors (od_store n k v d)"
  using od_store_sub [of n k v d] by (auto simp: clean_neighbors_def)

lemma tracker_observe_clean:
  assumes "clean_neighbors entries" "od_ok entries" "clean_evidence ev" "tracker_observe c entries ev = (entries', res)"
  shows "clean_neighbors entries' \<and> (\<forall>obs. res = Inr obs \<longrightarrow> (\<forall>ob \<in> set obs. clean_observation ob))"
proof (cases "expiry_of c (ev_observed_at ev)")
  case (Inl e)
  have "clean_evidence (tr_evidence tr)" if "map_of entries k = Some tr" for k tr
    using map_of_SomeD [OF that] assms(1) by (auto simp: clean_neighbors_def)
  from this [of "evidence_key ev"] Inl assms show ?thesis
    by (auto simp: tracker_observe_def Let_def intro!: clean_neighbors_set split: option.splits)
next
  case (Inr x)
  then have x: "dt_in_range x" by (auto simp: expiry_of_def split: if_splits)
  show ?thesis
    using assms(4) Inr x assms(1-3) neighbor_conflicts_clean [OF assms(1,3)]
    by (auto simp: tracker_observe_def Let_def split: option.splits if_splits
        intro!: clean_neighbors_set clean_neighbors_move clean_neighbors_store tracked_observation_clean)
qed

lemma parse_arp_clean: "parse_arp_evidence U frame = Inr ev \<Longrightarrow> clean_frame frame \<Longrightarrow> clean_evidence ev"
  by (auto simp: parse_arp_evidence_def Let_def clean_frame_def text_clean_def split: if_splits option.splits
      intro!: new_evidence_clean)

interpretation arp: passive_parser "arp_parser U c" "\<lambda>entries. tracker_ok c entries \<and> clean_neighbors entries"
proof unfold_locales
  fix p f
  assume p: "tracker_ok c p \<and> clean_neighbors p" and f: "clean_frame f"
  then have ok: "od_ok p" by (simp add: tracker_ok_def lru.bounded_def)
  show "tracker_ok c (fst (arp_parser U c p f)) \<and> clean_neighbors (fst (arp_parser U c p f))"
    using p f ok
    by (auto simp: arp_parser_def split: sum.splits prod.splits dest: tracker_observe_ok tracker_observe_clean parse_arp_clean)
  fix its it
  assume "snd (arp_parser U c p f) = Inr its" "it \<in> set its"
  then show "\<exists>ob. it = Obs ob \<and> clean_observation ob"
    using p f ok tracker_observe_clean [of p _ c] parse_arp_clean [of U f]
    by (fastforce simp: arp_parser_def split: sum.splits prod.splits)
qed

section \<open>Properties\<close>

text \<open>An ARP request (operation 1) or reply (2) for Ethernet and IPv4, and the history of a tracker's conflicts.\<close>

definition arp_bytes :: "8 word \<Rightarrow> bytes \<Rightarrow> bytes \<Rightarrow> bytes \<Rightarrow> bytes" where
  "arp_bytes operation mac ip target = [0, 1, 8, 0, 6, 4, 0, operation] @ mac @ ip @ target"

lemma arp_header:
  "slice 0 2 (arp_bytes operation mac ip target @ fill) = [0, 1]"
  "slice 2 4 (arp_bytes operation mac ip target @ fill) = [8, 0]"
  "(arp_bytes operation mac ip target @ fill) ! 4 = 6"
  "(arp_bytes operation mac ip target @ fill) ! 5 = 4"
  "slice 6 8 (arp_bytes operation mac ip target @ fill) = [0, operation]"
  "length (arp_bytes operation mac ip target) = 8 + length mac + length ip + length target"
  by (simp_all add: arp_bytes_def slice_def numeral_eq_Suc)

lemma arp_addresses:
  assumes "length mac = 6" "length ip = 4"
  shows "slice 8 14 (arp_bytes operation mac ip target @ fill) = mac"
    and "slice 14 18 (arp_bytes operation mac ip target @ fill) = ip"
  using assms by (simp_all add: arp_bytes_def slice_def)

lemma ipv4_unspecified: "length ip = 4 \<Longrightarrow> ipv4_of_bytes ip = lit ''0.0.0.0'' \<longleftrightarrow> be_int ip = 0"
proof -
  assume l: "length ip = 4"
  have z: "ipv4_text 0 = lit ''0.0.0.0''"
    by (simp add: ipv4_text_def octets_def dec_digits_small lit_def)
  have "ipv4_text (be_int ip) = ipv4_text 0 \<Longrightarrow> be_int ip = 0"
    using parse_ipv4_text [of "be_int ip"] parse_ipv4_text [of 0] be_int_bounds [of ip] l by simp
  then show ?thesis by (auto simp: ipv4_of_bytes_def z)
qed

lemma casefold_lower: "list_all (\<lambda>c. 97 \<le> c \<and> c \<le> 122) s \<Longrightarrow> casefold U s = s"
  by (induction s) (auto simp: casefold_Cons ascii_lower_def)

lemma strip_lower: "list_all (\<lambda>c. 97 \<le> c \<and> c \<le> 122 \<or> c = 46) s \<Longrightarrow> strip s = s"
proof (cases "s = []")
  case False
  moreover assume "list_all (\<lambda>c. 97 \<le> c \<and> c \<le> 122 \<or> c = 46) s"
  ultimately have "\<not> py_isspace c" if "c \<in> set s" for c
    using that by (auto simp: list_all_iff py_isspace_def)
  with False show ?thesis by (intro strip_with_id) auto
qed simp

text \<open>ARP frames are read back exactly: a well-formed Ethernet/IPv4 request or reply with a non-zero
  sender yields evidence with the sender's address and MAC address as the program formats them, the
  frame's interface and its time; the constructor's renormalisation changes none of them.\<close>

theorem arp_roundtrip:
  assumes "casefold U (fr_protocol f) = lit ''arp''"
    and "fr_payload f = arp_bytes operation mac ip target @ padding"
    and "operation = 1 \<or> operation = 2" "length mac = 6" "length ip = 4" "be_int ip \<noteq> 0" "length target = 10"
    and "length padding \<le> 228"
    and "fr_interface f = Some i" "i \<noteq> []" "strip i = i" "fr_observed_at f = utc_dt t" "dt_in_range t"
  shows "parse_arp_evidence U f = Inr \<lparr>ev_address = ipv4_of_bytes ip, ev_mac = Some (mac_text mac), ev_interface = i,
      ev_state = lit ''reachable'', ev_source = lit ''passive.arp'', ev_observed_at = t,
      ev_operation = Some (if operation = 1 then lit ''request'' else lit ''reply'')\<rparr>"
proof -
  have fixed: "casefold U (strip (lit ''reachable'')) = lit ''reachable''" "strip (lit ''passive.arp'') = lit ''passive.arp''"
    by (simp_all add: strip_lower casefold_lower lit_def)
  have state: "lit ''reachable'' \<in> lit ` set VALID_STATES" by (simp add: VALID_STATES_def)
  have evidence: "new_evidence U (ipv4_of_bytes ip) (Some (mac_text mac)) i (lit ''reachable'') (lit ''passive.arp'')
        (utc_dt t) opn = Inr \<lparr>ev_address = ipv4_of_bytes ip, ev_mac = Some (mac_text mac), ev_interface = i,
          ev_state = lit ''reachable'', ev_source = lit ''passive.arp'', ev_observed_at = t, ev_operation = opn\<rparr>" for opn
    using assms(4,5,10,11,13) state
    by (simp add: new_evidence_def neighbor_ipv4_bytes neighbor_mac_text fixed neighbor_utc_def)
  show ?thesis
    using assms(3)
    by (auto simp: parse_arp_evidence_def Let_def assms(1,2,4-7,9,10,12) arp_header arp_addresses evidence ipv4_unspecified
        be_int_two MAX_ARP_PAYLOAD_BYTES_def)
      (use assms(8) in simp_all)
qed

theorem arp_roundtrip_witness:
  "parse_arp_evidence (\<lambda>c. [c]) \<lparr>fr_protocol = lit ''ARP'', fr_payload = arp_bytes 1 [2, 0, 0, 0, 0, 1] [10, 0, 0, 7] (replicate 10 0) @ replicate 18 0,
      fr_observed_at = utc_dt 0, fr_interface = Some (lit ''eth'')\<rparr> =
    Inr \<lparr>ev_address = ipv4_of_bytes [10, 0, 0, 7], ev_mac = Some (mac_text [2, 0, 0, 0, 0, 1]), ev_interface = lit ''eth'',
      ev_state = lit ''reachable'', ev_source = lit ''passive.arp'', ev_observed_at = 0,
      ev_operation = Some (if (1 :: 8 word) = 1 then lit ''request'' else lit ''reply'')\<rparr>"
  by (rule arp_roundtrip [where padding = "replicate 18 0" and target = "replicate 10 0"])
    (simp_all add: strip_lower casefold_def ascii_lower_def lit_def be_int_def dt_in_range_def dt_min_def dt_max_def)

text \<open>A normalised MAC address is the colon form of octets of which there are six unless the text
  (stripped, without separators) had inner white space; with six octets it is a fixed point of
  the normalisation.\<close>

theorem neighbor_mac_octets:
  assumes "neighbor_mac value = Inr m"
  shows "\<exists>raw. m = mac_text raw \<and>
    2 * length raw + length (filter (\<lambda>c. ascii_space c \<and> c \<noteq> 45 \<and> c \<noteq> 58) (strip value)) = 12 \<and>
    (length raw = 6 \<longrightarrow> neighbor_mac m = Inr m)"
proof -
  let ?plain = "filter (\<lambda>c. c \<noteq> 45) (filter (\<lambda>c. c \<noteq> 58) (strip value))"
  obtain raw where r: "length ?plain = 12" "from_hex ?plain = Some raw" "m = mac_text raw"
    using assms by (auto simp: neighbor_mac_def Let_def split: if_splits option.splits)
  have "filter ascii_space ?plain = filter (\<lambda>c. ascii_space c \<and> c \<noteq> 45 \<and> c \<noteq> 58) (strip value)"
    by (simp add: conj_ac)
  with r from_hex_length [OF r(2)] have "2 * length raw + length (filter (\<lambda>c. ascii_space c \<and> c \<noteq> 45 \<and> c \<noteq> 58) (strip value)) = 12"
    by simp
  with r(3) show ?thesis using neighbor_mac_text by blast
qed

theorem neighbor_mac_octets_witness:
  "\<exists>raw. lit ''02:00:00:00:00:01'' = mac_text raw \<and>
    2 * length raw + length (filter (\<lambda>c. ascii_space c \<and> c \<noteq> 45 \<and> c \<noteq> 58) (strip (lit ''02-00-00-00-00-01''))) = 12 \<and>
    (length raw = 6 \<longrightarrow> neighbor_mac (lit ''02:00:00:00:00:01'') = Inr (lit ''02:00:00:00:00:01''))"
  by (rule neighbor_mac_octets)
    (simp add: neighbor_mac_def lit_def strip_with_def py_isspace_def ascii_space_def hex_value_def mac_text_def hex2_def
      hex_digit_def bytes_simps)

text \<open>The length check of the normalisation counts characters, and the hexadecimal decoder skips white
  space: a text of five octets and two inner blanks is accepted as a MAC address.\<close>

theorem neighbor_mac_short:
  "neighbor_mac (lit ''aa  bbccddee'') = Inr (lit ''aa:bb:cc:dd:ee'')"
  by (simp add: neighbor_mac_def lit_def strip_with_def py_isspace_def ascii_space_def hex_value_def mac_text_def hex2_def
      hex_digit_def bytes_simps)

section \<open>The tracker against its history\<close>





definition seen_at :: "string \<Rightarrow> bytes \<Rightarrow> int \<Rightarrow> neighbor_evidence" where
  "seen_at addr mac t = \<lparr>ev_address = lit addr, ev_mac = Some (mac_text mac), ev_interface = lit ''eth0'',
     ev_state = lit ''reachable'', ev_source = lit ''passive.arp'', ev_observed_at = t, ev_operation = None\<rparr>"


text \<open>Expiry at an instant keeps exactly the entries valid after it, in their order, and reports exactly the
  others.\<close>

theorem tracker_expire_exact:
  assumes "tracker_ok c entries" "dt_in_range now"
  shows "tracker_expire entries (utc_dt now) =
    Inr (filter (\<lambda>e. now < tr_expires_at (snd e)) entries,
      map (\<lambda>e. neighbor_expired now (snd e)) (filter (\<lambda>e. \<not> now < tr_expires_at (snd e)) entries))"
proof -
  have "od_ok entries" using assms(1) by (simp add: tracker_ok_def lru.bounded_def)
  from fold_pop_filter [OF this, of "\<lambda>e. \<not> now < tr_expires_at (snd e)"] assms(2) show ?thesis
    by (simp add: tracker_expire_def neighbor_utc_def tracker_expire_loop_spec)
qed

theorem tracker_expire_exact_witness:
  "tracker_expire (track_all \<lparr>tc_max_age = 60, tc_dedupe_window = 5, tc_max_entries = 2\<rparr> [seen_at ''10.0.0.7'' [1] 0]) (utc_dt 60) =
    Inr (filter (\<lambda>e. 60 < tr_expires_at (snd e)) (track_all \<lparr>tc_max_age = 60, tc_dedupe_window = 5, tc_max_entries = 2\<rparr> [seen_at ''10.0.0.7'' [1] 0]),
      map (\<lambda>e. neighbor_expired 60 (snd e))
        (filter (\<lambda>e. \<not> 60 < tr_expires_at (snd e)) (track_all \<lparr>tc_max_age = 60, tc_dedupe_window = 5, tc_max_entries = 2\<rparr> [seen_at ''10.0.0.7'' [1] 0])))"
  by (rule tracker_expire_exact [OF track_all_ok]) (simp add: dt_in_range_def dt_min_def dt_max_def)

end
