(* ===== verification/Passive_Service.thy ===== *)
theory Passive_Service
  imports Dhcp Link_Layer Mdns Neighbor
begin

text \<open>
  \<open>passive_service.py\<close>: the observer process. It decodes captured Ethernet frames, feeds the pipeline
  with the production parsers, and polls the kernel's neighbour table and expires the caches
  periodically. The raw socket, the child process and \<open>json.loads\<close> are outside the model: a captured
  packet is its bytes, the child is what it writes and how it ends, the decoder is an argument.
\<close>

section \<open>Decoding captured frames\<close>

definition ETH_P_IP :: int where "ETH_P_IP = 0x0800"
definition ETH_P_ARP :: int where "ETH_P_ARP = 0x0806"
definition ETH_P_8021Q :: int where "ETH_P_8021Q = 0x8100"
definition ETH_P_8021AD :: int where "ETH_P_8021AD = 0x88A8"
definition ETH_P_LLDP :: int where "ETH_P_LLDP = 0x88CC"
definition MAX_CAPTURE_BYTES :: nat where "MAX_CAPTURE_BYTES = 9216"
definition CDP_DESTINATION :: bytes where "CDP_DESTINATION = [0x01, 0x00, 0x0C, 0xCC, 0xCC, 0xCC]"
definition CDP_SNAP :: bytes where "CDP_SNAP = [0xAA, 0xAA, 0x03, 0x00, 0x00, 0x0C, 0x20, 0x00]"

lemmas eth_types = ETH_P_IP_def ETH_P_ARP_def ETH_P_8021Q_def ETH_P_8021AD_def ETH_P_LLDP_def

definition decode_ipv4_udp :: "bytes \<Rightarrow> (pystr \<times> bytes) option" where
  "decode_ipv4_udp payload =
     (if length payload < 28 \<or> uint (payload ! 0) div 16 \<noteq> 4 then None
      else (let header_length = nat (uint (payload ! 0) mod 16) * 4;
                total_length = nat (be_int (slice 2 4 payload));
                fragmented = be_int (slice 6 8 payload) mod 0x4000 \<noteq> 0
        in if header_length < 20 \<or> total_length < header_length + 8 \<or> length payload < total_length
              \<or> payload ! 9 \<noteq> 17 \<or> fragmented
           then None
           else (let udp = slice header_length total_length payload;
                     source_port = be_int (slice 0 2 udp); destination_port = be_int (slice 2 4 udp);
                     udp_length = nat (be_int (slice 4 6 udp))
             in if udp_length < 8 \<or> length udp < udp_length then None
                else (let body = slice 8 udp_length udp; ports = {source_port, destination_port}
                  in if 5353 \<in> ports then Some (lit ''mdns'', body)
                     else if ports \<inter> {67, 68} \<noteq> {} then Some (lit ''dhcp'', body)
                     else None))))"

definition decode_ethernet :: "bytes \<Rightarrow> (pystr \<times> bytes) option" where
  "decode_ethernet packet =
     (if length packet < 14 \<or> MAX_CAPTURE_BYTES < length packet then None
      else (let destination = slice 0 6 packet; protocol = be_int (slice 12 14 packet);
                tagged = protocol \<in> {ETH_P_8021Q, ETH_P_8021AD}
        in if tagged \<and> length packet < 18 then None
           else (let protocol = (if tagged then be_int (slice 16 18 packet) else protocol);
                     payload = drop (if tagged then 18 else 14) packet
             in if protocol = ETH_P_LLDP then Some (lit ''lldp'', payload)
                else if protocol = ETH_P_ARP then Some (lit ''arp'', payload)
                else if protocol = ETH_P_IP then decode_ipv4_udp payload
                else if protocol \<le> 1500 \<and> destination = CDP_DESTINATION \<and> take (length CDP_SNAP) payload = CDP_SNAP
                then Some (lit ''cdp'', drop (length CDP_SNAP) payload)
                else None)))"

section \<open>The runtime\<close>

text \<open>
  The parameters: the redactor's two functions, the Unicode database, the local UTC offset, the
  monotonic clock, SHA-256 and the text of floats. The state the parsers share with maintenance is
  the mDNS cache, the DHCP leases and the neighbour table.
\<close>

record service_env =
  env_uni :: unidata
  env_redact :: "pystr \<Rightarrow> pystr"
  env_redact_item :: "pystr \<Rightarrow> pystr \<Rightarrow> pystr"
  env_offset :: "int \<Rightarrow> int"
  env_clock :: "nat \<Rightarrow> rat"
  env_sha :: "bytes \<Rightarrow> pystr"
  env_float :: "rat \<Rightarrow> pystr"

record parts =
  pt_mdns :: mdns_cache
  pt_leases :: leases
  pt_neighbors :: neighbors

record passive_runtime =
  rt_pipeline :: "parts config"
  rt_mdns :: mdns_config
  rt_tracker :: tracker_config
  rt_parts :: parts

definition part_parser :: "('s \<Rightarrow> 'p) \<Rightarrow> ('p \<Rightarrow> 's \<Rightarrow> 's) \<Rightarrow> 'p parser \<Rightarrow> 's parser" where
  "part_parser get put p s frame = (case p (get s) frame of (q, r) \<Rightarrow> (put q s, r))"

definition production_parsers ::
    "service_env \<Rightarrow> mdns_config \<Rightarrow> nat \<Rightarrow> tracker_config \<Rightarrow> (pystr \<times> parts parser list) list" where
  "production_parsers E mc max_leases tc =
     [(lit ''lldp'', [stateless parse_lldp]),
      (lit ''cdp'', [stateless parse_cdp]),
      (lit ''mdns'', [part_parser pt_mdns (\<lambda>q s. s\<lparr>pt_mdns := q\<rparr>) (mdns_parser mc)]),
      (lit ''dhcp'', [part_parser pt_leases (\<lambda>q s. s\<lparr>pt_leases := q\<rparr>) (dhcp_parser (env_uni E) (env_redact E) max_leases)]),
      (lit ''arp'', [part_parser pt_neighbors (\<lambda>q s. s\<lparr>pt_neighbors := q\<rparr>) (arp_parser (env_uni E) tc)])]"

definition build_runtime :: "service_env \<Rightarrow> passive_runtime result" where
  "build_runtime E =
     bindR (new_mdns_config 9000 128 512 1300 4096 604800 (env_redact_item E) (env_uni E) (env_offset E)) (\<lambda>mc.
     bindR (new_tracker (seconds 1800) (seconds 30) 4096) (\<lambda>(tc, entries).
     bindR (new_dhcp_parser 4096) (\<lambda>leases.
     bindR (new_config (production_parsers E mc 4096 tc) 256 2 (int MAX_CAPTURE_BYTES) 30 4096
         (env_clock E) (env_sha E) (env_float E) (env_uni E)) (\<lambda>c.
     Inr \<lparr>rt_pipeline = c, rt_mdns = mc, rt_tracker = tc,
       rt_parts = \<lparr>pt_mdns = [], pt_leases = leases, pt_neighbors = entries\<rparr>\<rparr>))))"

section \<open>Reading the kernel's neighbours\<close>

definition MAX_KERNEL_OUTPUT_BYTES :: nat where "MAX_KERNEL_OUTPUT_BYTES = 1048576"
definition MAX_KERNEL_RECORDS :: nat where "MAX_KERNEL_RECORDS = 4096"

definition kernel_error :: "string \<Rightarrow> exn" where
  "kernel_error s = KernelNeighborError (lit s)"

text \<open>
  \<open>read_output\<close>: the pipe holds what the child has written, in chunks; a read of at most \<open>n\<close> bytes
  returns a prefix of the first chunk, and nothing at the end.
\<close>

function read_output :: "nat \<Rightarrow> bytes list \<Rightarrow> bytes \<Rightarrow> bytes result" where
  "read_output limit [] output = Inr output"
| "read_output limit (chunk # rest) output =
     (let n = min 65536 (limit + 1 - length output); got = take n chunk; left = drop n chunk
      in if got = [] then Inr output
         else if limit < length (output @ got) then Inl (kernel_error ''kernel neighbor output exceeds its size limit'')
         else read_output limit (if left = [] then rest else left # rest) (output @ got))"
  by pat_completeness auto
termination
  by (relation "measures [\<lambda>(limit, chunks, output). sum_list (map length chunks), \<lambda>(limit, chunks, output). length chunks]")
    auto

text \<open>
  A child process: what it writes, whether it then stalls past the timeout, and its exit status.
  \<open>None\<close> stands for a program that cannot be started.
\<close>

record child =
  ch_chunks :: "bytes list"
  ch_stalls :: bool
  ch_exit :: int

definition run_bounded_command :: "child option \<Rightarrow> nat \<Rightarrow> bytes result" where
  "run_bounded_command child max_output_bytes =
     (case child of
        None \<Rightarrow> Inl (OSError (lit ''No such file or directory''))
      | Some p \<Rightarrow> bindR (read_output max_output_bytes (ch_chunks p) []) (\<lambda>output.
          if ch_stalls p then Inl (kernel_error ''kernel neighbor command timed out'')
          else if ch_exit p \<noteq> 0 then Inl (kernel_error ''kernel neighbor command failed'')
          else Inr output))"

text \<open>The record loop of \<open>poll_kernel_neighbors\<close>: what the tracker has learnt stays when a later record raises.\<close>

fun poll_loop ::
    "unidata \<Rightarrow> tracker_config \<Rightarrow> pystr \<Rightarrow> datetime \<Rightarrow> json list \<Rightarrow> neighbors \<Rightarrow> observation list
     \<Rightarrow> neighbors \<times> observation list result" where
  "poll_loop U c ifname observed_at [] entries out = (entries, Inr out)"
| "poll_loop U c ifname observed_at (JDict rec # docs) entries out =
     (case parse_kernel_neighbor U rec observed_at (Some ifname) of
        Inl e \<Rightarrow> if is_value_error e then poll_loop U c ifname observed_at docs entries out else (entries, Inl e)
      | Inr None \<Rightarrow> poll_loop U c ifname observed_at docs entries out
      | Inr (Some ev) \<Rightarrow>
          (case tracker_observe c entries ev of
             (entries', Inl e) \<Rightarrow> (entries', Inl e)
           | (entries', Inr obs) \<Rightarrow> poll_loop U c ifname observed_at docs entries' (out @ obs)))"
| "poll_loop U c ifname observed_at (_ # docs) entries out = poll_loop U c ifname observed_at docs entries out"

definition poll_kernel_neighbors ::
    "unidata \<Rightarrow> (bytes \<Rightarrow> json result) \<Rightarrow> tracker_config \<Rightarrow> pystr \<Rightarrow> datetime \<Rightarrow> bytes result \<Rightarrow> nat \<Rightarrow> neighbors
     \<Rightarrow> neighbors \<times> observation list result" where
  "poll_kernel_neighbors U loads c ifname observed_at output max_output_bytes entries =
     (case output of
        Inl e \<Rightarrow> (entries, Inl e)
      | Inr raw \<Rightarrow>
          if max_output_bytes < length raw then (entries, Inl (kernel_error ''kernel neighbor output exceeds its size limit''))
          else (case loads raw of
              Inl e \<Rightarrow> (entries, Inl (if is_value_error e then kernel_error ''kernel neighbor output is not valid JSON'' else e))
            | Inr (JList docs) \<Rightarrow>
                if MAX_KERNEL_RECORDS < length docs
                then (entries, Inl (kernel_error ''kernel neighbor output has an invalid record set''))
                else poll_loop U c ifname observed_at docs entries []
            | Inr _ \<Rightarrow> (entries, Inl (kernel_error ''kernel neighbor output has an invalid record set''))))"

section \<open>Maintenance\<close>

text \<open>What one maintenance round is given: its time, the child and the answers of the sink in order.\<close>

record maintenance_round =
  mr_now :: datetime
  mr_child :: "child option"
  mr_sink :: "nat \<Rightarrow> bool"

definition poll_failure :: "exn \<Rightarrow> bool" where
  "poll_failure e \<longleftrightarrow> (case e of KernelNeighborError _ \<Rightarrow> True | _ \<Rightarrow> is_os_error e \<or> is_value_error e)"

definition maintenance_observations ::
    "service_env \<Rightarrow> (bytes \<Rightarrow> json result) \<Rightarrow> tracker_config \<Rightarrow> pystr \<Rightarrow> maintenance_round \<Rightarrow> parts
     \<Rightarrow> parts \<times> observation list result" where
  "maintenance_observations E loads tc ifname r s =
     (case poll_kernel_neighbors (env_uni E) loads tc ifname (mr_now r)
          (run_bounded_command (mr_child r) MAX_KERNEL_OUTPUT_BYTES) MAX_KERNEL_OUTPUT_BYTES (pt_neighbors s) of
        (entries, polled) \<Rightarrow>
          (let s = s\<lparr>pt_neighbors := entries\<rparr> in
           if (case polled of Inl e \<Rightarrow> \<not> poll_failure e | Inr _ \<Rightarrow> False) then (s, polled)
           else (let observations = (case polled of Inl e \<Rightarrow> [] | Inr obs \<Rightarrow> obs) in
             case mdns_expire (pt_mdns s) (mr_now r) of
               Inl e \<Rightarrow> (s, Inl e)
             | Inr (cache, expired) \<Rightarrow>
                 (let s = s\<lparr>pt_mdns := cache\<rparr>; observations = observations @ expired in
                  case tracker_expire (pt_neighbors s) (mr_now r) of
                    Inl e \<Rightarrow> (s, Inl e)
                  | Inr (entries, aged) \<Rightarrow> (s\<lparr>pt_neighbors := entries\<rparr>, Inr (observations @ aged))))))"

definition maintenance_once ::
    "service_env \<Rightarrow> (bytes \<Rightarrow> json result) \<Rightarrow> tracker_config \<Rightarrow> pystr \<Rightarrow> maintenance_round \<Rightarrow> parts
     \<Rightarrow> parts \<times> nat result" where
  "maintenance_once E loads tc ifname r s =
     (case maintenance_observations E loads tc ifname r s of
        (s', Inl e) \<Rightarrow> (s', Inl e)
      | (s', Inr obs) \<Rightarrow> (s', Inr (length (filter (mr_sink r) [0..<length obs]))))"

text \<open>The loop runs a round each time the stop event is not set when it looks; the rounds are those.\<close>

fun maintenance_loop ::
    "service_env \<Rightarrow> (bytes \<Rightarrow> json result) \<Rightarrow> tracker_config \<Rightarrow> pystr \<Rightarrow> maintenance_round list \<Rightarrow> parts \<Rightarrow> nat
     \<Rightarrow> parts \<times> nat result" where
  "maintenance_loop E loads tc ifname [] s acc = (s, Inr acc)"
| "maintenance_loop E loads tc ifname (r # rounds) s acc =
     (case maintenance_once E loads tc ifname r s of
        (s', Inl e) \<Rightarrow> (s', Inl e)
      | (s', Inr emitted) \<Rightarrow> maintenance_loop E loads tc ifname rounds s' (acc + emitted))"

section \<open>The running service\<close>

text \<open>
  \<open>observe\<close>: a packet is decoded and submitted; the loop takes the next one only when the submission
  has returned, so capture waits while a frame waits for room in the queue.
\<close>

definition capture ::
    "parts config \<Rightarrow> pystr \<Rightarrow> bytes \<Rightarrow> int \<Rightarrow> parts pipe \<Rightarrow> (parts pipe \<times> submit_outcome) result" where
  "capture c ifname packet now s =
     (case decode_ethernet packet of
        None \<Rightarrow> Inr (s, Returned False)
      | Some (protocol, payload) \<Rightarrow> pipe_submit c s protocol (Bytes payload) (Some (utc_dt now)) (Some ifname) now)"

text \<open>
  The process as a step relation: captures, maintenance rounds between two awaits of the event loop,
  and the pipeline's own steps. The repository sink may fail; it is cancelled only with its worker.
\<close>

inductive service_step ::
    "service_env \<Rightarrow> (bytes \<Rightarrow> json result) \<Rightarrow> pystr \<Rightarrow> passive_runtime \<Rightarrow> parts pipe \<Rightarrow> parts pipe \<Rightarrow> bool"
  for E loads ifname R where
  serve_start: "pipe_start (rt_pipeline R) s = Inr s' \<Longrightarrow> service_step E loads ifname R s s'"
| serve_capture: "pp_waiting s = [] \<Longrightarrow> dt_in_range now \<Longrightarrow> capture (rt_pipeline R) ifname packet now s = Inr (s', out) \<Longrightarrow>
    service_step E loads ifname R s s'"
| serve_wake: "pipe_wake (rt_pipeline R) s i = Some s' \<Longrightarrow> service_step E loads ifname R s s'"
| serve_give_up: "i < length (pp_waiting s) \<Longrightarrow> service_step E loads ifname R s (pipe_give_up s i)"
| serve_get: "worker_get (rt_pipeline R) s w = Some s' \<Longrightarrow> service_step E loads ifname R s s'"
| serve_sink: "worker_sink (rt_pipeline R) s w (if ok then SinkOk else SinkFailed) = Some s' \<Longrightarrow> service_step E loads ifname R s s'"
| serve_maintain: "mr_now r = utc_dt t \<Longrightarrow> dt_in_range t \<Longrightarrow>
    maintenance_observations E loads (rt_tracker R) ifname r (pp_parser s) = (p, res) \<Longrightarrow>
    service_step E loads ifname R s (s\<lparr>pp_parser := p\<rparr>)"
| serve_stop_begin: "stop_begin s timeout = Inr s' \<Longrightarrow> service_step E loads ifname R s s'"
| serve_stop_drained: "stop_drained s = Some s' \<Longrightarrow> service_step E loads ifname R s s'"
| serve_stop_timeout: "stop_timeout s = Some s' \<Longrightarrow> service_step E loads ifname R s s'"

inductive service_reachable ::
    "service_env \<Rightarrow> (bytes \<Rightarrow> json result) \<Rightarrow> pystr \<Rightarrow> passive_runtime \<Rightarrow> parts pipe \<Rightarrow> bool" for E loads ifname R where
  service_new: "service_reachable E loads ifname R (new_pipe (rt_parts R))"
| service_next: "service_reachable E loads ifname R s \<Longrightarrow> service_step E loads ifname R s s' \<Longrightarrow>
    service_reachable E loads ifname R s'"

section \<open>The child's output\<close>

lemma read_output_spec:
  "[] \<notin> set chunks \<Longrightarrow> length acc \<le> limit \<Longrightarrow>
   read_output limit chunks acc =
     (if limit < length acc + length (concat chunks)
      then Inl (kernel_error ''kernel neighbor output exceeds its size limit'') else Inr (acc @ concat chunks))"
proof (induction limit chunks acc rule: read_output.induct)
  case (2 limit chunk rest acc)
  define n where "n = min 65536 (limit + 1 - length acc)"
  define got where "got = take n chunk"
  define left where "left = drop n chunk"
  define rest' where "rest' = (if left = [] then rest else left # rest)"
  have chunk: "chunk = got @ left" by (simp add: got_def left_def)
  have got: "got \<noteq> []" using 2(2,3) by (auto simp: got_def n_def)
  have rest': "concat rest' = left @ concat rest" "[] \<notin> set rest'" using 2(2) by (auto simp: rest'_def)
  have step: "read_output limit (chunk # rest) acc =
      (if limit < length (acc @ got) then Inl (kernel_error ''kernel neighbor output exceeds its size limit'')
       else read_output limit rest' (acc @ got))"
    unfolding read_output.simps(2) Let_def n_def [symmetric] got_def [symmetric] left_def [symmetric] rest'_def [symmetric]
    using got by (simp only: if_False)
  show ?case
  proof (cases "limit < length (acc @ got)")
    case True
    then show ?thesis unfolding step by (simp add: chunk)
  next
    case False
    have "read_output limit rest' (acc @ got) =
       (if limit < length (acc @ got) + length (concat rest')
        then Inl (kernel_error ''kernel neighbor output exceeds its size limit'') else Inr ((acc @ got) @ concat rest'))"
      by (rule 2(1) [OF n_def got_def left_def got False, folded rest'_def]) (use False rest' in simp_all)
    then show ?thesis unfolding step rest' using False by (simp add: chunk add.assoc)
  qed
qed simp

section \<open>Parsers that keep their contract never stop a worker\<close>

definition clean_item :: "item \<Rightarrow> bool" where
  "clean_item it \<longleftrightarrow> (\<exists>ob. it = Obs ob \<and> clean_observation ob)"

definition sound_outcome :: "('p \<Rightarrow> bool) \<Rightarrow> 'p parser set \<Rightarrow> 'p pipe \<Rightarrow> 'p pipe \<times> 'p outcome \<Rightarrow> bool" where
  "sound_outcome J P s r \<longleftrightarrow> J (pp_parser (fst r)) \<and> pp_lost (fst r) = pp_lost s \<and>
     (case snd r of Await ob its ps \<Rightarrow> list_all clean_item its \<and> set ps \<subseteq> P | Done \<Rightarrow> True | Raised e \<Rightarrow> False)"

lemma is_duplicate_clean:
  assumes "clean_observation ob" "is_duplicate c ob s = (s', r)"
  shows "(\<exists>b. r = Inr b) \<and> pp_parser s' = pp_parser s \<and> pp_lost s' = pp_lost s"
  using fingerprint_clean [OF assms(1), of "cf_sha c" "cf_float c"] assms(2)
  by (auto simp: is_duplicate_def Let_def split: if_splits prod.splits)

lemma sound_outcome_before:
  "sound_outcome J P s' r \<Longrightarrow> pp_lost s' = pp_lost s \<Longrightarrow> sound_outcome J P s r"
  by (simp add: sound_outcome_def)

lemma run_items_sound:
  assumes contract: "\<And>p. p \<in> P \<Longrightarrow> passive_parser p J" and f: "clean_frame f"
  shows "set ps \<subseteq> P \<Longrightarrow> list_all clean_item its \<Longrightarrow> J (pp_parser s) \<Longrightarrow> sound_outcome J P s (run_items c f ps its s)"
  using f
proof (induction c f ps its s rule: run_items.induct)
  case (1 c f s)
  then show ?case by (simp add: sound_outcome_def)
next
  case (2 c f p ps s)
  have p: "passive_parser p J" using contract 2(3) by simp
  obtain p' r where r: "p (pp_parser s) f = (p', r)" by fastforce
  have J': "J p'" using passive_parser.keeps_inv [OF p 2(5,6)] r by simp
  show ?case
  proof (cases r)
    case (Inl e)
    let ?t = "count (\<lambda>k. k\<lparr>parser_failures := parser_failures k + 1\<rparr>) (s\<lparr>pp_parser := p'\<rparr>)"
    have "sound_outcome J P ?t (run_items c f ps [] ?t)"
      by (rule 2(1) [OF r [symmetric] Inl]) (use 2 J' in simp_all)
    then have "sound_outcome J P s (run_items c f ps [] ?t)" by (rule sound_outcome_before) simp
    with r Inl show ?thesis by simp
  next
    case (Inr its)
    let ?t = "s\<lparr>pp_parser := p'\<rparr>"
    have "list_all clean_item its"
      using passive_parser.emits_clean [OF p 2(5,6)] r Inr by (auto simp: list_all_iff clean_item_def)
    then have "sound_outcome J P ?t (run_items c f ps its ?t)"
      by (intro 2(2) [OF r [symmetric] Inr]) (use 2 J' in simp_all)
    then have "sound_outcome J P s (run_items c f ps its ?t)" by (rule sound_outcome_before) simp
    with r Inr show ?thesis by simp
  qed
next
  case (3 c f ps it its s)
  obtain ob0 where it: "it = Obs ob0" "clean_observation ob0" using 3(4) by (auto simp: clean_item_def)
  have "utc_stamp (fr_observed_at f)" using 3(6) by (simp add: clean_frame_def)
  then obtain ob where ob: "normalize_observation it (fr_observed_at f) = Inr ob" "clean_observation ob"
    using normalize_clean [OF it(2)] it(1) by blast
  obtain s' r where d: "is_duplicate c ob s = (s', r)" by fastforce
  obtain b where b: "r = Inr b" "pp_parser s' = pp_parser s" "pp_lost s' = pp_lost s"
    using is_duplicate_clean [OF ob(2) d] by blast
  show ?case
  proof (cases b)
    case True
    let ?t = "count (\<lambda>k. k\<lparr>duplicate_observations := duplicate_observations k + 1\<rparr>) s'"
    have "sound_outcome J P ?t (run_items c f ps its ?t)"
      by (rule 3(2) [OF ob(1) d [symmetric]]) (use 3 b True in simp_all)
    then have "sound_outcome J P s (run_items c f ps its ?t)" by (rule sound_outcome_before) (use b in simp)
    with ob d b True show ?thesis by simp
  next
    case False
    with ob d b 3 show ?thesis by (simp add: sound_outcome_def)
  qed
qed

section \<open>The invariant of the service\<close>

definition parts_ok :: "passive_runtime \<Rightarrow> parts \<Rightarrow> bool" where
  "parts_ok R s \<longleftrightarrow> mdns_clean (pt_mdns s) \<and> leases_ok 4096 (pt_leases s) \<and>
     tracker_ok (rt_tracker R) (pt_neighbors s) \<and> clean_neighbors (pt_neighbors s)"

definition env_ok :: "service_env \<Rightarrow> bool" where
  "env_ok E \<longleftrightarrow> (\<forall>ch. is_scalar ch \<longrightarrow> scalars (env_uni E ch)) \<and> redacts_text (env_redact E) \<and>
     (\<forall>k v. scalars k \<longrightarrow> scalars v \<longrightarrow> scalars (env_redact_item E k v))"

lemma build_runtime_eq:
  assumes "build_runtime E = Inr R"
  shows "\<exists>mc tc. new_mdns_config 9000 128 512 1300 4096 604800 (env_redact_item E) (env_uni E) (env_offset E) = Inr mc \<and>
    rt_mdns R = mc \<and> rt_tracker R = tc \<and> rt_parts R = \<lparr>pt_mdns = [], pt_leases = [], pt_neighbors = []\<rparr> \<and>
    cf_parsers (rt_pipeline R) = normalize_parsers (env_uni E) (production_parsers E mc 4096 tc)"
  using assms unfolding build_runtime_def bindR_eq_Inr
  by (auto simp: new_tracker_def new_dhcp_parser_def new_config_def Let_def split: if_splits)

lemma part_parser_contract:
  assumes p: "passive_parser p I"
    and get: "\<And>s. J s \<Longrightarrow> I (get s)" and put: "\<And>s q. J s \<Longrightarrow> I q \<Longrightarrow> J (put q s)"
  shows "passive_parser (part_parser get put p) J"
proof
  fix s f
  assume s: "J s" and f: "clean_frame f"
  show "J (fst (part_parser get put p s f))"
    using put [OF s passive_parser.keeps_inv [OF p get [OF s] f]] by (simp add: part_parser_def prod.case_eq_if)
  fix its it
  assume "snd (part_parser get put p s f) = Inr its" "it \<in> set its"
  then show "\<exists>ob. it = Obs ob \<and> clean_observation ob"
    using passive_parser.emits_clean [OF p get [OF s] f] by (auto simp: part_parser_def split: prod.splits)
qed

lemma stateless_any: "passive_parser (stateless parse) (\<lambda>_. True) \<Longrightarrow> passive_parser (stateless parse) J"
  by (auto simp: passive_parser_def stateless_def)

definition registered :: "passive_runtime \<Rightarrow> parts parser set" where
  "registered R = \<Union> (set ` snd ` set (cf_parsers (rt_pipeline R)))"

lemma normalize_parsers_sub:
  "snd ` set (normalize_parsers U ps) \<subseteq> snd ` set ps"
proof -
  have "snd ` set (foldl (\<lambda>d (name, items). od_set (casefold U name) items d) d ps) \<subseteq> snd ` set d \<union> snd ` set ps" for d
  proof (induction ps arbitrary: d)
    case (Cons p ps)
    obtain name items where p: "p = (name, items)" by fastforce
    show ?case
    proof -
      have "snd ` set (od_set (casefold U name) items d) \<subseteq> insert items (snd ` set d)"
        using image_mono [OF od_set_sub [of "casefold U name" items d], of snd] by simp
      with Cons [of "od_set (casefold U name) items d"] show ?thesis unfolding p by simp blast
    qed
  qed simp
  from this [of "[]"] show ?thesis by (simp add: normalize_parsers_def)
qed

lemma registered_sound:
  assumes "build_runtime E = Inr R" "env_ok E" "p \<in> registered R"
  shows "passive_parser p (parts_ok R)"
proof -
  obtain mc tc where R: "new_mdns_config 9000 128 512 1300 4096 604800 (env_redact_item E) (env_uni E) (env_offset E) = Inr mc"
    "rt_mdns R = mc" "rt_tracker R = tc"
    "cf_parsers (rt_pipeline R) = normalize_parsers (env_uni E) (production_parsers E mc 4096 tc)"
    using build_runtime_eq [OF assms(1)] by blast
  then have mc: "mdns_text_ok mc" using assms(2) by (auto simp: new_mdns_config_def mdns_text_ok_def env_ok_def)
  have "p \<in> \<Union> (set ` snd ` set (production_parsers E mc 4096 tc))"
    using assms(3) normalize_parsers_sub [of "env_uni E" "production_parsers E mc 4096 tc"]
    unfolding registered_def R(4) by (meson Union_mono image_mono subsetD)
  then consider "p = stateless parse_lldp" | "p = stateless parse_cdp"
    | "p = part_parser pt_mdns (\<lambda>q s. s\<lparr>pt_mdns := q\<rparr>) (mdns_parser mc)"
    | "p = part_parser pt_leases (\<lambda>q s. s\<lparr>pt_leases := q\<rparr>) (dhcp_parser (env_uni E) (env_redact E) 4096)"
    | "p = part_parser pt_neighbors (\<lambda>q s. s\<lparr>pt_neighbors := q\<rparr>) (arp_parser (env_uni E) tc)"
    by (auto simp: production_parsers_def)
  then show ?thesis
  proof cases
    case 1
    then show ?thesis using stateless_any [OF lldp.passive_parser_axioms] by simp
  next
    case 2
    then show ?thesis using stateless_any [OF cdp.passive_parser_axioms] by simp
  next
    case 3
    show ?thesis unfolding 3
      by (rule part_parser_contract [OF mdns.passive_parser_axioms]) (use mc in \<open>auto simp: parts_ok_def\<close>)
  next
    case 4
    show ?thesis unfolding 4
      by (rule part_parser_contract [OF dhcp.passive_parser_axioms]) (use assms(2) in \<open>auto simp: parts_ok_def env_ok_def\<close>)
  next
    case 5
    show ?thesis unfolding 5
      by (rule part_parser_contract [OF arp.passive_parser_axioms]) (use R(3) in \<open>auto simp: parts_ok_def\<close>)
  qed
qed

definition worker_sound :: "passive_runtime \<Rightarrow> parts worker \<Rightarrow> bool" where
  "worker_sound R w \<longleftrightarrow> (case w of WSink f ob its ps \<Rightarrow> clean_frame f \<and> list_all clean_item its \<and> set ps \<subseteq> registered R
     | WIdle \<Rightarrow> True | WDead \<Rightarrow> False)"

definition service_ok :: "passive_runtime \<Rightarrow> parts pipe \<Rightarrow> bool" where
  "service_ok R s \<longleftrightarrow> parts_ok R (pp_parser s) \<and> pp_lost s = 0 \<and> length (pp_waiting s) \<le> 1 \<and>
     (\<forall>f \<in> set (pp_queue s) \<union> set (pp_waiting s). clean_frame f) \<and> (\<forall>w \<in> set (pp_workers s). worker_sound R w)"

lemma settle_sound:
  assumes "sound_outcome (parts_ok R) (registered R) s r" "same_flow s (fst r)" "pp_lost s = 0" "clean_frame f"
    and "length (pp_waiting s) \<le> 1" "\<forall>f \<in> set (pp_queue s) \<union> set (pp_waiting s). clean_frame f"
    and "\<forall>w \<in> set (pp_workers s). worker_sound R w"
  shows "service_ok R (settle w f r)"
proof -
  obtain s' out where r: "r = (s', out)" by fastforce
  have "worker_sound R x" if "x \<in> set ((pp_workers s)[w := y])" "worker_sound R y" for x y
    using set_update_subset_insert [of "pp_workers s" w y] that assms(7) by blast
  then show ?thesis
    using assms by (auto simp: settle_def r sound_outcome_def same_flow_def service_ok_def worker_sound_def [of R WIdle]
        worker_sound_def [of R "WSink _ _ _ _"] split: outcome.split)
qed

lemma waiting_sub: "set (take i xs @ drop (Suc i) xs) \<subseteq> set xs"
  by (auto dest: in_set_takeD in_set_dropD)

lemma waiting_short: "length xs \<le> 1 \<Longrightarrow> length (take i xs @ drop (Suc i) xs) \<le> 1"
  by simp

lemma run_items_flow: "same_flow s (fst (run_items c f ps its s))"
  using run_items_ok [of c s f ps its] by (simp add: run_ok_def)

lemma worker_get_sound:
  assumes contract: "\<And>p. p \<in> registered R \<Longrightarrow> passive_parser p (parts_ok R)"
    and s: "service_ok R s" and get: "worker_get (rt_pipeline R) s w = Some s'"
  shows "service_ok R s'"
proof -
  obtain f q where q: "pp_queue s = f # q"
    and s': "s' = settle w f (run_items (rt_pipeline R) f
      (case map_of (cf_parsers (rt_pipeline R)) (fr_protocol f) of None \<Rightarrow> [] | Some ps \<Rightarrow> ps) []
      (s\<lparr>pp_queue := q, pp_in_flight := pp_in_flight s + 1\<rparr>))"
    using get by (auto simp: worker_get_def split: if_splits worker.splits list.splits)
  define ps where "ps = (case map_of (cf_parsers (rt_pipeline R)) (fr_protocol f) of None \<Rightarrow> [] | Some ps \<Rightarrow> ps)"
  have "set ps \<subseteq> registered R"
  proof (cases "map_of (cf_parsers (rt_pipeline R)) (fr_protocol f)")
    case (Some found)
    from map_of_SomeD [OF this] have "set found \<subseteq> registered R" unfolding registered_def by force
    with Some show ?thesis by (simp add: ps_def)
  qed (simp add: ps_def)
  moreover have f: "clean_frame f" using s q by (simp add: service_ok_def)
  ultimately have "sound_outcome (parts_ok R) (registered R) (s\<lparr>pp_queue := q, pp_in_flight := pp_in_flight s + 1\<rparr>)
      (run_items (rt_pipeline R) f ps [] (s\<lparr>pp_queue := q, pp_in_flight := pp_in_flight s + 1\<rparr>))"
    using s by (intro run_items_sound contract) (auto simp: service_ok_def)
  then show ?thesis
    unfolding s' ps_def [symmetric]
    by (rule settle_sound) (use s q f run_items_flow in \<open>auto simp: service_ok_def\<close>)
qed

lemma worker_sink_sound:
  assumes contract: "\<And>p. p \<in> registered R \<Longrightarrow> passive_parser p (parts_ok R)"
    and s: "service_ok R s" and sink: "worker_sink (rt_pipeline R) s w (if ok then SinkOk else SinkFailed) = Some s'"
  shows "service_ok R s'"
proof -
  obtain f ob its ps k where w: "w < length (pp_workers s)" "pp_workers s ! w = WSink f ob its ps"
    and s': "s' = settle w f (run_items (rt_pipeline R) f ps its (count k s))"
    using sink by (cases ok) (auto simp: worker_sink_def split: if_splits worker.splits)
  have "worker_sound R (WSink f ob its ps)" using s w unfolding service_ok_def by (metis nth_mem)
  then have wk: "clean_frame f" "list_all clean_item its" "set ps \<subseteq> registered R" by (simp_all add: worker_sound_def)
  then have "sound_outcome (parts_ok R) (registered R) (count k s) (run_items (rt_pipeline R) f ps its (count k s))"
    using s by (intro run_items_sound contract) (auto simp: service_ok_def)
  then show ?thesis
    unfolding s' by (rule settle_sound) (use s wk run_items_flow in \<open>auto simp: service_ok_def\<close>)
qed

lemma capture_sound:
  assumes s: "service_ok R s" and "pp_waiting s = []" "scalars ifname"
    and "capture c ifname packet now s = Inr (s', out)"
  shows "service_ok R s'"
proof (cases "decode_ethernet packet")
  case (Some d)
  obtain protocol payload where d: "d = (protocol, payload)" by fastforce
  from assms(4) Some d have "pipe_submit c s protocol (Bytes payload) (Some (utc_dt now)) (Some ifname) now = Inr (s', out)"
    by (simp add: capture_def)
  then obtain s1 fo
    where prep: "prepare_frame c s protocol (Bytes payload) (Some (utc_dt now)) (Some ifname) now = Inr (s1, fo)"
    and s': "(s', out) = (case fo of None \<Rightarrow> (s1, Returned False)
      | Some f \<Rightarrow> if queue_full c s1 then (s1\<lparr>pp_waiting := pp_waiting s1 @ [f]\<rparr>, Blocked)
          else (enqueue f s1, Returned True))"
    by (auto simp: pipe_submit_def result_simps)
  have same: "pp_parser s1 = pp_parser s \<and> pp_lost s1 = pp_lost s \<and> pp_waiting s1 = pp_waiting s \<and> pp_queue s1 = pp_queue s \<and>
      pp_workers s1 = pp_workers s"
    and f: "fo = Some f \<Longrightarrow> clean_frame f" for f
    using prep assms(3)
    by (auto simp: prepare_frame_def Let_def result_simps clean_frame_def text_clean_def utc_stamp_def split: if_splits)
  show ?thesis
    using s' same f s assms(2) by (cases fo) (auto simp: service_ok_def enqueue_def split: if_splits)
qed (use assms in \<open>simp add: capture_def\<close>)

section \<open>Maintenance keeps the shared state\<close>

definition tracker_clean :: "tracker_config \<Rightarrow> neighbors \<Rightarrow> bool" where
  "tracker_clean c entries \<longleftrightarrow> tracker_ok c entries \<and> clean_neighbors entries"

lemma kernel_evidence_clean:
  assumes "parse_kernel_neighbor U rec observed_at (Some ifname) = Inr (Some ev)" "scalars ifname"
  shows "clean_evidence ev"
proof -
  obtain address mac state where ev: "new_evidence U address mac ifname state (lit ''kernel.neighbor'') observed_at None = Inr ev"
    using assms(1) by (auto simp: parse_kernel_neighbor_def bindR_eq_Inr split: option.splits json.splits if_splits)
  show ?thesis by (rule new_evidence_clean [OF ev]) (use assms(2) in \<open>simp_all add: text_clean_def\<close>)
qed

lemma observe_clean:
  assumes "tracker_clean c entries" "clean_evidence ev" "tracker_observe c entries ev = (entries', res)"
  shows "tracker_clean c entries'"
  using assms tracker_observe_ok [of c entries ev entries' res] tracker_observe_clean [of entries ev c entries' res]
  by (auto simp: tracker_clean_def tracker_ok_def lru.bounded_def)

lemma poll_loop_clean:
  "poll_loop U c ifname observed_at docs entries out = (entries', res) \<Longrightarrow> scalars ifname \<Longrightarrow> tracker_clean c entries \<Longrightarrow>
     tracker_clean c entries'"
proof (induction U c ifname observed_at docs entries out rule: poll_loop.induct)
  case (2 U c ifname observed_at rec docs entries out)
  consider e where "parse_kernel_neighbor U rec observed_at (Some ifname) = Inl e"
    | "parse_kernel_neighbor U rec observed_at (Some ifname) = Inr None"
    | ev where "parse_kernel_neighbor U rec observed_at (Some ifname) = Inr (Some ev)"
    by (metis option.exhaust sum.exhaust)
  then show ?case
  proof cases
    case 1
    then show ?thesis using 2 by (auto split: if_splits)
  next
    case 2
    then show ?thesis using "2.IH"(2) "2.prems" by simp
  next
    case 3
    obtain entries1 r where o: "tracker_observe c entries ev = (entries1, r)" by fastforce
    have "tracker_clean c entries1"
      by (rule observe_clean [OF "2.prems"(3) kernel_evidence_clean [OF 3 "2.prems"(2)] o])
    with 3 o "2.prems" "2.IH"(3) [OF 3 refl o [symmetric]] show ?thesis by (cases r) auto
  qed
qed auto

lemma tracker_expire_clean:
  assumes "tracker_clean c entries" "tracker_expire entries now = Inr (entries', obs)"
  shows "tracker_clean c entries'"
proof -
  obtain t where t: "neighbor_utc now = Inr t" "tracker_expire_loop t entries entries [] = (entries', obs)"
    using assms(2) by (auto simp: tracker_expire_def result_simps)
  have ok: "od_ok entries" using assms(1) by (simp add: tracker_clean_def tracker_ok_def lru.bounded_def)
  have e: "entries' = filter (\<lambda>e. t < tr_expires_at (snd e)) entries"
    using t(2) fold_pop_filter [OF ok, of "\<lambda>e. \<not> t < tr_expires_at (snd e)"] by (simp add: tracker_expire_loop_spec)
  have "distinct (map fst entries')" using ok unfolding e od_ok_def by (simp add: distinct_map_filter)
  then show ?thesis
    using assms(1) e le_trans [OF length_filter_le]
    by (auto simp: tracker_clean_def tracker_ok_def lru.bounded_def od_ok_def filed_def clean_neighbors_def)
qed

lemma maintenance_parts_ok:
  assumes "maintenance_observations E loads (rt_tracker R) ifname r s = (s', res)" "parts_ok R s" "scalars ifname"
    and "mr_now r = utc_dt t" "dt_in_range t"
  shows "parts_ok R s'"
proof -
  obtain entries polled where p: "poll_kernel_neighbors (env_uni E) loads (rt_tracker R) ifname (mr_now r)
      (run_bounded_command (mr_child r) MAX_KERNEL_OUTPUT_BYTES) MAX_KERNEL_OUTPUT_BYTES (pt_neighbors s) = (entries, polled)"
    by fastforce
  have start: "tracker_clean (rt_tracker R) (pt_neighbors s)" using assms(2) by (simp add: parts_ok_def tracker_clean_def)
  have polled: "tracker_clean (rt_tracker R) entries"
    using p start poll_loop_clean [OF _ assms(3) start]
    by (auto simp: poll_kernel_neighbors_def split: sum.splits if_splits json.splits)
  obtain cache expired where m: "mdns_expire_at t (pt_mdns s) = (cache, expired)" by fastforce
  have mdns: "mdns_clean cache"
    using expire_loop_clean [of t "pt_mdns s" "pt_mdns s" "[]" cache expired] m assms(2,5) by (simp add: mdns_expire_at_def parts_ok_def)
  obtain entries' aged where a: "tracker_expire entries (mr_now r) = Inr (entries', aged)"
    using assms(4,5) by (cases "tracker_expire_loop t entries entries []") (simp add: tracker_expire_def neighbor_utc_def)
  note aged = tracker_expire_clean [OF polled a]
  show ?thesis
    using assms(1,2,4,5) p polled m mdns a aged
    by (auto simp: maintenance_observations_def mdns_expire_def Let_def parts_ok_def tracker_clean_def split: if_splits)
qed

section \<open>Every step of the service\<close>

lemma remove_waiting_ok:
  "service_ok R s \<Longrightarrow> service_ok R (s\<lparr>pp_waiting := take i (pp_waiting s) @ drop (Suc i) (pp_waiting s)\<rparr>)"
  using waiting_sub [of i "pp_waiting s"] waiting_short [of "pp_waiting s" i] by (auto simp: service_ok_def)

lemma service_step_ok:
  assumes "service_step E loads ifname R s s'" "build_runtime E = Inr R" "env_ok E" "scalars ifname" "service_ok R s"
  shows "service_ok R s'"
  using assms(1)
proof cases
  case serve_start
  then show ?thesis using assms(5) by (auto simp: pipe_start_def service_ok_def worker_sound_def split: if_splits)
next
  case (serve_capture now packet out)
  then show ?thesis using capture_sound [OF assms(5) _ assms(4)] by blast
next
  case (serve_wake i)
  then have i: "i < length (pp_waiting s)"
    "s' = enqueue (pp_waiting s ! i) (s\<lparr>pp_waiting := take i (pp_waiting s) @ drop (Suc i) (pp_waiting s)\<rparr>)"
    by (auto simp: pipe_wake_def split: if_splits)
  have "clean_frame (pp_waiting s ! i)" using assms(5) i(1) by (simp add: service_ok_def)
  then show ?thesis using remove_waiting_ok [OF assms(5), of i] unfolding i(2) by (auto simp: service_ok_def enqueue_def)
next
  case (serve_give_up i)
  then show ?thesis using remove_waiting_ok [OF assms(5)] by (simp add: pipe_give_up_def)
next
  case (serve_get w)
  then show ?thesis using worker_get_sound [OF registered_sound [OF assms(2,3)] assms(5)] by blast
next
  case (serve_sink w ok)
  then show ?thesis using worker_sink_sound [OF registered_sound [OF assms(2,3)] assms(5)] by blast
next
  case (serve_maintain r t p res)
  have "parts_ok R (pp_parser s)" using assms(5) by (simp add: service_ok_def)
  from maintenance_parts_ok [OF serve_maintain(4) this assms(4) serve_maintain(2,3)]
  show ?thesis using assms(5) serve_maintain(1) by (simp add: service_ok_def)
next
  case (serve_stop_begin timeout)
  then show ?thesis using assms(5) by (auto simp: stop_begin_def service_ok_def split: if_splits)
next
  case serve_stop_drained
  then show ?thesis using assms(5) by (auto simp: stop_drained_def stop_clear_def service_ok_def split: if_splits)
next
  case serve_stop_timeout
  then show ?thesis using assms(5) by (auto simp: stop_timeout_def stop_clear_def service_ok_def split: if_splits)
qed

lemma service_step_pipe:
  assumes "service_step E loads ifname R s s'" "pipe_inv (rt_pipeline R) s"
  shows "pipe_inv (rt_pipeline R) s'"
  using assms(1)
proof cases
  case (serve_capture now packet out)
  then show ?thesis
    using assms(2) pipe_submit_inv [OF _ assms(2)] by (auto simp: capture_def split: option.splits)
next
  case (serve_maintain r t p res)
  then show ?thesis using assms(2) by (simp add: pipe_inv_def balanced_def)
qed (use assms(2) pipe_step_inv [OF _ assms(2)] in \<open>auto intro: pipe_step.intros\<close>)

lemma service_reachable_ok:
  assumes "service_reachable E loads ifname R s" "build_runtime E = Inr R" "env_ok E" "scalars ifname"
  shows "pipe_inv (rt_pipeline R) s \<and> service_ok R s"
  using assms(1)
proof induction
  case service_new
  have "parts_ok R (rt_parts R)"
    using build_runtime_eq [OF assms(2)]
    by (auto simp: parts_ok_def mdns_clean_def leases_ok_def lru.bounded_def tracker_ok_def filed_def clean_neighbors_def)
  then show ?case by (simp add: pipe_inv_new) (simp add: service_ok_def new_pipe_def)
next
  case (service_next s s')
  then show ?case using service_step_pipe service_step_ok [OF _ assms(2-4)] by blast
qed

section \<open>Properties\<close>

definition demo_env :: service_env where
  "demo_env = \<lparr>env_uni = \<lambda>c. [c], env_redact = \<lambda>s. s, env_redact_item = \<lambda>k v. v, env_offset = \<lambda>t. 0,
     env_clock = \<lambda>n. 0, env_sha = \<lambda>bs. [], env_float = \<lambda>r. []\<rparr>"

lemma demo_env_ok: "env_ok demo_env"
  by (simp add: env_ok_def demo_env_def redacts_text_def)

lemma normalize_production: "normalize_parsers U (production_parsers E mc n tc) = production_parsers E mc n tc"
  by (simp add: normalize_parsers_def production_parsers_def od_set_def casefold_lower lit_def)

lemma build_runtime_total: "\<exists>R. build_runtime E = Inr R"
  by (simp add: build_runtime_def new_mdns_config_def new_tracker_def new_dhcp_parser_def new_config_def
      normalize_production seconds_def MAX_CAPTURE_BYTES_def) (simp add: production_parsers_def)

lemma runtime_bounds:
  assumes "build_runtime E = Inr R"
  shows "cf_queue_size (rt_pipeline R) = 256 \<and> cf_worker_count (rt_pipeline R) = 2 \<and>
    cf_max_frame_bytes (rt_pipeline R) = MAX_CAPTURE_BYTES \<and> cf_uni (rt_pipeline R) = env_uni E"
  using assms unfolding build_runtime_def bindR_eq_Inr
  by (auto simp: new_tracker_def new_dhcp_parser_def new_config_def Let_def split: if_splits)

lemma lldp_registered:
  assumes "build_runtime E = Inr R"
  shows "map_of (cf_parsers (rt_pipeline R)) (lit ''lldp'') = Some [stateless parse_lldp]"
proof -
  have "map_of (production_parsers E mc n tc) (lit ''lldp'') = Some [stateless parse_lldp]" for mc n tc
    by (simp add: production_parsers_def)
  with build_runtime_eq [OF assms] show ?thesis by (auto simp: normalize_production)
qed

text \<open>The service after it has started and captured an LLDP frame.\<close>

definition demo_lldp :: passive_frame where
  "demo_lldp = \<lparr>fr_protocol = lit ''lldp'', fr_payload = [0], fr_observed_at = utc_dt 0, fr_interface = Some (lit ''eth0'')\<rparr>"

definition demo_captured :: "passive_runtime \<Rightarrow> parts pipe" where
  "demo_captured R = enqueue demo_lldp
     ((new_pipe (rt_parts R))\<lparr>pp_accepting := True, pp_workers := replicate (cf_worker_count (rt_pipeline R)) WIdle\<rparr>)"

lemma demo_captured_reachable:
  assumes R: "build_runtime demo_env = Inr R"
  shows "service_reachable demo_env loads (lit ''eth0'') R (demo_captured R)"
proof -
  let ?s = "(new_pipe (rt_parts R))\<lparr>pp_accepting := True, pp_workers := replicate (cf_worker_count (rt_pipeline R)) WIdle\<rparr>"
  have "pipe_start (rt_pipeline R) (new_pipe (rt_parts R)) = Inr ?s" by (simp add: pipe_start_def new_pipe_def)
  from service_next [OF service_new serve_start [OF this]]
  have s: "service_reachable demo_env loads (lit ''eth0'') R ?s" .
  have name: "strip (casefold U (lit ''lldp'')) = lit ''lldp''" for U
    by (simp add: casefold_lower strip_lower lit_def)
  have "decode_ethernet (replicate 12 0 @ [0x88, 0xCC, 0]) = Some (lit ''lldp'', [0])"
    by (simp add: decode_ethernet_def MAX_CAPTURE_BYTES_def slice_def be_int_two eth_types)
  moreover have zero: "dt_in_range 0" by (simp add: dt_in_range_def dt_min_def dt_max_def)
  ultimately have "capture (rt_pipeline R) (lit ''eth0'') (replicate 12 0 @ [0x88, 0xCC, 0]) 0 ?s = Inr (demo_captured R, Returned True)"
    using lldp_registered [OF R] runtime_bounds [OF R]
    by (simp add: capture_def pipe_submit_def prepare_frame_def name demo_captured_def demo_lldp_def queue_full_def new_pipe_def
        MAX_CAPTURE_BYTES_def)
  from service_next [OF s serve_capture [OF _ zero this]] show ?thesis by (simp add: new_pipe_def)
qed

text \<open>C10. The observer loses no frame: with the production parsers, under every interleaving of captures, workers,
  sink answers, kernel polls, cache expiry and shutdown, no worker task dies, so every frame the service has
  accepted is processed, queued, in flight or counted as incomplete by a timed-out stop; and at most one
  captured frame waits for room.\<close>

theorem service_loses_no_frame:
  assumes "build_runtime E = Inr R" "env_ok E" "scalars ifname" "service_reachable E loads ifname R s"
  shows "submitted_frames (pp_counters s) = processed_frames (pp_counters s) + length (pp_queue s) + pp_in_flight s
      + incomplete_frames (pp_counters s) \<and> WDead \<notin> set (pp_workers s) \<and> length (pp_waiting s) \<le> 1"
proof -
  have "pipe_inv (rt_pipeline R) s" "service_ok R s" using service_reachable_ok [OF assms(4,1-3)] by simp_all
  moreover have "\<not> worker_sound R WDead" by (simp add: worker_sound_def)
  ultimately show ?thesis by (auto simp: pipe_inv_def balanced_def service_ok_def)
qed

theorem service_loses_no_frame_witness:
  "\<exists>R. build_runtime demo_env = Inr R \<and>
    submitted_frames (pp_counters (demo_captured R)) = processed_frames (pp_counters (demo_captured R))
      + length (pp_queue (demo_captured R)) + pp_in_flight (demo_captured R) + incomplete_frames (pp_counters (demo_captured R)) \<and>
    WDead \<notin> set (pp_workers (demo_captured R)) \<and> length (pp_waiting (demo_captured R)) \<le> 1"
proof -
  obtain R where R: "build_runtime demo_env = Inr R" using build_runtime_total by blast
  have "scalars (lit ''eth0'')" by simp
  from service_loses_no_frame [OF R demo_env_ok this demo_captured_reachable [OF R]] R show ?thesis by blast
qed

text \<open>A UDP datagram in an IPv4 packet, and a packet in an Ethernet frame with or without a VLAN tag.\<close>

definition udp_datagram :: "int \<Rightarrow> int \<Rightarrow> bytes \<Rightarrow> bytes \<Rightarrow> bytes" where
  "udp_datagram source_port destination_port checksum body =
     be16 source_port @ be16 destination_port @ be16 (int (8 + length body)) @ checksum @ body"

definition ipv4_packet :: "8 word \<Rightarrow> bytes \<Rightarrow> int \<Rightarrow> 8 word \<Rightarrow> bytes \<Rightarrow> bytes \<Rightarrow> bytes \<Rightarrow> bytes" where
  "ipv4_packet tos ident flags ttl addresses options data =
     [byte_of (int (0x45 + length options div 4)), tos] @ be16 (int (20 + length options + length data)) @ ident @
       be16 flags @ [ttl, 17, 0, 0] @ addresses @ options @ data"

definition ethernet_frame :: "bytes \<Rightarrow> bytes \<Rightarrow> (int \<times> bytes) option \<Rightarrow> int \<Rightarrow> bytes \<Rightarrow> bytes" where
  "ethernet_frame destination source tag ethertype payload =
     destination @ source @ (case tag of None \<Rightarrow> [] | Some (tpid, tci) \<Rightarrow> be16 tpid @ tci) @ be16 ethertype @ payload"

lemma decode_frame:
  assumes "length destination = 6" "length source = 6" "0 \<le> ethertype" "ethertype < 65536"
    and "case tag of None \<Rightarrow> ethertype \<notin> {ETH_P_8021Q, ETH_P_8021AD}
      | Some (tpid, tci) \<Rightarrow> tpid \<in> {ETH_P_8021Q, ETH_P_8021AD} \<and> length tci = 2"
    and "length (ethernet_frame destination source tag ethertype payload) \<le> MAX_CAPTURE_BYTES"
    and "ethertype = ETH_P_IP"
  shows "decode_ethernet (ethernet_frame destination source tag ethertype payload) = decode_ipv4_udp payload"
proof (cases tag)
  case None
  then show ?thesis using assms
    by (simp add: decode_ethernet_def ethernet_frame_def slice_def Let_def eth_types)
next
  case (Some t)
  obtain tpid tci where t: "t = (tpid, tci)" by fastforce
  have "0 \<le> tpid" "tpid < 65536" using assms(5) Some t by (auto simp: eth_types)
  then show ?thesis using assms Some t
    by (simp add: decode_ethernet_def ethernet_frame_def slice_def Let_def) (auto simp: eth_types)
qed

lemma ipv4_fields:
  assumes "length options mod 4 = 0" "length options \<le> 40" "length ident = 2" "length addresses = 8"
    and "0 \<le> flags" "flags < 65536" "20 + length options + length data < 65536"
  shows "uint (ipv4_packet tos ident flags ttl addresses options data ! 0) = int (0x45 + length options div 4)"
    and "slice 2 4 (ipv4_packet tos ident flags ttl addresses options data @ trailer) = be16 (int (20 + length options + length data))"
    and "slice 6 8 (ipv4_packet tos ident flags ttl addresses options data @ trailer) = be16 flags"
    and "(ipv4_packet tos ident flags ttl addresses options data @ trailer) ! 9 = 17"
    and "length (ipv4_packet tos ident flags ttl addresses options data) = 20 + length options + length data"
    and "slice (20 + length options) (20 + length options + length data)
      (ipv4_packet tos ident flags ttl addresses options data @ trailer) = data"
proof -
  obtain a b where i: "ident = [a, b]" using assms(3) by (auto simp: length_Suc_conv numeral_2_eq_2)
  show "uint (ipv4_packet tos ident flags ttl addresses options data ! 0) = int (0x45 + length options div 4)"
    using assms(2) by (simp add: ipv4_packet_def uint_byte_of)
  show "slice 2 4 (ipv4_packet tos ident flags ttl addresses options data @ trailer) = be16 (int (20 + length options + length data))"
    by (simp add: ipv4_packet_def slice_def be16_def)
  show "slice 6 8 (ipv4_packet tos ident flags ttl addresses options data @ trailer) = be16 flags"
    by (simp add: ipv4_packet_def slice_def be16_def i)
  show "(ipv4_packet tos ident flags ttl addresses options data @ trailer) ! 9 = 17"
    by (simp add: ipv4_packet_def be16_def i)
  show "length (ipv4_packet tos ident flags ttl addresses options data) = 20 + length options + length data"
    using assms(3,4) by (simp add: ipv4_packet_def)
  show "slice (20 + length options) (20 + length options + length data)
      (ipv4_packet tos ident flags ttl addresses options data @ trailer) = data"
  proof -
    define h where "h = [byte_of (int (0x45 + length options div 4)), tos] @ be16 (int (20 + length options + length data)) @ ident @
       be16 flags @ [ttl, 17, 0, 0] @ addresses @ options"
    have "length h = 20 + length options" using assms(3,4) by (simp add: h_def)
    moreover have "ipv4_packet tos ident flags ttl addresses options data @ trailer = h @ data @ trailer"
      by (simp add: ipv4_packet_def h_def)
    ultimately show ?thesis by (simp add: slice_def)
  qed
qed

lemma udp_fields:
  assumes "length checksum = 2"
  shows "slice 0 2 (udp_datagram sp dp checksum body @ trailer) = be16 sp"
    and "slice 2 4 (udp_datagram sp dp checksum body @ trailer) = be16 dp"
    and "slice 4 6 (udp_datagram sp dp checksum body @ trailer) = be16 (int (8 + length body))"
    and "slice 8 (8 + length body) (udp_datagram sp dp checksum body @ trailer) = body"
    and "length (udp_datagram sp dp checksum body) = 8 + length body"
  using assms by (simp_all add: udp_datagram_def slice_def be16_def)

lemma decode_datagram:
  assumes "length options mod 4 = 0" "length options \<le> 40" "length ident = 2" "length addresses = 8" "length checksum = 2"
    and "28 + length options + length body < 65536" "0 \<le> sp" "sp < 65536" "0 \<le> dp" "dp < 65536"
    and "flags = 0 \<or> flags = 0x4000"
  shows "decode_ipv4_udp (ipv4_packet tos ident flags ttl addresses options (udp_datagram sp dp checksum body) @ trailer) =
    (if 5353 \<in> {sp, dp} then Some (lit ''mdns'', body)
     else if {sp, dp} \<inter> {67, 68} \<noteq> {} then Some (lit ''dhcp'', body) else None)"
proof -
  let ?udp = "udp_datagram sp dp checksum body"
  let ?p = "ipv4_packet tos ident flags ttl addresses options ?udp"
  have ul: "length ?udp = 8 + length body" using udp_fields(5) [OF assms(5)] .
  have fl: "0 \<le> flags" "flags < 65536" "flags mod 0x4000 = 0" using assms(11) by auto
  have total: "20 + length options + length ?udp < 65536" using assms(6) ul by simp
  note ip = ipv4_fields [OF assms(1-4) fl(1,2) total]
  have lp: "length ?p = 28 + length options + length body" using ip(5) ul by simp
  have first: "uint ((?p @ trailer) ! 0) = int (0x45 + length options div 4)" using ip(1) lp by (simp add: nth_append)
  have ver: "uint ((?p @ trailer) ! 0) div 16 = 4" using assms(2) unfolding first by simp
  have hdr: "nat (uint ((?p @ trailer) ! 0) mod 16) * 4 = 20 + length options"
  proof -
    obtain k where k: "length options = 4 * k" using assms(1) by (auto simp: mod_eq_0_iff_dvd elim: dvdE)
    then have "k \<le> 10" using assms(2) by simp
    then have "(69 + int k) mod 16 = 5 + int k" by presburger
    then show ?thesis unfolding first k by simp
  qed
  have frag: "be_int (slice 6 8 (?p @ trailer)) mod 0x4000 = 0" using ip(3) fl by simp
  have tot: "nat (be_int (slice 2 4 (?p @ trailer))) = 28 + length options + length body"
    using ip(2) assms(6) ul by (simp add: nat_add_distrib)
  have udp: "slice (20 + length options) (28 + length options + length body) (?p @ trailer) = ?udp"
    using ip(6) [where trailer = trailer] ul by (simp add: add.assoc)
  note u = udp_fields(1-4) [OF assms(5), where sp = sp and dp = dp and body = body and trailer = "[]", unfolded append_Nil2]
  have ulen: "nat (be_int (slice 4 6 ?udp)) = 8 + length body"
    using u(3) assms(6) by (simp add: nat_add_distrib)
  show ?thesis
    unfolding decode_ipv4_udp_def Let_def hdr tot udp ulen
    using ver ip(4) [where trailer = trailer] lp frag u(1,2,4) ul assms(7-10) by (simp add: insert_commute)
qed

text \<open>Encapsulation is undone exactly: from an Ethernet frame (untagged, 802.1Q or 802.1ad, possibly padded)
  that carries an unfragmented IPv4 packet with any options and a UDP datagram to or from an mDNS or
  DHCP port, the decoder returns the protocol and exactly the datagram's body; other ports are ignored.\<close>

theorem udp_decapsulated:
  assumes "length destination = 6" "length source = 6"
    and "case tag of None \<Rightarrow> True | Some (tpid, tci) \<Rightarrow> tpid \<in> {ETH_P_8021Q, ETH_P_8021AD} \<and> length tci = 2"
    and "length options mod 4 = 0" "length options \<le> 40" "length ident = 2" "length addresses = 8" "length checksum = 2"
    and "0 \<le> sp" "sp < 65536" "0 \<le> dp" "dp < 65536" "flags = 0 \<or> flags = 0x4000"
    and "length (ethernet_frame destination source tag ETH_P_IP
      (ipv4_packet tos ident flags ttl addresses options (udp_datagram sp dp checksum body) @ padding)) \<le> MAX_CAPTURE_BYTES"
  shows "decode_ethernet (ethernet_frame destination source tag ETH_P_IP
      (ipv4_packet tos ident flags ttl addresses options (udp_datagram sp dp checksum body) @ padding)) =
    (if 5353 \<in> {sp, dp} then Some (lit ''mdns'', body)
     else if {sp, dp} \<inter> {67, 68} \<noteq> {} then Some (lit ''dhcp'', body) else None)"
proof -
  have "length (udp_datagram sp dp checksum body) = 8 + length body" by (rule udp_fields(5) [OF assms(8)])
  then have "28 + length options + length body < 65536"
    using assms(6,7,14) by (simp add: ethernet_frame_def ipv4_packet_def MAX_CAPTURE_BYTES_def)
  then have "decode_ipv4_udp (ipv4_packet tos ident flags ttl addresses options (udp_datagram sp dp checksum body) @ padding) =
      (if 5353 \<in> {sp, dp} then Some (lit ''mdns'', body)
       else if {sp, dp} \<inter> {67, 68} \<noteq> {} then Some (lit ''dhcp'', body) else None)"
    using assms by (intro decode_datagram)
  moreover have "decode_ethernet (ethernet_frame destination source tag ETH_P_IP
      (ipv4_packet tos ident flags ttl addresses options (udp_datagram sp dp checksum body) @ padding)) =
    decode_ipv4_udp (ipv4_packet tos ident flags ttl addresses options (udp_datagram sp dp checksum body) @ padding)"
    using assms(3) by (intro decode_frame assms(1,2,14) refl) (auto simp: eth_types split: option.splits)
  ultimately show ?thesis by simp
qed

theorem udp_decapsulated_witness:
  "decode_ethernet (ethernet_frame [1, 0, 94, 0, 0, 251] [2, 0, 0, 0, 0, 1] (Some (0x8100, [0, 7])) ETH_P_IP
      (ipv4_packet 0 [0, 1] 0x4000 255 [10, 0, 0, 7, 224, 0, 0, 251] [148, 4, 0, 0] (udp_datagram 5353 5353 [0, 0] [42]) @ [0, 0])) =
    (if 5353 \<in> {5353 :: int, 5353} then Some (lit ''mdns'', [42])
     else if {5353 :: int, 5353} \<inter> {67, 68} \<noteq> {} then Some (lit ''dhcp'', [42]) else None)"
  by (rule udp_decapsulated) (simp_all add: eth_types ethernet_frame_def ipv4_packet_def udp_datagram_def MAX_CAPTURE_BYTES_def)

text \<open>The bounded command is exact and bounded: however the child's output arrives in chunks, the result is the
  whole output when it fits the limit and the child ends in time with status 0, and otherwise the error of
  the first check that fails (size, then time, then status).\<close>

theorem bounded_command_exact:
  assumes "[] \<notin> set (ch_chunks p)"
  shows "run_bounded_command (Some p) limit =
    (if limit < length (concat (ch_chunks p)) then Inl (kernel_error ''kernel neighbor output exceeds its size limit'')
     else if ch_stalls p then Inl (kernel_error ''kernel neighbor command timed out'')
     else if ch_exit p \<noteq> 0 then Inl (kernel_error ''kernel neighbor command failed'')
     else Inr (concat (ch_chunks p)))"
  using read_output_spec [OF assms, of "[]" limit] by (simp add: run_bounded_command_def)

theorem bounded_command_exact_witness:
  "run_bounded_command (Some \<lparr>ch_chunks = [[91], [93, 10]], ch_stalls = False, ch_exit = 0\<rparr>) 3 =
    (if 3 < length (concat (ch_chunks \<lparr>ch_chunks = [[91 :: 8 word], [93, 10]], ch_stalls = False, ch_exit = 0\<rparr>))
     then Inl (kernel_error ''kernel neighbor output exceeds its size limit'')
     else if ch_stalls \<lparr>ch_chunks = [[91], [93, 10]], ch_stalls = False, ch_exit = 0\<rparr>
     then Inl (kernel_error ''kernel neighbor command timed out'')
     else if ch_exit \<lparr>ch_chunks = [[91], [93, 10]], ch_stalls = False, ch_exit = 0\<rparr> \<noteq> 0
     then Inl (kernel_error ''kernel neighbor command failed'')
     else Inr (concat (ch_chunks \<lparr>ch_chunks = [[91], [93, 10]], ch_stalls = False, ch_exit = 0\<rparr>)))"
  by (rule bounded_command_exact) simp

text \<open>A failed kernel poll does not stop maintenance: when the command fails, is too large, or its output is not
  JSON, the round still expires both caches and reports exactly their due entries.\<close>

theorem maintenance_isolates_poll:
  assumes "poll_kernel_neighbors (env_uni E) loads tc ifname (mr_now r)
      (run_bounded_command (mr_child r) MAX_KERNEL_OUTPUT_BYTES) MAX_KERNEL_OUTPUT_BYTES (pt_neighbors s) = (pt_neighbors s, Inl e)"
    and "poll_failure e" "mr_now r = utc_dt t" "dt_in_range t" "od_ok (pt_mdns s)" "tracker_ok tc (pt_neighbors s)"
  shows "maintenance_observations E loads tc ifname r s =
    (s\<lparr>pt_mdns := filter (\<lambda>x. t < snd (snd x)) (pt_mdns s), pt_neighbors := filter (\<lambda>x. t < tr_expires_at (snd x)) (pt_neighbors s)\<rparr>,
     Inr (map (\<lambda>x. expired_observation t (fst (snd x))) (filter (\<lambda>x. \<not> t < snd (snd x)) (pt_mdns s)) @
       map (\<lambda>x. neighbor_expired t (snd x)) (filter (\<lambda>x. \<not> t < tr_expires_at (snd x)) (pt_neighbors s))))"
proof -
  have "od_ok (pt_neighbors s)" using assms(6) by (simp add: tracker_ok_def lru.bounded_def)
  from fold_pop_filter [OF this, of "\<lambda>x. \<not> t < tr_expires_at (snd x)"]
  have "tracker_expire (pt_neighbors s) (utc_dt t) =
      Inr (filter (\<lambda>x. t < tr_expires_at (snd x)) (pt_neighbors s),
        map (\<lambda>x. neighbor_expired t (snd x)) (filter (\<lambda>x. \<not> t < tr_expires_at (snd x)) (pt_neighbors s)))"
    using assms(4) by (simp add: tracker_expire_def neighbor_utc_def tracker_expire_loop_spec)
  with assms show ?thesis
    by (simp add: maintenance_observations_def mdns_expire_def mdns_expire_at_spec Let_def)
qed

definition idle_round :: "int \<Rightarrow> maintenance_round" where
  "idle_round t = \<lparr>mr_now = utc_dt t, mr_child = None, mr_sink = \<lambda>n. True\<rparr>"

definition demo_tracker :: tracker_config where
  "demo_tracker = \<lparr>tc_max_age = 60, tc_dedupe_window = 5, tc_max_entries = 2\<rparr>"

definition demo_parts :: parts where
  "demo_parts = \<lparr>pt_mdns = [], pt_leases = [], pt_neighbors = track_all demo_tracker [seen_at ''10.0.0.7'' [1] 0]\<rparr>"

theorem maintenance_isolates_poll_witness:
  "maintenance_observations demo_env (\<lambda>raw. Inr JNull) demo_tracker (lit ''eth0'') (idle_round 60) demo_parts =
    (demo_parts\<lparr>pt_mdns := filter (\<lambda>x. 60 < snd (snd x)) (pt_mdns demo_parts),
       pt_neighbors := filter (\<lambda>x. 60 < tr_expires_at (snd x)) (pt_neighbors demo_parts)\<rparr>,
     Inr (map (\<lambda>x. expired_observation 60 (fst (snd x))) (filter (\<lambda>x. \<not> 60 < snd (snd x)) (pt_mdns demo_parts)) @
       map (\<lambda>x. neighbor_expired 60 (snd x)) (filter (\<lambda>x. \<not> 60 < tr_expires_at (snd x)) (pt_neighbors demo_parts))))"
  by (rule maintenance_isolates_poll [where e = "OSError (lit ''No such file or directory'')"])
    (simp_all add: idle_round_def run_bounded_command_def poll_kernel_neighbors_def poll_failure_def is_os_error_def
      dt_in_range_def dt_min_def dt_max_def demo_parts_def track_all_ok)

end
