(* ===== verification/Subnet.thy ===== *)
theory Subnet
  imports Py_Ip
begin

text \<open>
  \<open>subnet.py\<close>: from the kernel's address and route tables and the resolver file to the description of the
  configured interface and the decision whether its network may be scanned actively. The outcome of
  the \<open>ip\<close> child process, \<open>json.loads\<close> and the text of IPv6 addresses are arguments.
\<close>

section \<open>Excluded interfaces\<close>

definition EXCLUDED_INTERFACE_NAMES :: "string list" where
  "EXCLUDED_INTERFACE_NAMES = [''lo'', ''wlan0'']"

definition EXCLUDED_INTERFACE_PREFIXES :: "string list" where
  "EXCLUDED_INTERFACE_PREFIXES = [''docker'', ''tailscale'']"

definition starts_with :: "pystr \<Rightarrow> pystr \<Rightarrow> bool" where
  "starts_with prefix s \<longleftrightarrow> take (length prefix) s = prefix"

definition is_excluded_interface :: "unidata \<Rightarrow> pystr \<Rightarrow> bool" where
  "is_excluded_interface U name \<longleftrightarrow>
     (let lowered = casefold U name in
      lowered \<in> lit ` set EXCLUDED_INTERFACE_NAMES \<or>
      list_ex (\<lambda>prefix. starts_with (lit prefix) lowered) EXCLUDED_INTERFACE_PREFIXES)"

section \<open>Reading the kernel\<close>

record kernel_state =
  ks_addresses :: "fields list"
  ks_routes :: "fields list"
  ks_resolv_conf :: pystr

text \<open>How \<open>subprocess.run\<close> ends: program missing, timeout, or an exit status with standard output.\<close>

datatype process_end = NotInstalled | TimedOut | Exited int pystr

definition subnet_error :: "string \<Rightarrow> exn" where
  "subnet_error s = SubnetResolutionError (lit s)"

definition json_dicts :: "json list \<Rightarrow> fields list option" where
  "json_dicts xs = those (map (\<lambda>x. case x of JDict d \<Rightarrow> Some d | _ \<Rightarrow> None) xs)"

definition ip_json :: "(pystr \<Rightarrow> json option) \<Rightarrow> process_end \<Rightarrow> fields list result" where
  "ip_json loads p =
     (case p of
        NotInstalled \<Rightarrow> Inl (subnet_error ''the ip command is not installed'')
      | TimedOut \<Rightarrow> Inl (subnet_error ''timed out while reading kernel network state'')
      | Exited code out \<Rightarrow>
          if code \<noteq> 0 then Inl (subnet_error ''the selected interface is unavailable'')
          else (case loads out of
              None \<Rightarrow> Inl (subnet_error ''the ip command returned invalid JSON'')
            | Some (JList xs) \<Rightarrow>
                (case json_dicts xs of
                   None \<Rightarrow> Inl (subnet_error ''the ip command returned an unexpected JSON shape'')
                 | Some ds \<Rightarrow> Inr ds)
            | Some _ \<Rightarrow> Inl (subnet_error ''the ip command returned an unexpected JSON shape'')))"

definition read_state ::
    "(pystr \<Rightarrow> json option) \<Rightarrow> process_end \<Rightarrow> process_end \<Rightarrow> pystr option \<Rightarrow> kernel_state result" where
  "read_state loads address_run route_run resolv_conf =
     bindR (ip_json loads address_run) (\<lambda>addresses.
     bindR (ip_json loads route_run) (\<lambda>routes.
     case resolv_conf of
       None \<Rightarrow> Inl (subnet_error ''cannot read resolver configuration'')
     | Some resolver \<Rightarrow> Inr \<lparr>ks_addresses = addresses, ks_routes = routes, ks_resolv_conf = resolver\<rparr>))"

section \<open>The interface's address\<close>

text \<open>\<open>IPv4Interface(s)\<close>: the address and its network.\<close>

definition parse_interface4 :: "pystr \<Rightarrow> (int \<times> ipv4net) option" where
  "parse_interface4 s =
     (case split_on 47 s of
        [a, m] \<Rightarrow>
          (case (parse_ipv4 a, parse_prefix m) of
             (Some x, Some p) \<Rightarrow> Some (x, (x div host_size p * host_size p, p))
           | _ \<Rightarrow> None)
      | [a] \<Rightarrow> map_option (\<lambda>x. (x, (x, 32))) (parse_ipv4 a)
      | _ \<Rightarrow> None)"

text \<open>\<open>f"{local}/{prefixlen}"\<close> where the prefix length is an \<open>int\<close>, of which \<open>bool\<close> is a subclass.\<close>

definition int_text :: "json \<Rightarrow> pystr option" where
  "int_text v = (case v of JInt n \<Rightarrow> Some (str_int n)
     | JBool b \<Rightarrow> Some (if b then lit ''True'' else lit ''False'') | _ \<Rightarrow> None)"

definition entry_interface :: "fields \<Rightarrow> (int \<times> ipv4net) option" where
  "entry_interface entry =
     (case (fget entry ''local'', Option.bind (fget entry ''prefixlen'') int_text) of
        (Some (JStr addr), Some prefixlen) \<Rightarrow> parse_interface4 (addr @ lit ''/'' @ prefixlen)
      | _ \<Rightarrow> None)"

definition usable_entry :: "json \<Rightarrow> bool" where
  "usable_entry v = (case v of
       JDict entry \<Rightarrow> fget entry ''family'' = Some (jstr ''inet'') \<and> fget entry ''scope'' = Some (jstr ''global'') \<and>
         entry_interface entry \<noteq> None
     | _ \<Rightarrow> False)"

fun global_ipv4_loop :: "fields list \<Rightarrow> fields result" where
  "global_ipv4_loop [] = Inl (subnet_error ''selected interface has no global IPv4 address'')"
| "global_ipv4_loop (link # links) =
     (case fget link ''addr_info'' of
        Some (JList entries) \<Rightarrow>
          (case find usable_entry entries of Some (JDict entry) \<Rightarrow> Inr entry | _ \<Rightarrow> global_ipv4_loop links)
      | _ \<Rightarrow> global_ipv4_loop links)"

definition global_ipv4 :: "kernel_state \<Rightarrow> fields result" where
  "global_ipv4 st = global_ipv4_loop (ks_addresses st)"

section \<open>Route and resolvers\<close>

definition route_metric_value :: "fields \<Rightarrow> int" where
  "route_metric_value route =
     (case fget route ''metric'' of Some (JInt n) \<Rightarrow> n | Some (JBool b) \<Rightarrow> of_bool b | _ \<Rightarrow> 0)"

text \<open>\<open>min(routes, key=metric)\<close>: the first route of least metric.\<close>

fun min_route :: "fields \<Rightarrow> fields list \<Rightarrow> fields" where
  "min_route best [] = best"
| "min_route best (r # rs) =
     (if route_metric_value r < route_metric_value best then min_route r rs else min_route best rs)"

definition default_route :: "kernel_state \<Rightarrow> fields option" where
  "default_route st =
     (case filter (\<lambda>r. fget r ''dst'' \<in> {None, Some (jstr ''default'')}) (ks_routes st) of
        [] \<Rightarrow> None
      | r # rs \<Rightarrow> Some (min_route r rs))"

text \<open>\<open>str.splitlines()\<close> and \<open>str.split()\<close>.\<close>

definition line_break :: "int \<Rightarrow> bool" where
  "line_break c \<longleftrightarrow> 10 \<le> c \<and> c \<le> 13 \<or> 28 \<le> c \<and> c \<le> 30 \<or> c = 0x85 \<or> c = 0x2028 \<or> c = 0x2029"

fun splitlines_acc :: "pystr \<Rightarrow> pystr \<Rightarrow> pystr list" where
  "splitlines_acc [] acc = (if acc = [] then [] else [rev acc])"
| "splitlines_acc [c] acc = (if line_break c then [rev acc] else [rev (c # acc)])"
| "splitlines_acc (c # d # cs) acc =
     (if line_break c
      then rev acc # (if c = 13 \<and> d = 10 then splitlines_acc cs [] else splitlines_acc (d # cs) [])
      else splitlines_acc (d # cs) (c # acc))"

definition splitlines :: "pystr \<Rightarrow> pystr list" where
  "splitlines s = splitlines_acc s []"

fun split_words_acc :: "pystr \<Rightarrow> pystr \<Rightarrow> pystr list" where
  "split_words_acc [] acc = (if acc = [] then [] else [rev acc])"
| "split_words_acc (c # cs) acc =
     (if py_isspace c then (if acc = [] then split_words_acc cs [] else rev acc # split_words_acc cs [])
      else split_words_acc cs (c # acc))"

definition split_words :: "pystr \<Rightarrow> pystr list" where
  "split_words s = split_words_acc s []"

text \<open>\<open>str(ipaddress.ip_address(s))\<close>; the IPv6 case is the argument \<open>ip6\<close>.\<close>

definition ip_address_text :: "(pystr \<Rightarrow> pystr option) \<Rightarrow> pystr \<Rightarrow> pystr option" where
  "ip_address_text ip6 s = (case ipv4_normal s of Some t \<Rightarrow> Some t | None \<Rightarrow> ip6 s)"

definition dns_line :: "unidata \<Rightarrow> (pystr \<Rightarrow> pystr option) \<Rightarrow> pystr \<Rightarrow> pystr option" where
  "dns_line U ip6 raw =
     (case split_words (strip (takeWhile (\<lambda>c. c \<noteq> 35) raw)) of
        keyword # server # _ \<Rightarrow>
          if casefold U keyword \<noteq> lit ''nameserver'' then None
          else ip_address_text ip6 (takeWhile (\<lambda>c. c \<noteq> 37) server)
      | _ \<Rightarrow> None)"

fun dns_loop :: "unidata \<Rightarrow> (pystr \<Rightarrow> pystr option) \<Rightarrow> pystr list \<Rightarrow> pystr list \<Rightarrow> pystr list" where
  "dns_loop U ip6 [] servers = servers"
| "dns_loop U ip6 (raw # lines) servers =
     (case dns_line U ip6 raw of
        None \<Rightarrow> dns_loop U ip6 lines servers
      | Some server \<Rightarrow> dns_loop U ip6 lines (if server \<in> set servers then servers else servers @ [server]))"

definition dns_servers :: "unidata \<Rightarrow> (pystr \<Rightarrow> pystr option) \<Rightarrow> pystr \<Rightarrow> pystr list" where
  "dns_servers U ip6 contents = dns_loop U ip6 (splitlines contents) []"

section \<open>The decision\<close>

text \<open>
  \<open>ip_network(value, strict=True)\<close> on a configuration value, kept when it is an IPv4 network: text, or an
  integer that is a single address.
\<close>

definition approved_value :: "json \<Rightarrow> ipv4net option" where
  "approved_value v =
     (case v of
        JStr s \<Rightarrow> (case parse_net4 True s of NetOk n \<Rightarrow> Some n | _ \<Rightarrow> None)
      | JInt n \<Rightarrow> if 0 \<le> n \<and> n < 2 ^ 32 then Some (n, 32) else None
      | JBool b \<Rightarrow> Some (of_bool b, 32)
      | _ \<Rightarrow> None)"

definition approved_networks :: "json option \<Rightarrow> ipv4net list" where
  "approved_networks v = (case v of Some (JList xs) \<Rightarrow> List.map_filter approved_value xs | _ \<Rightarrow> [])"

definition active_target_decision :: "ipv4net \<Rightarrow> json option \<Rightarrow> json option \<Rightarrow> (bool \<times> pystr list) result" where
  "active_target_decision network approved_values max_hosts =
     (case max_hosts of
        Some (JInt limit) \<Rightarrow>
          (let reasons = (if limit < num_addresses network
                 then [lit ''CIDR has '' @ str_int (num_addresses network) @ lit '' addresses; maximum is '' @ str_int limit] else []);
               reasons = (if list_ex (subnet_of network) (approved_networks approved_values) then reasons
                 else reasons @ [lit ''CIDR is not within an explicitly approved active range''])
           in Inr (reasons = [], reasons))
      | _ \<Rightarrow> Inl (subnet_error ''active.max_hosts is invalid''))"

record subnet_description =
  sd_interface :: pystr
  sd_address :: pystr
  sd_cidr :: pystr
  sd_gateway :: "pystr option"
  sd_dns_servers :: "pystr list"
  sd_address_source :: pystr
  sd_route_source :: "pystr option"
  sd_route_metric :: "json option"
  sd_active_target_permitted :: bool
  sd_active_target_reasons :: "pystr list"

text \<open>
  \<open>IPv4Address(value)\<close> of a truthy gateway: text, or an integer; other values are not addresses.
\<close>

definition gateway_text :: "fields option \<Rightarrow> pystr option" where
  "gateway_text route =
     (case Option.bind route (\<lambda>r. fget r ''gateway'') of
        Some (JStr s) \<Rightarrow> if s = [] then None else ipv4_normal s
      | Some (JInt n) \<Rightarrow> if 0 < n \<and> n < 2 ^ 32 then Some (ipv4_text n) else None
      | Some (JBool True) \<Rightarrow> Some (ipv4_text 1)
      | _ \<Rightarrow> None)"

definition is_dynamic :: "fields \<Rightarrow> bool" where
  "is_dynamic entry \<longleftrightarrow> fget entry ''dynamic'' = Some (JBool True) \<or>
     (case fget entry ''flags'' of Some (JList fs) \<Rightarrow> jstr ''dynamic'' \<in> set fs | _ \<Rightarrow> False)"

definition selected_interface :: "unidata \<Rightarrow> fields \<Rightarrow> pystr result" where
  "selected_interface U interface_config =
     (case fget interface_config ''name'' of
        Some (JStr ifname) \<Rightarrow>
          if ifname = [] then Inl (subnet_error ''configured interface name is invalid'')
          else if is_excluded_interface U ifname \<and> fget interface_config ''allow_excluded_interface'' \<noteq> Some (JBool True)
          then Inl (subnet_error ''selected interface is excluded by default'')
          else Inr ifname
      | _ \<Rightarrow> Inl (subnet_error ''configured interface name is invalid''))"

definition describe_subnet ::
    "unidata \<Rightarrow> (pystr \<Rightarrow> pystr option) \<Rightarrow> fields \<Rightarrow> pystr \<Rightarrow> kernel_state \<Rightarrow> subnet_description result" where
  "describe_subnet U ip6 active_config ifname st =
     bindR (global_ipv4 st) (\<lambda>entry.
     case entry_interface entry of
       None \<Rightarrow> Inl (ValueError (lit ''Expected an IPv4 interface''))
     | Some (addr, network) \<Rightarrow>
         (let route = default_route st in
          bindR (active_target_decision network (fget active_config ''approved_ranges'') (fget active_config ''max_hosts''))
            (\<lambda>(permitted, reasons).
            Inr \<lparr>sd_interface = ifname, sd_address = ipv4_text addr, sd_cidr = net_text network,
              sd_gateway = gateway_text route, sd_dns_servers = dns_servers U ip6 (ks_resolv_conf st),
              sd_address_source = (if is_dynamic entry then lit ''dhcp'' else lit ''kernel''),
              sd_route_source = (case Option.bind route (\<lambda>r. fget r ''protocol'') of Some (JStr s) \<Rightarrow> Some s | _ \<Rightarrow> None),
              sd_route_metric = (case Option.bind route (\<lambda>r. fget r ''metric'') of
                  Some (JInt n) \<Rightarrow> Some (JInt n) | Some (JBool b) \<Rightarrow> Some (JBool b) | _ \<Rightarrow> None),
              sd_active_target_permitted = permitted, sd_active_target_reasons = reasons\<rparr>)))"

definition resolve_subnet ::
    "unidata \<Rightarrow> (pystr \<Rightarrow> pystr option) \<Rightarrow> fields \<Rightarrow> (pystr \<Rightarrow> kernel_state result) \<Rightarrow> subnet_description result" where
  "resolve_subnet U ip6 config reader =
     (case (fget config ''interface'', fget config ''active'') of
        (Some (JDict interface_config), Some (JDict active_config)) \<Rightarrow>
          bindR (selected_interface U interface_config) (\<lambda>ifname.
          bindR (reader ifname) (describe_subnet U ip6 active_config ifname))
      | _ \<Rightarrow> Inl (subnet_error ''validated interface and active configuration is required''))"

section \<open>Addresses and networks\<close>

lemma host_size_small: "host_size p \<le> 2 ^ 32"
  unfolding host_size_def by (rule power_increasing) auto

lemma host_size_split: "p \<le> 32 \<Longrightarrow> host_size p * 2 ^ p = 2 ^ 32"
  by (simp add: host_size_def flip: power_add)

lemma masked_net:
  assumes "0 \<le> x" "x < 2 ^ 32" "p \<le> 32"
  shows "net_ok (x div host_size p * host_size p, p) \<and> in_net x (x div host_size p * host_size p, p)"
proof -
  let ?h = "host_size p"
  have h: "0 < ?h" by simp
  have split: "x = x div ?h * ?h + x mod ?h" by simp
  have m: "0 \<le> x mod ?h" "x mod ?h < ?h" using h by (rule pos_mod_sign, rule pos_mod_bound)
  have "0 \<le> x div ?h" using assms(1) h by (simp add: pos_imp_zdiv_nonneg_iff)
  then have "0 \<le> x div ?h * ?h" by (rule mult_nonneg_nonneg) (use h in linarith)
  moreover have "x div ?h * ?h < 2 ^ 32" using split m(1) assms(2) by linarith
  moreover have "x div ?h * ?h \<le> x" "x \<le> x div ?h * ?h + ?h - 1" using split m by linarith+
  ultimately show ?thesis using assms(3) by (simp add: net_ok_def in_net_def broadcast_def)
qed

lemma dec_value_nonneg: "list_all is_digit s \<Longrightarrow> 0 \<le> dec_value s"
  by (induction s rule: rev_induct) (auto simp: dec_value_snoc is_digit_def dec_value_def)

lemma parse_octet_range: "parse_octet s = Some v \<Longrightarrow> 0 \<le> v \<and> v < 256"
  by (auto simp: parse_octet_def dec_value_nonneg split: if_splits)

lemma parse_ipv4_range: "parse_ipv4 s = Some a \<Longrightarrow> 0 \<le> a \<and> a < 2 ^ 32"
  by (auto simp: parse_ipv4_def dest!: parse_octet_range split: list.splits option.splits)

lemma prefix_of_mask_range: "prefix_of_mask m = Some p \<Longrightarrow> p \<le> 32"
  by (auto simp: prefix_of_mask_def find_Some_iff)

lemma parse_prefix_range: "parse_prefix s = Some p \<Longrightarrow> p \<le> 32"
  by (auto simp: parse_prefix_def dest: prefix_of_mask_range split: if_splits option.splits)

lemma single_net: "0 \<le> a \<Longrightarrow> a < 2 ^ 32 \<Longrightarrow> net_ok (a, 32) \<and> in_net a (a, 32)"
  by (simp add: net_ok_def in_net_def broadcast_def host_size_def)

lemma parse_interface4_ok:
  assumes "parse_interface4 s = Some (a, n)"
  shows "net_ok n \<and> in_net a n"
proof -
  consider s' where "parse_ipv4 s' = Some a" "n = (a, 32)"
    | s' m p where "parse_ipv4 s' = Some a" "parse_prefix m = Some p" "n = (a div host_size p * host_size p, p)"
    using assms unfolding parse_interface4_def by (auto split: list.splits option.splits)
  then show ?thesis
  proof cases
    case 1
    then show ?thesis using single_net parse_ipv4_range by blast
  next
    case 2
    then show ?thesis using masked_net parse_ipv4_range parse_prefix_range by simp
  qed
qed

lemma find_holds: "find P xs = Some x \<Longrightarrow> P x"
  by (induction xs) (auto split: if_splits)

lemma global_ipv4_loop_entry: "global_ipv4_loop links = Inr entry \<Longrightarrow> entry_interface entry \<noteq> None"
proof (induction links)
  case (Cons link links)
  show ?case
  proof (cases "\<exists>entries found. fget link ''addr_info'' = Some (JList entries) \<and> find usable_entry entries = Some (JDict found)")
    case True
    then obtain entries found where f: "fget link ''addr_info'' = Some (JList entries)" "find usable_entry entries = Some (JDict found)"
      by blast
    from find_holds [OF f(2)] have "entry_interface found \<noteq> None" by (simp add: usable_entry_def)
    with f Cons.prems show ?thesis by simp
  next
    case False
    then have "global_ipv4_loop (link # links) = global_ipv4_loop links" by (auto split: option.split json.split)
    with Cons show ?thesis by simp
  qed
qed simp

lemma global_ipv4_entry: "global_ipv4 st = Inr entry \<Longrightarrow> \<exists>a n. entry_interface entry = Some (a, n)"
  using global_ipv4_loop_entry by (fastforce simp: global_ipv4_def)

lemma entry_interface_ok: "entry_interface entry = Some (a, n) \<Longrightarrow> net_ok n \<and> in_net a n"
  by (auto simp: entry_interface_def parse_interface4_ok split: option.splits json.splits)

lemma describe_subnet_ok:
  assumes "describe_subnet U ip6 active_config ifname st = Inr d"
  shows "\<exists>a n reasons. net_ok n \<and> in_net a n \<and> sd_interface d = ifname \<and> sd_address d = ipv4_text a \<and> sd_cidr d = net_text n \<and>
    active_target_decision n (fget active_config ''approved_ranges'') (fget active_config ''max_hosts'') =
      Inr (sd_active_target_permitted d, reasons) \<and> sd_active_target_reasons d = reasons"
proof -
  obtain entry where entry: "global_ipv4 st = Inr entry"
    using assms by (auto simp: describe_subnet_def bindR_eq_Inr)
  obtain a n where an: "entry_interface entry = Some (a, n)" using global_ipv4_entry [OF entry] by blast
  obtain permitted reasons where dec: "active_target_decision n (fget active_config ''approved_ranges'')
      (fget active_config ''max_hosts'') = Inr (permitted, reasons)"
    and d: "sd_interface d = ifname" "sd_address d = ipv4_text a" "sd_cidr d = net_text n"
      "sd_active_target_permitted d = permitted" "sd_active_target_reasons d = reasons"
    using assms entry an by (auto simp: describe_subnet_def Let_def bindR_eq_Inr)
  with entry_interface_ok [OF an] show ?thesis by blast
qed

section \<open>Properties\<close>

text \<open>C11. Permission to scan is never given beyond what was approved: when the description permits active targets,
  the interface's network has at most \<open>active.max_hosts\<close> addresses and every one of its addresses lies in one
  configured approved range.\<close>

theorem subnet_permission_safe:
  assumes "resolve_subnet U ip6 config reader = Inr d" "sd_active_target_permitted d"
  shows "\<exists>active_config network limit. fget config ''active'' = Some (JDict active_config) \<and> sd_cidr d = net_text network \<and>
    fget active_config ''max_hosts'' = Some (JInt limit) \<and> num_addresses network \<le> limit \<and>
    (\<exists>approved \<in> set (approved_networks (fget active_config ''approved_ranges'')).
      \<forall>a. in_net a network \<longrightarrow> in_net a approved)"
proof -
  obtain active_config ifname st where c: "fget config ''active'' = Some (JDict active_config)"
    "describe_subnet U ip6 active_config ifname st = Inr d"
    using assms(1) by (auto simp: resolve_subnet_def bindR_eq_Inr split: option.splits json.splits)
  obtain n reasons where n: "sd_cidr d = net_text n"
    "active_target_decision n (fget active_config ''approved_ranges'') (fget active_config ''max_hosts'') = Inr (True, reasons)"
    using describe_subnet_ok [OF c(2)] assms(2) by auto
  then obtain limit where l: "fget active_config ''max_hosts'' = Some (JInt limit)" "num_addresses n \<le> limit"
    "list_ex (subnet_of n) (approved_networks (fget active_config ''approved_ranges''))"
    by (auto simp: active_target_decision_def Let_def split: option.splits json.splits if_splits)
  then have "\<exists>approved \<in> set (approved_networks (fget active_config ''approved_ranges'')). \<forall>a. in_net a n \<longrightarrow> in_net a approved"
    using subnet_of_members by (auto simp: list_ex_iff)
  with c(1) n(1) l(1,2) show ?thesis by blast
qed

definition demo_subnet_config :: fields where
  "demo_subnet_config = [(lit ''interface'', JDict [(lit ''name'', jstr ''eth0'')]),
     (lit ''active'', JDict [(lit ''approved_ranges'', JList [jstr ''10.0.0.0/16'']), (lit ''max_hosts'', JInt 256)])]"

definition demo_kernel :: kernel_state where
  "demo_kernel = \<lparr>ks_addresses = [[(lit ''addr_info'', JList [JDict [(lit ''family'', jstr ''inet''), (lit ''scope'', jstr ''global''),
       (lit ''local'', jstr ''10.0.3.7''), (lit ''prefixlen'', JInt 24)]])]],
     ks_routes = [], ks_resolv_conf = lit ''nameserver 10.0.0.53''\<rparr>"

lemma demo_dec: "dec_digits 1 = [49]" "dec_digits 0 = [48]" "dec_digits 3 = [51]" "dec_digits 7 = [55]" "dec_digits 10 = [49, 48]"
    "dec_digits 24 = [50, 52]"
  by (simp_all add: dec_digits_small dec_digits_step)

lemma demo_described:
  "\<exists>d. resolve_subnet (\<lambda>c. [c]) (\<lambda>s. None) demo_subnet_config (\<lambda>i. Inr demo_kernel) = Inr d \<and> sd_active_target_permitted d \<and>
    sd_cidr d = lit ''10.0.3.0/24''"
proof -
  have iface: "parse_interface4 (lit ''10.0.3.7'' @ lit ''/'' @ str_int 24) = Some (0x0A000307, (0x0A000300, 24))"
    by (simp add: parse_interface4_def lit_def str_int_def demo_dec parse_ipv4_def parse_octet_def is_digit_def dec_value_def
        parse_prefix_def host_size_def)
  have net: "parse_net4 True (lit ''10.0.0.0/16'') = NetOk (0x0A000000, 16)"
    by (simp add: parse_net4_def lit_def parse_ipv4_def parse_octet_def is_digit_def dec_value_def parse_prefix_def host_size_def
        net_at_def)
  have shown: "net_text (0x0A000300, 24) = lit ''10.0.3.0/24''"
    by (simp add: net_text_def ipv4_text_def octets_def demo_dec lit_def)
  have eth: "\<not> is_excluded_interface (\<lambda>c. [c]) (lit ''eth0'')"
    by (simp add: is_excluded_interface_def EXCLUDED_INTERFACE_NAMES_def EXCLUDED_INTERFACE_PREFIXES_def starts_with_def
        casefold_def ascii_lower_def lit_def)
  show ?thesis
    by (simp add: resolve_subnet_def demo_subnet_config_def selected_interface_def eth Let_def describe_subnet_def global_ipv4_def
        demo_kernel_def usable_entry_def entry_interface_def int_text_def iface active_target_decision_def
        approved_networks_def approved_value_def net shown num_addresses_def host_size_def subnet_of_def broadcast_def
        List.map_filter_simps)
qed

theorem subnet_permission_safe_witness:
  "\<exists>d. resolve_subnet (\<lambda>c. [c]) (\<lambda>s. None) demo_subnet_config (\<lambda>i. Inr demo_kernel) = Inr d \<and>
    (\<exists>active_config network limit. fget demo_subnet_config ''active'' = Some (JDict active_config) \<and>
      sd_cidr d = net_text network \<and> fget active_config ''max_hosts'' = Some (JInt limit) \<and> num_addresses network \<le> limit \<and>
      (\<exists>approved \<in> set (approved_networks (fget active_config ''approved_ranges'')).
        \<forall>a. in_net a network \<longrightarrow> in_net a approved))"
  using demo_described subnet_permission_safe [of "\<lambda>c. [c]" "\<lambda>s. None" demo_subnet_config "\<lambda>i. Inr demo_kernel"] by blast

text \<open>What is described is consistent: the interface is not one of the excluded ones unless the configuration
  allows it explicitly, its address lies in the network reported as its CIDR, that network has no host bits
  set, and the reasons are empty exactly when active targets are permitted.\<close>

theorem subnet_description_consistent:
  assumes "resolve_subnet U ip6 config reader = Inr d"
  shows "\<exists>interface_config a n. fget config ''interface'' = Some (JDict interface_config) \<and>
    fget interface_config ''name'' = Some (JStr (sd_interface d)) \<and>
    (is_excluded_interface U (sd_interface d) \<longrightarrow> fget interface_config ''allow_excluded_interface'' = Some (JBool True)) \<and>
    sd_address d = ipv4_text a \<and> sd_cidr d = net_text n \<and> net_ok n \<and> in_net a n \<and>
    (sd_active_target_permitted d \<longleftrightarrow> sd_active_target_reasons d = [])"
proof -
  obtain interface_config active_config ifname st where c: "fget config ''interface'' = Some (JDict interface_config)"
    "selected_interface U interface_config = Inr ifname" "describe_subnet U ip6 active_config ifname st = Inr d"
    using assms by (auto simp: resolve_subnet_def bindR_eq_Inr split: option.splits json.splits)
  obtain a n reasons where d: "net_ok n" "in_net a n" "sd_interface d = ifname" "sd_address d = ipv4_text a" "sd_cidr d = net_text n"
    "active_target_decision n (fget active_config ''approved_ranges'') (fget active_config ''max_hosts'') =
      Inr (sd_active_target_permitted d, reasons)" "sd_active_target_reasons d = reasons"
    using describe_subnet_ok [OF c(3)] by blast
  have "sd_active_target_permitted d \<longleftrightarrow> sd_active_target_reasons d = []"
    using d(6,7) by (auto simp: active_target_decision_def Let_def split: option.splits json.splits)
  moreover have "fget interface_config ''name'' = Some (JStr ifname) \<and>
      (is_excluded_interface U ifname \<longrightarrow> fget interface_config ''allow_excluded_interface'' = Some (JBool True))"
    using c(2) by (auto simp: selected_interface_def split: option.splits json.splits if_splits)
  ultimately show ?thesis using c(1) d(1-5) by blast
qed

theorem subnet_description_consistent_witness:
  "\<exists>d. resolve_subnet (\<lambda>c. [c]) (\<lambda>s. None) demo_subnet_config (\<lambda>i. Inr demo_kernel) = Inr d \<and>
    (\<exists>interface_config a n. fget demo_subnet_config ''interface'' = Some (JDict interface_config) \<and>
      fget interface_config ''name'' = Some (JStr (sd_interface d)) \<and>
      (is_excluded_interface (\<lambda>c. [c]) (sd_interface d) \<longrightarrow>
        fget interface_config ''allow_excluded_interface'' = Some (JBool True)) \<and>
      sd_address d = ipv4_text a \<and> sd_cidr d = net_text n \<and> net_ok n \<and> in_net a n \<and>
      (sd_active_target_permitted d \<longleftrightarrow> sd_active_target_reasons d = []))"
  using demo_described subnet_description_consistent [of "\<lambda>c. [c]" "\<lambda>s. None" demo_subnet_config "\<lambda>i. Inr demo_kernel"] by blast

end
