(* ===== verification/Run_Ledger.thy ===== *)
theory Run_Ledger
  imports Py_Json
begin

text \<open>
  What the collectors, the scheduler and the passive service rely on when they record a run: a started run
  is new and open, an open run is closed once with a final status, an issue is counted against its run,
  and nothing else changes. The repository provides it.
\<close>

locale run_ledger =
  fixes start :: "'s \<Rightarrow> 'i \<Rightarrow> ('s \<times> nat) result"
    and finish :: "'s \<Rightarrow> nat \<Rightarrow> pystr \<Rightarrow> pystr \<Rightarrow> int \<Rightarrow> 's result"
    and issue :: "'s \<Rightarrow> nat \<Rightarrow> 'e \<Rightarrow> 's result"
    and status :: "'s \<Rightarrow> nat \<Rightarrow> pystr option"
    and issues :: "'s \<Rightarrow> nat \<Rightarrow> nat"
    and ok :: "'s \<Rightarrow> bool"
    and open_status :: pystr
    and final :: "pystr set"
  assumes start_law: "ok s \<Longrightarrow> start s x = Inr (s', i) \<Longrightarrow>
      ok s' \<and> status s i = None \<and> status s' = (status s)(i \<mapsto> open_status) \<and> issues s' = issues s"
    and finish_law: "ok s \<Longrightarrow> finish s i st t n = Inr s' \<Longrightarrow>
      ok s' \<and> st \<in> final \<and> status s i = Some open_status \<and> status s' = (status s)(i \<mapsto> st) \<and> issues s' = issues s"
    and issue_law: "ok s \<Longrightarrow> issue s i e = Inr s' \<Longrightarrow>
      ok s' \<and> status s i \<noteq> None \<and> status s' = status s \<and> issues s' = (issues s)(i := issues s i + 1)"
    and no_run_no_issue: "ok s \<Longrightarrow> status s i = None \<Longrightarrow> issues s i = 0"
    and open_not_final: "open_status \<notin> final"
begin

text \<open>One use of the ledger, and any number of them.\<close>

inductive uses :: "'s \<Rightarrow> 's \<Rightarrow> bool" where
  uses_none: "uses s s"
| uses_start: "uses s s1 \<Longrightarrow> start s1 x = Inr (s2, i) \<Longrightarrow> uses s s2"
| uses_finish: "uses s s1 \<Longrightarrow> finish s1 i st t n = Inr s2 \<Longrightarrow> uses s s2"
| uses_issue: "uses s s1 \<Longrightarrow> issue s1 i e = Inr s2 \<Longrightarrow> uses s s2"

lemma uses_ok: "uses s s' \<Longrightarrow> ok s \<Longrightarrow> ok s'"
  by (induction rule: uses.induct) (use start_law finish_law issue_law in blast)+

text \<open>A closed run stays closed with the status it was given, whatever else is recorded.\<close>

lemma closed_for_good:
  "uses s s' \<Longrightarrow> ok s \<Longrightarrow> status s i = Some st \<Longrightarrow> st \<in> final \<Longrightarrow> status s' i = Some st"
proof (induction rule: uses.induct)
  case (uses_start s s1 x s2 j)
  then have "ok s1" using uses_ok by blast
  with uses_start start_law [of s1 x s2 j] show ?case by (auto split: if_splits)
next
  case (uses_finish s s1 j st' t n s2)
  then have "ok s1" using uses_ok by blast
  with uses_finish finish_law [of s1 j st' t n s2] open_not_final show ?case by auto
next
  case (uses_issue s s1 j e s2)
  then have "ok s1" using uses_ok by blast
  with uses_issue issue_law [of s1 j e s2] show ?case by auto
qed

text \<open>A run that was started is never lost.\<close>

lemma run_kept: "uses s s' \<Longrightarrow> ok s \<Longrightarrow> status s i \<noteq> None \<Longrightarrow> status s' i \<noteq> None"
proof (induction rule: uses.induct)
  case (uses_start s s1 x s2 j)
  then have "ok s1" using uses_ok by blast
  with uses_start start_law [of s1 x s2 j] show ?case by auto
next
  case (uses_finish s s1 j st' t n s2)
  then have "ok s1" using uses_ok by blast
  with uses_finish finish_law [of s1 j st' t n s2] show ?case by auto
next
  case (uses_issue s s1 j e s2)
  then have "ok s1" using uses_ok by blast
  with uses_issue issue_law [of s1 j e s2] show ?case by auto
qed auto

text \<open>A closed run cannot be closed again.\<close>

lemma finish_once: "ok s \<Longrightarrow> status s i \<noteq> Some open_status \<Longrightarrow> finish s i st t n \<noteq> Inr s'"
  using finish_law by blast

end

end
