(* ===== verification/Repository.thy ===== *)
theory Repository
  imports Py_Ip Run_Ledger
begin

text \<open>
  \<open>repository.py\<close> and the tables of \<open>migrations/\<close> it writes. A table is the list of its rows in insertion
  order, a statement is what it does to that list under the table's constraints, and a method is one
  transaction: an exception leaves the database as it was. The redactor is an argument.
\<close>

section \<open>Tables\<close>

record deployment_row =
  dp_id :: nat
  dp_site_key :: pystr
  dp_display_name :: pystr
  dp_started_at :: pystr

record device_row =
  dv_id :: nat
  dv_deployment :: nat
  dv_canonical_key :: pystr
  dv_created_at :: pystr

text \<open>The columns of \<open>observations\<close> that its unique index covers; the key of a row is all of them.\<close>

record fact =
  fa_deployment :: nat
  fa_subject_type :: pystr
  fa_subject_id :: "int option"
  fa_fact_type :: pystr
  fa_value_json :: pystr
  fa_confidence :: rat
  fa_inferred :: bool
  fa_source :: pystr
  fa_observed_at :: pystr

record run_row =
  rr_id :: nat
  rr_deployment :: "nat option"
  rr_collector :: pystr
  rr_status :: pystr
  rr_interface :: "pystr option"
  rr_target :: "pystr option"
  rr_started :: pystr
  rr_finished :: "pystr option"
  rr_items :: int

record error_row =
  er_id :: nat
  er_run :: nat
  er_category :: pystr
  er_detail :: pystr
  er_retryable :: bool
  er_source :: pystr
  er_observed_at :: pystr

record artifact_row =
  ar_id :: nat
  ar_deployment :: "nat option"
  ar_run :: "nat option"
  ar_path :: pystr
  ar_digest :: pystr
  ar_media_type :: pystr
  ar_size :: int
  ar_collected_at :: pystr
  ar_imported_at :: "pystr option"
  ar_source :: pystr
  ar_observed_at :: pystr

text \<open>Of the tables the repository only prunes, the row's id and time.\<close>

type_synonym timed_rows = "(nat \<times> pystr) list"

record repository =
  rp_deployments :: "deployment_row list"
  rp_devices :: "device_row list"
  rp_observations :: "(nat \<times> fact) list"
  rp_runs :: "run_row list"
  rp_errors :: "error_row list"
  rp_artifacts :: "artifact_row list"
  rp_software :: timed_rows
  rp_readings :: timed_rows
  rp_edges :: timed_rows
  rp_reports :: timed_rows

text \<open>The id of a new row: an \<open>INTEGER PRIMARY KEY\<close> is one more than the largest in the table.\<close>

definition next_id :: "nat list \<Rightarrow> nat" where
  "next_id ids = fold max ids 0 + 1"

definition repository_error :: "string \<Rightarrow> exn" where
  "repository_error s = RepositoryError (lit s)"

text \<open>A constraint of the schema, and text the driver cannot encode.\<close>

definition integrity_error :: exn where
  "integrity_error = OtherError (lit ''IntegrityError'')"

definition bind_params :: "pystr list \<Rightarrow> unit result" where
  "bind_params ts = (if list_all (list_all is_scalar) ts then Inr () else Inl UnicodeEncodeError)"

section \<open>Deployments and devices\<close>

definition upsert_deployment ::
    "(pystr \<Rightarrow> pystr) \<Rightarrow> repository \<Rightarrow> pystr \<Rightarrow> pystr \<Rightarrow> pystr \<Rightarrow> (repository \<times> nat) result" where
  "upsert_deployment redact s site_key display_name started_at =
     (let site_key = redact site_key; display_name = redact display_name in
      bindR (bind_params [site_key, display_name, started_at]) (\<lambda>_.
      case find (\<lambda>r. dp_site_key r = site_key) (rp_deployments s) of
        Some row \<Rightarrow>
          Inr (s\<lparr>rp_deployments := map (\<lambda>r. if dp_site_key r = site_key then r\<lparr>dp_display_name := display_name\<rparr> else r)
                 (rp_deployments s)\<rparr>, dp_id row)
      | None \<Rightarrow>
          (let new = next_id (map dp_id (rp_deployments s)) in
           Inr (s\<lparr>rp_deployments := rp_deployments s @ [\<lparr>dp_id = new, dp_site_key = site_key, dp_display_name = display_name,
                  dp_started_at = started_at\<rparr>]\<rparr>, new))))"

definition get_deployment :: "(pystr \<Rightarrow> pystr) \<Rightarrow> repository \<Rightarrow> pystr \<Rightarrow> deployment_row option" where
  "get_deployment redact s site_key = find (\<lambda>r. dp_site_key r = redact site_key) (rp_deployments s)"

definition upsert_device ::
    "(pystr \<Rightarrow> pystr) \<Rightarrow> repository \<Rightarrow> nat \<Rightarrow> pystr \<Rightarrow> pystr \<Rightarrow> (repository \<times> nat) result" where
  "upsert_device redact s deployment_id canonical_key created_at =
     (let canonical_key = redact canonical_key in
      bindR (bind_params [canonical_key, created_at]) (\<lambda>_.
      case find (\<lambda>r. dv_deployment r = deployment_id \<and> dv_canonical_key r = canonical_key) (rp_devices s) of
        Some row \<Rightarrow> Inr (s, dv_id row)
      | None \<Rightarrow>
          if deployment_id \<notin> dp_id ` set (rp_deployments s) then Inl integrity_error
          else (let new = next_id (map dv_id (rp_devices s)) in
            Inr (s\<lparr>rp_devices := rp_devices s @ [\<lparr>dv_id = new, dv_deployment = deployment_id, dv_canonical_key = canonical_key,
                   dv_created_at = created_at\<rparr>]\<rparr>, new))))"

definition get_device :: "repository \<Rightarrow> nat \<Rightarrow> device_row option" where
  "get_device s device_id = find (\<lambda>r. dv_id r = device_id) (rp_devices s)"

section \<open>Observations\<close>

text \<open>
  \<open>json.dumps\<close> raises on a value it cannot serialise; a NaN or infinity is written and then refused by
  the column's \<open>json_valid\<close> check.
\<close>

fun serialisable :: "json \<Rightarrow> bool" where
  "serialisable JOpaque = False"
| "serialisable (JList xs) = list_all serialisable xs"
| "serialisable (JDict kvs) = list_all (\<lambda>kv. serialisable (snd kv)) kvs"
| "serialisable _ = True"

definition value_text :: "(rat \<Rightarrow> pystr) \<Rightarrow> json \<Rightarrow> pystr" where
  "value_text fl v = json_dumps False (lit '','') (lit '':'') fl v"

text \<open>
  \<open>INSERT OR IGNORE\<close> leaves the table alone when the row repeats the unique index or breaks a check of
  the schema; a missing deployment still raises. The following \<open>SELECT\<close> then finds no row.
\<close>

definition record_observation ::
    "(pystr \<Rightarrow> pystr) \<Rightarrow> (json \<Rightarrow> json) \<Rightarrow> (rat \<Rightarrow> pystr) \<Rightarrow> repository \<Rightarrow> nat \<Rightarrow> pystr \<Rightarrow> int option \<Rightarrow> pystr \<Rightarrow> json
     \<Rightarrow> rat \<Rightarrow> bool \<Rightarrow> pystr \<Rightarrow> pystr \<Rightarrow> (repository \<times> nat) result" where
  "record_observation redact redact_value fl s deployment_id subject_type subject_id fact_type fact_value confidence inferred
       src observed_at =
     (let v = redact_value fact_value;
          row = \<lparr>fa_deployment = deployment_id, fa_subject_type = redact subject_type, fa_subject_id = subject_id,
            fa_fact_type = redact fact_type, fa_value_json = value_text fl v, fa_confidence = confidence,
            fa_inferred = inferred, fa_source = redact src, fa_observed_at = observed_at\<rparr>;
          valid = (json_check v = Inr () \<and> 0 \<le> confidence \<and> confidence \<le> 1)
      in if \<not> serialisable v then Inl (TypeError (lit ''Object is not JSON serializable''))
         else bindR (bind_params [fa_subject_type row, fa_fact_type row, fa_value_json row, fa_source row, observed_at]) (\<lambda>_.
           case find (\<lambda>r. snd r = row) (rp_observations s) of
             Some r \<Rightarrow> Inr (s, fst r)
           | None \<Rightarrow>
               if \<not> valid then Inl (TypeError (lit ''NoneType object is not subscriptable''))
               else if deployment_id \<notin> dp_id ` set (rp_deployments s) then Inl integrity_error
               else (let new = next_id (map fst (rp_observations s)) in
                 Inr (s\<lparr>rp_observations := rp_observations s @ [(new, row)]\<rparr>, new))))"

section \<open>The run ledger\<close>

definition FINAL_RUN_STATES :: "pystr set" where
  "FINAL_RUN_STATES = {lit ''succeeded'', lit ''partial'', lit ''failed'', lit ''cancelled''}"

definition start_run ::
    "(pystr \<Rightarrow> pystr) \<Rightarrow> repository \<Rightarrow> nat option \<Rightarrow> pystr \<Rightarrow> pystr \<Rightarrow> pystr option \<Rightarrow> pystr option
     \<Rightarrow> (repository \<times> nat) result" where
  "start_run redact s deployment_id collector started_at interface_name target_cidr =
     (let collector = redact collector; interface_name = map_option redact interface_name;
          target_cidr = map_option redact target_cidr;
          new = next_id (map rr_id (rp_runs s))
      in bindR (bind_params ([collector, started_at] @ (case interface_name of None \<Rightarrow> [] | Some t \<Rightarrow> [t]) @
           (case target_cidr of None \<Rightarrow> [] | Some t \<Rightarrow> [t]))) (\<lambda>_.
         if (case deployment_id of None \<Rightarrow> False | Some d \<Rightarrow> d \<notin> dp_id ` set (rp_deployments s)) then Inl integrity_error
         else Inr (s\<lparr>rp_runs := rp_runs s @ [\<lparr>rr_id = new, rr_deployment = deployment_id, rr_collector = collector,
             rr_status = lit ''running'', rr_interface = interface_name, rr_target = target_cidr,
             rr_started = started_at, rr_finished = None, rr_items = 0\<rparr>]\<rparr>, new)))"

text \<open>
  The update changes the running row of that id, under the checks \<open>finished_at >= started_at\<close> and
  \<open>item_count >= 0\<close>; the row count decides whether the transaction is kept.
\<close>

definition finish_run :: "repository \<Rightarrow> nat \<Rightarrow> pystr \<Rightarrow> pystr \<Rightarrow> int \<Rightarrow> repository result" where
  "finish_run s run_id status finished_at item_count =
     (if status \<notin> FINAL_RUN_STATES then Inl (repository_error ''collector run final status is invalid'')
      else bindR (bind_params [finished_at]) (\<lambda>_.
        let hit = (\<lambda>r. rr_id r = run_id \<and> rr_status r = lit ''running'') in
        if list_ex (\<lambda>r. hit r \<and> (finished_at < rr_started r \<or> item_count < 0)) (rp_runs s) then Inl integrity_error
        else if length (filter hit (rp_runs s)) \<noteq> 1 then Inl (repository_error ''collector run is missing or already final'')
        else Inr (s\<lparr>rp_runs := map (\<lambda>r. if hit r
            then r\<lparr>rr_status := status, rr_finished := Some finished_at, rr_items := item_count\<rparr> else r) (rp_runs s)\<rparr>)))"

definition record_collector_error ::
    "(pystr \<Rightarrow> pystr) \<Rightarrow> repository \<Rightarrow> nat \<Rightarrow> pystr \<Rightarrow> pystr \<Rightarrow> bool \<Rightarrow> pystr \<Rightarrow> pystr \<Rightarrow> (repository \<times> nat) result" where
  "record_collector_error redact s run_id category detail retryable src observed_at =
     (let new = next_id (map er_id (rp_errors s)) in
      bindR (bind_params [redact category, redact detail, redact src, observed_at]) (\<lambda>_.
        if run_id \<notin> rr_id ` set (rp_runs s) then Inl integrity_error
        else Inr (s\<lparr>rp_errors := rp_errors s @ [\<lparr>er_id = new, er_run = run_id, er_category = redact category,
            er_detail = redact detail, er_retryable = retryable, er_source = redact src, er_observed_at = observed_at\<rparr>]\<rparr>,
          new)))"

text \<open>The newest runs with their error counts.\<close>

definition recent_collector_runs :: "repository \<Rightarrow> int \<Rightarrow> (run_row \<times> nat) list result" where
  "recent_collector_runs s limit =
     (if \<not> (1 \<le> limit \<and> limit \<le> 1000) then Inl (repository_error ''collector run status limit must be from 1 to 1000'')
      else Inr (take (nat limit) (map (\<lambda>r. (r, length (filter (\<lambda>e. er_run e = rr_id r) (rp_errors s))))
        (rev (sort_key rr_id (rp_runs s))))))"

fun insert_interrupted :: "pystr \<Rightarrow> run_row list \<Rightarrow> error_row list \<Rightarrow> error_row list" where
  "insert_interrupted observed_at [] errors = errors"
| "insert_interrupted observed_at (r # rs) errors =
     insert_interrupted observed_at rs (errors @ [\<lparr>er_id = next_id (map er_id errors), er_run = rr_id r,
       er_category = lit ''interrupted'', er_detail = lit ''run ended before completion'', er_retryable = True,
       er_source = rr_collector r, er_observed_at = observed_at\<rparr>])"

definition is_running :: "run_row \<Rightarrow> bool" where
  "is_running r \<longleftrightarrow> rr_status r = lit ''running''"

definition recover_interrupted_runs :: "repository \<Rightarrow> pystr \<Rightarrow> (repository \<times> nat) result" where
  "recover_interrupted_runs s observed_at =
     (let running = sort_key rr_id (filter is_running (rp_runs s)) in
      bindR (bind_params [observed_at]) (\<lambda>_.
        if list_ex (\<lambda>r. observed_at < rr_started r) running then Inl integrity_error
        else Inr (s\<lparr>rp_errors := insert_interrupted observed_at running (rp_errors s),
            rp_runs := map (\<lambda>r. if is_running r then r\<lparr>rr_status := lit ''failed'', rr_finished := Some observed_at\<rparr> else r)
              (rp_runs s)\<rparr>, length running)))"

section \<open>Artifacts\<close>

text \<open>\<open>PurePosixPath(s).parts\<close> of a relative path: empty and \<open>.\<close> components are dropped.\<close>

definition path_parts :: "pystr \<Rightarrow> pystr list" where
  "path_parts s = filter (\<lambda>p. p \<noteq> [] \<and> p \<noteq> lit ''.'') (split_on 47 s)"

definition confined_relative :: "pystr \<Rightarrow> bool" where
  "confined_relative s \<longleftrightarrow> take 1 s \<noteq> lit ''/'' \<and> path_parts s \<noteq> [] \<and> lit ''..'' \<notin> set (path_parts s)"

definition is_sha256_text :: "pystr \<Rightarrow> bool" where
  "is_sha256_text d \<longleftrightarrow> length d = 64 \<and> list_all (\<lambda>c. 48 \<le> c \<and> c \<le> 57 \<or> 97 \<le> c \<and> c \<le> 102) d"

definition register_artifact ::
    "(pystr \<Rightarrow> pystr) \<Rightarrow> repository \<Rightarrow> nat option \<Rightarrow> nat option \<Rightarrow> pystr \<Rightarrow> pystr \<Rightarrow> pystr \<Rightarrow> int \<Rightarrow> pystr
     \<Rightarrow> pystr option \<Rightarrow> pystr \<Rightarrow> pystr \<Rightarrow> (repository \<times> nat \<times> bool) result" where
  "register_artifact redact s deployment_id run_id relative_path digest media_type size_bytes collected_at imported_at src
       observed_at =
     (if \<not> confined_relative relative_path then Inl (repository_error ''artifact path must be a confined relative path'')
      else if redact relative_path \<noteq> relative_path then Inl (repository_error ''artifact path contains sensitive data'')
      else if \<not> is_sha256_text digest then Inl (repository_error ''artifact digest must be lowercase SHA-256'')
      else bindR (bind_params ([relative_path, digest, media_type, collected_at, redact src, observed_at] @
             (case imported_at of None \<Rightarrow> [] | Some t \<Rightarrow> [t]))) (\<lambda>_.
        case find (\<lambda>r. ar_path r = relative_path \<and> ar_digest r = digest) (rp_artifacts s) of
          Some r \<Rightarrow> Inr (s, ar_id r, False)
        | None \<Rightarrow>
            if size_bytes < 0 then Inl (TypeError (lit ''NoneType object is not subscriptable''))
            else if (case deployment_id of None \<Rightarrow> False | Some d \<Rightarrow> d \<notin> dp_id ` set (rp_deployments s)) \<or>
               (case run_id of None \<Rightarrow> False | Some i \<Rightarrow> i \<notin> rr_id ` set (rp_runs s))
            then Inl integrity_error
            else (let new = next_id (map ar_id (rp_artifacts s)) in
              Inr (s\<lparr>rp_artifacts := rp_artifacts s @ [\<lparr>ar_id = new, ar_deployment = deployment_id, ar_run = run_id,
                  ar_path = relative_path, ar_digest = digest, ar_media_type = media_type, ar_size = size_bytes,
                  ar_collected_at = collected_at, ar_imported_at = imported_at, ar_source = redact src,
                  ar_observed_at = observed_at\<rparr>]\<rparr>, new, True))))"

section \<open>Retention\<close>

record retention_cutoffs =
  detailed_before :: pystr
  artifacts_before :: pystr
  reports_before :: pystr

definition prune_counts :: "repository \<Rightarrow> retention_cutoffs \<Rightarrow> (pystr \<times> nat) list" where
  "prune_counts s ends =
     [(lit ''observations'', length (filter (\<lambda>r. fa_observed_at (snd r) < detailed_before ends) (rp_observations s))),
      (lit ''collector_errors'', length (filter (\<lambda>r. er_observed_at r < detailed_before ends) (rp_errors s))),
      (lit ''software_observations'', length (filter (\<lambda>r. snd r < detailed_before ends) (rp_software s))),
      (lit ''infrastructure_readings'', length (filter (\<lambda>r. snd r < detailed_before ends) (rp_readings s))),
      (lit ''topology_edges'', length (filter (\<lambda>r. snd r < detailed_before ends) (rp_edges s))),
      (lit ''artifacts'', length (filter (\<lambda>r. ar_observed_at r < artifacts_before ends) (rp_artifacts s))),
      (lit ''report_history'', length (filter (\<lambda>r. snd r < reports_before ends) (rp_reports s)))]"

definition prune_rows :: "repository \<Rightarrow> retention_cutoffs \<Rightarrow> repository" where
  "prune_rows s ends =
     s\<lparr>rp_observations := filter (\<lambda>r. \<not> fa_observed_at (snd r) < detailed_before ends) (rp_observations s),
       rp_errors := filter (\<lambda>r. \<not> er_observed_at r < detailed_before ends) (rp_errors s),
       rp_software := filter (\<lambda>r. \<not> snd r < detailed_before ends) (rp_software s),
       rp_readings := filter (\<lambda>r. \<not> snd r < detailed_before ends) (rp_readings s),
       rp_edges := filter (\<lambda>r. \<not> snd r < detailed_before ends) (rp_edges s),
       rp_artifacts := filter (\<lambda>r. \<not> ar_observed_at r < artifacts_before ends) (rp_artifacts s),
       rp_reports := filter (\<lambda>r. \<not> snd r < reports_before ends) (rp_reports s)\<rparr>"

definition prune :: "repository \<Rightarrow> retention_cutoffs \<Rightarrow> bool \<Rightarrow> (repository \<times> (pystr \<times> nat) list) result" where
  "prune s ends dry_run =
     bindR (bind_params [detailed_before ends, artifacts_before ends, reports_before ends]) (\<lambda>_.
       Inr (if dry_run then s else prune_rows s ends, prune_counts s ends))"

section \<open>The ledger's invariant\<close>

lemma next_id_fresh: "i \<in> set ids \<Longrightarrow> i < next_id ids"
proof -
  have "a \<le> fold max xs a" for a :: nat and xs
    by (induction xs arbitrary: a) (auto intro: order_trans [OF max.cobounded2])
  then have "i \<in> set ids \<Longrightarrow> i \<le> fold max ids m" for m
    by (induction ids arbitrary: m) (auto intro: order_trans [OF max.cobounded1])
  then show "i \<in> set ids \<Longrightarrow> i < next_id ids" by (fastforce simp: next_id_def less_Suc_eq_le)
qed

text \<open>
  Ids are unique, every error belongs to a run, a run has a finishing time exactly when it is final, and it
  did not finish before it started.
\<close>

definition run_row_ok :: "run_row \<Rightarrow> bool" where
  "run_row_ok r \<longleftrightarrow> (case rr_finished r of
       None \<Rightarrow> is_running r
     | Some t \<Rightarrow> rr_status r \<in> FINAL_RUN_STATES \<and> rr_started r \<le> t) \<and> 0 \<le> rr_items r"

definition ledger_ok :: "repository \<Rightarrow> bool" where
  "ledger_ok s \<longleftrightarrow> distinct (map rr_id (rp_runs s)) \<and> er_run ` set (rp_errors s) \<subseteq> rr_id ` set (rp_runs s) \<and>
     (\<forall>r \<in> set (rp_runs s). run_row_ok r)"

definition run_of :: "repository \<Rightarrow> nat \<Rightarrow> run_row option" where
  "run_of s i = find (\<lambda>r. rr_id r = i) (rp_runs s)"

definition issue_count :: "repository \<Rightarrow> nat \<Rightarrow> nat" where
  "issue_count s i = length (filter (\<lambda>e. er_run e = i) (rp_errors s))"

lemma running_not_final: "lit ''running'' \<notin> FINAL_RUN_STATES"
  by (simp add: FINAL_RUN_STATES_def)

lemma run_of_None: "run_of s i = None \<longleftrightarrow> i \<notin> rr_id ` set (rp_runs s)"
  by (auto simp: run_of_def find_None_iff)

lemma run_of_Some:
  assumes "distinct (map rr_id (rp_runs s))"
  shows "run_of s i = Some r \<longleftrightarrow> r \<in> set (rp_runs s) \<and> rr_id r = i"
proof -
  have "distinct (map rr_id rs) \<Longrightarrow> find (\<lambda>r. rr_id r = i) rs = Some r \<longleftrightarrow> r \<in> set rs \<and> rr_id r = i" for rs
    by (induction rs) auto
  with assms show ?thesis by (simp add: run_of_def)
qed

lemma find_append_cases: "find P (xs @ ys) = (case find P xs of None \<Rightarrow> find P ys | Some x \<Rightarrow> Some x)"
  by (induction xs) simp_all

lemma find_map_id:
  assumes "\<And>r. rr_id (f r) = rr_id r"
  shows "find (\<lambda>r. rr_id r = i) (map f rs) = map_option f (find (\<lambda>r. rr_id r = i) rs)"
  by (induction rs) (simp_all add: assms)

lemma run_of_in: "run_of s i = Some r \<Longrightarrow> r \<in> set (rp_runs s) \<and> rr_id r = i"
  by (auto simp: run_of_def find_Some_iff)

lemma start_run_fields:
  assumes "start_run redact s deployment_id collector started_at interface_name target_cidr = Inr (s', i)"
  shows "i = next_id (map rr_id (rp_runs s)) \<and> (\<exists>r. s' = s\<lparr>rp_runs := rp_runs s @ [r]\<rparr> \<and> rr_id r = i \<and>
    rr_status r = lit ''running'' \<and> rr_started r = started_at \<and> rr_finished r = None \<and> rr_items r = 0)"
  using assms by (auto simp: start_run_def Let_def result_simps split: if_splits)

lemma start_run_law:
  assumes "ledger_ok s" "start_run redact s deployment_id collector started_at interface_name target_cidr = Inr (s', i)"
  shows "ledger_ok s' \<and> run_of s i = None \<and> issue_count s' = issue_count s \<and>
    map_option rr_status \<circ> run_of s' = (map_option rr_status \<circ> run_of s)(i \<mapsto> lit ''running'')"
proof -
  obtain r where i: "i = next_id (map rr_id (rp_runs s))" and s': "s' = s\<lparr>rp_runs := rp_runs s @ [r]\<rparr>"
    and r: "rr_id r = i" "rr_status r = lit ''running''" "rr_finished r = None" "rr_items r = 0"
    using start_run_fields [OF assms(2)] by blast
  have new: "i \<notin> rr_id ` set (rp_runs s)"
    using next_id_fresh [of i "map rr_id (rp_runs s)"] unfolding i by auto
  have run: "run_of s' j = (if j = i then Some r else run_of s j)" for j
  proof -
    have "run_of s i = None" using new by (simp add: run_of_None)
    then show ?thesis using r(1) by (auto simp: run_of_def s' find_append_cases split: option.split)
  qed
  have "ledger_ok s'" using assms(1) new r by (auto simp: ledger_ok_def s' run_row_ok_def is_running_def)
  moreover have "issue_count s' = issue_count s" by (rule ext) (simp add: issue_count_def s')
  ultimately show ?thesis using new r(2) by (auto simp: run run_of_None fun_eq_iff)
qed

lemma finish_run_fields:
  assumes "finish_run s i status finished_at items = Inr s'" "distinct (map rr_id (rp_runs s))"
  shows "status \<in> FINAL_RUN_STATES \<and> (\<exists>r. run_of s i = Some r \<and> is_running r \<and> rr_started r \<le> finished_at \<and> 0 \<le> items \<and>
    s' = s\<lparr>rp_runs := map (\<lambda>x. if rr_id x = i then x\<lparr>rr_status := status, rr_finished := Some finished_at, rr_items := items\<rparr>
      else x) (rp_runs s)\<rparr>)"
proof -
  let ?hit = "\<lambda>r. rr_id r = i \<and> rr_status r = lit ''running''"
  from assms(1) have st: "status \<in> FINAL_RUN_STATES" and one: "length (filter ?hit (rp_runs s)) = 1"
    and fine': "\<not> list_ex (\<lambda>r. ?hit r \<and> (finished_at < rr_started r \<or> items < 0)) (rp_runs s)"
    and s': "s' = s\<lparr>rp_runs := map (\<lambda>r. if ?hit r
            then r\<lparr>rr_status := status, rr_finished := Some finished_at, rr_items := items\<rparr> else r) (rp_runs s)\<rparr>"
    unfolding finish_run_def Let_def by (simp_all add: bindR_eq_Inr split: if_splits)
  from fine' have fine: "\<not> finished_at < rr_started r \<and> 0 \<le> items" if "r \<in> set (rp_runs s)" "?hit r" for r
    using that by (auto simp: list_ex_iff)
  have "filter ?hit (rp_runs s) \<noteq> []" using one by force
  then obtain r where "r \<in> set (filter ?hit (rp_runs s))" by (meson list.set_sel(1))
  then have r: "r \<in> set (rp_runs s)" "?hit r" by simp_all
  have only: "x = r" if "x \<in> set (rp_runs s)" "rr_id x = i" for x
    using assms(2) r that by (auto simp: distinct_map inj_on_def)
  have same: "map (\<lambda>r. if ?hit r then r\<lparr>rr_status := status, rr_finished := Some finished_at, rr_items := items\<rparr> else r) (rp_runs s) =
      map (\<lambda>x. if rr_id x = i then x\<lparr>rr_status := status, rr_finished := Some finished_at, rr_items := items\<rparr> else x) (rp_runs s)"
    using only r(2) by (intro map_cong refl) auto
  have run: "run_of s i = Some r" using run_of_Some [OF assms(2)] r by simp
  have "is_running r \<and> rr_started r \<le> finished_at \<and> 0 \<le> items" using fine [OF r] r(2) by (simp add: is_running_def not_less)
  then show ?thesis using st run s' [unfolded same] by blast
qed

lemma finish_run_law:
  assumes "ledger_ok s" "finish_run s i status finished_at items = Inr s'"
  shows "ledger_ok s' \<and> status \<in> FINAL_RUN_STATES \<and> issue_count s' = issue_count s \<and>
    (map_option rr_status \<circ> run_of s) i = Some (lit ''running'') \<and>
    map_option rr_status \<circ> run_of s' = (map_option rr_status \<circ> run_of s)(i \<mapsto> status)"
proof -
  have d: "distinct (map rr_id (rp_runs s))" using assms(1) by (simp add: ledger_ok_def)
  obtain r where st: "status \<in> FINAL_RUN_STATES" and r: "run_of s i = Some r" "is_running r" "rr_started r \<le> finished_at" "0 \<le> items"
    and s': "s' = s\<lparr>rp_runs := map (\<lambda>x. if rr_id x = i then x\<lparr>rr_status := status, rr_finished := Some finished_at, rr_items := items\<rparr>
      else x) (rp_runs s)\<rparr>"
    using finish_run_fields [OF assms(2) d] by blast
  define f :: "run_row \<Rightarrow> run_row" where "f = (\<lambda>x. if rr_id x = i then x\<lparr>rr_status := status, rr_finished := Some finished_at, rr_items := items\<rparr> else x)"
  note s' = s' [folded f_def]
  have ids: "rr_id (f x) = rr_id x" for x by (simp add: f_def)
  have run: "run_of s' j = map_option f (run_of s j)" for j
    unfolding run_of_def s' using find_map_id [of f j "rp_runs s", OF ids] by simp
  have stj: "map_option rr_status (run_of s' j) = (if j = i then Some status else map_option rr_status (run_of s j))" for j
    using r(1) run_of_in [of s j] by (cases "run_of s j") (auto simp: run f_def)
  have "run_row_ok (f x)" if "x \<in> set (rp_runs s)" for x
  proof (cases "rr_id x = i")
    case True
    then have "run_of s i = Some x" using run_of_Some [OF d] that by blast
    then have "x = r" using r(1) by simp
    then show ?thesis using True st r by (simp add: run_row_ok_def f_def)
  next
    case False
    then show ?thesis using assms(1) that by (simp add: ledger_ok_def f_def)
  qed
  then have rows: "\<forall>x \<in> set (rp_runs s'). run_row_ok x" by (simp add: s')
  have ids': "map rr_id (rp_runs s') = map rr_id (rp_runs s)" by (simp add: s' ids)
  then have "rr_id ` set (rp_runs s') = rr_id ` set (rp_runs s)" by (metis set_map)
  moreover have "rp_errors s' = rp_errors s" by (simp add: s')
  ultimately have "ledger_ok s'" using assms(1) rows ids' unfolding ledger_ok_def by metis
  moreover have "issue_count s' = issue_count s" by (rule ext) (simp add: issue_count_def s')
  ultimately show ?thesis using st r(1,2) stj by (auto simp: fun_eq_iff is_running_def)
qed

lemma record_error_law:
  assumes "ledger_ok s" "record_collector_error redact s i category detail retryable src observed_at = Inr (s', j)"
  shows "ledger_ok s' \<and> run_of s i \<noteq> None \<and> run_of s' = run_of s \<and> issue_count s' = (issue_count s)(i := issue_count s i + 1)"
proof -
  from assms(2) obtain e where i: "i \<in> rr_id ` set (rp_runs s)" and s': "s' = s\<lparr>rp_errors := rp_errors s @ [e]\<rparr>" "er_run e = i"
    by (auto simp: record_collector_error_def Let_def result_simps split: if_splits)
  have "ledger_ok s'" using assms(1) i by (auto simp: ledger_ok_def s')
  moreover have "run_of s' = run_of s" by (rule ext) (simp add: run_of_def s')
  moreover have "issue_count s' = (issue_count s)(i := issue_count s i + 1)" by (rule ext) (simp add: issue_count_def s')
  ultimately show ?thesis using i run_of_None by blast
qed

lemma issues_of_runs: "ledger_ok s \<Longrightarrow> run_of s i = None \<Longrightarrow> issue_count s i = 0"
  by (auto simp: ledger_ok_def run_of_None issue_count_def filter_empty_conv)

text \<open>The repository is a run ledger.\<close>

record run_request =
  rq_deployment :: "nat option"
  rq_collector :: pystr
  rq_started :: pystr
  rq_interface :: "pystr option"
  rq_target :: "pystr option"

record issue_request =
  is_category :: pystr
  is_detail :: pystr
  is_retryable :: bool
  is_source :: pystr
  is_at :: pystr

definition ledger_start :: "(pystr \<Rightarrow> pystr) \<Rightarrow> repository \<Rightarrow> run_request \<Rightarrow> (repository \<times> nat) result" where
  "ledger_start redact s q = start_run redact s (rq_deployment q) (rq_collector q) (rq_started q) (rq_interface q) (rq_target q)"

definition ledger_issue :: "(pystr \<Rightarrow> pystr) \<Rightarrow> repository \<Rightarrow> nat \<Rightarrow> issue_request \<Rightarrow> repository result" where
  "ledger_issue redact s i q =
     bindR (record_collector_error redact s i (is_category q) (is_detail q) (is_retryable q) (is_source q) (is_at q))
       (\<lambda>(s', _). Inr s')"

definition run_status :: "repository \<Rightarrow> nat \<Rightarrow> pystr option" where
  "run_status s = map_option rr_status \<circ> run_of s"

interpretation ledger: run_ledger "ledger_start redact" finish_run "ledger_issue redact" run_status issue_count ledger_ok
    "lit ''running''" FINAL_RUN_STATES
proof
  show "ledger_ok s' \<and> run_status s i = None \<and> run_status s' = (run_status s)(i \<mapsto> lit ''running'') \<and> issue_count s' = issue_count s"
    if "ledger_ok s" "ledger_start redact s x = Inr (s', i)" for s x s' i
    using start_run_law [OF that(1) that(2) [unfolded ledger_start_def]] by (simp add: run_status_def)
  show "ledger_ok s' \<and> st \<in> FINAL_RUN_STATES \<and> run_status s i = Some (lit ''running'') \<and> run_status s' = (run_status s)(i \<mapsto> st) \<and>
      issue_count s' = issue_count s"
    if "ledger_ok s" "finish_run s i st t n = Inr s'" for s i st t n s'
    using finish_run_law [OF that] by (simp add: run_status_def)
  show "ledger_ok s' \<and> run_status s i \<noteq> None \<and> run_status s' = run_status s \<and> issue_count s' = (issue_count s)(i := issue_count s i + 1)"
    if "ledger_ok s" "ledger_issue redact s i e = Inr s'" for s i e s'
    using that record_error_law [OF that(1)] by (fastforce simp: ledger_issue_def result_simps run_status_def)
  show "issue_count s i = 0" if "ledger_ok s" "run_status s i = None" for s i
    using that issues_of_runs by (simp add: run_status_def)
qed (rule running_not_final)

section \<open>Recovery, repeated facts and retention\<close>

lemma insert_interrupted_issues:
  "length (filter (\<lambda>e. er_run e = i) (insert_interrupted t rs errors)) =
    length (filter (\<lambda>e. er_run e = i) errors) + length (filter (\<lambda>r. rr_id r = i) rs)"
  by (induction t rs errors rule: insert_interrupted.induct) simp_all

lemma insert_interrupted_runs: "er_run ` set (insert_interrupted t rs errors) = er_run ` set errors \<union> rr_id ` set rs"
  by (induction t rs errors rule: insert_interrupted.induct) auto

lemma count_distinct_key: "distinct (map f xs) \<Longrightarrow> length (filter (\<lambda>x. f x = i) xs) = (if i \<in> f ` set xs then 1 else 0)"
  by (induction xs) (auto simp: filter_empty_conv)

lemma recover_law:
  assumes "ledger_ok s" "recover_interrupted_runs s t = Inr (s', n)"
  shows "ledger_ok s' \<and> n = length (filter is_running (rp_runs s)) \<and>
    run_status s' i = (if run_status s i = Some (lit ''running'') then Some (lit ''failed'') else run_status s i) \<and>
    issue_count s' i = issue_count s i + (if run_status s i = Some (lit ''running'') then 1 else 0)"
proof -
  have d: "distinct (map rr_id (rp_runs s))" using assms(1) by (simp add: ledger_ok_def)
  define f :: "run_row \<Rightarrow> run_row" where
    "f = (\<lambda>r. if is_running r then r\<lparr>rr_status := lit ''failed'', rr_finished := Some t\<rparr> else r)"
  let ?running = "sort_key rr_id (filter is_running (rp_runs s))"
  from assms(2) have late: "\<not> list_ex (\<lambda>r. t < rr_started r) ?running"
    and s': "s' = s\<lparr>rp_errors := insert_interrupted t ?running (rp_errors s), rp_runs := map f (rp_runs s)\<rparr>"
    and n: "n = length (filter is_running (rp_runs s))"
    unfolding recover_interrupted_runs_def Let_def f_def by (simp_all add: bindR_eq_Inr split: if_splits)
  have ids: "rr_id (f r) = rr_id r" for r by (simp add: f_def)
  have rp_runs': "rp_runs s' = map f (rp_runs s)" by (simp add: s')
  have run: "run_of s' j = map_option f (run_of s j)" for j
    unfolding run_of_def s' using find_map_id [of f j "rp_runs s", OF ids] by simp
  have open_iff: "run_status s i = Some (lit ''running'') \<longleftrightarrow> i \<in> rr_id ` set (filter is_running (rp_runs s))"
    using run_of_Some [OF d, of i] by (auto simp: run_status_def is_running_def)
  have dr: "distinct (map rr_id (filter is_running (rp_runs s)))" using d by (simp add: distinct_map_filter)
  have "length (filter (\<lambda>r. rr_id r = i) ?running) = length (filter (\<lambda>r. rr_id r = i) (filter is_running (rp_runs s)))"
    by (metis filter_sort length_sort)
  then have issues: "issue_count s' i = issue_count s i + (if run_status s i = Some (lit ''running'') then 1 else 0)"
    using count_distinct_key [OF dr, of i] by (simp add: issue_count_def s' insert_interrupted_issues open_iff)
  have "run_row_ok (f r)" if r: "r \<in> set (rp_runs s)" for r
  proof (cases "is_running r")
    case True
    then have "\<not> t < rr_started r" using late r by (auto simp: list_ex_iff)
    with True assms(1) r show ?thesis
      by (auto simp: run_row_ok_def f_def FINAL_RUN_STATES_def not_less ledger_ok_def)
  next
    case False
    then show ?thesis using assms(1) r by (simp add: f_def ledger_ok_def)
  qed
  moreover have "er_run ` set (rp_errors s') \<subseteq> rr_id ` set (rp_runs s)"
    using assms(1) by (auto simp: s' insert_interrupted_runs ledger_ok_def)
  moreover have "rr_id ` set (rp_runs s') = rr_id ` set (rp_runs s)" by (simp add: s' image_image ids)
  moreover have "map rr_id (rp_runs s') = map rr_id (rp_runs s)" by (simp add: s' ids)
  ultimately have "ledger_ok s'" using d unfolding ledger_ok_def by (metis (no_types, lifting) image_iff list.set_map rp_runs')
  moreover have "run_status s' i = (if run_status s i = Some (lit ''running'') then Some (lit ''failed'') else run_status s i)"
    by (cases "run_of s i") (auto simp: run_status_def run f_def is_running_def)
  ultimately show ?thesis using issues n by simp
qed

lemma recorded_fact_found:
  assumes "record_observation redact redact_value fl s d st sid ft v cf inferred src t = Inr (s', i)"
  shows "record_observation redact redact_value fl s' d st sid ft v cf inferred src t = Inr (s', i)"
proof -
  let ?row = "\<lparr>fa_deployment = d, fa_subject_type = redact st, fa_subject_id = sid, fa_fact_type = redact ft,
      fa_value_json = value_text fl (redact_value v), fa_confidence = cf, fa_inferred = inferred, fa_source = redact src, fa_observed_at = t\<rparr>"
  have "serialisable (redact_value v)" and b: "bind_params [redact st, redact ft, value_text fl (redact_value v), redact src, t] = Inr ()"
    using assms by (auto simp: record_observation_def Let_def bindR_eq_Inr split: if_splits)
  moreover have "\<exists>r. find (\<lambda>r. snd r = ?row) (rp_observations s') = Some r \<and> fst r = i"
    using assms b by (auto simp: record_observation_def Let_def find_append_cases bindR_eq_Inr split: option.splits if_splits)
  ultimately show ?thesis by (auto simp: record_observation_def Let_def)
qed

section \<open>Properties\<close>

definition empty_repository :: repository where
  "empty_repository = \<lparr>rp_deployments = [], rp_devices = [], rp_observations = [], rp_runs = [], rp_errors = [], rp_artifacts = [],
     rp_software = [], rp_readings = [], rp_edges = [], rp_reports = []\<rparr>"

definition demo_run :: "string \<Rightarrow> nat \<Rightarrow> string \<Rightarrow> run_row" where
  "demo_run collector i st = \<lparr>rr_id = i, rr_deployment = None, rr_collector = lit collector, rr_status = lit st, rr_interface = None,
     rr_target = None, rr_started = [49], rr_finished = (if st = ''running'' then None else Some [50]), rr_items = 0\<rparr>"

text \<open>One closed and one open run.\<close>

definition demo_repository :: repository where
  "demo_repository = empty_repository\<lparr>rp_runs := [demo_run ''snmp'' 1 ''failed'', demo_run ''ssh'' 2 ''running'']\<rparr>"

lemma demo_ledger_ok: "ledger_ok demo_repository"
  by (simp add: ledger_ok_def demo_repository_def demo_run_def empty_repository_def run_row_ok_def is_running_def FINAL_RUN_STATES_def)

lemma demo_recovered:
  "\<exists>s'. recover_interrupted_runs demo_repository [51] = Inr (s', 1)"
  by (simp add: recover_interrupted_runs_def demo_repository_def demo_run_def is_running_def bind_params_def is_scalar_def)

text \<open>C12. A closed run is final: whatever is recorded afterwards, a run with a final status keeps it, and closing
  it again is refused.\<close>

theorem run_status_final:
  assumes "ledger_ok s" "run_status s i = Some st" "st \<in> FINAL_RUN_STATES" "ledger.uses redact s s'"
  shows "run_status s' i = Some st \<and> (\<forall>st' t n. \<exists>e. finish_run s' i st' t n = Inl e)"
proof -
  have st: "run_status s' i = Some st" using ledger.closed_for_good [OF assms(4,1,2,3)] .
  moreover have "ledger_ok s'" using ledger.uses_ok [OF assms(4,1)] .
  moreover have "st \<noteq> lit ''running''" using assms(3) running_not_final by blast
  ultimately have "finish_run s' i st' t n \<noteq> Inr s''" for st' t n s''
    by (intro ledger.finish_once) simp_all
  with st show ?thesis by (metis sum.exhaust)
qed

theorem run_status_final_witness:
  "run_status demo_repository 1 = Some (lit ''failed'') \<and> (\<forall>st' t n. \<exists>e. finish_run demo_repository 1 st' t n = Inl e)"
proof -
  have "run_status demo_repository 1 = Some (lit ''failed'')"
    by (simp add: run_status_def run_of_def demo_repository_def demo_run_def)
  moreover have "lit ''failed'' \<in> FINAL_RUN_STATES" by (simp add: FINAL_RUN_STATES_def)
  ultimately show ?thesis
    using run_status_final [OF demo_ledger_ok _ _ ledger.uses_none [where redact = "\<lambda>t. t"]] by blast
qed

text \<open>Recovery closes every open run and only those: afterwards a run that was running is failed with exactly
  one more issue, every other run and its issues are as before, and the count returned is the number of
  runs that were open.\<close>

theorem recovery_closes_open_runs:
  assumes "ledger_ok s" "recover_interrupted_runs s t = Inr (s', n)"
  shows "n = length (filter is_running (rp_runs s)) \<and> (\<forall>i.
    run_status s' i = (if run_status s i = Some (lit ''running'') then Some (lit ''failed'') else run_status s i) \<and>
    issue_count s' i = issue_count s i + (if run_status s i = Some (lit ''running'') then 1 else 0))"
  using recover_law [OF assms] by blast

theorem recovery_closes_open_runs_witness:
  "\<exists>s'. recover_interrupted_runs demo_repository [51] = Inr (s', 1) \<and>
    1 = length (filter is_running (rp_runs demo_repository)) \<and> (\<forall>i.
    run_status s' i = (if run_status demo_repository i = Some (lit ''running'') then Some (lit ''failed'') else run_status demo_repository i) \<and>
    issue_count s' i = issue_count demo_repository i + (if run_status demo_repository i = Some (lit ''running'') then 1 else 0))"
  using demo_recovered recovery_closes_open_runs [OF demo_ledger_ok] by blast

text \<open>Recording a fact is idempotent: once it has been recorded, recording it again returns the same row and
  leaves the repository unchanged.\<close>

theorem record_observation_idempotent:
  assumes "record_observation redact redact_value fl s d st sid ft v cf inferred src t = Inr (s', i)"
  shows "record_observation redact redact_value fl s' d st sid ft v cf inferred src t = Inr (s', i)"
  using assms by (rule recorded_fact_found)

theorem record_observation_idempotent_witness:
  "\<exists>s'. record_observation (\<lambda>t. t) (\<lambda>v. v) (\<lambda>r. []) (empty_repository\<lparr>rp_deployments := [\<lparr>dp_id = 1, dp_site_key = [115],
      dp_display_name = [115], dp_started_at = [49]\<rparr>]\<rparr>) 1 [97] None [98] JNull 1 False [99] [49] = Inr (s', 1) \<and>
    record_observation (\<lambda>t. t) (\<lambda>v. v) (\<lambda>r. []) s' 1 [97] None [98] JNull 1 False [99] [49] = Inr (s', 1)"
proof -
  have "\<exists>s'. record_observation (\<lambda>t. t) (\<lambda>v. v) (\<lambda>r. []) (empty_repository\<lparr>rp_deployments := [\<lparr>dp_id = 1, dp_site_key = [115],
      dp_display_name = [115], dp_started_at = [49]\<rparr>]\<rparr>) 1 [97] None [98] JNull 1 False [99] [49] = Inr (s', 1)"
    by (simp add: record_observation_def bind_params_def is_scalar_def value_text_def empty_repository_def next_id_def lit_def)
  then show ?thesis using record_observation_idempotent by blast
qed

end
