(* ===== verification/Collectors.thy ===== *)
theory Collectors
  imports Repository Subnet
begin

text \<open>
  \<open>collectors.py\<close>: approval of targets, one collector run with its retries, and the orchestrator that runs
  requests concurrently under a semaphore. A collector is what its attempts yield; the event loop is a
  step relation over the tasks. Text of exceptions (plain and redacted) and the redactor are arguments.
\<close>

section \<open>Targets and credentials\<close>

fun any_contains :: "ipv4net \<Rightarrow> ipnet list \<Rightarrow> bool result" where
  "any_contains requested [] = Inr False"
| "any_contains requested (Net6 # ns) = Inl (TypeError (lit ''not of the same version''))"
| "any_contains requested (Net4 n # ns) = (if subnet_of requested n then Inr True else any_contains requested ns)"

definition target_error :: "pystr \<Rightarrow> exn" where
  "target_error = TargetApprovalError"

definition approve_target :: "(bool \<Rightarrow> pystr \<Rightarrow> bool) \<Rightarrow> pystr \<Rightarrow> pystr list \<Rightarrow> pystr result" where
  "approve_target v6 target approved_ranges =
     (case ip_network v6 False target of
        Inl e \<Rightarrow> Inl (target_error (lit ''collector target must be an IPv4 address or CIDR''))
      | Inr Net6 \<Rightarrow> Inl (target_error (lit ''collector target must be IPv4''))
      | Inr (Net4 requested) \<Rightarrow>
          bindR (mapR (ip_network v6 True) approved_ranges) (\<lambda>approved.
          bindR (any_contains requested approved) (\<lambda>inside.
            if \<not> inside then Inl (target_error (lit ''collector target '' @ net_text requested @ lit '' is outside approved ranges''))
            else if 47 \<notin> set target then Inr (ipv4_text (fst requested))
            else Inr (net_text requested))))"

record credential_reference =
  cr_provider :: pystr
  cr_key :: pystr

definition credential_from_mapping :: "fields option \<Rightarrow> credential_reference option result" where
  "credential_from_mapping value =
     (case value of
        None \<Rightarrow> Inr None
      | Some d \<Rightarrow>
          (case (fget d ''provider'', fget d ''key'') of
             (Some (JStr provider), Some (JStr key)) \<Rightarrow>
               if fst ` set d \<noteq> {lit ''provider'', lit ''key''}
               then Inl (CollectorError (lit ''credential reference must contain provider and key''))
               else Inr (Some \<lparr>cr_provider = provider, cr_key = key\<rparr>)
           | _ \<Rightarrow> Inl (CollectorError (lit ''credential reference must contain provider and key''))))"

section \<open>One collector run\<close>

record collector_issue =
  ci_category :: pystr
  ci_detail :: pystr
  ci_retryable :: bool

record collector_result =
  cr_item_count :: int
  cr_issues :: "collector_issue list"

definition new_result :: "int \<Rightarrow> collector_issue list \<Rightarrow> collector_result result" where
  "new_result item_count issues =
     (if item_count < 0 then Inl (ValueError (lit ''collector item count cannot be negative''))
      else Inr \<lparr>cr_item_count = item_count, cr_issues = issues\<rparr>)"

text \<open>
  What an attempt yields: a result, or an exception (\<open>TimeoutError\<close> from \<open>wait_for\<close> or from the
  collector). \<open>attempt_effect\<close> is the handler chain: the issues it records, and the final status and
  item count, or \<open>None\<close> when the loop goes on.
\<close>

datatype collect_outcome = Collected collector_result | Failed exn

definition issue_of :: "string \<Rightarrow> pystr \<Rightarrow> bool \<Rightarrow> collector_issue" where
  "issue_of category detail retryable = \<lparr>ci_category = lit category, ci_detail = detail, ci_retryable = retryable\<rparr>"

record exception_text =
  et_plain :: "exn \<Rightarrow> pystr"
  et_redacted :: "exn \<Rightarrow> pystr"

definition attempt_effect ::
    "exception_text \<Rightarrow> nat \<Rightarrow> nat \<Rightarrow> collect_outcome \<Rightarrow> collector_issue list \<times> (pystr \<times> int) option" where
  "attempt_effect T retries attempt outcome =
     (let failed = Some (lit ''failed'', 0); again = (if attempt < retries then None else failed) in
      case outcome of
        Collected r \<Rightarrow> (cr_issues r, Some (if cr_issues r = [] then lit ''succeeded'' else lit ''partial'', cr_item_count r))
      | Failed e \<Rightarrow>
          (case e of
             TimeoutError \<Rightarrow> ([issue_of ''timeout'' (lit ''collector timed out'') True], again)
           | CollectorAuthenticationError _ \<Rightarrow>
               ([issue_of ''authentication'' (lit ''referenced credential was rejected'') False], failed)
           | RetryableCollectorError _ \<Rightarrow> ([issue_of ''transport'' (et_plain T e) True], again)
           | _ \<Rightarrow> if is_collector_error e then ([issue_of ''collector'' (et_plain T e) False], failed)
               else ([issue_of ''collector_failure'' (et_redacted T e) False], failed)))"

section \<open>The orchestrator\<close>

record collector_request =
  cq_collector :: pystr
  cq_target :: pystr
  cq_credential :: "credential_reference option"

record run_summary =
  rs_run_id :: nat
  rs_collector :: pystr
  rs_target :: pystr
  rs_status :: pystr
  rs_attempts :: nat
  rs_item_count :: int
  rs_error_count :: nat

record orchestrator =
  or_deployment :: nat
  or_approved_ranges :: "pystr list"
  or_collectors :: "pystr set"
  or_concurrency :: nat
  or_timeout :: rat
  or_retries :: nat
  or_interface :: "pystr option"
  or_redact :: "pystr \<Rightarrow> pystr"
  or_text :: exception_text
  or_v6 :: "bool \<Rightarrow> pystr \<Rightarrow> bool"

text \<open>\<open>__post_init__\<close>, on the bounds as given.\<close>

definition check_bounds :: "int \<Rightarrow> rat \<Rightarrow> int \<Rightarrow> unit result" where
  "check_bounds concurrency timeout retries =
     (if concurrency < 1 then Inl (ValueError (lit ''collector concurrency must be positive''))
      else if timeout \<le> 0 then Inl (ValueError (lit ''collector timeout must be positive''))
      else if retries < 0 then Inl (ValueError (lit ''collector retries cannot be negative''))
      else Inr ())"

text \<open>
  A task of \<open>_run_one\<close>: not yet started by the loop; its run recorded, waiting for the semaphore; at the top of
  the attempt loop, or inside the attempt of that index, with the errors so far; returned; cancelled
  before it ever ran; or ended by an exception of the repository.
\<close>

datatype task =
    Pending
  | Waiting nat
  | AtAttempt nat nat nat
  | Attempting nat nat nat
  | Finished run_summary
  | NeverRan
  | Broken exn

record orchestration =
  oc_repo :: repository
  oc_tasks :: "task list"
  oc_permits :: nat
  oc_cancelled :: bool

text \<open>The refusal phase of \<open>run\<close>: every target is approved and every collector known before anything starts.\<close>

definition approve_requests :: "orchestrator \<Rightarrow> collector_request list \<Rightarrow> collector_request list result" where
  "approve_requests c qs =
     bindR (mapR (\<lambda>q. bindR (approve_target (or_v6 c) (cq_target q) (or_approved_ranges c)) (\<lambda>t. Inr (q\<lparr>cq_target := t\<rparr>))) qs)
       (\<lambda>approved.
         case find (\<lambda>q. cq_collector q \<notin> or_collectors c) approved of
           Some q \<Rightarrow> Inl (UnknownCollectorError (lit ''collector is not registered: '' @ cq_collector q))
         | None \<Rightarrow> Inr approved)"

definition new_orchestration :: "orchestrator \<Rightarrow> collector_request list \<Rightarrow> repository \<Rightarrow> bool \<Rightarrow> orchestration" where
  "new_orchestration c qs repo cancelled =
     \<lparr>oc_repo = repo, oc_tasks = replicate (length qs) Pending, oc_permits = or_concurrency c, oc_cancelled = cancelled\<rparr>"

definition set_task :: "nat \<Rightarrow> task \<Rightarrow> orchestration \<Rightarrow> orchestration" where
  "set_task i tk s = s\<lparr>oc_tasks := (oc_tasks s)[i := tk]\<rparr>"

definition begin_task :: "orchestrator \<Rightarrow> collector_request \<Rightarrow> nat \<Rightarrow> pystr \<Rightarrow> orchestration \<Rightarrow> orchestration" where
  "begin_task c q i now s =
     (case start_run (or_redact c) (oc_repo s) (Some (or_deployment c)) (cq_collector q) now (or_interface c) (Some (cq_target q)) of
        Inl e \<Rightarrow> set_task i (Broken e) s
      | Inr (repo, run) \<Rightarrow> set_task i (Waiting run) (s\<lparr>oc_repo := repo\<rparr>))"

text \<open>\<open>_record_issue\<close> for a list of issues, each its own transaction.\<close>

fun record_issues ::
    "orchestrator \<Rightarrow> collector_request \<Rightarrow> nat \<Rightarrow> pystr \<Rightarrow> collector_issue list \<Rightarrow> repository \<Rightarrow> repository \<times> unit result" where
  "record_issues c q run now [] repo = (repo, Inr ())"
| "record_issues c q run now (x # xs) repo =
     (case record_collector_error (or_redact c) repo run (ci_category x) (ci_detail x) (ci_retryable x) (cq_collector q) now of
        Inl e \<Rightarrow> (repo, Inl e)
      | Inr (repo', _) \<Rightarrow> record_issues c q run now xs repo')"

definition finish_task ::
    "collector_request \<Rightarrow> nat \<Rightarrow> nat \<Rightarrow> pystr \<Rightarrow> pystr \<Rightarrow> nat \<Rightarrow> int \<Rightarrow> nat \<Rightarrow> orchestration \<Rightarrow> orchestration" where
  "finish_task q i run now status attempts items errors s =
     (case finish_run (oc_repo s) run status now items of
        Inl e \<Rightarrow> set_task i (Broken e) s
      | Inr repo \<Rightarrow> set_task i (Finished \<lparr>rs_run_id = run, rs_collector = cq_collector q, rs_target = cq_target q, rs_status = status,
          rs_attempts = attempts, rs_item_count = items, rs_error_count = errors\<rparr>) (s\<lparr>oc_repo := repo\<rparr>))"

text \<open>The end of an attempt; leaving the loop releases the semaphore.\<close>

definition attempt_task ::
    "orchestrator \<Rightarrow> collector_request \<Rightarrow> nat \<Rightarrow> nat \<Rightarrow> nat \<Rightarrow> nat \<Rightarrow> pystr \<Rightarrow> collect_outcome \<Rightarrow> orchestration \<Rightarrow> orchestration" where
  "attempt_task c q i run k errors now outcome s =
     (case attempt_effect (or_text c) (or_retries c) k outcome of
        (issues, next) \<Rightarrow>
          (case record_issues c q run now issues (oc_repo s) of
             (repo, Inl e) \<Rightarrow> set_task i (Broken e) (s\<lparr>oc_repo := repo, oc_permits := oc_permits s + 1\<rparr>)
           | (repo, Inr _) \<Rightarrow>
               (let s = s\<lparr>oc_repo := repo\<rparr>; errors = errors + length issues in
                case next of
                  None \<Rightarrow> set_task i (AtAttempt run (k + 1) errors) s
                | Some (status, items) \<Rightarrow>
                    finish_task q i run now status (k + 1) items errors (s\<lparr>oc_permits := oc_permits s + 1\<rparr>))))"

definition cancel_task ::
    "collector_request \<Rightarrow> nat \<Rightarrow> nat \<Rightarrow> nat \<Rightarrow> nat \<Rightarrow> pystr \<Rightarrow> orchestration \<Rightarrow> orchestration" where
  "cancel_task q i run attempts errors now s =
     finish_task q i run now (lit ''cancelled'') attempts 0 errors (s\<lparr>oc_cancelled := True\<rparr>)"

text \<open>
  The steps of the tasks. An attempt starts only while the cancellation event is not set. A
  cancellation reaches a task at the top of the loop, during an attempt, while it waits for the
  semaphore, or before it has started.
\<close>

inductive task_step :: "orchestrator \<Rightarrow> collector_request list \<Rightarrow> orchestration \<Rightarrow> orchestration \<Rightarrow> bool" for c qs where
  step_begin: "i < length (oc_tasks s) \<Longrightarrow> oc_tasks s ! i = Pending \<Longrightarrow> task_step c qs s (begin_task c (qs ! i) i now s)"
| step_acquire: "i < length (oc_tasks s) \<Longrightarrow> oc_tasks s ! i = Waiting run \<Longrightarrow> 0 < oc_permits s \<Longrightarrow>
    task_step c qs s (set_task i (AtAttempt run 0 0) (s\<lparr>oc_permits := oc_permits s - 1\<rparr>))"
| step_try: "i < length (oc_tasks s) \<Longrightarrow> oc_tasks s ! i = AtAttempt run k errors \<Longrightarrow> \<not> oc_cancelled s \<Longrightarrow>
    task_step c qs s (set_task i (Attempting run k errors) s)"
| step_attempt: "i < length (oc_tasks s) \<Longrightarrow> oc_tasks s ! i = Attempting run k errors \<Longrightarrow>
    outcome \<noteq> Failed CancelledError \<Longrightarrow> (\<forall>r. outcome = Collected r \<longrightarrow> 0 \<le> cr_item_count r) \<Longrightarrow>
    task_step c qs s (attempt_task c (qs ! i) i run k errors now outcome s)"

text \<open>Cancellations of tasks.\<close>

inductive cancel_step :: "orchestrator \<Rightarrow> collector_request list \<Rightarrow> orchestration \<Rightarrow> orchestration \<Rightarrow> bool" for c qs where
  step_cancel_top: "i < length (oc_tasks s) \<Longrightarrow> oc_tasks s ! i = AtAttempt run k errors \<Longrightarrow>
    cancel_step c qs s (cancel_task (qs ! i) i run k errors now (s\<lparr>oc_permits := oc_permits s + 1\<rparr>))"
| step_cancel_attempt: "i < length (oc_tasks s) \<Longrightarrow> oc_tasks s ! i = Attempting run k errors \<Longrightarrow>
    cancel_step c qs s (cancel_task (qs ! i) i run (k + 1) errors now (s\<lparr>oc_permits := oc_permits s + 1\<rparr>))"
| step_cancel_waiting: "i < length (oc_tasks s) \<Longrightarrow> oc_tasks s ! i = Waiting run \<Longrightarrow>
    cancel_step c qs s (cancel_task (qs ! i) i run 0 0 now s)"
| step_never: "i < length (oc_tasks s) \<Longrightarrow> oc_tasks s ! i = Pending \<Longrightarrow> cancel_step c qs s (set_task i NeverRan s)"

text \<open>The stop event may be set at any time.\<close>

inductive orchestration_reachable ::
    "orchestrator \<Rightarrow> collector_request list \<Rightarrow> repository \<Rightarrow> orchestration \<Rightarrow> bool" for c qs repo where
  reach_start: "orchestration_reachable c qs repo (new_orchestration c qs repo cancelled)"
| reach_task: "orchestration_reachable c qs repo s \<Longrightarrow> task_step c qs s s' \<Longrightarrow> orchestration_reachable c qs repo s'"
| reach_cancel: "orchestration_reachable c qs repo s \<Longrightarrow> cancel_step c qs s s' \<Longrightarrow> orchestration_reachable c qs repo s'"
| reach_stop: "orchestration_reachable c qs repo s \<Longrightarrow> orchestration_reachable c qs repo (s\<lparr>oc_cancelled := True\<rparr>)"

section \<open>The scheduler\<close>

definition check_scheduler :: "rat \<Rightarrow> rat \<Rightarrow> unit result" where
  "check_scheduler interval jitter =
     (if interval \<le> 0 \<or> \<not> (0 \<le> jitter \<and> jitter < interval)
      then Inl (ValueError (lit ''scheduler interval/jitter bounds are invalid'')) else Inr ())"

text \<open>\<open>random.uniform(a, b)\<close> is \<open>a + (b - a) * random()\<close> with a draw in \<open>[0, 1)\<close>.\<close>

definition next_delay :: "rat \<Rightarrow> rat \<Rightarrow> rat \<Rightarrow> rat" where
  "next_delay interval jitter draw = interval + (0 + (jitter - 0) * draw)"

section \<open>Invariant of the orchestration\<close>

definition task_run :: "task \<Rightarrow> nat option" where
  "task_run tk = (case tk of Waiting run \<Rightarrow> Some run | AtAttempt run k e \<Rightarrow> Some run | Attempting run k e \<Rightarrow> Some run
     | Finished r \<Rightarrow> Some (rs_run_id r) | _ \<Rightarrow> None)"

definition holds_permit :: "task \<Rightarrow> bool" where
  "holds_permit tk \<longleftrightarrow> (case tk of AtAttempt run k e \<Rightarrow> True | Attempting run k e \<Rightarrow> True | _ \<Rightarrow> False)"

definition task_ok :: "nat \<Rightarrow> repository \<Rightarrow> task \<Rightarrow> bool" where
  "task_ok retries repo tk \<longleftrightarrow> (case tk of
       Waiting run \<Rightarrow> run_status repo run = Some (lit ''running'') \<and> issue_count repo run = 0
     | AtAttempt run k e \<Rightarrow> run_status repo run = Some (lit ''running'') \<and> issue_count repo run = e \<and> k \<le> retries
     | Attempting run k e \<Rightarrow> run_status repo run = Some (lit ''running'') \<and> issue_count repo run = e \<and> k \<le> retries
     | Finished r \<Rightarrow> run_status repo (rs_run_id r) = Some (rs_status r) \<and> rs_status r \<in> FINAL_RUN_STATES \<and>
         issue_count repo (rs_run_id r) = rs_error_count r \<and> rs_attempts r \<le> retries + 1
     | _ \<Rightarrow> True)"

definition orchestration_ok :: "orchestrator \<Rightarrow> orchestration \<Rightarrow> bool" where
  "orchestration_ok c s \<longleftrightarrow> ledger_ok (oc_repo s) \<and>
     (\<forall>j < length (oc_tasks s). task_ok (or_retries c) (oc_repo s) (oc_tasks s ! j)) \<and>
     (\<forall>j < length (oc_tasks s). \<forall>k < length (oc_tasks s). j \<noteq> k \<longrightarrow> task_run (oc_tasks s ! j) \<noteq> None \<longrightarrow>
        task_run (oc_tasks s ! j) \<noteq> task_run (oc_tasks s ! k)) \<and>
     oc_permits s + length (filter holds_permit (oc_tasks s)) = or_concurrency c"

lemma task_ok_same:
  assumes "task_ok n repo tk"
    and "\<And>run. task_run tk = Some run \<Longrightarrow> run_status repo' run = run_status repo run \<and> issue_count repo' run = issue_count repo run"
  shows "task_ok n repo' tk"
  using assms by (cases tk) (auto simp: task_ok_def task_run_def)

lemma task_ok_status: "task_ok n repo tk \<Longrightarrow> task_run tk = Some run \<Longrightarrow> run_status repo run \<noteq> None"
  by (cases tk) (auto simp: task_ok_def task_run_def)

lemma filter_update:
  "i < length xs \<Longrightarrow> length (filter P (xs[i := x])) + of_bool (P (xs ! i)) = length (filter P xs) + of_bool (P x)"
proof (induction xs arbitrary: i)
  case (Cons y ys)
  show ?case
  proof (cases i)
    case (Suc k)
    with Cons.IH [of k] Cons.prems show ?thesis by simp
  qed simp
qed simp

text \<open>Replacing one task, with a change of the repository that concerns only its run.\<close>

lemma orchestration_update:
  assumes s: "orchestration_ok c s" and i: "i < length (oc_tasks s)" and repo: "ledger_ok repo"
    and same: "\<And>j run. j \<noteq> i \<Longrightarrow> j < length (oc_tasks s) \<Longrightarrow> task_run (oc_tasks s ! j) = Some run \<Longrightarrow>
      run_status repo run = run_status (oc_repo s) run \<and> issue_count repo run = issue_count (oc_repo s) run"
    and tk: "task_ok (or_retries c) repo tk"
    and fresh: "\<And>j run. j \<noteq> i \<Longrightarrow> j < length (oc_tasks s) \<Longrightarrow> task_run tk = Some run \<Longrightarrow> task_run (oc_tasks s ! j) \<noteq> Some run"
    and permits: "p + of_bool (holds_permit tk) = oc_permits s + of_bool (holds_permit (oc_tasks s ! i))"
    and s': "oc_repo s' = repo" "oc_tasks s' = (oc_tasks s)[i := tk]" "oc_permits s' = p"
  shows "orchestration_ok c s'"
proof -
  have nth: "oc_tasks s' ! j = (if j = i then tk else oc_tasks s ! j)" if "j < length (oc_tasks s)" for j
    using that by (simp add: s' nth_list_update)
  have each: "task_ok (or_retries c) repo (oc_tasks s' ! j)" if j: "j < length (oc_tasks s)" for j
  proof (cases "j = i")
    case False
    have "task_ok (or_retries c) (oc_repo s) (oc_tasks s ! j)" using s j by (simp add: orchestration_ok_def)
    then have "task_ok (or_retries c) repo (oc_tasks s ! j)" by (rule task_ok_same) (rule same [OF False j])
    then show ?thesis using nth [OF j] False by simp
  qed (use nth [OF j] tk in simp)
  moreover have "task_run (oc_tasks s' ! j) \<noteq> task_run (oc_tasks s' ! k)"
    if jk: "j < length (oc_tasks s)" "k < length (oc_tasks s)" "j \<noteq> k" "task_run (oc_tasks s' ! j) \<noteq> None" for j k
  proof -
    have old: "task_run (oc_tasks s ! j) \<noteq> None \<Longrightarrow> task_run (oc_tasks s ! j) \<noteq> task_run (oc_tasks s ! k)"
      using s jk(1-3) by (auto simp: orchestration_ok_def)
    obtain run where run: "task_run (oc_tasks s' ! j) = Some run" using jk(4) by blast
    consider "j = i" | "k = i" "j \<noteq> i" | "j \<noteq> i" "k \<noteq> i" by blast
    then show ?thesis
    proof cases
      case 1
      then show ?thesis using fresh [of k run] jk run by (auto simp: nth)
    next
      case 2
      then have "task_run tk \<noteq> Some run" using fresh [of j run] jk run by (auto simp: nth)
      then show ?thesis using 2 jk run by (auto simp: nth)
    next
      case 3
      then show ?thesis using old jk by (auto simp: nth)
    qed
  qed
  moreover have "p + length (filter holds_permit ((oc_tasks s)[i := tk])) = or_concurrency c"
    using filter_update [OF i, of holds_permit tk] permits s by (auto simp: orchestration_ok_def)
  ultimately show ?thesis
    using repo each by (simp add: orchestration_ok_def s')
qed

section \<open>The steps keep it\<close>

lemma record_issues_law:
  "record_issues c q run now xs repo = (repo', r) \<Longrightarrow> ledger_ok repo \<Longrightarrow>
     ledger_ok repo' \<and> run_status repo' = run_status repo \<and> (\<forall>j. j \<noteq> run \<longrightarrow> issue_count repo' j = issue_count repo j) \<and>
     (r = Inr () \<longrightarrow> issue_count repo' run = issue_count repo run + length xs)"
proof (induction c q run now xs repo rule: record_issues.induct)
  case (2 c q run now x xs repo)
  show ?case
  proof (cases "record_collector_error (or_redact c) repo run (ci_category x) (ci_detail x) (ci_retryable x) (cq_collector q) now")
    case (Inl e)
    with 2 show ?thesis by auto
  next
    case (Inr y)
    obtain repo1 k where y: "y = (repo1, k)" by fastforce
    have "ledger_ok repo1 \<and> run_of repo1 = run_of repo \<and> issue_count repo1 = (issue_count repo)(run := issue_count repo run + 1)"
      using record_error_law [OF "2.prems"(2) Inr [unfolded y]] by blast
    with "2.IH" [OF Inr y [symmetric]] "2.prems" Inr y show ?thesis by (auto simp: run_status_def)
  qed
qed auto

definition running_task :: "orchestration \<Rightarrow> nat \<Rightarrow> nat \<Rightarrow> bool" where
  "running_task s i run \<longleftrightarrow> i < length (oc_tasks s) \<and> task_run (oc_tasks s ! i) = Some run"

lemma other_runs:
  assumes "orchestration_ok c s" "running_task s i run" "j \<noteq> i" "j < length (oc_tasks s)" "task_run (oc_tasks s ! j) = Some run'"
  shows "run' \<noteq> run"
proof -
  have "task_run (oc_tasks s ! j) \<noteq> task_run (oc_tasks s ! i)"
    using assms unfolding orchestration_ok_def running_task_def by (metis option.distinct(1))
  with assms show ?thesis by (simp add: running_task_def)
qed

lemma broken_ok: "task_ok n repo (Broken e)" "task_run (Broken e) = None" "\<not> holds_permit (Broken e)"
  by (simp_all add: task_ok_def task_run_def holds_permit_def)

text \<open>A task that leaves the loop: its permit, if it held one, has been given back.\<close>

lemma finish_task_ok:
  assumes s: "orchestration_ok c s" and run: "running_task s i run" and repo: "ledger_ok repo"
    and same: "run_status repo = run_status (oc_repo s)" "\<And>j. j \<noteq> run \<Longrightarrow> issue_count repo j = issue_count (oc_repo s) j"
    and errors: "issue_count repo run = errors" and attempts: "attempts \<le> or_retries c + 1"
    and p: "p = oc_permits s + of_bool (holds_permit (oc_tasks s ! i))"
  shows "orchestration_ok c (finish_task q i run now status attempts items errors (s\<lparr>oc_repo := repo, oc_permits := p, oc_cancelled := b\<rparr>))"
proof (cases "finish_run repo run status now items")
  case (Inl e)
  show ?thesis
    by (rule orchestration_update [OF s _ repo, of i "Broken e" p])
      (use Inl run same p other_runs [OF s run] in \<open>auto simp: broken_ok running_task_def finish_task_def set_task_def\<close>)
next
  case (Inr repo')
  let ?tk = "Finished \<lparr>rs_run_id = run, rs_collector = cq_collector q, rs_target = cq_target q, rs_status = status,
          rs_attempts = attempts, rs_item_count = items, rs_error_count = errors\<rparr>"
  note law = ledger.finish_law [OF repo Inr]
  show ?thesis
  proof (rule orchestration_update [OF s, of i repo' ?tk p])
    show "task_ok (or_retries c) repo' ?tk" using law errors attempts by (simp add: task_ok_def)
    show "run_status repo' r = run_status (oc_repo s) r \<and> issue_count repo' r = issue_count (oc_repo s) r"
      if "j \<noteq> i" "j < length (oc_tasks s)" "task_run (oc_tasks s ! j) = Some r" for j r
      using other_runs [OF s run that] law same by auto
    show "task_run (oc_tasks s ! j) \<noteq> Some r" if "j \<noteq> i" "j < length (oc_tasks s)" "task_run ?tk = Some r" for j r
      using that other_runs [OF s run that(1,2)] by (auto simp: task_run_def)
  qed (use law run p Inr in \<open>auto simp: running_task_def holds_permit_def finish_task_def set_task_def\<close>)
qed

lemma begin_task_ok:
  assumes s: "orchestration_ok c s" and i: "i < length (oc_tasks s)" "oc_tasks s ! i = Pending"
  shows "orchestration_ok c (begin_task c q i now s)"
proof (cases "start_run (or_redact c) (oc_repo s) (Some (or_deployment c)) (cq_collector q) now (or_interface c) (Some (cq_target q))")
  case (Inl e)
  show ?thesis
    by (rule orchestration_update [OF s i(1), of "oc_repo s" "Broken e" "oc_permits s"])
      (use s i Inl in \<open>auto simp: orchestration_ok_def broken_ok begin_task_def set_task_def holds_permit_def\<close>)
next
  case (Inr y)
  obtain repo run where y: "y = (repo, run)" by fastforce
  have "ledger_ok (oc_repo s)" using s by (simp add: orchestration_ok_def)
  from start_run_law [OF this Inr [unfolded y]]
  have law: "ledger_ok repo" "run_of (oc_repo s) run = None" "issue_count repo = issue_count (oc_repo s)"
    "run_status repo = (run_status (oc_repo s))(run \<mapsto> lit ''running'')" by (simp_all add: run_status_def)
  have none: "run_status (oc_repo s) run = None" using law(2) by (simp add: run_status_def)
  have other: "r \<noteq> run" if "j < length (oc_tasks s)" "task_run (oc_tasks s ! j) = Some r" for j r
    using task_ok_status [of "or_retries c" "oc_repo s" "oc_tasks s ! j" r] s that none by (auto simp: orchestration_ok_def)
  show ?thesis
  proof (rule orchestration_update [OF s i(1) law(1), of "Waiting run" "oc_permits s"])
    show "task_ok (or_retries c) repo (Waiting run)"
      using law none ledger.no_run_no_issue [of "oc_repo s" run] s by (simp add: task_ok_def orchestration_ok_def)
  qed (use law i Inr y other in \<open>auto simp: begin_task_def set_task_def holds_permit_def task_run_def\<close>)
qed

lemma attempt_effect_status:
  "attempt_effect T retries k outcome = (issues, next) \<Longrightarrow> next = None \<Longrightarrow> k < retries"
  by (auto simp: attempt_effect_def Let_def split: collect_outcome.splits exn.splits if_splits)

lemma attempt_task_ok:
  assumes s: "orchestration_ok c s" and i: "i < length (oc_tasks s)" "oc_tasks s ! i = Attempting run k errors"
  shows "orchestration_ok c (attempt_task c q i run k errors now outcome s)"
proof -
  obtain issues nxt where eff: "attempt_effect (or_text c) (or_retries c) k outcome = (issues, nxt)" by fastforce
  obtain repo r where rec: "record_issues c q run now issues (oc_repo s) = (repo, r)" by fastforce
  have ok: "ledger_ok (oc_repo s)" and tk: "task_ok (or_retries c) (oc_repo s) (Attempting run k errors)"
    using s i by (auto simp: orchestration_ok_def)
  note law = record_issues_law [OF rec ok]
  have run: "running_task s i run" using i by (simp add: running_task_def task_run_def)
  have holds: "holds_permit (oc_tasks s ! i)" using i(2) by (simp add: holds_permit_def)
  have k: "k \<le> or_retries c" and cnt: "issue_count (oc_repo s) run = errors"
    and st: "run_status (oc_repo s) run = Some (lit ''running'')" using tk by (simp_all add: task_ok_def)
  have same: "run_status repo x = run_status (oc_repo s) x \<and> issue_count repo x = issue_count (oc_repo s) x"
    if "j \<noteq> i" "j < length (oc_tasks s)" "task_run (oc_tasks s ! j) = Some x" for j x
    using other_runs [OF s run that] law by simp
  show ?thesis
  proof (cases r)
    case (Inl e)
    show ?thesis
      by (rule orchestration_update [OF s i(1), of repo "Broken e" "oc_permits s + 1"])
        (use law same holds in \<open>auto simp: attempt_task_def eff rec Inl broken_ok set_task_def\<close>)
  next
    case (Inr u)
    have errs: "issue_count repo run = errors + length issues" using law Inr cnt by simp
    show ?thesis
    proof (cases nxt)
      case None
      have "k + 1 \<le> or_retries c" using attempt_effect_status [OF eff None] by simp
      then have tk': "task_ok (or_retries c) repo (AtAttempt run (k + 1) (errors + length issues))"
        using errs st law by (simp add: task_ok_def)
      let ?s' = "attempt_task c q i run k errors now outcome s"
      have s': "oc_repo ?s' = repo" "oc_tasks ?s' = (oc_tasks s)[i := AtAttempt run (k + 1) (errors + length issues)]"
        "oc_permits ?s' = oc_permits s"
        by (simp_all add: attempt_task_def eff rec Inr None set_task_def Let_def)
      show ?thesis
      proof (rule orchestration_update [OF s i(1) _ same tk' _ _ s'])
        show "ledger_ok repo" using law by simp
        show "task_run (oc_tasks s ! j) \<noteq> Some x"
          if "j \<noteq> i" "j < length (oc_tasks s)" "task_run (AtAttempt run (k + 1) (errors + length issues)) = Some x" for j x
          using other_runs [OF s run that(1,2)] that(3) by (auto simp: task_run_def)
        show "oc_permits s + of_bool (holds_permit (AtAttempt run (k + 1) (errors + length issues))) =
            oc_permits s + of_bool (holds_permit (oc_tasks s ! i))"
          using holds by (simp add: holds_permit_def)
      qed
    next
      case (Some x)
      obtain status items where x: "x = (status, items)" by fastforce
      have "orchestration_ok c (finish_task q i run now status (k + 1) items (errors + length issues)
          (s\<lparr>oc_repo := repo, oc_permits := oc_permits s + 1, oc_cancelled := oc_cancelled s\<rparr>))"
        by (rule finish_task_ok [OF s run]) (use law errs k holds in auto)
      then show ?thesis by (simp add: attempt_task_def eff rec Inr Some x Let_def)
    qed
  qed
qed

lemma cancel_task_ok:
  assumes s: "orchestration_ok c s" and run: "running_task s i run"
    and "issue_count (oc_repo s) run = errors" "attempts \<le> or_retries c + 1"
    and "p = oc_permits s + of_bool (holds_permit (oc_tasks s ! i))"
  shows "orchestration_ok c (cancel_task q i run attempts errors now (s\<lparr>oc_permits := p\<rparr>))"
proof -
  have "ledger_ok (oc_repo s)" using s by (simp add: orchestration_ok_def)
  then have "orchestration_ok c (finish_task q i run now (lit ''cancelled'') attempts 0 errors
      (s\<lparr>oc_repo := oc_repo s, oc_permits := p, oc_cancelled := True\<rparr>))"
    by (intro finish_task_ok [OF s run]) (use assms in auto)
  then show ?thesis by (simp add: cancel_task_def)
qed

lemma task_step_ok:
  assumes "task_step c qs s s'" "orchestration_ok c s"
  shows "orchestration_ok c s'"
  using assms(1)
proof cases
  case (step_begin i now)
  then show ?thesis using begin_task_ok [OF assms(2)] by simp
next
  case (step_acquire i run)
  have ok: "ledger_ok (oc_repo s)" "task_ok (or_retries c) (oc_repo s) (Waiting run)"
    using assms(2) step_acquire by (auto simp: orchestration_ok_def)
  have r: "running_task s i run" using step_acquire by (simp add: running_task_def task_run_def)
  show ?thesis
    by (rule orchestration_update [OF assms(2) step_acquire(2) ok(1), of "AtAttempt run 0 0" "oc_permits s - 1"])
      (use ok step_acquire other_runs [OF assms(2) r] in \<open>auto simp: set_task_def task_ok_def task_run_def holds_permit_def\<close>)
next
  case (step_try i run k errors)
  have ok: "ledger_ok (oc_repo s)" "task_ok (or_retries c) (oc_repo s) (AtAttempt run k errors)"
    using assms(2) step_try by (auto simp: orchestration_ok_def)
  have r: "running_task s i run" using step_try by (simp add: running_task_def task_run_def)
  show ?thesis
    by (rule orchestration_update [OF assms(2) step_try(2) ok(1), of "Attempting run k errors" "oc_permits s"])
      (use ok step_try other_runs [OF assms(2) r] in \<open>auto simp: set_task_def task_ok_def task_run_def holds_permit_def\<close>)
next
  case (step_attempt i run k errors outcome now)
  then show ?thesis using attempt_task_ok [OF assms(2)] by simp
qed

lemma cancel_step_ok:
  assumes "cancel_step c qs s s'" "orchestration_ok c s"
  shows "orchestration_ok c s'"
  using assms(1)
proof cases
  case (step_cancel_top i run k errors now)
  then have "task_ok (or_retries c) (oc_repo s) (AtAttempt run k errors)" using assms(2) by (auto simp: orchestration_ok_def)
  with step_cancel_top show ?thesis
    by (auto intro!: cancel_task_ok [OF assms(2)] simp: running_task_def task_run_def task_ok_def holds_permit_def)
next
  case (step_cancel_attempt i run k errors now)
  then have "task_ok (or_retries c) (oc_repo s) (Attempting run k errors)" using assms(2) by (auto simp: orchestration_ok_def)
  with step_cancel_attempt show ?thesis
    by (auto intro!: cancel_task_ok [OF assms(2), where attempts = "Suc k", simplified] simp: running_task_def task_run_def task_ok_def holds_permit_def)
next
  case (step_cancel_waiting i run now)
  then have "task_ok (or_retries c) (oc_repo s) (Waiting run)" using assms(2) by (auto simp: orchestration_ok_def)
  with step_cancel_waiting cancel_task_ok [OF assms(2), of i run 0 0 "oc_permits s" "qs ! i" now] show ?thesis
    by (simp add: running_task_def task_run_def task_ok_def holds_permit_def)
next
  case (step_never i)
  show ?thesis
    by (rule orchestration_update [OF assms(2) step_never(2), of "oc_repo s" NeverRan "oc_permits s"])
      (use step_never assms(2) in \<open>auto simp: orchestration_ok_def set_task_def task_ok_def task_run_def holds_permit_def\<close>)
qed

lemma reachable_ok:
  assumes "orchestration_reachable c qs repo s" "ledger_ok repo"
  shows "orchestration_ok c s"
  using assms(1)
proof induction
  case (reach_start cancelled)
  have "filter holds_permit (replicate n Pending) = []" for n by (simp add: holds_permit_def)
  then show ?case using assms(2) by (simp add: orchestration_ok_def new_orchestration_def task_ok_def task_run_def)
next
  case (reach_stop s)
  then show ?case by (simp add: orchestration_ok_def)
qed (use task_step_ok cancel_step_ok in blast)+

section \<open>Termination and progress\<close>

definition task_weight :: "nat \<Rightarrow> task \<Rightarrow> nat" where
  "task_weight retries tk = (case tk of
       Pending \<Rightarrow> 2 * retries + 4
     | Waiting run \<Rightarrow> 2 * retries + 3
     | AtAttempt run k e \<Rightarrow> 2 * (retries - k) + 2
     | Attempting run k e \<Rightarrow> 2 * (retries - k) + 1
     | _ \<Rightarrow> 0)"

definition weight :: "orchestrator \<Rightarrow> orchestration \<Rightarrow> nat" where
  "weight c s = sum_list (map (task_weight (or_retries c)) (oc_tasks s))"

lemma weight_update:
  assumes "i < length (oc_tasks s)" "oc_tasks s' = (oc_tasks s)[i := tk]"
    and "task_weight (or_retries c) tk < task_weight (or_retries c) (oc_tasks s ! i)"
  shows "weight c s' < weight c s"
proof -
  have "sum_list (map f (xs[i := x])) < sum_list (map f xs)" if "i < length xs" "f x < f (xs ! i)" for f :: "task \<Rightarrow> nat" and xs x
    using that
  proof (induction xs arbitrary: i)
    case (Cons y ys)
    then show ?case by (cases i) auto
  qed simp
  from this [OF assms(1,3)] show ?thesis by (simp add: weight_def assms(2))
qed

lemma finish_task_shape: "\<exists>tk. oc_tasks (finish_task q i run now status attempts items errors s) = (oc_tasks s)[i := tk] \<and>
    task_weight n tk = 0"
  by (cases "finish_run (oc_repo s) run status now items") (auto simp: finish_task_def set_task_def task_weight_def)

lemma task_step_weight:
  assumes "task_step c qs s s'"
  shows "weight c s' < weight c s"
  using assms
proof cases
  case (step_begin i now)
  obtain tk where "oc_tasks s' = (oc_tasks s)[i := tk]" "task_weight (or_retries c) tk < 2 * or_retries c + 4"
    using step_begin by (auto simp: begin_task_def set_task_def task_weight_def split: sum.splits)
  then show ?thesis using step_begin by (intro weight_update [of i]) (auto simp: task_weight_def)
next
  case (step_acquire i run)
  then show ?thesis by (intro weight_update [of i s s' "AtAttempt run 0 0"]) (auto simp: set_task_def task_weight_def)
next
  case (step_try i run k errors)
  then show ?thesis by (intro weight_update [of i s s' "Attempting run k errors"]) (auto simp: set_task_def task_weight_def)
next
  case (step_attempt i run k errors outcome now)
  obtain issues nxt where eff: "attempt_effect (or_text c) (or_retries c) k outcome = (issues, nxt)" by fastforce
  obtain repo r where rec: "record_issues c (qs ! i) run now issues (oc_repo s) = (repo, r)" by fastforce
  have "\<exists>tk. oc_tasks s' = (oc_tasks s)[i := tk] \<and> task_weight (or_retries c) tk < 2 * (or_retries c - k) + 1"
  proof (cases r)
    case (Inl e)
    then show ?thesis using step_attempt(1) by (auto simp: attempt_task_def eff rec set_task_def task_weight_def)
  next
    case (Inr u)
    show ?thesis
    proof (cases nxt)
      case None
      then have "k < or_retries c" using attempt_effect_status [OF eff] by simp
      then show ?thesis using step_attempt(1) None Inr by (auto simp: attempt_task_def eff rec set_task_def task_weight_def Let_def)
    next
      case (Some x)
      obtain status items where x: "x = (status, items)" by fastforce
      show ?thesis
        using step_attempt(1) finish_task_shape [of "qs ! i" i run now status "k + 1" items "errors + length issues"
            "s\<lparr>oc_repo := repo, oc_permits := oc_permits s + 1\<rparr>" "or_retries c"]
        by (auto simp: attempt_task_def eff rec Inr Some x Let_def)
    qed
  qed
  then obtain tk where tk: "oc_tasks s' = (oc_tasks s)[i := tk]" "task_weight (or_retries c) tk < 2 * (or_retries c - k) + 1"
    by blast
  show ?thesis
    by (rule weight_update [OF step_attempt(2) tk(1)]) (use tk(2) step_attempt(3) in \<open>simp add: task_weight_def\<close>)
qed

lemma cancel_step_weight:
  assumes "cancel_step c qs s s'"
  shows "weight c s' < weight c s"
proof -
  have "\<exists>i tk. i < length (oc_tasks s) \<and> oc_tasks s' = (oc_tasks s)[i := tk] \<and> task_weight (or_retries c) tk = 0 \<and>
      0 < task_weight (or_retries c) (oc_tasks s ! i)"
    using assms
  proof cases
    case (step_cancel_top i run k errors now)
    then show ?thesis
      using finish_task_shape [of "qs ! i" i run now "lit ''cancelled''" k 0 errors "s\<lparr>oc_permits := oc_permits s + 1, oc_cancelled := True\<rparr>" "or_retries c"]
      by (auto simp: cancel_task_def task_weight_def intro!: exI [of _ i])
  next
    case (step_cancel_attempt i run k errors now)
    then show ?thesis
      using finish_task_shape [of "qs ! i" i run now "lit ''cancelled''" "k + 1" 0 errors "s\<lparr>oc_permits := oc_permits s + 1, oc_cancelled := True\<rparr>" "or_retries c"]
      by (auto simp: cancel_task_def task_weight_def intro!: exI [of _ i])
  next
    case (step_cancel_waiting i run now)
    then show ?thesis
      using finish_task_shape [of "qs ! i" i run now "lit ''cancelled''" 0 0 0 "s\<lparr>oc_cancelled := True\<rparr>" "or_retries c"]
      by (auto simp: cancel_task_def task_weight_def intro!: exI [of _ i])
  next
    case (step_never i)
    then show ?thesis by (auto simp: set_task_def task_weight_def intro!: exI [of _ i])
  qed
  then show ?thesis using weight_update by (metis)
qed

text \<open>A run of the orchestrator with the number of its task steps and cancellations.\<close>

inductive orchestration_run :: "orchestrator \<Rightarrow> collector_request list \<Rightarrow> repository \<Rightarrow> nat \<Rightarrow> orchestration \<Rightarrow> bool"
  for c qs repo where
  run_start: "orchestration_run c qs repo 0 (new_orchestration c qs repo cancelled)"
| run_task: "orchestration_run c qs repo n s \<Longrightarrow> task_step c qs s s' \<or> cancel_step c qs s s' \<Longrightarrow> orchestration_run c qs repo (Suc n) s'"
| run_stop: "orchestration_run c qs repo n s \<Longrightarrow> orchestration_run c qs repo n (s\<lparr>oc_cancelled := True\<rparr>)"

lemma orchestration_run_weight:
  "orchestration_run c qs repo n s \<Longrightarrow> n + weight c s \<le> length qs * (2 * or_retries c + 4)"
proof (induction rule: orchestration_run.induct)
  case (run_start cancelled)
  show ?case by (simp add: weight_def new_orchestration_def task_weight_def map_replicate_const sum_list_replicate)
next
  case (run_task n s s')
  then have "weight c s' < weight c s" using task_step_weight cancel_step_weight by blast
  with run_task show ?case by simp
qed (simp add: weight_def)

definition unfinished :: "task \<Rightarrow> bool" where
  "unfinished tk \<longleftrightarrow> (case tk of Finished r \<Rightarrow> False | NeverRan \<Rightarrow> False | Broken e \<Rightarrow> False | _ \<Rightarrow> True)"

lemma progress:
  assumes s: "orchestration_ok c s" and "1 \<le> or_concurrency c" "\<not> oc_cancelled s"
    and tk: "tk \<in> set (oc_tasks s)" "unfinished tk"
  shows "\<exists>s'. task_step c qs s s'"
proof (cases "\<exists>i < length (oc_tasks s). holds_permit (oc_tasks s ! i)")
  case True
  then obtain i where i: "i < length (oc_tasks s)" "holds_permit (oc_tasks s ! i)" by blast
  then consider run k e where "oc_tasks s ! i = AtAttempt run k e" | run k e where "oc_tasks s ! i = Attempting run k e"
    by (auto simp: holds_permit_def split: task.splits)
  then show ?thesis
  proof cases
    case 1
    then show ?thesis using i assms(3) step_try by blast
  next
    case 2
    then show ?thesis using i step_attempt [of i s _ _ _ "Failed TimeoutError"] by blast
  qed
next
  case False
  then have "filter holds_permit (oc_tasks s) = []" by (auto simp: filter_empty_conv in_set_conv_nth)
  then have free: "0 < oc_permits s" using s assms(2) by (auto simp: orchestration_ok_def)
  obtain i where i: "i < length (oc_tasks s)" "oc_tasks s ! i = tk" using tk(1) by (auto simp: in_set_conv_nth)
  have "\<not> holds_permit tk" using False i by blast
  then consider "tk = Pending" | run where "tk = Waiting run"
    using tk(2) by (auto simp: unfinished_def holds_permit_def split: task.splits)
  then show ?thesis using i free step_begin step_acquire by cases blast+
qed

section \<open>Approval\<close>

lemma any_contains_True:
  "any_contains n ns = Inr True \<Longrightarrow> \<exists>approved. Net4 approved \<in> set ns \<and> subnet_of n approved"
  by (induction n ns rule: any_contains.induct) (auto split: if_splits)

lemma mapR_member: "mapR f xs = Inr ys \<Longrightarrow> y \<in> set ys \<Longrightarrow> \<exists>x \<in> set xs. f x = Inr y"
  by (induction xs arbitrary: ys) (auto simp: bindR_eq_Inr)

lemma split_on_not_Nil: "split_on c s \<noteq> []"
  by (induction s) (auto split: list.splits)

lemma slash_notin_ipv4: "47 \<notin> set (ipv4_text a)"
  by (simp add: ipv4_text_def octets_def lit_def sep_notin_digits)

lemma net_at_False: "net_at False x p = NetOk (x div host_size p * host_size p, p)"
  by (simp add: net_at_def Let_def)

lemma host_bits_clear: "x div host_size p * host_size p div host_size p * host_size p = x div host_size p * host_size p"
  using host_size_pos [of p] by simp

lemma parse_prefix_digits: "p \<le> 32 \<Longrightarrow> parse_prefix (dec_digits (int p)) = Some p"
  by (simp add: parse_prefix_def dec_value_digits)

lemma masked_range: "0 \<le> x \<Longrightarrow> x < 2 ^ 32 \<Longrightarrow> 0 \<le> x div host_size p * host_size p \<and> x div host_size p * host_size p < 2 ^ 32"
proof -
  assume x: "0 \<le> x" "x < 2 ^ 32"
  have "x div host_size p * host_size p = x - x mod host_size p" by (simp add: minus_mod_eq_div_mult)
  moreover have "0 \<le> x mod host_size p" by simp
  moreover have "0 \<le> x div host_size p * host_size p" using x(1) host_size_pos [of p]
    by (intro mult_nonneg_nonneg) (simp_all add: pos_imp_zdiv_nonneg_iff less_imp_le)
  ultimately show ?thesis using x(2) by linarith
qed

text \<open>Parsing a target that parses, printed in canonical form, gives the same network.\<close>

lemma parse_net4_canonical:
  assumes "parse_net4 False t = NetOk n"
  shows "parse_net4 False (if 47 \<notin> set t then ipv4_text (fst n) else net_text n) = NetOk n"
proof (cases "47 \<in> set t")
  case False
  then obtain x where x: "parse_ipv4 t = Some x" "net_at False x 32 = NetOk n"
    using assms by (auto simp: parse_net4_def split_on_free split: option.splits)
  then have "n = (x, 32)" by (simp add: net_at_False host_size_def)
  moreover have "parse_ipv4 (ipv4_text x) = Some x" using parse_ipv4_range [OF x(1)] by (simp add: parse_ipv4_text)
  ultimately show ?thesis using False x(2) by (simp add: parse_net4_def split_on_free slash_notin_ipv4)
next
  case True
  then obtain u v where uv: "t = u @ 47 # v" "47 \<notin> set u" using split_list_first by metis
  obtain x m p where x: "parse_ipv4 u = Some x" "split_on 47 v = [m]" "parse_prefix m = Some p" "net_at False x p = NetOk n"
    using assms uv split_on_not_Nil [of 47 v] by (auto simp: parse_net4_def split_on_app split: option.splits list.splits)
  then have n: "n = (x div host_size p * host_size p, p)" by (simp add: net_at_False)
  have b: "0 \<le> fst n" "fst n < 2 ^ 32" using masked_range parse_ipv4_range [OF x(1)] n by simp_all
  have "split_on 47 (net_text n) = [ipv4_text (fst n), dec_digits (int p)]"
    by (simp add: net_text_def n lit_def split_on_app slash_notin_ipv4 split_on_free sep_notin_digits)
  then have "parse_net4 False (net_text n) = net_at False (fst n) p"
    using parse_ipv4_text [OF b] parse_prefix_range [OF x(3)] by (simp add: parse_net4_def parse_prefix_digits)
  then show ?thesis using True by (simp add: net_at_False n host_bits_clear)
qed

lemma ip_network_Net4: "ip_network v6 strict s = Inr (Net4 n) \<longleftrightarrow> parse_net4 strict s = NetOk n"
  by (auto simp: ip_network_def split: net_parse.splits if_splits)

lemma slash_in_net_text: "47 \<in> set (net_text n)"
  by (simp add: net_text_def lit_def)

lemma approve_target_cases:
  assumes "approve_target v6 t ranges = Inr t'"
  obtains n approved where "parse_net4 False t = NetOk n" "mapR (ip_network v6 True) ranges = Inr approved"
    "any_contains n approved = Inr True" "t' = (if 47 \<notin> set t then ipv4_text (fst n) else net_text n)"
proof -
  obtain net where net: "ip_network v6 False t = Inr net" using assms by (auto simp: approve_target_def split: sum.splits)
  then obtain n where n: "net = Net4 n" using assms by (cases net) (auto simp: approve_target_def)
  obtain approved inside where a: "mapR (ip_network v6 True) ranges = Inr approved" "any_contains n approved = Inr inside"
    using assms net n by (auto simp: approve_target_def bindR_eq_Inr)
  have inside: inside using assms net n a by (cases inside) (auto simp: approve_target_def)
  have "t' = (if 47 \<notin> set t then ipv4_text (fst n) else net_text n)"
    using assms net n a inside by (simp add: approve_target_def split: if_splits)
  with net n a inside that show thesis by (simp add: ip_network_Net4)
qed

lemma approve_target_again:
  assumes "approve_target v6 t ranges = Inr t'"
  shows "approve_target v6 t' ranges = Inr t'"
proof -
  obtain n approved where n: "parse_net4 False t = NetOk n" "mapR (ip_network v6 True) ranges = Inr approved"
    "any_contains n approved = Inr True" and t': "t' = (if 47 \<notin> set t then ipv4_text (fst n) else net_text n)"
    by (rule approve_target_cases [OF assms])
  have "ip_network v6 False t' = Inr (Net4 n)" using parse_net4_canonical [OF n(1)] t' by (simp add: ip_network_Net4)
  then show ?thesis
    using n t' by (auto simp: approve_target_def slash_notin_ipv4 slash_in_net_text)
qed


section \<open>Properties\<close>

definition demo_orchestrator :: orchestrator where
  "demo_orchestrator = \<lparr>or_deployment = 1, or_approved_ranges = [lit ''10.0.0.0/8''], or_collectors = {lit ''snmp''}, or_concurrency = 1,
     or_timeout = 1, or_retries = 0, or_interface = None, or_redact = (\<lambda>t. t), or_text = \<lparr>et_plain = (\<lambda>e. []), et_redacted = (\<lambda>e. [])\<rparr>,
     or_v6 = (\<lambda>_ _. False)\<rparr>"

definition demo_request :: collector_request where
  "demo_request = \<lparr>cq_collector = lit ''snmp'', cq_target = lit ''10.0.0.1'', cq_credential = None\<rparr>"

text \<open>One request that yields one item and one issue.\<close>

definition demo_deployed :: repository where
  "demo_deployed = empty_repository\<lparr>rp_deployments := [\<lparr>dp_id = 1, dp_site_key = [115], dp_display_name = [115], dp_started_at = [49]\<rparr>]\<rparr>"

definition demo_start :: orchestration where
  "demo_start = new_orchestration demo_orchestrator [demo_request] demo_deployed False"

definition demo_waiting :: orchestration where
  "demo_waiting = begin_task demo_orchestrator demo_request 0 [49] demo_start"

definition demo_holding :: orchestration where
  "demo_holding = set_task 0 (AtAttempt 1 0 0) (demo_waiting\<lparr>oc_permits := oc_permits demo_waiting - 1\<rparr>)"

definition demo_trying :: orchestration where
  "demo_trying = set_task 0 (Attempting 1 0 0) demo_holding"

definition demo_finished :: orchestration where
  "demo_finished = attempt_task demo_orchestrator demo_request 0 1 0 0 [50]
     (Collected \<lparr>cr_item_count = 1, cr_issues = [issue_of ''partial'' [120] False]\<rparr>) demo_trying"

definition demo_summary :: run_summary where
  "demo_summary = \<lparr>rs_run_id = 1, rs_collector = lit ''snmp'', rs_target = lit ''10.0.0.1'', rs_status = lit ''partial'',
     rs_attempts = 1, rs_item_count = 1, rs_error_count = 1\<rparr>"

lemma demo_deployed_ok: "ledger_ok demo_deployed"
  by (simp add: ledger_ok_def demo_deployed_def empty_repository_def)

lemma demo_waiting_state: "oc_tasks demo_waiting = [Waiting 1] \<and> oc_permits demo_waiting = 1 \<and> \<not> oc_cancelled demo_waiting"
  by code_simp

lemma demo_finished_tasks: "oc_tasks demo_finished = [Finished demo_summary]"
  by code_simp

lemma demo_finished_reachable: "orchestration_reachable demo_orchestrator [demo_request] demo_deployed demo_finished"
proof -
  have "orchestration_reachable demo_orchestrator [demo_request] demo_deployed demo_start"
    unfolding demo_start_def by (rule reach_start)
  moreover have "task_step demo_orchestrator [demo_request] demo_start demo_waiting"
    using step_begin [of 0 demo_start demo_orchestrator "[demo_request]" "[49]"]
    by (simp add: demo_waiting_def demo_start_def new_orchestration_def)
  moreover have "task_step demo_orchestrator [demo_request] demo_waiting demo_holding"
    unfolding demo_holding_def by (rule step_acquire) (simp_all add: demo_waiting_state)
  moreover have "task_step demo_orchestrator [demo_request] demo_holding demo_trying"
    unfolding demo_trying_def by (rule step_try) (simp_all add: demo_holding_def set_task_def demo_waiting_state)
  moreover have "task_step demo_orchestrator [demo_request] demo_trying demo_finished"
    using step_attempt [of 0 demo_trying 1 0 0 "Collected \<lparr>cr_item_count = 1, cr_issues = [issue_of ''partial'' [120] False]\<rparr>"
        demo_orchestrator "[demo_request]" "[50]"]
    by (simp add: demo_finished_def demo_trying_def demo_holding_def set_task_def demo_waiting_state)
  ultimately show ?thesis by (meson reach_task)
qed

text \<open>C13. In every state an orchestration can reach, no more attempts run at once than the semaphore allows, and what a finished
  task reports is what the repository holds: the run is closed with the reported status, it has as many
  recorded issues as the reported error count, and it took at most one attempt more than the retries.\<close>

theorem orchestrator_agrees_with_ledger:
  assumes "orchestration_reachable c qs repo s" "ledger_ok repo"
  shows "length (filter holds_permit (oc_tasks s)) \<le> or_concurrency c \<and>
    (\<forall>r. Finished r \<in> set (oc_tasks s) \<longrightarrow>
       run_status (oc_repo s) (rs_run_id r) = Some (rs_status r) \<and> rs_status r \<in> FINAL_RUN_STATES \<and>
       issue_count (oc_repo s) (rs_run_id r) = rs_error_count r \<and> rs_attempts r \<le> or_retries c + 1)"
proof -
  have ok: "orchestration_ok c s" using reachable_ok [OF assms] .
  have "task_ok (or_retries c) (oc_repo s) tk" if "tk \<in> set (oc_tasks s)" for tk
    using ok that by (auto simp: orchestration_ok_def in_set_conv_nth)
  from this [of "Finished r" for r] show ?thesis using ok by (auto simp: orchestration_ok_def task_ok_def)
qed

theorem orchestrator_agrees_with_ledger_witness:
  "length (filter holds_permit (oc_tasks demo_finished)) \<le> 1 \<and>
    run_status (oc_repo demo_finished) 1 = Some (lit ''partial'') \<and> issue_count (oc_repo demo_finished) 1 = 1"
  using orchestrator_agrees_with_ledger [OF demo_finished_reachable demo_deployed_ok]
  by (auto simp: demo_finished_tasks demo_summary_def demo_orchestrator_def)

text \<open>C14. The orchestrator terminates: every sequence of task steps and cancellations over \<open>n\<close> requests has at most
  \<open>n * (2 * retries + 4)\<close> members, whatever the collectors do.\<close>

theorem orchestrator_terminates:
  assumes "orchestration_run c qs repo n s"
  shows "n \<le> length qs * (2 * or_retries c + 4)"
  using orchestration_run_weight [OF assms] by linarith

theorem orchestrator_terminates_witness:
  "orchestration_run demo_orchestrator [demo_request] demo_repository 1
      (set_task 0 NeverRan (new_orchestration demo_orchestrator [demo_request] demo_repository True)) \<and> (1::nat) \<le> 1 * (2 * 0 + 4)"
proof -
  have "cancel_step demo_orchestrator [demo_request] (new_orchestration demo_orchestrator [demo_request] demo_repository True)
      (set_task 0 NeverRan (new_orchestration demo_orchestrator [demo_request] demo_repository True))"
    by (rule step_never) (simp_all add: new_orchestration_def)
  then have run: "orchestration_run demo_orchestrator [demo_request] demo_repository 1
      (set_task 0 NeverRan (new_orchestration demo_orchestrator [demo_request] demo_repository True))"
    using run_task [OF run_start] by fastforce
  then show ?thesis using orchestrator_terminates [OF run] by (simp add: demo_orchestrator_def)
qed

text \<open>C15. It is never stuck: while some task has not returned and the stop event is not set, some task can take a
  step, since every permit is held by a task inside its attempt loop.\<close>

theorem orchestrator_progress:
  assumes "orchestration_reachable c qs repo s" "ledger_ok repo" "1 \<le> or_concurrency c" "\<not> oc_cancelled s"
    and "tk \<in> set (oc_tasks s)" "unfinished tk"
  shows "\<exists>s'. task_step c qs s s'"
  using progress [OF reachable_ok [OF assms(1,2)] assms(3-6)] .

theorem orchestrator_progress_witness:
  "\<exists>s'. task_step demo_orchestrator [demo_request] (new_orchestration demo_orchestrator [demo_request] demo_repository False) s'"
  by (rule orchestrator_progress [OF reach_start demo_ledger_ok, where tk = Pending])
    (simp_all add: demo_orchestrator_def new_orchestration_def unfinished_def)

text \<open>An approved target is safe and canonical: all its addresses lie in one of the approved ranges, and the text
  returned, when submitted again, is approved as itself.\<close>

theorem approve_target_safe:
  assumes "approve_target v6 t ranges = Inr t'"
  shows "approve_target v6 t' ranges = Inr t' \<and>
    (\<exists>n approved r. ip_network v6 False t' = Inr (Net4 n) \<and> r \<in> set ranges \<and> ip_network v6 True r = Inr (Net4 approved) \<and>
      (\<forall>a. in_net a n \<longrightarrow> in_net a approved))"
proof (rule approve_target_cases [OF assms])
  fix n approved
  assume n: "parse_net4 False t = NetOk n" "mapR (ip_network v6 True) ranges = Inr approved"
    "any_contains n approved = Inr True" "t' = (if 47 \<notin> set t then ipv4_text (fst n) else net_text n)"
  have "ip_network v6 False t' = Inr (Net4 n)" using parse_net4_canonical [OF n(1)] n(4) by (simp add: ip_network_Net4)
  moreover obtain a where a: "Net4 a \<in> set approved" "subnet_of n a" using any_contains_True [OF n(3)] by blast
  moreover obtain r where "r \<in> set ranges" "ip_network v6 True r = Inr (Net4 a)" using mapR_member [OF n(2) a(1)] by blast
  moreover have "\<forall>x. in_net x n \<longrightarrow> in_net x a" using a(2) by (simp add: subnet_of_members)
  ultimately show ?thesis using approve_target_again [OF assms] by blast
qed

lemma demo_approved:
  "approve_target (\<lambda>_ _. False) (lit ''10.1.2.3/16'') [lit ''10.0.0.0/8''] = Inr (lit ''10.1.0.0/16'')"
  by code_simp

theorem approve_target_safe_witness:
  "approve_target (\<lambda>_ _. False) (lit ''10.1.0.0/16'') [lit ''10.0.0.0/8''] = Inr (lit ''10.1.0.0/16'') \<and>
    (\<exists>n approved. ip_network (\<lambda>_ _. False) False (lit ''10.1.0.0/16'') = Inr (Net4 n) \<and>
      ip_network (\<lambda>_ _. False) True (lit ''10.0.0.0/8'') = Inr (Net4 approved) \<and> (\<forall>a. in_net a n \<longrightarrow> in_net a approved))"
  using approve_target_safe [OF demo_approved] by auto

end
