(* ===== verification/Partition.thy ===== *)
theory Partition
  imports Py_Json "HOL-Library.Multiset"
begin

text \<open>
  Grouping and partitions, which device correlation and the topology share: a \<open>defaultdict(list)\<close> filled
  in a loop, the relation that a sequence of merges computes, and the interface of a disjoint-set
  structure with \<open>find\<close> and \<open>union\<close>.
\<close>

section \<open>Grouping\<close>

text \<open>\<open>d[k].append(v)\<close> on a \<open>defaultdict(list)\<close>, and the loop that files every item under its key.\<close>

definition append_to :: "'k \<Rightarrow> 'v \<Rightarrow> ('k, 'v list) odict \<Rightarrow> ('k, 'v list) odict" where
  "append_to k v d = od_set k ((case map_of d k of None \<Rightarrow> [] | Some vs \<Rightarrow> vs) @ [v]) d"

definition group_by :: "('v \<Rightarrow> 'k) \<Rightarrow> 'v list \<Rightarrow> ('k, 'v list) odict" where
  "group_by f xs = fold (\<lambda>x. append_to (f x) x) xs []"

lemma group_by_Nil [simp]: "group_by f [] = []"
  by (simp add: group_by_def)

lemma group_by_snoc: "group_by f (xs @ [x]) = append_to (f x) x (group_by f xs)"
  by (simp add: group_by_def)

lemma group_by_ok: "od_ok (group_by f xs)"
  by (induction xs rule: rev_induct) (auto simp: group_by_snoc append_to_def)

lemma group_by_get:
  "map_of (group_by f xs) k = (if filter (\<lambda>x. f x = k) xs = [] then None else Some (filter (\<lambda>x. f x = k) xs))"
  by (induction xs rule: rev_induct) (auto simp: group_by_snoc append_to_def od_get_set)

lemma group_by_mem: "(k, vs) \<in> set (group_by f xs) \<longleftrightarrow> vs = filter (\<lambda>x. f x = k) xs \<and> vs \<noteq> []"
proof -
  have "(k, vs) \<in> set (group_by f xs) \<longleftrightarrow> map_of (group_by f xs) k = Some vs"
    using group_by_ok [of f xs] by (simp add: od_ok_def)
  then show ?thesis by (auto simp: group_by_get)
qed

lemma group_by_keys: "fst ` set (group_by f xs) = f ` set xs"
  by (auto simp: group_by_mem image_iff filter_empty_conv Bex_def split_paired_Ex)

lemma mset_concat_filters:
  "distinct ks \<Longrightarrow> f ` set xs \<subseteq> set ks \<Longrightarrow> mset (concat (map (\<lambda>k. filter (\<lambda>x. f x = k) xs) ks)) = mset xs"
proof (induction ks arbitrary: xs)
  case (Cons k ks)
  have "filter (\<lambda>x. f x = j) xs = filter (\<lambda>x. f x = j) (filter (\<lambda>x. f x \<noteq> k) xs)" if "j \<in> set ks" for j
    using Cons.prems(1) that by (induction xs) auto
  then have "concat (map (\<lambda>j. filter (\<lambda>x. f x = j) xs) ks) = concat (map (\<lambda>j. filter (\<lambda>x. f x = j) (filter (\<lambda>x. f x \<noteq> k) xs)) ks)"
    by (metis (mono_tags, lifting) map_cong)
  moreover have "mset (concat (map (\<lambda>j. filter (\<lambda>x. f x = j) (filter (\<lambda>x. f x \<noteq> k) xs)) ks)) = mset (filter (\<lambda>x. f x \<noteq> k) xs)"
    using Cons.prems by (intro Cons.IH) auto
  moreover have "mset (filter (\<lambda>x. f x = k) xs) + mset (filter (\<lambda>x. f x \<noteq> k) xs) = mset xs"
    by (induction xs) auto
  ultimately show ?case by simp
qed simp

text \<open>The groups hold every item exactly once.\<close>

lemma group_by_partition: "mset (concat (map snd (group_by f xs))) = mset xs"
proof -
  have "map snd (group_by f xs) = map (\<lambda>k. filter (\<lambda>x. f x = k) xs) (map fst (group_by f xs))"
    by (auto simp: group_by_mem)
  moreover have "distinct (map fst (group_by f xs))" using group_by_ok [of f xs] by (simp add: od_ok_def)
  ultimately show ?thesis by (simp only: mset_concat_filters set_map group_by_keys order_refl)
qed

section \<open>Merging classes\<close>

definition merge :: "'a \<times> 'a \<Rightarrow> ('a \<Rightarrow> 'a \<Rightarrow> bool) \<Rightarrow> 'a \<Rightarrow> 'a \<Rightarrow> bool" where
  "merge p R u v \<longleftrightarrow> R u v \<or> R u (fst p) \<and> R (snd p) v \<or> R u (snd p) \<and> R (fst p) v"

definition linked :: "('a \<times> 'a) list \<Rightarrow> 'a \<Rightarrow> 'a \<Rightarrow> bool" where
  "linked ps = equivclp (\<lambda>u v. (u, v) \<in> set ps)"

lemma linked_snoc: "linked (ps @ [p]) = merge p (linked ps)"
proof (intro ext iffI)
  fix u v
  show "merge p (linked ps) u v" if "linked (ps @ [p]) u v"
    using that unfolding linked_def
  proof (induction rule: equivclp_induct)
    case base
    show ?case by (simp add: merge_def)
  next
    case (step y z)
    let ?R = "equivclp (\<lambda>u v. (u, v) \<in> set ps)"
    have "?R y z \<or> (y = fst p \<and> z = snd p) \<or> (y = snd p \<and> z = fst p)" using step(2) by (cases p) auto
    with step(3) show ?case unfolding merge_def by (meson equivclp_trans equivclp_refl equivclp_sym)
  qed
  have mono: "linked ps a b \<Longrightarrow> linked (ps @ [p]) a b" for a b
    unfolding linked_def by (induction rule: equivclp_induct) (auto intro: equivclp_into_equivclp)
  have link: "linked (ps @ [p]) (fst p) (snd p)" unfolding linked_def by (rule r_into_equivclp) simp
  show "linked (ps @ [p]) u v" if "merge p (linked ps) u v"
    using that mono link unfolding merge_def linked_def by (meson equivclp_trans equivclp_sym)
qed

lemma linked_Nil: "linked [] = (=)"
proof (intro ext iffI)
  show "u = v" if "linked [] u v" for u v :: 'a
    using that unfolding linked_def by (induction rule: equivclp_induct) auto
qed (simp add: linked_def)

lemma linked_equivalence: "linked ps u u" "linked ps u v \<Longrightarrow> linked ps v u" "linked ps u v \<Longrightarrow> linked ps v w \<Longrightarrow> linked ps u w"
  unfolding linked_def by (auto intro: equivclp_sym equivclp_trans)

text \<open>A pair that is linked already adds nothing.\<close>

lemma merge_linked: "linked ps (fst p) (snd p) \<Longrightarrow> merge p (linked ps) = linked ps"
  unfolding merge_def by (intro ext) (meson linked_equivalence)

section \<open>The disjoint-set interface\<close>

locale disjoint_sets =
  fixes ok :: "'a set \<Rightarrow> 's \<Rightarrow> bool"
    and rep :: "'s \<Rightarrow> 'a \<Rightarrow> 'a"
    and find_op :: "'s \<Rightarrow> 'a \<Rightarrow> ('s \<times> 'a) result"
    and union_op :: "'s \<Rightarrow> 'a \<Rightarrow> 'a \<Rightarrow> 's result"
  assumes find_law: "ok D s \<Longrightarrow> x \<in> D \<Longrightarrow>
      \<exists>s'. find_op s x = Inr (s', rep s x) \<and> ok D s' \<and> (\<forall>u \<in> D. rep s' u = rep s u)"
    and union_law: "ok D s \<Longrightarrow> x \<in> D \<Longrightarrow> y \<in> D \<Longrightarrow>
      \<exists>s'. union_op s x y = Inr s' \<and> ok D s' \<and>
        (\<forall>u \<in> D. \<forall>v \<in> D. rep s' u = rep s' v \<longleftrightarrow> merge (x, y) (\<lambda>a b. rep s a = rep s b) u v)"
begin

text \<open>The state represents the classes that the pairs generate.\<close>

definition represents :: "'a set \<Rightarrow> 's \<Rightarrow> ('a \<times> 'a) list \<Rightarrow> bool" where
  "represents D s ps \<longleftrightarrow> ok D s \<and> (\<forall>u \<in> D. \<forall>v \<in> D. rep s u = rep s v \<longleftrightarrow> linked ps u v)"

text \<open>\<open>if find(x) == find(y): skip, else union(x, y)\<close>.\<close>

definition join :: "'s \<Rightarrow> 'a \<Rightarrow> 'a \<Rightarrow> ('s \<times> bool) result" where
  "join s x y =
     bindR (find_op s x) (\<lambda>(s, a).
     bindR (find_op s y) (\<lambda>(s, b).
       if a = b then Inr (s, False) else bindR (union_op s x y) (\<lambda>s. Inr (s, True))))"

lemma join_represents:
  assumes "represents D s ps" "x \<in> D" "y \<in> D"
  shows "\<exists>s'. join s x y = Inr (s', \<not> linked ps x y) \<and> represents D s' (ps @ [(x, y)])"
proof -
  have ok: "ok D s" and eq: "\<And>u v. u \<in> D \<Longrightarrow> v \<in> D \<Longrightarrow> rep s u = rep s v \<longleftrightarrow> linked ps u v"
    using assms(1) by (auto simp: represents_def)
  from ok assms(2) obtain s1 where 1: "find_op s x = Inr (s1, rep s x)" "ok D s1" "\<forall>u \<in> D. rep s1 u = rep s u"
    using find_law by blast
  from 1 assms(3) obtain s2 where 2: "find_op s1 y = Inr (s2, rep s y)" "ok D s2" "\<forall>u \<in> D. rep s2 u = rep s u"
    using find_law [of D s1 y] by auto
  show ?thesis
  proof (cases "rep s x = rep s y")
    case True
    then have l: "linked ps x y" using eq assms by simp
    then have "represents D s2 (ps @ [(x, y)])"
      using 2 eq merge_linked [of ps "(x, y)"] by (simp add: represents_def linked_snoc)
    with True l show ?thesis using 1 2 by (simp add: join_def)
  next
    case False
    then have l: "\<not> linked ps x y" using eq assms by simp
    obtain s3 where 3: "union_op s2 x y = Inr s3" "ok D s3"
      "\<forall>u \<in> D. \<forall>v \<in> D. rep s3 u = rep s3 v \<longleftrightarrow> merge (x, y) (\<lambda>a b. rep s2 a = rep s2 b) u v"
      using union_law [OF 2(2) assms(2,3)] by blast
    then have "represents D s3 (ps @ [(x, y)])"
      using eq 2 assms(2,3) by (simp add: represents_def linked_snoc merge_def)
    with False l show ?thesis using 1 2 3 by (simp add: join_def)
  qed
qed

text \<open>Finding keeps what is represented.\<close>

lemma find_represents:
  assumes "represents D s ps" "x \<in> D"
  obtains s' where "find_op s x = Inr (s', rep s x)" "represents D s' ps" "\<forall>u \<in> D. rep s' u = rep s u"
  using assms find_law [of D s x] by (auto simp: represents_def)

end

end
