(* ===== verification/Correlation.thy ===== *)
theory Correlation
  imports Partition Parser_Contract
begin

text \<open>
  \<open>correlation.py\<close>: identity, interface and fact evidence with its normalisation, the union-find over
  stable identifiers that joins observations into canonical devices, and the conflicts between them.
  The Unicode case folding, the \<open>idna\<close> codec on names that are not ASCII, the SHA-256 digest and the
  iteration order of a set of texts are arguments.
\<close>

section \<open>Normalisation\<close>

datatype identifier_kind = MAC | SERIAL | SOURCE_ID | HOSTNAME | IPV4

fun kind_value :: "identifier_kind \<Rightarrow> pystr" where
  "kind_value MAC = lit ''mac''"
| "kind_value SERIAL = lit ''serial''"
| "kind_value SOURCE_ID = lit ''source_id''"
| "kind_value HOSTNAME = lit ''hostname''"
| "kind_value IPV4 = lit ''ipv4''"

definition STABLE_KINDS :: "identifier_kind set" where
  "STABLE_KINDS = {MAC, SERIAL, SOURCE_ID}"

record correlation_env =
  ce_uni :: unidata
  ce_idna :: "pystr \<Rightarrow> pystr option"
  ce_sha :: "bytes \<Rightarrow> pystr"
  ce_set_order :: "pystr list \<Rightarrow> pystr list"

definition require_text :: "pystr \<Rightarrow> string \<Rightarrow> nat \<Rightarrow> pystr result" where
  "require_text value field maximum =
     (let normalized = strip_with py_isspace value in
      if normalized = [] \<or> maximum < length normalized \<or> 0 \<in> set normalized
      then Inl (NormalizationError (lit field @ lit '' must be non-empty and at most '' @ str_int (int maximum) @ lit '' characters''))
      else Inr normalized)"

definition is_hex_digit :: "int \<Rightarrow> bool" where
  "is_hex_digit c \<longleftrightarrow> 48 \<le> c \<and> c \<le> 57 \<or> 65 \<le> c \<and> c \<le> 70 \<or> 97 \<le> c \<and> c \<le> 102"

fun pairs_of :: "pystr \<Rightarrow> pystr list" where
  "pairs_of (a # b # cs) = [ascii_lower a, ascii_lower b] # pairs_of cs"
| "pairs_of _ = []"

definition normalize_mac :: "pystr \<Rightarrow> pystr result" where
  "normalize_mac value =
     (let plain = filter (\<lambda>c. c \<noteq> 58 \<and> c \<noteq> 45) (strip_with py_isspace value) in
      if length plain = 12 \<and> list_all is_hex_digit plain then Inr (join (lit '':'') (pairs_of plain))
      else Inl (NormalizationError (lit ''MAC address is invalid'')))"

text \<open>\<open>hostname.encode("idna").decode("ascii")\<close>: an ASCII name is checked label by label and returned.\<close>

definition encode_idna :: "(pystr \<Rightarrow> pystr option) \<Rightarrow> pystr \<Rightarrow> pystr option" where
  "encode_idna other s =
     (if s = [] then Some []
      else if list_all (\<lambda>c. 0 \<le> c \<and> c < 128) s
      then (let labels = split_on 46 s in
            if list_all (\<lambda>l. 0 < length l \<and> length l < 64) (butlast labels) \<and> length (last labels) < 64 then Some s else None)
      else other s)"

definition hostname_label :: "pystr \<Rightarrow> bool" where
  "hostname_label label \<longleftrightarrow> label \<noteq> [] \<and> length label \<le> 63 \<and> hd label \<noteq> 45 \<and> last label \<noteq> 45 \<and>
     list_all (\<lambda>c. 97 \<le> c \<and> c \<le> 122 \<or> 48 \<le> c \<and> c \<le> 57 \<or> c = 45) label"

definition rstrip_char :: "int \<Rightarrow> pystr \<Rightarrow> pystr" where
  "rstrip_char c s = rev (dropWhile (\<lambda>x. x = c) (rev s))"

definition normalize_hostname :: "correlation_env \<Rightarrow> pystr \<Rightarrow> pystr result" where
  "normalize_hostname E value =
     bindR (require_text value ''hostname'' 253) (\<lambda>text.
       case encode_idna (ce_idna E) (casefold (ce_uni E) (rstrip_char 46 text)) of
         None \<Rightarrow> Inl (NormalizationError (lit ''hostname is invalid''))
       | Some ascii_name \<Rightarrow>
           if list_all hostname_label (split_on 46 ascii_name) then Inr ascii_name
           else Inl (NormalizationError (lit ''hostname is invalid'')))"

text \<open>\<open>re.sub(r"\s+", " ", s)\<close>\<close>

fun squeeze_spaces :: "bool \<Rightarrow> pystr \<Rightarrow> pystr" where
  "squeeze_spaces inside [] = []"
| "squeeze_spaces inside (c # cs) =
     (if py_isspace c then (if inside then squeeze_spaces True cs else 32 # squeeze_spaces True cs)
      else c # squeeze_spaces False cs)"

definition normalize_identifier :: "correlation_env \<Rightarrow> identifier_kind \<Rightarrow> pystr \<Rightarrow> pystr option \<Rightarrow> pystr result" where
  "normalize_identifier E kind value namespace =
     (case kind of
        MAC \<Rightarrow> normalize_mac value
      | IPV4 \<Rightarrow> (case ipv4_normal (strip_with py_isspace value) of
            None \<Rightarrow> Inl (NormalizationError (lit ''IPv4 address is invalid'')) | Some a \<Rightarrow> Inr a)
      | HOSTNAME \<Rightarrow> normalize_hostname E value
      | SERIAL \<Rightarrow> bindR (require_text value ''serial'' 256) (\<lambda>t. Inr (casefold (ce_uni E) (squeeze_spaces False t)))
      | SOURCE_ID \<Rightarrow>
          bindR (require_text (case namespace of None \<Rightarrow> [] | Some n \<Rightarrow> n) ''source ID namespace'' 128) (\<lambda>scope.
          bindR (require_text value ''source ID'' 256) (\<lambda>ident.
            Inr (casefold (ce_uni E) scope @ lit '':'' @ casefold (ce_uni E) ident))))"

section \<open>Evidence\<close>

record identity_evidence =
  ie_kind :: identifier_kind
  ie_value :: pystr
  ie_source :: pystr
  ie_observed_at :: datetime
  ie_confidence :: rat
  ie_namespace :: "pystr option"

record interface_evidence =
  if_key :: pystr
  if_source :: pystr
  if_observed_at :: datetime
  if_name :: "pystr option"
  if_mac :: "pystr option"
  if_confidence :: rat

record fact_evidence =
  fe_field :: pystr
  fe_value :: pystr
  fe_source :: pystr
  fe_observed_at :: datetime
  fe_confidence :: rat

record device_observation =
  do_id :: pystr
  do_source :: pystr
  do_observed_at :: datetime
  do_identifiers :: "identity_evidence list"
  do_interfaces :: "interface_evidence list"
  do_facts :: "fact_evidence list"

definition check_aware :: "datetime \<Rightarrow> unit result" where
  "check_aware d = (case d of Naive t \<Rightarrow> Inl (NormalizationError (lit ''observed_at must include a timezone'')) | Aware t off \<Rightarrow> Inr ())"

definition check_confidence :: "rat \<Rightarrow> unit result" where
  "check_confidence c = (if 0 \<le> c \<and> c \<le> 1 then Inr () else Inl (NormalizationError (lit ''confidence must be between 0 and 1'')))"

definition option_text :: "(pystr \<Rightarrow> pystr result) \<Rightarrow> pystr option \<Rightarrow> pystr option result" where
  "option_text f v = (case v of None \<Rightarrow> Inr None | Some s \<Rightarrow> bindR (f s) (\<lambda>t. Inr (Some t)))"

definition new_identity :: "correlation_env \<Rightarrow> identity_evidence \<Rightarrow> identity_evidence result" where
  "new_identity E i =
     bindR (require_text (ie_source i) ''source'' 128) (\<lambda>source.
     bindR (check_aware (ie_observed_at i)) (\<lambda>_.
     bindR (check_confidence (ie_confidence i)) (\<lambda>_.
     bindR (normalize_identifier E (ie_kind i) (ie_value i) (ie_namespace i)) (\<lambda>value.
       if ie_kind i \<noteq> SOURCE_ID \<and> ie_namespace i \<noteq> None
       then Inl (NormalizationError (lit ''namespace is valid only for source IDs''))
       else Inr (i\<lparr>ie_value := value, ie_source := source,
         ie_namespace := map_option (\<lambda>n. casefold (ce_uni E) (strip_with py_isspace n)) (ie_namespace i)\<rparr>)))))"

definition ie_key :: "identity_evidence \<Rightarrow> pystr" where
  "ie_key i = kind_value (ie_kind i) @ lit '':'' @ ie_value i"

definition new_interface :: "interface_evidence \<Rightarrow> interface_evidence result" where
  "new_interface i =
     bindR (require_text (if_key i) ''interface key'' 512) (\<lambda>key.
     bindR (require_text (if_source i) ''source'' 128) (\<lambda>source.
     bindR (check_aware (if_observed_at i)) (\<lambda>_.
     bindR (check_confidence (if_confidence i)) (\<lambda>_.
     bindR (option_text (\<lambda>s. require_text s ''interface name'' 256) (if_name i)) (\<lambda>name.
     bindR (option_text normalize_mac (if_mac i)) (\<lambda>mac.
       Inr (i\<lparr>if_key := key, if_source := source, if_name := name, if_mac := mac\<rparr>)))))))"

definition new_fact :: "correlation_env \<Rightarrow> fact_evidence \<Rightarrow> fact_evidence result" where
  "new_fact E f =
     bindR (require_text (fe_field f) ''fact field'' 128) (\<lambda>field.
     bindR (require_text (fe_value f) ''fact value'' 1024) (\<lambda>value.
     bindR (require_text (fe_source f) ''source'' 128) (\<lambda>source.
     bindR (check_aware (fe_observed_at f)) (\<lambda>_.
     bindR (check_confidence (fe_confidence f)) (\<lambda>_.
       Inr (f\<lparr>fe_field := casefold (ce_uni E) field, fe_value := value, fe_source := source\<rparr>))))))"

definition new_device_observation :: "device_observation \<Rightarrow> device_observation result" where
  "new_device_observation ob =
     bindR (require_text (do_id ob) ''observation ID'' 512) (\<lambda>ident.
     bindR (require_text (do_source ob) ''source'' 128) (\<lambda>source.
     bindR (check_aware (do_observed_at ob)) (\<lambda>_. Inr (ob\<lparr>do_id := ident, do_source := source\<rparr>))))"

section \<open>Sort keys\<close>

text \<open>\<open>datetime.isoformat()\<close> with any offset: the wall-clock part, then the offset.\<close>

definition offset_text :: "int \<Rightarrow> pystr" where
  "offset_text off =
     (let a = \<bar>off\<bar>; s = a div 1000000; us = a mod 1000000 in
      (if off < 0 then lit ''-'' else lit ''+'') @ pad 2 (s div 3600) @ lit '':'' @ pad 2 (s div 60 mod 60) @
      (if s mod 60 \<noteq> 0 \<or> us \<noteq> 0 then lit '':'' @ pad 2 (s mod 60) else []) @ (if us \<noteq> 0 then lit ''.'' @ pad 6 us else []))"

definition iso_text :: "datetime \<Rightarrow> pystr" where
  "iso_text d =
     (case d of Naive t \<Rightarrow> take (length (isoformat t) - 6) (isoformat t)
      | Aware t off \<Rightarrow> take (length (isoformat t) - 6) (isoformat t) @ offset_text off)"

definition identity_sort_key :: "identity_evidence \<Rightarrow> pystr \<times> pystr \<times> pystr \<times> pystr \<times> rat" where
  "identity_sort_key i = (kind_value (ie_kind i), ie_value i, ie_source i, iso_text (ie_observed_at i), ie_confidence i)"

definition interface_sort_key :: "interface_evidence \<Rightarrow> pystr \<times> pystr \<times> pystr \<times> pystr" where
  "interface_sort_key i = (if_key i, if_source i, iso_text (if_observed_at i), case if_mac i of None \<Rightarrow> [] | Some m \<Rightarrow> m)"

definition fact_sort_key :: "correlation_env \<Rightarrow> fact_evidence \<Rightarrow> pystr \<times> pystr \<times> pystr \<times> pystr" where
  "fact_sort_key E f = (fe_field f, casefold (ce_uni E) (fe_value f), fe_source f, iso_text (fe_observed_at f))"

section \<open>Correlation\<close>

record correlation_decision =
  dc_left :: pystr
  dc_right :: pystr
  dc_key :: pystr
  dc_confidence :: rat
  dc_reason :: pystr

record correlation_conflict =
  cc_kind :: pystr
  cc_key :: pystr
  cc_canonical_keys :: "pystr list"
  cc_values :: "pystr list"
  cc_observation_ids :: "pystr list"
  cc_explanation :: pystr

record canonical_device =
  cd_canonical_key :: pystr
  cd_observation_ids :: "pystr list"
  cd_identifiers :: "identity_evidence list"
  cd_interfaces :: "interface_evidence list"
  cd_facts :: "fact_evidence list"
  cd_confidence :: rat

record correlation_result =
  co_devices :: "canonical_device list"
  co_decisions :: "correlation_decision list"
  co_conflicts :: "correlation_conflict list"

definition interface_identity :: "correlation_env \<Rightarrow> interface_evidence \<Rightarrow> pystr \<Rightarrow> identity_evidence result" where
  "interface_identity E i mac =
     new_identity E \<lparr>ie_kind = MAC, ie_value = mac, ie_source = if_source i, ie_observed_at = if_observed_at i,
       ie_confidence = if_confidence i, ie_namespace = None\<rparr>"

definition all_identifiers :: "correlation_env \<Rightarrow> device_observation \<Rightarrow> identity_evidence list result" where
  "all_identifiers E ob =
     bindR (mapR (\<lambda>i. interface_identity E i (the (if_mac i))) (filter (\<lambda>i. if_mac i \<noteq> None) (do_interfaces ob)))
       (\<lambda>macs. Inr (sort_key identity_sort_key (do_identifiers ob @ macs)))"

definition is_stable :: "identity_evidence \<Rightarrow> bool" where
  "is_stable i \<longleftrightarrow> ie_kind i \<in> STABLE_KINDS \<and> 4 / 5 \<le> ie_confidence i"

text \<open>\<open>sorted({...})\<close> of texts.\<close>

definition sorted_set :: "'a::linorder list \<Rightarrow> 'a list" where
  "sorted_set xs = sort (remdups xs)"

definition canonical_seed :: "identity_evidence list \<Rightarrow> pystr \<Rightarrow> pystr" where
  "canonical_seed ids first =
     (case sorted_set (map ie_key (filter is_stable ids)) of [] \<Rightarrow> lit ''observation:'' @ first | k # ks \<Rightarrow> k)"

definition canonical_key :: "correlation_env \<Rightarrow> device_observation list \<Rightarrow> pystr result" where
  "canonical_key E obs =
     bindR (mapR (all_identifiers E) obs) (\<lambda>ids.
     bindR (utf8_encode (canonical_seed (concat ids) (do_id (hd obs)))) (\<lambda>raw.
       Inr (lit ''device-'' @ take 20 (ce_sha E raw))))"

text \<open>
  \<open>find\<close> with path halving and \<open>union\<close>, which keeps the smaller root. The first argument bounds the turns of
  the loop; running out of them is an error of its own.
\<close>

type_synonym parents = "pystr \<rightharpoonup> pystr"

fun find_root :: "nat \<Rightarrow> parents \<Rightarrow> pystr \<Rightarrow> (parents \<times> pystr) result" where
  "find_root n parent x =
     (case parent x of
        None \<Rightarrow> Inl (KeyError x)
      | Some up \<Rightarrow>
          if up = x then Inr (parent, x)
          else (case parent up of
                  None \<Rightarrow> Inl (KeyError up)
                | Some grand \<Rightarrow> (case n of 0 \<Rightarrow> Inl (OtherError (lit ''no root'')) | Suc m \<Rightarrow> find_root m (parent(x \<mapsto> grand)) grand)))"

declare find_root.simps [simp del]

definition union_roots :: "nat \<Rightarrow> parents \<Rightarrow> pystr \<Rightarrow> pystr \<Rightarrow> parents result" where
  "union_roots n parent left right =
     bindR (find_root n parent left) (\<lambda>(parent, a).
     bindR (find_root n parent right) (\<lambda>(parent, b). Inr (parent(max a b \<mapsto> min a b))))"

type_synonym claims = "(pystr \<times> identity_evidence) list"

fun join_claims ::
    "nat \<Rightarrow> pystr \<Rightarrow> pystr \<times> identity_evidence \<Rightarrow> claims \<Rightarrow> parents \<times> correlation_decision list \<Rightarrow>
      (parents \<times> correlation_decision list) result" where
  "join_claims n key first [] st = Inr st"
| "join_claims n key first (other # others) (parent, decisions) =
     bindR (find_root n parent (fst first)) (\<lambda>(parent, a).
     bindR (find_root n parent (fst other)) (\<lambda>(parent, b).
       if a = b then join_claims n key first others (parent, decisions)
       else bindR (union_roots n parent (fst first) (fst other)) (\<lambda>parent.
         join_claims n key first others (parent, decisions @
           [\<lparr>dc_left = fst first, dc_right = fst other, dc_key = key,
             dc_confidence = min (ie_confidence (snd first)) (ie_confidence (snd other)),
             dc_reason = lit ''matched stable identifier; hostname and IP were not used as merge evidence''\<rparr>]))))"

definition join_key ::
    "nat \<Rightarrow> parents \<times> correlation_decision list \<Rightarrow> pystr \<times> claims \<Rightarrow> (parents \<times> correlation_decision list) result" where
  "join_key n st kc =
     (case sort_key fst (snd kc) of [] \<Rightarrow> Inl IndexError | first # others \<Rightarrow> join_claims n (fst kc) first others st)"

text \<open>One entry of the ordered observations: the observation and its identifiers, as the two dictionaries hold them.\<close>

type_synonym identified = "device_observation \<times> identity_evidence list"

definition index_observations :: "correlation_env \<Rightarrow> device_observation list \<Rightarrow> (parents \<times> identified list) result" where
  "index_observations E ordered =
     foldR (\<lambda>(parent, known) ob.
         if parent (do_id ob) \<noteq> None then Inl (NormalizationError (lit ''duplicate observation ID: '' @ do_id ob))
         else bindR (all_identifiers E ob) (\<lambda>ids. Inr (parent(do_id ob \<mapsto> do_id ob), known @ [(ob, ids)])))
       (Map.empty, []) ordered"

definition stable_claims :: "identified list \<Rightarrow> claims" where
  "stable_claims known = concat (map (\<lambda>(ob, ids). map (\<lambda>i. (do_id ob, i)) (filter is_stable ids)) known)"

definition stable_index :: "identified list \<Rightarrow> (pystr, claims) odict" where
  "stable_index known = group_by (\<lambda>c. ie_key (snd c)) (stable_claims known)"

fun file_groups :: "nat \<Rightarrow> parents \<Rightarrow> identified list \<Rightarrow> (pystr, identified list) odict \<Rightarrow> (pystr, identified list) odict result" where
  "file_groups n parent [] groups = Inr groups"
| "file_groups n parent (x # xs) groups =
     bindR (find_root n parent (do_id (fst x))) (\<lambda>(parent, root_id). file_groups n parent xs (append_to root_id x groups))"

definition device_confidence :: "correlation_decision list \<Rightarrow> pystr list \<Rightarrow> identity_evidence list \<Rightarrow> rat" where
  "device_confidence decisions members ids =
     (case filter (\<lambda>d. dc_left d \<in> set members \<and> dc_right d \<in> set members) decisions of
        d # ds \<Rightarrow> fold min (map dc_confidence ds) (dc_confidence d)
      | [] \<Rightarrow> (case map ie_confidence (filter (\<lambda>i. ie_kind i \<in> STABLE_KINDS) ids) of
          [] \<Rightarrow> 1 / 2 | c # cs \<Rightarrow> fold max cs c))"

definition build_device :: "correlation_env \<Rightarrow> correlation_decision list \<Rightarrow> identified list \<Rightarrow> canonical_device result" where
  "build_device E decisions grp =
     (let members = sort_key (\<lambda>x. do_id (fst x)) grp;
          names = map (\<lambda>x. do_id (fst x)) members;
          ids = sort_key identity_sort_key (concat (map snd members)) in
      bindR (canonical_key E (map fst members)) (\<lambda>key.
        Inr \<lparr>cd_canonical_key = key, cd_observation_ids = names, cd_identifiers = ids,
          cd_interfaces = sort_key interface_sort_key (concat (map (\<lambda>x. do_interfaces (fst x)) members)),
          cd_facts = sort_key (fact_sort_key E) (concat (map (\<lambda>x. do_facts (fst x)) members)),
          cd_confidence = device_confidence decisions names ids\<rparr>))"


section \<open>Conflicts\<close>

definition kind_text :: "identifier_kind \<Rightarrow> string \<Rightarrow> pystr" where
  "kind_text kind s = kind_value kind @ lit s"

definition reusable_claims :: "canonical_device list \<Rightarrow> ((identifier_kind \<times> pystr) \<times> canonical_device) list" where
  "reusable_claims devices =
     concat (map (\<lambda>d. map (\<lambda>i. ((ie_kind i, ie_value i), d)) (filter (\<lambda>i. ie_kind i \<in> {HOSTNAME, IPV4}) (cd_identifiers d))) devices)"

definition reuse_conflicts :: "canonical_device list \<Rightarrow> correlation_conflict list" where
  "reuse_conflicts devices =
     concat (map (\<lambda>((kind, value), claims).
         let keys = sorted_set (map (\<lambda>c. cd_canonical_key (snd c)) claims) in
         if 1 < length keys
         then [\<lparr>cc_kind = lit ''reused_'' @ kind_value kind, cc_key = kind_value kind @ lit '':'' @ value, cc_canonical_keys = keys,
             cc_values = [value], cc_observation_ids = sorted_set (concat (map (\<lambda>c. cd_observation_ids (snd c)) claims)),
             cc_explanation = kind_value kind @ lit '' appears on multiple devices and was not used to merge them''\<rparr>]
         else [])
       (sort_key (\<lambda>e. (kind_value (fst (fst e)), snd (fst e))) (group_by fst (reusable_claims devices))))"

definition serial_conflict :: "canonical_device \<Rightarrow> correlation_conflict list" where
  "serial_conflict d =
     (let serials = sorted_set (map ie_value (filter (\<lambda>i. ie_kind i = SERIAL) (cd_identifiers d))) in
      if 1 < length serials
      then [\<lparr>cc_kind = lit ''conflicting_serial'', cc_key = lit ''serial'', cc_canonical_keys = [cd_canonical_key d], cc_values = serials,
          cc_observation_ids = cd_observation_ids d,
          cc_explanation = lit ''sources reported different serials for a device joined by other stable evidence''\<rparr>]
      else [])"

text \<open>The values of a field are a set sorted by case folding: texts that fold alike stay in the order of the set.\<close>

definition fact_conflict :: "correlation_env \<Rightarrow> canonical_device \<Rightarrow> pystr \<times> fact_evidence list \<Rightarrow> correlation_conflict list" where
  "fact_conflict E d e =
     (let values = sort_key (casefold (ce_uni E)) (ce_set_order E (remdups (map fe_value (snd e))));
          sources = remdups (map fe_source (snd e)) in
      if 1 < length values \<and> 1 < length sources
      then [\<lparr>cc_kind = lit ''source_disagreement'', cc_key = fst e, cc_canonical_keys = [cd_canonical_key d], cc_values = values,
          cc_observation_ids = cd_observation_ids d,
          cc_explanation = lit ''multiple sources reported different values; all evidence is retained''\<rparr>]
      else [])"

definition device_conflicts :: "correlation_env \<Rightarrow> canonical_device \<Rightarrow> correlation_conflict list" where
  "device_conflicts E d =
     serial_conflict d @ concat (map (fact_conflict E d) (sort_key fst (group_by fe_field (cd_facts d))))"

definition find_conflicts :: "correlation_env \<Rightarrow> canonical_device list \<Rightarrow> correlation_conflict list" where
  "find_conflicts E devices =
     sort_key (\<lambda>c. (cc_kind c, cc_key c, cc_canonical_keys c))
       (reuse_conflicts devices @ concat (map (device_conflicts E) devices))"

definition correlate :: "correlation_env \<Rightarrow> device_observation list \<Rightarrow> correlation_result result" where
  "correlate E observations =
     (let ordered = sort_key do_id observations; n = length ordered in
      bindR (index_observations E ordered) (\<lambda>(parent, known).
      bindR (foldR (join_key n) (parent, []) (sort_key fst (stable_index known))) (\<lambda>(parent, decisions).
      bindR (file_groups n parent known []) (\<lambda>groups.
      bindR (mapR (\<lambda>g. build_device E decisions (snd g)) groups) (\<lambda>built.
        let devices = sort_key cd_canonical_key built in
        Inr \<lparr>co_devices = devices, co_decisions = sort_key (\<lambda>d. (dc_key d, dc_left d)) decisions,
          co_conflicts = find_conflicts E devices\<rparr>)))))"

section \<open>The union-find\<close>

text \<open>Every entry points to one that is not larger; the root of an entry is where that ends.\<close>

definition forest_ok :: "pystr set \<Rightarrow> parents \<Rightarrow> bool" where
  "forest_ok D p \<longleftrightarrow> finite D \<and> dom p = D \<and> (\<forall>x y. p x = Some y \<longrightarrow> y \<in> D \<and> y \<le> x)"

inductive root_of :: "parents \<Rightarrow> pystr \<Rightarrow> pystr \<Rightarrow> bool" for p where
  root_here: "p x = Some x \<Longrightarrow> root_of p x x"
| root_up: "p x = Some y \<Longrightarrow> y \<noteq> x \<Longrightarrow> root_of p y r \<Longrightarrow> root_of p x r"

inductive_simps root_of_simp: "root_of p x r"

lemma root_of_unique: "root_of p x r \<Longrightarrow> root_of p x s \<Longrightarrow> r = s"
proof (induction arbitrary: s rule: root_of.induct)
  case (root_here x)
  then show ?case by (subst (asm) root_of_simp) auto
next
  case (root_up x y r)
  from root_up.prems root_up.hyps(1,2) have "root_of p y s" by (subst (asm) root_of_simp) auto
  then show ?case by (rule root_up.IH)
qed

lemma root_of_root: "root_of p x r \<Longrightarrow> p r = Some r"
  by (induction rule: root_of.induct) auto

definition below :: "pystr set \<Rightarrow> pystr \<Rightarrow> pystr set" where
  "below D x = {y \<in> D. y < x}"

lemma below_less: "finite D \<Longrightarrow> y \<in> D \<Longrightarrow> y < x \<Longrightarrow> card (below D y) < card (below D x)"
  by (rule psubset_card_mono) (auto simp: below_def)

lemma forest_induct [consumes 2, case_names step]:
  assumes "forest_ok D p" "x \<in> D" and step: "\<And>x. x \<in> D \<Longrightarrow> (\<And>y. y \<in> D \<Longrightarrow> y < x \<Longrightarrow> P y) \<Longrightarrow> P x"
  shows "P x"
  using assms(2)
proof (induction "card (below D x)" arbitrary: x rule: less_induct)
  case less
  show ?case by (rule step [OF less.prems]) (use less.hyps below_less assms(1) in \<open>auto simp: forest_ok_def\<close>)
qed

lemma root_exists:
  assumes ok: "forest_ok D p" and x: "x \<in> D"
  shows "\<exists>r \<in> D. root_of p x r \<and> r \<le> x"
  using ok x
proof (induction rule: forest_induct)
  case (step x)
  then obtain y where y: "p x = Some y" "y \<in> D" "y \<le> x" using ok by (auto simp: forest_ok_def dom_def)
  show ?case
  proof (cases "y = x")
    case True
    then show ?thesis using y step.hyps root_here by blast
  next
    case False
    then have "y < x" using y by simp
    then obtain r where "r \<in> D" "root_of p y r" "r \<le> y" using step y by blast
    then show ?thesis using y False root_up by (meson order_trans)
  qed
qed


lemma forest_step:
  assumes "forest_ok D p" "x \<in> D"
  obtains y where "p x = Some y" "y \<in> D" "y \<le> x"
  using assms by (auto simp: forest_ok_def dom_def)

text \<open>Replacing the pointer of an entry by that of its parent keeps every root.\<close>

lemma halve_ok:
  assumes ok: "forest_ok D p" and p: "p x = Some y" "p y = Some z" "y \<noteq> x"
  shows "forest_ok D (p(x \<mapsto> z))" and "root_of (p(x \<mapsto> z)) = root_of p"
proof -
  have z: "z \<in> D" "z \<le> y" and y: "y \<in> D" "y \<le> x" using ok p by (auto simp: forest_ok_def)
  have "x \<in> D" using ok p(1) by (auto simp: forest_ok_def)
  then show ok': "forest_ok D (p(x \<mapsto> z))"
    using ok z order_trans [OF z(2) y(2)] by (auto simp: forest_ok_def)
  have zx: "z \<noteq> x" using z(2) y(2) p(3) by auto
  have keep: "root_of (p(x \<mapsto> z)) w s" if "root_of p w s" for w s
    using that
  proof (induction rule: root_of.induct)
    case (root_here w)
    then show ?case using p(1,3) by (intro root_of.root_here) auto
  next
    case (root_up w u s)
    show ?case
    proof (cases "w = x")
      case True
      then have u: "u = y" using root_up.hyps p by simp
      have "root_of (p(x \<mapsto> z)) z s"
      proof (cases "z = y")
        case True
        with root_up.IH u show ?thesis by metis
      next
        case False
        with root_up.IH u p(2,3) show ?thesis by (subst (asm) root_of_simp) auto
      qed
      moreover have "(p(x \<mapsto> z)) x = Some z" by simp
      ultimately show ?thesis using True zx root_of.root_up by metis
    next
      case False
      then show ?thesis using root_up by (intro root_of.root_up [of _ w u]) auto
    qed
  qed
  show "root_of (p(x \<mapsto> z)) = root_of p"
  proof (intro ext iffI)
    fix w s
    assume w: "root_of (p(x \<mapsto> z)) w s"
    then have "(p(x \<mapsto> z)) w \<noteq> None" by (auto elim: root_of.cases)
    then have "w \<in> D" using ok' by (auto simp: forest_ok_def dom_def)
    then obtain s' where "root_of p w s'" using root_exists [OF ok] by blast
    with keep root_of_unique w show "root_of p w s" by metis
  qed (rule keep)
qed

definition root_id :: "parents \<Rightarrow> pystr \<Rightarrow> pystr" where
  "root_id p x = (THE r. root_of p x r)"

lemma root_of_eq: "root_of p x r \<Longrightarrow> root_id p x = r"
  unfolding root_id_def using root_of_unique by blast

lemma root_in:
  assumes "forest_ok D p" "x \<in> D"
  shows "root_of p x (root_id p x)" "root_id p x \<in> D" "root_id p x \<le> x" "p (root_id p x) = Some (root_id p x)"
proof -
  obtain r where r: "r \<in> D" "root_of p x r" "r \<le> x" using root_exists [OF assms] by blast
  then show "root_of p x (root_id p x)" "root_id p x \<in> D" "root_id p x \<le> x" "p (root_id p x) = Some (root_id p x)"
    using root_of_root by (simp_all add: root_of_eq)
qed

text \<open>As many turns as there are smaller entries are enough.\<close>

lemma find_root_law:
  "forest_ok D p \<Longrightarrow> x \<in> D \<Longrightarrow> card (below D x) \<le> n \<Longrightarrow>
     \<exists>p'. find_root n p x = Inr (p', root_id p x) \<and> forest_ok D p' \<and> root_of p' = root_of p"
proof (induction n arbitrary: p x)
  case 0
  obtain y where y: "p x = Some y" "y \<in> D" "y \<le> x" using forest_step [OF 0(1,2)] .
  have "finite (below D x)" using 0(1) by (auto simp: forest_ok_def below_def)
  then have "below D x = {}" using 0(3) by simp
  then have "y = x" using y by (auto simp: below_def)
  then have "root_id p x = x" using root_of_eq root_here y(1) by blast
  then show ?case using y \<open>y = x\<close> 0(1) by (simp add: find_root.simps [of 0])
next
  case (Suc n)
  obtain y where y: "p x = Some y" "y \<in> D" "y \<le> x" using forest_step [OF Suc.prems(1,2)] .
  show ?case
  proof (cases "y = x")
    case True
    then have "root_id p x = x" using root_of_eq root_here y(1) by blast
    then show ?thesis using y True Suc.prems(1) by (simp add: find_root.simps [of "Suc n"])
  next
    case False
    obtain z where z: "p y = Some z" "z \<in> D" "z \<le> y" using forest_step [OF Suc.prems(1) y(2)] .
    note h = halve_ok [OF Suc.prems(1) y(1) z(1) False]
    have "z < x" using z(3) y(3) False by (metis le_less_trans order_le_less)
    then have "card (below D z) < card (below D x)" using below_less z(2) Suc.prems(1) by (auto simp: forest_ok_def)
    then have c: "card (below D z) \<le> n" using Suc.prems(3) by simp
    obtain p' where p': "find_root n (p(x \<mapsto> z)) z = Inr (p', root_id (p(x \<mapsto> z)) z)" "forest_ok D p'"
      "root_of p' = root_of (p(x \<mapsto> z))" using Suc.IH [OF h(1) z(2) c] by blast
    have "root_of p x (root_id p z)"
    proof -
      have "root_of p z (root_id p z)" using root_in [OF Suc.prems(1) z(2)] by simp
      then have "root_of p y (root_id p z)" using z(1) by (metis root_of.simps)
      then show ?thesis using y(1) False root_up by metis
    qed
    then have "root_id (p(x \<mapsto> z)) z = root_id p x" using h(2) by (simp add: root_id_def root_of_eq [unfolded root_id_def])
    then show ?thesis using p' h(2) y z False by (simp add: find_root.simps [of "Suc n"])
  qed
qed

lemma below_card: "forest_ok D p \<Longrightarrow> card D \<le> n \<Longrightarrow> card (below D x) \<le> n"
proof -
  assume "forest_ok D p" "card D \<le> n"
  moreover have "below D x \<subseteq> D" by (auto simp: below_def)
  ultimately show ?thesis using card_mono [of D "below D x"] by (auto simp: forest_ok_def)
qed

lemma link_roots:
  assumes ok: "forest_ok D p" and ab: "p a = Some a" "p b = Some b" "a \<in> D" "b \<in> D"
  defines "q \<equiv> p(max a b \<mapsto> min a b)"
  shows "forest_ok D q" and "u \<in> D \<Longrightarrow> root_id q u = (if root_id p u = max a b then min a b else root_id p u)"
proof -
  have D: "max a b \<in> D" "min a b \<in> D" "p (max a b) = Some (max a b)" "p (min a b) = Some (min a b)"
    using ab by (auto simp: max_def min_def)
  have le: "min a b \<le> max a b" by (meson min.cobounded1 max.cobounded1 order_trans)
  show "forest_ok D q" using ok D le unfolding q_def forest_ok_def by (auto simp del: max.absorb1 max.absorb2 min.absorb1 min.absorb2)
  have "q (min a b) = Some (min a b)" using D by (simp add: q_def)
  then have lo: "root_of q (min a b) (min a b)" by (rule root_of.root_here)
  have "root_of q w (if s = max a b then min a b else s)" if "root_of p w s" for w s
    using that
  proof (induction rule: root_of.induct)
    case (root_here w)
    show ?case
    proof (cases "w = max a b")
      case True
      show ?thesis
      proof (cases "min a b = max a b")
        case False
        have "q w = Some (min a b)" using True by (simp add: q_def)
        then have "root_of q w (min a b)" using True False lo root_of.root_up by metis
        then show ?thesis using True by simp
      qed (use True lo in simp)
    next
      case False
      then show ?thesis using root_here by (auto simp: q_def intro: root_of.root_here)
    qed
  next
    case (root_up w u s)
    then have "w \<noteq> max a b" using D by auto
    then have "q w = Some u" using root_up.hyps(1) by (simp add: q_def)
    then show ?case using root_up.hyps(2) root_up.IH root_of.root_up by metis
  qed
  then show "root_id q u = (if root_id p u = max a b then min a b else root_id p u)" if "u \<in> D"
    by (rule root_of_eq [OF _]) (rule root_in(1) [OF ok that])
qed


text \<open>The union-find of the code provides the interface.\<close>

definition forest_fits :: "nat \<Rightarrow> pystr set \<Rightarrow> parents \<Rightarrow> bool" where
  "forest_fits n D p \<longleftrightarrow> forest_ok D p \<and> card D \<le> n"

lemma find_root_fits:
  assumes "forest_fits n D p" "x \<in> D"
  obtains p' where "find_root n p x = Inr (p', root_id p x)" "forest_fits n D p'" "root_of p' = root_of p" "root_id p' = root_id p"
proof -
  have ok: "forest_ok D p" and n: "card D \<le> n" using assms by (auto simp: forest_fits_def)
  obtain p' where p': "find_root n p x = Inr (p', root_id p x)" "forest_ok D p'" "root_of p' = root_of p"
    using find_root_law [OF ok assms(2) below_card [OF ok n]] by blast
  then have "root_id p' = root_id p" by (intro ext) (simp add: root_id_def)
  with p' n that show thesis by (simp add: forest_fits_def)
qed

interpretation forest: disjoint_sets "forest_fits n" root_id "find_root n" "union_roots n"
proof unfold_locales
  fix D s and x :: pystr
  assume "forest_fits n D s" "x \<in> D"
  then obtain s' where "find_root n s x = Inr (s', root_id s x)" "forest_fits n D s'" "root_id s' = root_id s"
    by (rule find_root_fits)
  then show "\<exists>s'. find_root n s x = Inr (s', root_id s x) \<and> forest_fits n D s' \<and> (\<forall>u\<in>D. root_id s' u = root_id s u)"
    by simp
next
  fix D s and x y :: pystr
  assume fits: "forest_fits n D s" and xy: "x \<in> D" "y \<in> D"
  obtain s1 where 1: "find_root n s x = Inr (s1, root_id s x)" "forest_fits n D s1" "root_id s1 = root_id s"
    using find_root_fits [OF fits xy(1)] by metis
  obtain s2 where 2: "find_root n s1 y = Inr (s2, root_id s y)" "forest_fits n D s2" "root_id s2 = root_id s"
    using find_root_fits [OF 1(2) xy(2)] 1(3) by metis
  let ?a = "root_id s x" and ?b = "root_id s y"
  let ?q = "s2(max ?a ?b \<mapsto> min ?a ?b)"
  have ok: "forest_ok D s2" using 2 by (simp add: forest_fits_def)
  have ab: "s2 ?a = Some ?a" "s2 ?b = Some ?b" "?a \<in> D" "?b \<in> D"
    using root_in [OF ok xy(1)] root_in [OF ok xy(2)] 2(3) by simp_all
  note l = link_roots [OF ok ab]
  have root_id: "root_id ?q u = (if root_id s u = max ?a ?b then min ?a ?b else root_id s u)" if "u \<in> D" for u
    using l(2) [OF that] 2(3) by simp
  have "union_roots n s x y = Inr ?q" using 1 2 by (simp add: union_roots_def)
  moreover have "forest_fits n D ?q" using l(1) 2(2) by (simp add: forest_fits_def)
  moreover have "root_id ?q u = root_id ?q v \<longleftrightarrow> merge (x, y) (\<lambda>a b. root_id s a = root_id s b) u v" if "u \<in> D" "v \<in> D" for u v
    using root_id that by (auto simp: merge_def max_def min_def)
  ultimately show "\<exists>s'. union_roots n s x y = Inr s' \<and> forest_fits n D s' \<and>
      (\<forall>u\<in>D. \<forall>v\<in>D. (root_id s' u = root_id s' v) = merge (x, y) (\<lambda>a b. root_id s a = root_id s b) u v)" by blast
qed


section \<open>The loops of correlate\<close>

definition ids_of :: "identified list \<Rightarrow> pystr set" where
  "ids_of known = (\<lambda>x. do_id (fst x)) ` set known"

definition identified_ok :: "correlation_env \<Rightarrow> identified list \<Rightarrow> bool" where
  "identified_ok E known \<longleftrightarrow> (\<forall>x \<in> set known. all_identifiers E (fst x) = Inr (snd x))"

definition self_parents :: "pystr set \<Rightarrow> parents" where
  "self_parents D x = (if x \<in> D then Some x else None)"

abbreviation index_step :: "correlation_env \<Rightarrow> parents \<times> identified list \<Rightarrow> device_observation \<Rightarrow> (parents \<times> identified list) result" where
  "index_step E \<equiv> \<lambda>(parent, known) ob.
         if parent (do_id ob) \<noteq> None then Inl (NormalizationError (lit ''duplicate observation ID: '' @ do_id ob))
         else bindR (all_identifiers E ob) (\<lambda>ids. Inr (parent(do_id ob \<mapsto> do_id ob), known @ [(ob, ids)]))"

lemma self_parents_insert: "(self_parents D)(x \<mapsto> x) = self_parents (insert x D)"
  by (auto simp: self_parents_def)

lemma index_step_eq:
  "index_step E (self_parents (ids_of known), known) ob =
     (if do_id ob \<in> ids_of known then Inl (NormalizationError (lit ''duplicate observation ID: '' @ do_id ob))
      else bindR (all_identifiers E ob) (\<lambda>ids. Inr (self_parents (ids_of (known @ [(ob, ids)])), known @ [(ob, ids)])))"
  by (simp add: self_parents_insert ids_of_def) (simp add: self_parents_def)

lemma index_loop_law:
  "foldR (index_step E) (self_parents (ids_of known), known) obs = Inr (parent, known') \<Longrightarrow> identified_ok E known \<Longrightarrow>
     distinct (map (\<lambda>x. do_id (fst x)) known) \<Longrightarrow>
     map fst known' = map fst known @ obs \<and> identified_ok E known' \<and> distinct (map (\<lambda>x. do_id (fst x)) known') \<and>
     parent = self_parents (ids_of known')"
proof (induction obs arbitrary: known)
  case (Cons ob obs)
  from Cons.prems(1) obtain ids where ids: "do_id ob \<notin> ids_of known" "all_identifiers E ob = Inr ids"
    "foldR (index_step E) (self_parents (ids_of (known @ [(ob, ids)])), known @ [(ob, ids)]) obs = Inr (parent, known')"
    unfolding foldR.simps index_step_eq by (auto simp: bindR_eq_Inr split: if_splits)
  from Cons.IH [OF ids(3)] ids(1,2) Cons.prems(2,3) show ?case by (auto simp: identified_ok_def ids_of_def)
qed simp

lemma index_observations_law:
  assumes "index_observations E obs = Inr (parent, known)"
  shows "map fst known = obs" "identified_ok E known" "distinct (map do_id obs)" "parent = self_parents (ids_of known)"
proof -
  have "self_parents (ids_of []) = Map.empty" by (auto simp: self_parents_def ids_of_def)
  with index_loop_law [of E "[]" obs parent known] assms have
    "map fst known = obs \<and> identified_ok E known \<and> distinct (map (\<lambda>x. do_id (fst x)) known) \<and> parent = self_parents (ids_of known)"
    by (simp add: index_observations_def identified_ok_def)
  then show "map fst known = obs" "identified_ok E known" "distinct (map do_id obs)" "parent = self_parents (ids_of known)"
    by (auto simp: comp_def)
qed

lemma index_loop_total:
  "distinct (map do_id obs) \<Longrightarrow> do_id ` set obs \<inter> ids_of known = {} \<Longrightarrow> (\<And>ob. ob \<in> set obs \<Longrightarrow> \<exists>ids. all_identifiers E ob = Inr ids) \<Longrightarrow>
     \<exists>r. foldR (index_step E) (self_parents (ids_of known), known) obs = Inr r"
proof (induction obs arbitrary: known)
  case (Cons ob obs)
  obtain ids where ids: "all_identifiers E ob = Inr ids" using Cons.prems(3) by force
  have "do_id ob \<notin> ids_of known" using Cons.prems(2) by auto
  moreover have "\<exists>r. foldR (index_step E) (self_parents (ids_of (known @ [(ob, ids)])), known @ [(ob, ids)]) obs = Inr r"
    using Cons.prems by (intro Cons.IH) (auto simp: ids_of_def)
  ultimately show ?case unfolding foldR.simps index_step_eq by (simp add: ids)
qed simp

lemma self_parents_start:
  assumes "finite D" "card D \<le> n"
  shows "forest.represents n D (self_parents D) []"
proof -
  have "root_of (self_parents D) x x" if "x \<in> D" for x
    using that by (intro root_of.root_here) (simp add: self_parents_def)
  then have "root_id (self_parents D) x = x" if "x \<in> D" for x using root_of_eq that by blast
  moreover have "forest_ok D (self_parents D)" using assms by (auto simp: forest_ok_def self_parents_def split: if_splits)
  ultimately show ?thesis using assms by (simp add: forest.represents_def forest_fits_def linked_Nil)
qed

text \<open>The pairs that the claims of one key join: each with the first.\<close>

definition claim_pairs :: "pystr \<times> identity_evidence \<Rightarrow> claims \<Rightarrow> (pystr \<times> pystr) list" where
  "claim_pairs first others = map (\<lambda>c. (fst first, fst c)) others"

definition decision_pairs :: "correlation_decision list \<Rightarrow> (pystr \<times> pystr) list" where
  "decision_pairs ds = map (\<lambda>d. (dc_left d, dc_right d)) ds"

definition justified :: "claims \<Rightarrow> correlation_decision \<Rightarrow> bool" where
  "justified cs d \<longleftrightarrow> (\<exists>i j. (dc_left d, i) \<in> set cs \<and> (dc_right d, j) \<in> set cs \<and> ie_key i = dc_key d \<and> ie_key j = dc_key d \<and>
     dc_confidence d = min (ie_confidence i) (ie_confidence j))"

definition join_state :: "nat \<Rightarrow> pystr set \<Rightarrow> claims \<Rightarrow> (pystr \<times> pystr) list \<Rightarrow> parents \<times> correlation_decision list \<Rightarrow> bool" where
  "join_state n D cs ps st \<longleftrightarrow> forest.represents n D (fst st) ps \<and> linked (decision_pairs (snd st)) = linked ps \<and>
     list_all (justified cs) (snd st)"

lemma join_claims_join:
  "join_claims n key first (other # others) (parent, ds) =
     bindR (forest.join n parent (fst first) (fst other)) (\<lambda>(parent, new). join_claims n key first others (parent,
       if new then ds @ [\<lparr>dc_left = fst first, dc_right = fst other, dc_key = key,
             dc_confidence = min (ie_confidence (snd first)) (ie_confidence (snd other)),
             dc_reason = lit ''matched stable identifier; hostname and IP were not used as merge evidence''\<rparr>] else ds))"
  by (simp add: forest.join_def bindR_def split: sum.splits prod.splits)

lemma join_claims_law:
  assumes "join_state n D cs ps st" "fst first \<in> D" "\<forall>c \<in> set others. fst c \<in> D"
    and "first \<in> set cs" "set others \<subseteq> set cs" "\<forall>c \<in> set (first # others). ie_key (snd c) = key"
  shows "\<exists>st'. join_claims n key first others st = Inr st' \<and> join_state n D cs (ps @ claim_pairs first others) st'"
  using assms
proof (induction others arbitrary: st ps)
  case Nil
  then show ?case by (simp add: claim_pairs_def)
next
  case (Cons other others)
  obtain p ds where st: "st = (p, ds)" by fastforce
  have rep: "forest.represents n D p ps" and ds: "linked (decision_pairs ds) = linked ps" "list_all (justified cs) ds"
    using Cons.prems(1) st by (auto simp: join_state_def)
  have D: "fst first \<in> D" "fst other \<in> D" using Cons.prems by auto
  obtain p' where p': "forest.join n p (fst first) (fst other) = Inr (p', \<not> linked ps (fst first) (fst other))"
    "forest.represents n D p' (ps @ [(fst first, fst other)])" using forest.join_represents [OF rep D] by blast
  define d where "d = \<lparr>dc_left = fst first, dc_right = fst other, dc_key = key,
             dc_confidence = min (ie_confidence (snd first)) (ie_confidence (snd other)),
             dc_reason = lit ''matched stable identifier; hostname and IP were not used as merge evidence''\<rparr>"
  define ds' where "ds' = (if \<not> linked ps (fst first) (fst other) then ds @ [d] else ds)"
  have j: "justified cs d"
    unfolding justified_def d_def
    by (intro exI [of _ "snd first"] exI [of _ "snd other"]) (use Cons.prems in auto)
  have "linked (decision_pairs ds') = linked (ps @ [(fst first, fst other)])"
    using ds(1) merge_linked [of ps "(fst first, fst other)"]
    by (simp add: ds'_def d_def decision_pairs_def linked_snoc)
  then have "join_state n D cs (ps @ [(fst first, fst other)]) (p', ds')"
    using p'(2) ds(2) j by (simp add: join_state_def ds'_def)
  then obtain st' where "join_claims n key first others (p', ds') = Inr st'"
    "join_state n D cs ((ps @ [(fst first, fst other)]) @ claim_pairs first others) st'"
    using Cons.IH [of "ps @ [(fst first, fst other)]" "(p', ds')"] Cons.prems by auto
  moreover have "join_claims n key first (other # others) (p, ds) = join_claims n key first others (p', ds')"
    by (simp only: join_claims_join p'(1) bindR_Inr prod.case ds'_def d_def)
  ultimately show ?case by (simp add: st claim_pairs_def)
qed


definition key_pairs :: "pystr \<times> claims \<Rightarrow> (pystr \<times> pystr) list" where
  "key_pairs kc = (case sort_key fst (snd kc) of [] \<Rightarrow> [] | first # others \<Rightarrow> claim_pairs first others)"

definition index_entry_ok :: "pystr set \<Rightarrow> claims \<Rightarrow> pystr \<times> claims \<Rightarrow> bool" where
  "index_entry_ok D cs kc \<longleftrightarrow> snd kc \<noteq> [] \<and> set (snd kc) \<subseteq> set cs \<and> (\<forall>c \<in> set (snd kc). fst c \<in> D \<and> ie_key (snd c) = fst kc)"

lemma sort_key_Nil_iff: "sort_key f xs = [] \<longleftrightarrow> xs = []"
  by (metis length_0_conv length_sort)

lemma join_key_law:
  assumes "join_state n D cs ps st" "index_entry_ok D cs kc"
  shows "\<exists>st'. join_key n st kc = Inr st' \<and> join_state n D cs (ps @ key_pairs kc) st'"
proof -
  obtain first others where s: "sort_key fst (snd kc) = first # others"
    using assms(2) by (cases "sort_key fst (snd kc)") (auto simp: index_entry_ok_def sort_key_Nil_iff)
  then have set: "set (snd kc) = set (first # others)" by (metis set_sort)
  then have "\<exists>st'. join_claims n (fst kc) first others st = Inr st' \<and> join_state n D cs (ps @ claim_pairs first others) st'"
    using assms(2) by (intro join_claims_law [OF assms(1)]) (auto simp: index_entry_ok_def)
  then show ?thesis by (simp add: join_key_def key_pairs_def s)
qed

lemma join_loop_law:
  "join_state n D cs ps st \<Longrightarrow> \<forall>kc \<in> set idx. index_entry_ok D cs kc \<Longrightarrow>
     \<exists>st'. foldR (join_key n) st idx = Inr st' \<and> join_state n D cs (ps @ concat (map key_pairs idx)) st'"
proof (induction idx arbitrary: ps st)
  case (Cons kc idx)
  obtain st1 where st1: "join_key n st kc = Inr st1" "join_state n D cs (ps @ key_pairs kc) st1"
    using join_key_law Cons.prems by (metis list.set_intros(1))
  from Cons.IH [OF st1(2)] Cons.prems(2) st1(1) show ?case by simp
qed simp

text \<open>Two observations share a stable identifier.\<close>

definition share :: "claims \<Rightarrow> pystr \<Rightarrow> pystr \<Rightarrow> bool" where
  "share cs u v \<longleftrightarrow> (\<exists>i j. (u, i) \<in> set cs \<and> (v, j) \<in> set cs \<and> ie_key i = ie_key j)"

lemma justified_share: "justified cs d \<Longrightarrow> share cs (dc_left d) (dc_right d)"
  unfolding justified_def share_def by metis

lemma key_pairs_linked:
  assumes "u \<in> fst ` set (snd kc)" "v \<in> fst ` set (snd kc)"
  shows "linked (key_pairs kc) u v"
proof -
  obtain first others where s: "sort_key fst (snd kc) = first # others"
    using assms(1) by (cases "sort_key fst (snd kc)") (auto simp: sort_key_Nil_iff)
  then have set: "set (snd kc) = set (first # others)" by (metis set_sort)
  have "linked (key_pairs kc) (fst first) w" if "w \<in> fst ` set (snd kc)" for w
  proof (cases "w = fst first")
    case False
    then have "(fst first, w) \<in> set (key_pairs kc)" using that set by (auto simp: key_pairs_def s claim_pairs_def)
    then show ?thesis unfolding linked_def by (rule r_into_equivclp)
  qed (simp add: linked_def)
  then show ?thesis using assms by (meson linked_equivalence)
qed

lemma equivclp_mono: "equivclp R u v \<Longrightarrow> (\<And>a b. R a b \<Longrightarrow> equivclp S a b) \<Longrightarrow> equivclp S u v"
proof (induction rule: equivclp_induct)
  case (step y z)
  then have "equivclp S y z" by (meson equivclp_sym)
  then show ?case using step equivclp_trans by metis
qed simp

lemma linked_share:
  assumes "\<And>kc. kc \<in> set idx \<longleftrightarrow> kc \<in> set (group_by (\<lambda>c. ie_key (snd c)) cs)"
  shows "linked (concat (map key_pairs idx)) = equivclp (share cs)"
proof (intro ext iffI)
  fix u v
  assume "linked (concat (map key_pairs idx)) u v"
  then show "equivclp (share cs) u v"
    unfolding linked_def
  proof (rule equivclp_mono)
    fix a b
    assume "(a, b) \<in> set (concat (map key_pairs idx))"
    then obtain kc where kc: "kc \<in> set idx" "(a, b) \<in> set (key_pairs kc)" by auto
    obtain first others where s: "sort_key fst (snd kc) = first # others"
      using kc(2) by (cases "sort_key fst (snd kc)") (auto simp: key_pairs_def sort_key_Nil_iff)
    then have set: "set (snd kc) = set (first # others)" by (metis set_sort)
    obtain c where c: "c \<in> set (first # others)" "a = fst first" "b = fst c"
      using kc(2) by (auto simp: key_pairs_def s claim_pairs_def)
    have "snd kc = filter (\<lambda>c. ie_key (snd c) = fst kc) cs" using kc(1) assms [of kc] group_by_mem [of "fst kc" "snd kc"] by simp
    then have "\<forall>d \<in> set (first # others). d \<in> set cs \<and> ie_key (snd d) = fst kc" using set by auto
    then have "share cs a b" using c unfolding share_def
      by (intro exI [of _ "snd first"] exI [of _ "snd c"]) auto
    then show "equivclp (share cs) a b" by (rule r_into_equivclp)
  qed
next
  fix u v
  assume "equivclp (share cs) u v"
  then show "linked (concat (map key_pairs idx)) u v"
    unfolding linked_def
  proof (rule equivclp_mono)
    fix a b
    assume "share cs a b"
    then obtain i j where ij: "(a, i) \<in> set cs" "(b, j) \<in> set cs" "ie_key i = ie_key j" by (auto simp: share_def)
    let ?kc = "(ie_key i, filter (\<lambda>c. ie_key (snd c) = ie_key i) cs)"
    have "?kc \<in> set (group_by (\<lambda>c. ie_key (snd c)) cs)" using ij by (force simp: group_by_mem filter_empty_conv)
    then have "set (key_pairs ?kc) \<subseteq> set (concat (map key_pairs idx))" using assms by auto
    moreover have "linked (key_pairs ?kc) a b" using ij by (intro key_pairs_linked) force+
    ultimately show "equivclp (\<lambda>u v. (u, v) \<in> set (concat (map key_pairs idx))) a b"
      unfolding linked_def by (elim equivclp_mono) (rule r_into_equivclp, erule subsetD)
  qed
qed

lemma file_groups_law:
  assumes "forest_fits n D p" "ids_of known \<subseteq> D"
  shows "file_groups n p known groups = Inr (fold (\<lambda>x. append_to (root_id p (do_id (fst x))) x) known groups)"
  using assms
proof (induction known arbitrary: p groups)
  case (Cons x known)
  have "do_id (fst x) \<in> D" using Cons.prems(2) by (auto simp: ids_of_def)
  then obtain p' where p': "find_root n p (do_id (fst x)) = Inr (p', root_id p (do_id (fst x)))" "forest_fits n D p'" "root_id p' = root_id p"
    using find_root_fits [OF Cons.prems(1)] by metis
  then show ?case using Cons.IH [OF p'(2)] Cons.prems(2) by (simp add: ids_of_def)
qed simp


section \<open>What correlate returns\<close>

lemma stable_claims_ids: "c \<in> set (stable_claims known) \<Longrightarrow> fst c \<in> ids_of known"
  by (force simp: stable_claims_def ids_of_def)

lemma stable_index_ok: "kc \<in> set (stable_index known) \<Longrightarrow> index_entry_ok (ids_of known) (stable_claims known) kc"
  by (cases kc) (auto simp: stable_index_def group_by_mem index_entry_ok_def dest: stable_claims_ids)

definition joined :: "identified list \<Rightarrow> parents \<times> correlation_decision list \<Rightarrow> bool" where
  "joined known st \<longleftrightarrow>
     (\<forall>u \<in> ids_of known. \<forall>v \<in> ids_of known. root_id (fst st) u = root_id (fst st) v \<longleftrightarrow> equivclp (share (stable_claims known)) u v) \<and>
     linked (decision_pairs (snd st)) = equivclp (share (stable_claims known)) \<and> list_all (justified (stable_claims known)) (snd st)"

definition class_groups :: "parents \<Rightarrow> identified list \<Rightarrow> (pystr, identified list) odict" where
  "class_groups p known = group_by (\<lambda>x. root_id p (do_id (fst x))) known"

lemma correlate_eq:
  assumes "index_observations E (sort_key do_id obs) = Inr (parent, known)"
  obtains p decisions where "joined known (p, decisions)"
    "correlate E obs = bindR (mapR (\<lambda>g. build_device E decisions (snd g)) (class_groups p known)) (\<lambda>built.
       Inr \<lparr>co_devices = sort_key cd_canonical_key built, co_decisions = sort_key (\<lambda>d. (dc_key d, dc_left d)) decisions,
         co_conflicts = find_conflicts E (sort_key cd_canonical_key built)\<rparr>)"
proof -
  let ?n = "length (sort_key do_id obs)" and ?D = "ids_of known" and ?cs = "stable_claims known"
  note law = index_observations_law [OF assms]
  have fin: "finite ?D" by (simp add: ids_of_def)
  have "card ?D \<le> length known" by (metis card_length ids_of_def list.set_map length_map)
  moreover have "length known = ?n" using law(1) by (metis length_map)
  ultimately have card: "card ?D \<le> ?n" by simp
  have start: "join_state ?n ?D ?cs [] (parent, [])"
    using self_parents_start [OF fin card] law(4) by (simp add: join_state_def decision_pairs_def)
  let ?idx = "sort_key fst (stable_index known)"
  have "\<forall>kc \<in> set ?idx. index_entry_ok ?D ?cs kc" using stable_index_ok by simp
  from join_loop_law [OF start this] obtain p decisions where st: "foldR (join_key ?n) (parent, []) ?idx = Inr (p, decisions)"
    "join_state ?n ?D ?cs (concat (map key_pairs ?idx)) (p, decisions)" by auto
  have l: "linked (concat (map key_pairs ?idx)) = equivclp (share ?cs)"
    by (rule linked_share) (simp add: stable_index_def)
  have j: "joined known (p, decisions)"
    using st(2) by (simp add: joined_def join_state_def forest.represents_def l)
  have fits: "forest_fits ?n ?D p" using st(2) by (simp add: join_state_def forest.represents_def)
  have g: "file_groups ?n p known [] = Inr (class_groups p known)"
    using file_groups_law [OF fits order_refl, of "[]"] by (simp add: class_groups_def group_by_def)
  show thesis
    by (rule that [OF j]) (use st(1) g in \<open>simp add: correlate_def assms Let_def\<close>)
qed

lemma mset_concat_map:
  assumes "mset xs = mset ys"
  shows "mset (concat (map f xs)) = mset (concat (map f ys))"
proof -
  have "mset (concat (map f zs)) = (\<Sum>x\<in>#mset zs. mset (f x))" for zs by (induction zs) simp_all
  then show ?thesis by (simp add: assms)
qed

lemma build_device_Inr:
  assumes "build_device E decisions g = Inr d"
  shows "mset (cd_observation_ids d) = mset (map (\<lambda>x. do_id (fst x)) g)" "mset (cd_identifiers d) = mset (concat (map snd g))"
    "mset (cd_interfaces d) = mset (concat (map (\<lambda>x. do_interfaces (fst x)) g))"
    "mset (cd_facts d) = mset (concat (map (\<lambda>x. do_facts (fst x)) g))"
proof -
  let ?m = "sort_key (\<lambda>x. do_id (fst x)) g"
  have m: "mset ?m = mset g" by simp
  note c = mset_concat_map [OF m]
  from assms show "mset (cd_observation_ids d) = mset (map (\<lambda>x. do_id (fst x)) g)"
    by (auto simp: build_device_def Let_def bindR_eq_Inr)
  from assms show "mset (cd_identifiers d) = mset (concat (map snd g))"
    using c [of snd] by (auto simp: build_device_def Let_def bindR_eq_Inr)
  from assms show "mset (cd_interfaces d) = mset (concat (map (\<lambda>x. do_interfaces (fst x)) g))"
    using c [of "\<lambda>x. do_interfaces (fst x)"] by (auto simp: build_device_def Let_def bindR_eq_Inr)
  from assms show "mset (cd_facts d) = mset (concat (map (\<lambda>x. do_facts (fst x)) g))"
    using c [of "\<lambda>x. do_facts (fst x)"] by (auto simp: build_device_def Let_def bindR_eq_Inr)
qed

lemma correlate_cases:
  assumes "correlate E obs = Inr r"
  obtains known p decisions built where "map fst known = sort_key do_id obs" "identified_ok E known" "distinct (map do_id obs)"
    "joined known (p, decisions)" "list_all2 (\<lambda>g d. build_device E decisions (snd g) = Inr d) (class_groups p known) built"
    "co_devices r = sort_key cd_canonical_key built" "co_decisions r = sort_key (\<lambda>d. (dc_key d, dc_left d)) decisions"
proof -
  obtain parent known where i: "index_observations E (sort_key do_id obs) = Inr (parent, known)"
    using assms by (auto simp: correlate_def Let_def bindR_eq_Inr)
  obtain p decisions where j: "joined known (p, decisions)" and eq:
    "correlate E obs = bindR (mapR (\<lambda>g. build_device E decisions (snd g)) (class_groups p known)) (\<lambda>built.
       Inr \<lparr>co_devices = sort_key cd_canonical_key built, co_decisions = sort_key (\<lambda>d. (dc_key d, dc_left d)) decisions,
         co_conflicts = find_conflicts E (sort_key cd_canonical_key built)\<rparr>)"
    by (rule correlate_eq [OF i])
  obtain built where b: "mapR (\<lambda>g. build_device E decisions (snd g)) (class_groups p known) = Inr built"
    "co_devices r = sort_key cd_canonical_key built" "co_decisions r = sort_key (\<lambda>d. (dc_key d, dc_left d)) decisions"
    using assms eq by (auto simp: bindR_eq_Inr)
  note law = index_observations_law [OF i]
  have "mset (map do_id (sort_key do_id obs)) = mset (map do_id obs)" by simp
  then have "distinct (map do_id obs)" using law(3) mset_eq_imp_distinct_iff by blast
  with law j b that show thesis by (simp add: mapR_Inr_iff)
qed

lemma class_groups_concat: "mset (concat (map (\<lambda>g. f (snd g)) (class_groups p known))) = mset (concat (map f' known))"
  if "\<And>g. mset (f g) = mset (concat (map f' g))"
proof -
  have "mset (concat (map (\<lambda>g. f (snd g)) gs)) = mset (concat (map f' (concat (map snd gs))))" for gs :: "(pystr, identified list) odict"
    by (induction gs) (simp_all add: that)
  moreover have "mset (concat (map f' (concat (map snd (class_groups p known))))) = mset (concat (map f' known))"
    unfolding class_groups_def by (rule mset_concat_map [OF group_by_partition])
  ultimately show ?thesis by simp
qed

lemma devices_concat:
  assumes "list_all2 (\<lambda>g d. build_device E decisions (snd g) = Inr d) (class_groups p known) built"
    and "\<And>g d. build_device E decisions g = Inr d \<Longrightarrow> mset (h d) = mset (concat (map f' g))"
  shows "mset (concat (map h (sort_key cd_canonical_key built))) = mset (concat (map f' known))"
proof -
  have "mset (concat (map h ds)) = mset (concat (map (\<lambda>g. concat (map f' (snd g))) gs))"
    if "list_all2 (\<lambda>g d. build_device E decisions (snd g) = Inr d) gs ds" for gs :: "(pystr, identified list) odict" and ds
    using that by (induction gs ds rule: list_all2_induct) (simp_all add: assms(2))
  from this [OF assms(1)] have "mset (concat (map h built)) = mset (concat (map f' known))"
    by (simp add: class_groups_concat [of "\<lambda>g. concat (map f' g)" f'])
  moreover have "mset (concat (map h (sort_key cd_canonical_key built))) = mset (concat (map h built))"
    by (rule mset_concat_map) simp
  ultimately show ?thesis by simp
qed


lemma group_member:
  assumes "\<not> P []"
  shows "(\<exists>g \<in> set (group_by f xs). P (snd g)) \<longleftrightarrow> (\<exists>k. P (filter (\<lambda>x. f x = k) xs))"
proof
  assume "\<exists>g \<in> set (group_by f xs). P (snd g)"
  then obtain k vs where "(k, vs) \<in> set (group_by f xs)" "P vs" by auto
  then show "\<exists>k. P (filter (\<lambda>x. f x = k) xs)" by (auto simp: group_by_mem)
next
  assume "\<exists>k. P (filter (\<lambda>x. f x = k) xs)"
  then obtain k where k: "P (filter (\<lambda>x. f x = k) xs)" by blast
  then have "(k, filter (\<lambda>x. f x = k) xs) \<in> set (group_by f xs)" using assms group_by_mem by metis
  with k show "\<exists>g \<in> set (group_by f xs). P (snd g)" by force
qed

lemma same_device:
  assumes "list_all2 (\<lambda>g d. build_device E decisions (snd g) = Inr d) (class_groups p known) built"
  shows "(\<exists>d \<in> set built. u \<in> set (cd_observation_ids d) \<and> v \<in> set (cd_observation_ids d)) \<longleftrightarrow>
    u \<in> ids_of known \<and> v \<in> ids_of known \<and> root_id p u = root_id p v"
proof -
  have ids: "set (cd_observation_ids d) = ids_of (snd g)" if "build_device E decisions (snd g) = Inr d" for g :: "pystr \<times> identified list" and d
    using arg_cong [OF build_device_Inr(1) [OF that], of set_mset] by (simp add: ids_of_def image_image)
  have "(\<exists>d \<in> set built. u \<in> set (cd_observation_ids d) \<and> v \<in> set (cd_observation_ids d)) \<longleftrightarrow>
      (\<exists>g \<in> set (class_groups p known). u \<in> ids_of (snd g) \<and> v \<in> ids_of (snd g))"
    using assms by (induction rule: list_all2_induct) (simp_all add: ids)
  also have "\<dots> \<longleftrightarrow> (\<exists>k. u \<in> ids_of (filter (\<lambda>x. root_id p (do_id (fst x)) = k) known) \<and>
      v \<in> ids_of (filter (\<lambda>x. root_id p (do_id (fst x)) = k) known))"
    using group_member [of "\<lambda>g. u \<in> ids_of g \<and> v \<in> ids_of g"] by (simp add: class_groups_def ids_of_def)
  also have "\<dots> \<longleftrightarrow> u \<in> ids_of known \<and> v \<in> ids_of known \<and> root_id p u = root_id p v"
  proof -
    have "w \<in> ids_of (filter (\<lambda>x. root_id p (do_id (fst x)) = k) known) \<longleftrightarrow> w \<in> ids_of known \<and> root_id p w = k" for w k
      by (auto simp: ids_of_def)
    then show ?thesis by auto
  qed
  finally show ?thesis .
qed

text \<open>Two observations share an identifier that may merge: a MAC address, serial or source identity with a
  confidence of at least 0.8.\<close>

definition shared_identifier :: "correlation_env \<Rightarrow> device_observation list \<Rightarrow> pystr \<Rightarrow> pystr \<Rightarrow> bool" where
  "shared_identifier E obs u v \<longleftrightarrow>
     (\<exists>a \<in> set obs. \<exists>b \<in> set obs. \<exists>ia ib i j. do_id a = u \<and> do_id b = v \<and> all_identifiers E a = Inr ia \<and> all_identifiers E b = Inr ib \<and>
        i \<in> set ia \<and> j \<in> set ib \<and> is_stable i \<and> is_stable j \<and> ie_key i = ie_key j)"

lemma stable_claims_mem:
  assumes "identified_ok E known" "set (map fst known) = set obs"
  shows "(u, i) \<in> set (stable_claims known) \<longleftrightarrow>
    (\<exists>a \<in> set obs. \<exists>ids. do_id a = u \<and> all_identifiers E a = Inr ids \<and> i \<in> set ids \<and> is_stable i)"
proof
  assume "(u, i) \<in> set (stable_claims known)"
  then obtain x where "x \<in> set known" "u = do_id (fst x)" "i \<in> set (snd x)" "is_stable i" by (auto simp: stable_claims_def)
  then show "\<exists>a \<in> set obs. \<exists>ids. do_id a = u \<and> all_identifiers E a = Inr ids \<and> i \<in> set ids \<and> is_stable i"
    using assms unfolding identified_ok_def by (metis image_eqI list.set_map)
next
  assume "\<exists>a \<in> set obs. \<exists>ids. do_id a = u \<and> all_identifiers E a = Inr ids \<and> i \<in> set ids \<and> is_stable i"
  then obtain a ids where a: "a \<in> set obs" "do_id a = u" "all_identifiers E a = Inr ids" "i \<in> set ids" "is_stable i" by blast
  then have "a \<in> fst ` set known" using assms(2) by simp
  then obtain x where "x \<in> set known" "fst x = a" by blast
  then show "(u, i) \<in> set (stable_claims known)" using a assms(1) by (force simp: stable_claims_def identified_ok_def)
qed

lemma share_iff:
  assumes "identified_ok E known" "set (map fst known) = set obs"
  shows "share (stable_claims known) = shared_identifier E obs"
proof (intro ext)
  fix u v
  show "share (stable_claims known) u v = shared_identifier E obs u v"
    unfolding share_def shared_identifier_def stable_claims_mem [OF assms] by blast
qed

lemma scalars_ie_key: "scalars (ie_value i) \<Longrightarrow> scalars (ie_key i)"
  by (cases "ie_kind i") (simp_all add: ie_key_def)

text \<open>Normalising a normalised MAC address or text changes nothing.\<close>

lemma require_text_again: "require_text v f n = Inr t \<Longrightarrow> require_text t f' n = Inr t"
  by (auto simp: require_text_def Let_def split: if_splits)

lemma concat_pairs: "even (length s) \<Longrightarrow> concat (pairs_of s) = map ascii_lower s"
  by (induction s rule: pairs_of.induct) auto

lemma pairs_of_lower: "pairs_of (map ascii_lower s) = pairs_of s"
  by (induction s rule: pairs_of.induct) auto


lemma set_join: "set (join sep ts) \<subseteq> set sep \<union> \<Union> (set ` set ts)"
  by (induction ts rule: induct_list012) auto

lemma hex_digit_lower: "is_hex_digit c \<Longrightarrow> is_hex_digit (ascii_lower c)"
  by (auto simp: is_hex_digit_def ascii_lower_def)

lemma hex_digit_plain: "is_hex_digit c \<Longrightarrow> \<not> py_isspace c \<and> c \<noteq> 45"
  by (auto simp: is_hex_digit_def py_isspace_def)

lemma pairs_hex: "list_all is_hex_digit plain \<Longrightarrow> t \<in> set (pairs_of plain) \<Longrightarrow> list_all is_hex_digit t"
  by (induction plain rule: pairs_of.induct) (auto simp: hex_digit_lower)

lemma mac_chars:
  assumes "list_all is_hex_digit plain" "c \<in> set (join (lit '':'') (pairs_of plain))"
  shows "c = 58 \<or> is_hex_digit c" "\<not> py_isspace c"
proof -
  have "c \<in> set (lit '':'') \<or> (\<exists>t \<in> set (pairs_of plain). c \<in> set t)" using assms(2) set_join by fastforce
  then show c: "c = 58 \<or> is_hex_digit c"
    using pairs_hex [OF assms(1)] by (auto simp: lit_def list_all_iff)
  have "\<not> py_isspace 58" by (simp add: py_isspace_def)
  with c show "\<not> py_isspace c" using hex_digit_plain by blast
qed

lemma mac_filter:
  assumes "list_all is_hex_digit plain"
  shows "filter (\<lambda>c. c \<noteq> 58 \<and> c \<noteq> 45) (join (lit '':'') (pairs_of plain)) = concat (pairs_of plain)"
  using assms
proof (induction plain rule: pairs_of.induct)
  case (1 a b cs)
  have "ascii_lower a \<notin> {58, 45}" "ascii_lower b \<notin> {58, 45}"
    using 1(2) by (auto simp: is_hex_digit_def ascii_lower_def)
  with 1 show ?case by (cases "pairs_of cs") (auto simp: lit_def)
qed simp_all

lemma normalize_mac_again:
  assumes "normalize_mac v = Inr m"
  shows "normalize_mac m = Inr m" "scalars m"
proof -
  define plain where "plain = filter (\<lambda>c. c \<noteq> 58 \<and> c \<noteq> 45) (strip_with py_isspace v)"
  have p: "length plain = 12" "list_all is_hex_digit plain" and m: "m = join (lit '':'') (pairs_of plain)"
    using assms by (auto simp: normalize_mac_def plain_def Let_def split: if_splits)
  note c = mac_chars [OF p(2)]
  have "m \<noteq> []"
  proof -
    have "1 < length plain" using p(1) by simp
    then obtain a b cs where "plain = a # b # cs" by (cases plain rule: pairs_of.cases) auto
    then show ?thesis by (cases "pairs_of cs") (simp_all add: m)
  qed
  then have "strip_with py_isspace m = m" using c(2) by (intro strip_with_id) (simp_all add: m)
  moreover have "filter (\<lambda>c. c \<noteq> 58 \<and> c \<noteq> 45) m = map ascii_lower plain"
    using mac_filter [OF p(2)] concat_pairs [of plain] p(1) by (simp add: m)
  moreover have "list_all is_hex_digit (map ascii_lower plain)"
    using p(2) by (simp add: list_all_iff hex_digit_lower)
  ultimately show "normalize_mac m = Inr m" using p(1) by (simp add: normalize_mac_def pairs_of_lower) (simp add: m)
  have "is_scalar c" if "c = 58 \<or> is_hex_digit c" for c using that by (auto simp: is_hex_digit_def is_scalar_def)
  then show "scalars m" using c(1) by (simp add: m list_all_iff)
qed

section \<open>Correlation never fails on constructed observations\<close>

definition observation_made :: "device_observation \<Rightarrow> bool" where
  "observation_made ob \<longleftrightarrow> scalars (do_id ob) \<and> (\<forall>i \<in> set (do_identifiers ob). scalars (ie_value i)) \<and>
     (\<forall>i \<in> set (do_interfaces ob). \<exists>raw. new_interface raw = Inr i)"

lemma interface_identity_made:
  assumes "new_interface raw = Inr i" "if_mac i = Some mac"
  shows "\<exists>x. interface_identity E i mac = Inr x \<and> scalars (ie_value x)"
proof -
  have src: "require_text (if_source i) ''source'' 128 = Inr (if_source i)" "check_aware (if_observed_at i) = Inr ()"
    "check_confidence (if_confidence i) = Inr ()"
    using assms(1) by (auto simp: new_interface_def bindR_eq_Inr intro: require_text_again)
  obtain m0 where "normalize_mac m0 = Inr mac"
    using assms by (auto simp: new_interface_def bindR_eq_Inr option_text_def split: option.splits)
  from normalize_mac_again [OF this] src show ?thesis
    by (simp add: interface_identity_def new_identity_def normalize_identifier_def)
qed

lemma all_identifiers_made:
  assumes "observation_made ob"
  shows "\<exists>ids. all_identifiers E ob = Inr ids \<and> (\<forall>i \<in> set ids. scalars (ie_value i))"
proof -
  let ?xs = "filter (\<lambda>i. if_mac i \<noteq> None) (do_interfaces ob)"
  have "\<exists>ys. mapR (\<lambda>i. interface_identity E i (the (if_mac i))) xs = Inr ys \<and> (\<forall>y \<in> set ys. scalars (ie_value y))"
    if "\<forall>i \<in> set xs. \<exists>y. interface_identity E i (the (if_mac i)) = Inr y \<and> scalars (ie_value y)" for xs
    using that by (induction xs) (auto simp: bindR_def)
  moreover have "\<forall>i \<in> set ?xs. \<exists>y. interface_identity E i (the (if_mac i)) = Inr y \<and> scalars (ie_value y)"
    using assms interface_identity_made by (fastforce simp: observation_made_def)
  ultimately obtain ys where "mapR (\<lambda>i. interface_identity E i (the (if_mac i))) ?xs = Inr ys" "\<forall>y \<in> set ys. scalars (ie_value y)"
    by blast
  then show ?thesis using assms by (auto simp: all_identifiers_def observation_made_def)
qed


lemma index_loop_dup:
  "\<not> (distinct (map do_id obs) \<and> do_id ` set obs \<inter> ids_of known = {}) \<Longrightarrow>
     (\<And>ob. ob \<in> set obs \<Longrightarrow> \<exists>ids. all_identifiers E ob = Inr ids) \<Longrightarrow>
     \<exists>x. foldR (index_step E) (self_parents (ids_of known), known) obs = Inl (NormalizationError (lit ''duplicate observation ID: '' @ x))"
proof (induction obs arbitrary: known)
  case (Cons ob obs)
  obtain ids where ids: "all_identifiers E ob = Inr ids" using Cons.prems(2) by force
  show ?case
  proof (cases "do_id ob \<in> ids_of known")
    case True
    then show ?thesis unfolding foldR.simps index_step_eq by auto
  next
    case False
    have "\<exists>x. foldR (index_step E) (self_parents (ids_of (known @ [(ob, ids)])), known @ [(ob, ids)]) obs =
        Inl (NormalizationError (lit ''duplicate observation ID: '' @ x))"
      using Cons.prems False by (intro Cons.IH) (auto simp: ids_of_def)
    with False show ?thesis unfolding foldR.simps index_step_eq by (simp add: ids)
  qed
qed simp

lemma canonical_key_made:
  assumes "obs \<noteq> []" "\<forall>ob \<in> set obs. observation_made ob"
  shows "\<exists>k. canonical_key E obs = Inr k"
proof -
  have "\<exists>ids. mapR (all_identifiers E) xs = Inr ids \<and> (\<forall>i \<in> set (concat ids). scalars (ie_value i))"
    if "\<forall>ob \<in> set xs. observation_made ob" for xs
    using that
  proof (induction xs)
    case (Cons x xs)
    then obtain ids rest where "all_identifiers E x = Inr ids" "\<forall>i \<in> set ids. scalars (ie_value i)"
      "mapR (all_identifiers E) xs = Inr rest" "\<forall>i \<in> set (concat rest). scalars (ie_value i)"
      using all_identifiers_made [of x E] by auto
    then show ?case by auto
  qed simp
  then obtain ids where ids: "mapR (all_identifiers E) obs = Inr ids" "\<forall>i \<in> set (concat ids). scalars (ie_value i)"
    using assms(2) by blast
  have "scalars (do_id (hd obs))" using assms by (simp add: observation_made_def)
  moreover have "scalars k" if "k \<in> set (sorted_set (map ie_key (filter is_stable (concat ids))))" for k
  proof -
    have "k \<in> ie_key ` set (concat ids)" using that by (auto simp: sorted_set_def)
    then show ?thesis using ids(2) scalars_ie_key by blast
  qed
  ultimately have "scalars (canonical_seed (concat ids) (do_id (hd obs)))"
    by (auto simp: canonical_seed_def split: list.split)
  then show ?thesis by (simp add: canonical_key_def ids(1) utf8_encode_def)
qed

lemma build_device_made:
  assumes "g \<noteq> []" "\<forall>x \<in> set g. observation_made (fst x)"
  shows "\<exists>d. build_device E decisions g = Inr d"
proof -
  let ?m = "map fst (sort_key (\<lambda>x. do_id (fst x)) g)"
  have "?m \<noteq> []" using assms(1) by (simp add: sort_key_Nil_iff)
  moreover have "\<forall>ob \<in> set ?m. observation_made ob" using assms(2) by simp
  ultimately obtain k where "canonical_key E ?m = Inr k" using canonical_key_made by blast
  then show ?thesis by (simp add: build_device_def Let_def)
qed

lemma correlate_made:
  assumes "\<forall>ob \<in> set obs. observation_made ob" "distinct (map do_id obs)"
  shows "\<exists>r. correlate E obs = Inr r"
proof -
  let ?s = "sort_key do_id obs"
  have "mset (map do_id ?s) = mset (map do_id obs)" by simp
  then have d: "distinct (map do_id ?s)" using assms(2) mset_eq_imp_distinct_iff by blast
  have "self_parents (ids_of []) = Map.empty" by (auto simp: self_parents_def ids_of_def)
  with index_loop_total [OF d, of "[]" E] all_identifiers_made assms(1) obtain parent known
    where i: "index_observations E ?s = Inr (parent, known)" by (force simp: index_observations_def ids_of_def)
  note law = index_observations_law [OF i]
  obtain p decisions where eq: "correlate E obs = bindR (mapR (\<lambda>g. build_device E decisions (snd g)) (class_groups p known)) (\<lambda>built.
       Inr \<lparr>co_devices = sort_key cd_canonical_key built, co_decisions = sort_key (\<lambda>d. (dc_key d, dc_left d)) decisions,
         co_conflicts = find_conflicts E (sort_key cd_canonical_key built)\<rparr>)"
    by (rule correlate_eq [OF i])
  have "set (map fst known) = set obs" using law(1) by simp
  then have made: "\<forall>x \<in> set known. observation_made (fst x)" using assms(1) by auto
  have "\<exists>d. build_device E decisions (snd g) = Inr d" if g: "g \<in> set (class_groups p known)" for g
  proof (rule build_device_made)
    have "(fst g, snd g) \<in> set (group_by (\<lambda>x. root_id p (do_id (fst x))) known)" using g by (simp add: class_groups_def)
    then have m: "snd g = filter (\<lambda>x. root_id p (do_id (fst x)) = fst g) known \<and> snd g \<noteq> []"
      unfolding group_by_mem .
    then show "snd g \<noteq> []" by (rule conjunct2)
    have "set (snd g) \<subseteq> set known" using m by (metis filter_is_subset)
    then show "\<forall>x \<in> set (snd g). observation_made (fst x)" using made by blast
  qed
  then have "\<exists>ds. mapR (\<lambda>g. build_device E decisions (snd g)) gs = Inr ds" if "set gs \<subseteq> set (class_groups p known)" for gs
    using that
  proof (induction gs)
    case (Cons g gs)
    then obtain d ds where "build_device E decisions (snd g) = Inr d" "mapR (\<lambda>g. build_device E decisions (snd g)) gs = Inr ds"
      by (metis insert_subset list.simps(15))
    then show ?case by simp
  qed simp
  then obtain ds where "mapR (\<lambda>g. build_device E decisions (snd g)) (class_groups p known) = Inr ds" by blast
  then show ?thesis using eq by simp
qed

section \<open>Properties\<close>

text \<open>C16. Correlation computes exactly the classes of shared stable identifiers: every observation is in exactly one
  device, and two observations are in the same device if and only if a chain of observations leads from
  one to the other in which neighbours share a MAC address, serial or source identity of confidence at
  least 0.8. Host names and addresses never merge devices.\<close>

theorem correlate_partition:
  assumes "correlate E obs = Inr r"
  shows "mset (concat (map cd_observation_ids (co_devices r))) = mset (map do_id obs) \<and>
    (\<forall>a \<in> set obs. \<forall>b \<in> set obs.
       (\<exists>d \<in> set (co_devices r). do_id a \<in> set (cd_observation_ids d) \<and> do_id b \<in> set (cd_observation_ids d)) \<longleftrightarrow>
       equivclp (shared_identifier E obs) (do_id a) (do_id b))"
proof (rule correlate_cases [OF assms])
  fix known p decisions built
  assume known: "map fst known = sort_key do_id obs" "identified_ok E known" and j: "joined known (p, decisions)"
    and built: "list_all2 (\<lambda>g d. build_device E decisions (snd g) = Inr d) (class_groups p known) built"
      "co_devices r = sort_key cd_canonical_key built"
  have "mset (concat (map cd_observation_ids (co_devices r))) = mset (concat (map (\<lambda>x. [do_id (fst x)]) known))"
    unfolding built(2) by (rule devices_concat [OF built(1)]) (simp add: build_device_Inr(1))
  also have "concat (map (\<lambda>x. [do_id (fst x)]) known) = map do_id (map fst known)" by (induction known) auto
  finally have 1: "mset (concat (map cd_observation_ids (co_devices r))) = mset (map do_id obs)" by (simp add: known(1))
  have set: "set (map fst known) = set obs" by (simp add: known(1))
  have D: "do_id a \<in> ids_of known" if "a \<in> set obs" for a
  proof -
    have "ids_of known = do_id ` set obs" unfolding set [symmetric] ids_of_def by auto
    then show ?thesis using that by simp
  qed
  show ?thesis
    using 1 j D same_device [OF built(1)] by (simp add: built(2) joined_def share_iff [OF known(2) set])
qed

definition identifiers_of :: "correlation_env \<Rightarrow> device_observation \<Rightarrow> identity_evidence list" where
  "identifiers_of E ob = (case all_identifiers E ob of Inl e \<Rightarrow> [] | Inr ids \<Rightarrow> ids)"

lemma concat_known:
  "mset (map fst known) = mset obs \<Longrightarrow> mset (concat (map (\<lambda>x. f (fst x)) known)) = mset (concat (map f obs))"
  using mset_concat_map [of "map fst known" obs f] by (simp add: comp_def)

text \<open>No evidence is lost or invented: over all devices, the identifiers are those of the observations and of their
  interfaces, and the interfaces and facts are those of the observations, each as often as it was given.\<close>

theorem correlate_keeps_evidence:
  assumes "correlate E obs = Inr r"
  shows "mset (concat (map cd_identifiers (co_devices r))) = mset (concat (map (identifiers_of E) obs)) \<and>
    mset (concat (map cd_interfaces (co_devices r))) = mset (concat (map do_interfaces obs)) \<and>
    mset (concat (map cd_facts (co_devices r))) = mset (concat (map do_facts obs))"
proof (rule correlate_cases [OF assms])
  fix known p decisions built
  assume known: "map fst known = sort_key do_id obs" "identified_ok E known"
    and built: "list_all2 (\<lambda>g d. build_device E decisions (snd g) = Inr d) (class_groups p known) built"
      "co_devices r = sort_key cd_canonical_key built"
  have m: "mset (map fst known) = mset obs" by (simp add: known(1))
  note f = concat_known [OF m]
  have s: "map snd known = map (\<lambda>x. identifiers_of E (fst x)) known"
    using known(2) by (auto simp: identified_ok_def identifiers_of_def)
  have e: "mset (concat (map snd known)) = mset (concat (map (identifiers_of E) obs))" by (simp only: s f)
  then show ?thesis
    unfolding built(2)
    using e devices_concat [OF built(1), of cd_identifiers snd] devices_concat [OF built(1), of cd_interfaces "\<lambda>x. do_interfaces (fst x)"]
      devices_concat [OF built(1), of cd_facts "\<lambda>x. do_facts (fst x)"] by (simp add: build_device_Inr f)
qed

text \<open>Every merge is explained: each decision names two observations that both carry the identifier it cites, and
  the decisions together connect exactly the observations that share a device.\<close>

theorem correlate_decisions_explain:
  assumes "correlate E obs = Inr r"
  shows "linked (decision_pairs (co_decisions r)) = equivclp (shared_identifier E obs) \<and>
    (\<forall>d \<in> set (co_decisions r). shared_identifier E obs (dc_left d) (dc_right d))"
proof (rule correlate_cases [OF assms])
  fix known p decisions built
  assume known: "map fst known = sort_key do_id obs" "identified_ok E known" and j: "joined known (p, decisions)"
    and dec: "co_decisions r = sort_key (\<lambda>d. (dc_key d, dc_left d)) decisions"
  have set: "set (map fst known) = set obs" by (simp add: known(1))
  note share = share_iff [OF known(2) set]
  have "linked (decision_pairs (co_decisions r)) = linked (decision_pairs decisions)"
    by (simp add: linked_def decision_pairs_def dec)
  moreover have "share (stable_claims known) (dc_left d) (dc_right d)" if "d \<in> set (co_decisions r)" for d
    using that j justified_share by (auto simp: dec joined_def list_all_iff)
  ultimately show ?thesis using j by (simp add: joined_def share)
qed

text \<open>Correlation of constructed observations fails in one way only: on a duplicate observation identity. In
  particular the bounded \<open>find\<close> always reaches a root and no dictionary lookup misses.\<close>

theorem correlate_total:
  assumes "\<forall>ob \<in> set obs. observation_made ob"
  shows "if distinct (map do_id obs) then \<exists>r. correlate E obs = Inr r
    else \<exists>x. correlate E obs = Inl (NormalizationError (lit ''duplicate observation ID: '' @ x))"
proof (cases "distinct (map do_id obs)")
  case False
  let ?s = "sort_key do_id obs"
  have "mset (map do_id ?s) = mset (map do_id obs)" by simp
  then have "\<not> distinct (map do_id ?s)" using False mset_eq_imp_distinct_iff by blast
  moreover have "self_parents (ids_of []) = Map.empty" by (auto simp: self_parents_def ids_of_def)
  ultimately have "\<exists>x. index_observations E ?s = Inl (NormalizationError (lit ''duplicate observation ID: '' @ x))"
    using index_loop_dup [of ?s "[]" E] all_identifiers_made assms by (force simp: index_observations_def)
  then show ?thesis using False by (auto simp: correlate_def Let_def)
qed (use correlate_made [OF assms] in simp)


section \<open>Witnesses\<close>

definition demo_correlation_env :: correlation_env where
  "demo_correlation_env = \<lparr>ce_uni = (\<lambda>c. [c]), ce_idna = (\<lambda>s. None), ce_sha = (\<lambda>bs. map uint bs), ce_set_order = (\<lambda>xs. xs)\<rparr>"

definition demo_mac :: pystr where
  "demo_mac = lit ''02:00:00:00:00:01''"

definition demo_claim :: "identifier_kind \<Rightarrow> pystr \<Rightarrow> identity_evidence" where
  "demo_claim kind value = \<lparr>ie_kind = kind, ie_value = value, ie_source = [115], ie_observed_at = Aware 0 0, ie_confidence = 1,
     ie_namespace = None\<rparr>"

definition demo_interface :: interface_evidence where
  "demo_interface = \<lparr>if_key = [101], if_source = [115], if_observed_at = Aware 0 0, if_name = None, if_mac = Some demo_mac, if_confidence = 1\<rparr>"

definition demo_device :: "string \<Rightarrow> identity_evidence list \<Rightarrow> interface_evidence list \<Rightarrow> device_observation" where
  "demo_device ident ids ifs = \<lparr>do_id = lit ident, do_source = [115], do_observed_at = Aware 0 0, do_identifiers = ids, do_interfaces = ifs,
     do_facts = []\<rparr>"

text \<open>The first two share a MAC address, one as an identifier and one on an interface; the third has a host name.\<close>

definition demo_observations :: "device_observation list" where
  "demo_observations = [demo_device ''b'' [demo_claim MAC demo_mac] [],
     demo_device ''c'' [demo_claim HOSTNAME [104]] [], demo_device ''a'' [] [demo_interface]]"

definition demo_correlation :: correlation_result where
  "demo_correlation = (case correlate demo_correlation_env demo_observations of
     Inr r \<Rightarrow> r | Inl e \<Rightarrow> \<lparr>co_devices = [], co_decisions = [], co_conflicts = []\<rparr>)"

lemma demo_interface_made: "new_interface demo_interface = Inr demo_interface"
  by code_simp

lemma demo_observations_made: "\<forall>ob \<in> set demo_observations. observation_made ob"
  using demo_interface_made
  by (auto simp: demo_observations_def demo_device_def observation_made_def demo_claim_def demo_mac_def is_scalar_def)

lemma demo_observations_distinct: "distinct (map do_id demo_observations)"
  by (simp add: demo_observations_def demo_device_def)

lemma demo_correlated: "correlate demo_correlation_env demo_observations = Inr demo_correlation"
  using correlate_made [OF demo_observations_made demo_observations_distinct, of demo_correlation_env]
  by (auto simp: demo_correlation_def)

lemma demo_all_identifiers:
  "all_identifiers demo_correlation_env (demo_device ''a'' [] [demo_interface]) = Inr [demo_claim MAC demo_mac]"
  "all_identifiers demo_correlation_env (demo_device ''b'' [demo_claim MAC demo_mac] []) = Inr [demo_claim MAC demo_mac]"
  by code_simp+

lemma demo_shared: "shared_identifier demo_correlation_env demo_observations (lit ''a'') (lit ''b'')"
proof -
  let ?a = "demo_device ''a'' [] [demo_interface]" and ?b = "demo_device ''b'' [demo_claim MAC demo_mac] []"
  have "?a \<in> set demo_observations" "?b \<in> set demo_observations" by (simp_all add: demo_observations_def)
  moreover have "do_id ?a = lit ''a''" "do_id ?b = lit ''b''" by (simp_all add: demo_device_def)
  moreover have "is_stable (demo_claim MAC demo_mac)" by (simp add: is_stable_def demo_claim_def STABLE_KINDS_def)
  ultimately show ?thesis
    unfolding shared_identifier_def
    by (intro bexI [of _ ?a] bexI [of _ ?b] exI [of _ "[demo_claim MAC demo_mac]"] exI [of _ "demo_claim MAC demo_mac"])
      (simp_all add: demo_all_identifiers)
qed

theorem correlate_partition_witness:
  "\<exists>d \<in> set (co_devices demo_correlation). lit ''a'' \<in> set (cd_observation_ids d) \<and> lit ''b'' \<in> set (cd_observation_ids d)"
proof -
  let ?a = "demo_device ''a'' [] [demo_interface]" and ?b = "demo_device ''b'' [demo_claim MAC demo_mac] []"
  have "?a \<in> set demo_observations" "?b \<in> set demo_observations" by (simp_all add: demo_observations_def)
  moreover have "do_id ?a = lit ''a''" "do_id ?b = lit ''b''" by (simp_all add: demo_device_def)
  moreover have "equivclp (shared_identifier demo_correlation_env demo_observations) (lit ''a'') (lit ''b'')"
    using demo_shared by (rule r_into_equivclp)
  ultimately show ?thesis using conjunct2 [OF correlate_partition [OF demo_correlated]] by metis
qed

theorem correlate_keeps_evidence_witness:
  "mset (concat (map cd_interfaces (co_devices demo_correlation))) = {#demo_interface#}"
  using correlate_keeps_evidence [OF demo_correlated] by (simp add: demo_observations_def demo_device_def)

theorem correlate_decisions_explain_witness:
  "linked (decision_pairs (co_decisions demo_correlation)) (lit ''a'') (lit ''b'')"
  using correlate_decisions_explain [OF demo_correlated] demo_shared by (simp add: r_into_equivclp)

theorem correlate_total_witness: "\<exists>r. correlate demo_correlation_env demo_observations = Inr r"
  using correlate_total [OF demo_observations_made, of demo_correlation_env] demo_observations_distinct by simp

text \<open>The values of a conflict are listed in the order of the set when they differ in case only, so the result of
  \<open>correlate\<close> depends on the hash seed of the process.\<close>

lemma sort_key_alike: "\<forall>t \<in> set xs. f t = k \<Longrightarrow> sort_key f xs = xs"
  by (rule sort_key_id_if_sorted) (induction xs, auto)

lemma conflict_values_follow_set_order:
  assumes "ce_uni E = (\<lambda>c. [c])" "mset (ce_set_order E [[65], [97]]) = {#[65], [97]#}"
    and "fe_value f = [65]" "fe_value g = [97]" "fe_source f \<noteq> fe_source g"
  shows "map cc_values (fact_conflict E d (k, [f, g])) = [ce_set_order E [[65], [97]]]"
proof -
  let ?v = "ce_set_order E [[65], [97]]"
  have "set ?v = {[65], [97]}" using arg_cong [OF assms(2), of set_mset] by simp
  then have "\<forall>t \<in> set ?v. casefold (ce_uni E) t = [97]" by (simp add: assms(1) casefold_def ascii_lower_def)
  then have s: "sort_key (casefold (ce_uni E)) ?v = ?v" by (rule sort_key_alike)
  have l: "length ?v = 2" using arg_cong [OF assms(2), of size] by simp
  have v: "remdups (map fe_value [f, g]) = [[65], [97]]" using assms(3,4) by simp
  have "length (remdups (map fe_source [f, g])) = 2" using assms(5) by simp
  then show ?thesis unfolding fact_conflict_def Let_def snd_conv v s using l by simp
qed

end
