(* ===== verification/Topology.thy ===== *)
theory Topology
  imports Partition Repository Passive
begin

text \<open>
  \<open>topology.py\<close>: evidence about subnets and VLANs, the builder of nodes, edges and conflicts, the handlers
  that turn passive observations into edges, and the Graphviz, Mermaid and SVG renderings. An instant is
  its microseconds in UTC, as \<open>_utc\<close> yields it. The digest, the case folding, the text of floats and the
  acceptance of IPv6 networks are arguments.
\<close>

record topology_env =
  te_uni :: unidata
  te_sha :: "bytes \<Rightarrow> pystr"
  te_float :: "rat \<Rightarrow> pystr"
  te_fixed2 :: "rat \<Rightarrow> pystr"
  te_v6 :: "bool \<Rightarrow> pystr \<Rightarrow> bool"

section \<open>Evidence\<close>

definition topology_error :: "pystr \<Rightarrow> exn" where
  "topology_error t = TopologyError t"

definition topology_utc :: "datetime \<Rightarrow> int result" where
  "topology_utc d = utc_instant (topology_error (lit ''topology evidence timestamp must be timezone-aware'')) d"

definition topology_text :: "pystr \<Rightarrow> string \<Rightarrow> nat \<Rightarrow> pystr result" where
  "topology_text value field maximum =
     (let normalized = strip value in
      if normalized = [] \<or> maximum < length normalized \<or> 0 \<in> set normalized
      then Inl (topology_error (lit field @ lit '' is empty or exceeds '' @ str_int (int maximum) @ lit '' characters''))
      else Inr normalized)"

definition node_id :: "topology_env \<Rightarrow> pystr \<Rightarrow> pystr \<Rightarrow> pystr result" where
  "node_id E kind ident =
     bindR (topology_text kind ''node kind'' 64) (\<lambda>k.
     bindR (topology_text ident ''node identity'' 512) (\<lambda>i.
     let k = casefold (te_uni E) k in
     bindR (utf8_encode (k @ lit '':'' @ casefold (te_uni E) i)) (\<lambda>raw.
       Inr (lit ''n_'' @ k @ lit ''_'' @ take 16 (te_sha E raw)))))"

definition confidence_check :: "rat \<Rightarrow> unit result" where
  "confidence_check c = (if 0 \<le> c \<and> c \<le> 1 then Inr () else Inl (topology_error (lit ''confidence must be between 0 and 1'')))"

definition valid_until :: "datetime \<Rightarrow> int \<Rightarrow> int result" where
  "valid_until value observed_at =
     bindR (topology_utc value) (\<lambda>t.
       if t < observed_at then Inl (topology_error (lit ''valid_until must not precede observed_at'')) else Inr t)"

definition valid_until_opt :: "datetime option \<Rightarrow> int \<Rightarrow> int option result" where
  "valid_until_opt v observed_at = (case v of None \<Rightarrow> Inr None | Some d \<Rightarrow> bindR (valid_until d observed_at) (\<lambda>t. Inr (Some t)))"

record subnet_evidence =
  se_cidr :: pystr
  se_source :: pystr
  se_observed_at :: int
  se_confidence :: rat
  se_valid_until :: "int option"

definition new_subnet_evidence ::
    "topology_env \<Rightarrow> pystr \<Rightarrow> pystr \<Rightarrow> datetime \<Rightarrow> rat \<Rightarrow> datetime option \<Rightarrow> subnet_evidence result" where
  "new_subnet_evidence E cidr source observed_at confidence validity =
     (case ip_network (te_v6 E) True cidr of
        Inl e \<Rightarrow> Inl (topology_error (lit ''subnet CIDR must be canonical''))
      | Inr Net6 \<Rightarrow> Inl (topology_error (lit ''topology currently supports IPv4 subnets only''))
      | Inr (Net4 n) \<Rightarrow>
          bindR (topology_text source ''subnet source'' 128) (\<lambda>source.
          bindR (topology_utc observed_at) (\<lambda>observed.
          bindR (valid_until_opt validity observed) (\<lambda>until.
          bindR (confidence_check confidence) (\<lambda>_.
            Inr \<lparr>se_cidr = net_text n, se_source = source, se_observed_at = observed, se_confidence = confidence,
              se_valid_until = until\<rparr>)))))"

record vlan_evidence =
  ve_vlan_id :: int
  ve_source :: pystr
  ve_observed_at :: int
  ve_subnet_cidr :: "pystr option"
  ve_name :: "pystr option"
  ve_confidence :: rat
  ve_valid_until :: "int option"

definition vlan_cidr :: "topology_env \<Rightarrow> pystr option \<Rightarrow> pystr option result" where
  "vlan_cidr E cidr =
     (case cidr of
        None \<Rightarrow> Inr None
      | Some c \<Rightarrow> (case ip_network (te_v6 E) True c of
          Inl e \<Rightarrow> Inl (topology_error (lit ''VLAN subnet CIDR must be canonical''))
        | Inr Net6 \<Rightarrow> Inl (topology_error (lit ''VLAN subnet must be IPv4''))
        | Inr (Net4 n) \<Rightarrow> Inr (Some (net_text n))))"

definition new_vlan_evidence ::
    "topology_env \<Rightarrow> int \<Rightarrow> pystr \<Rightarrow> datetime \<Rightarrow> pystr option \<Rightarrow> pystr option \<Rightarrow> rat \<Rightarrow> datetime option \<Rightarrow> vlan_evidence result" where
  "new_vlan_evidence E vlan_id source observed_at cidr name confidence validity =
     (if \<not> (0 \<le> vlan_id \<and> vlan_id \<le> 4094) then Inl (topology_error (lit ''VLAN ID must be from 0 to 4094''))
      else
        bindR (topology_text source ''VLAN source'' 128) (\<lambda>source.
        bindR (topology_utc observed_at) (\<lambda>observed.
        bindR (valid_until_opt validity observed) (\<lambda>until.
        bindR (case name of None \<Rightarrow> Inr None | Some s \<Rightarrow> bindR (topology_text s ''VLAN name'' 128) (\<lambda>t. Inr (Some t))) (\<lambda>name.
        bindR (vlan_cidr E cidr) (\<lambda>cidr.
        bindR (confidence_check confidence) (\<lambda>_.
          Inr \<lparr>ve_vlan_id = vlan_id, ve_source = source, ve_observed_at = observed, ve_subnet_cidr = cidr, ve_name = name,
            ve_confidence = confidence, ve_valid_until = until\<rparr>)))))))"

section \<open>The builder\<close>

record topology_node =
  tn_id :: pystr
  tn_kind :: pystr
  tn_label :: pystr

record topology_edge =
  tg_source :: pystr
  tg_target :: pystr
  tg_kind :: pystr
  tg_evidence_source :: pystr
  tg_confidence :: rat
  tg_inferred :: bool
  tg_observed_at :: int
  tg_valid_until :: "int option"

text \<open>The instants given to an edge are in UTC already; the constructor normalises the texts and checks the rest.\<close>

definition new_edge :: "topology_edge \<Rightarrow> topology_edge result" where
  "new_edge e =
     (if tg_source e = tg_target e then Inl (topology_error (lit ''topology self-edges are not allowed''))
      else
        bindR (topology_text (tg_kind e) ''edge kind'' 128) (\<lambda>kind.
        bindR (topology_text (tg_evidence_source e) ''edge evidence source'' 128) (\<lambda>source.
        bindR (confidence_check (tg_confidence e)) (\<lambda>_.
          case tg_valid_until e of
            Some t \<Rightarrow> if t < tg_observed_at e then Inl (topology_error (lit ''valid_until must not precede observed_at''))
              else Inr (e\<lparr>tg_kind := kind, tg_evidence_source := source\<rparr>)
          | None \<Rightarrow> Inr (e\<lparr>tg_kind := kind, tg_evidence_source := source\<rparr>)))))"

record topology_conflict =
  tc_kind :: pystr
  tc_subject :: pystr
  tc_details :: "pystr list"
  tc_sources :: "pystr list"

record topology_graph =
  gr_nodes :: "topology_node list"
  gr_edges :: "topology_edge list"
  gr_conflicts :: "topology_conflict list"
  gr_as_of :: int
  gr_expired :: nat
  gr_future :: nat
  gr_limitations :: "pystr list"

type_synonym edge_key = "pystr \<times> pystr \<times> pystr \<times> pystr"

record topology_builder =
  tb_as_of :: int
  tb_nodes :: "(pystr, topology_node) odict"
  tb_edges :: "(edge_key, topology_edge) odict"
  tb_conflicts :: "topology_conflict list"
  tb_expired :: nat
  tb_future :: nat

definition new_builder :: "int \<Rightarrow> topology_builder" where
  "new_builder as_of = \<lparr>tb_as_of = as_of, tb_nodes = [], tb_edges = [], tb_conflicts = [], tb_expired = 0, tb_future = 0\<rparr>"

definition add_node :: "topology_env \<Rightarrow> pystr \<Rightarrow> pystr \<Rightarrow> pystr option \<Rightarrow> topology_builder \<Rightarrow> (topology_builder \<times> pystr) result" where
  "add_node E kind ident label B =
     bindR (node_id E kind ident) (\<lambda>i.
     bindR (topology_text (case label of Some l \<Rightarrow> if l = [] then ident else l | None \<Rightarrow> ident) ''node label'' 512) (\<lambda>text.
       let candidate = \<lparr>tn_id = i, tn_kind = kind, tn_label = text\<rparr>;
           keep = (case map_of (tb_nodes B) i of None \<Rightarrow> False
             | Some previous \<Rightarrow> \<not> casefold (te_uni E) text < casefold (te_uni E) (tn_label previous))
       in Inr (if keep then B else B\<lparr>tb_nodes := od_set i candidate (tb_nodes B)\<rparr>, i)))"

definition edge_key_of :: "topology_edge \<Rightarrow> edge_key" where
  "edge_key_of e = (tg_source e, tg_target e, tg_kind e, tg_evidence_source e)"

text \<open>\<open>valid_until or datetime.max\<close>\<close>

definition edge_rank :: "topology_edge \<Rightarrow> rat \<times> int \<times> int" where
  "edge_rank e = (tg_confidence e, tg_observed_at e, case tg_valid_until e of None \<Rightarrow> dt_max | Some t \<Rightarrow> t)"

definition put_edge :: "topology_edge \<Rightarrow> topology_builder \<Rightarrow> topology_builder" where
  "put_edge e B =
     (case map_of (tb_edges B) (edge_key_of e) of
        None \<Rightarrow> B\<lparr>tb_edges := od_set (edge_key_of e) e (tb_edges B)\<rparr>
      | Some previous \<Rightarrow>
          if edge_rank previous < edge_rank e then B\<lparr>tb_edges := od_set (edge_key_of e) e (tb_edges B)\<rparr> else B)"

text \<open>\<open>builder.edge(TopologyEdge(...))\<close>\<close>

definition add_edge :: "topology_edge \<Rightarrow> topology_builder \<Rightarrow> topology_builder result" where
  "add_edge e B = bindR (new_edge e) (\<lambda>e. Inr (put_edge e B))"

definition add_conflict :: "topology_conflict \<Rightarrow> topology_builder \<Rightarrow> topology_builder" where
  "add_conflict c B = B\<lparr>tb_conflicts := tb_conflicts B @ [c]\<rparr>"

definition active :: "int \<Rightarrow> int option \<Rightarrow> topology_builder \<Rightarrow> topology_builder \<times> bool" where
  "active observed_at validity B =
     (if tb_as_of B < observed_at then (B\<lparr>tb_future := tb_future B + 1\<rparr>, False)
      else (case validity of
          None \<Rightarrow> (B, True)
        | Some t \<Rightarrow> if t \<le> tb_as_of B then (B\<lparr>tb_expired := tb_expired B + 1\<rparr>, False) else (B, True)))"

fun active_items :: "('a \<Rightarrow> int \<times> int option) \<Rightarrow> 'a list \<Rightarrow> topology_builder \<Rightarrow> topology_builder \<times> 'a list" where
  "active_items f [] B = (B, [])"
| "active_items f (x # xs) B =
     (case active (fst (f x)) (snd (f x)) B of
        (B, ok) \<Rightarrow> (case active_items f xs B of (B, ys) \<Rightarrow> (B, if ok then x # ys else ys)))"

definition limitations :: "topology_builder \<Rightarrow> pystr list" where
  "limitations B =
     (if tb_expired B = 0 then [] else
        [str_int (int (tb_expired B)) @ lit '' expired evidence item(s) were excluded from the active topology as of '' @
         isoformat (tb_as_of B) @ lit ''.'']) @
     (if tb_future B = 0 then [] else
        [str_int (int (tb_future B)) @ lit '' future-dated evidence item(s) were excluded from the topology as of '' @
         isoformat (tb_as_of B) @ lit ''.''])"

definition graph_of :: "topology_builder \<Rightarrow> topology_graph" where
  "graph_of B =
     \<lparr>gr_nodes = sort_key tn_id (map snd (tb_nodes B)), gr_edges = sort_key edge_key_of (map snd (tb_edges B)),
      gr_conflicts = sort_key (\<lambda>c. (tc_kind c, tc_subject c, tc_details c)) (tb_conflicts B),
      gr_as_of = tb_as_of B, gr_expired = tb_expired B, gr_future = tb_future B, gr_limitations = limitations B\<rparr>"

section \<open>Building the topology\<close>

definition observed_instant :: "observation \<Rightarrow> int result" where
  "observed_instant ob =
     (case ob_observed_at ob of
        None \<Rightarrow> Inl (topology_error (lit ''topology observations require an observed_at timestamp''))
      | Some d \<Rightarrow> topology_utc d)"

definition field_text :: "fields \<Rightarrow> string \<Rightarrow> pystr option" where
  "field_text d key = (case fget d key of Some (JStr s) \<Rightarrow> if strip s = [] then None else Some s | _ \<Rightarrow> None)"

definition device_node :: "topology_env \<Rightarrow> pystr \<Rightarrow> pystr \<Rightarrow> pystr option \<Rightarrow> topology_builder \<Rightarrow> (topology_builder \<times> pystr) result" where
  "device_node E ident_kind ident label B =
     add_node E (lit ''device'') (ident_kind @ lit '':'' @ casefold (te_uni E) ident)
       (Some (case label of Some l \<Rightarrow> if l = [] then ident else l | None \<Rightarrow> ident)) B"

text \<open>\<open>IPv4Network(cidr)\<close>, which raises \<open>ValueError\<close> on a text that is not canonical.\<close>

definition cidr_net :: "pystr \<Rightarrow> ipv4net result" where
  "cidr_net cidr = (case parse_net4 True cidr of NetOk n \<Rightarrow> Inr n | _ \<Rightarrow> Inl (ValueError cidr))"

text \<open>\<open>max(matches, key=prefixlen)\<close> keeps the first of the longest.\<close>

definition longest_prefix :: "subnet_evidence \<times> ipv4net \<Rightarrow> (subnet_evidence \<times> ipv4net) list \<Rightarrow> subnet_evidence \<times> ipv4net" where
  "longest_prefix m ms = fold (\<lambda>x best. if snd (snd best) < snd (snd x) then x else best) ms m"

definition subnet_for :: "pystr \<Rightarrow> subnet_evidence list \<Rightarrow> subnet_evidence option result" where
  "subnet_for address subnets =
     (case parse_ipv4 address of
        None \<Rightarrow> Inr None
      | Some a \<Rightarrow>
          bindR (mapR (\<lambda>s. bindR (cidr_net (se_cidr s)) (\<lambda>n. Inr (s, n))) subnets) (\<lambda>nets.
            case filter (\<lambda>x. in_net a (snd x)) nets of
              [] \<Rightarrow> Inr None
            | m # ms \<Rightarrow> Inr (Some (fst (longest_prefix m ms)))))"

text \<open>What the handlers share: the nodes of the subnets, the nodes of the VLANs, the VLAN claims per device.\<close>

record topology_state =
  ts_builder :: topology_builder
  ts_subnets :: "subnet_evidence list"
  ts_subnet_nodes :: "(pystr, pystr) odict"
  ts_vlan_nodes :: "(int, pystr) odict"
  ts_claims :: "(pystr, (int \<times> pystr) list) odict"

definition observed_edge ::
    "pystr \<Rightarrow> pystr \<Rightarrow> string \<Rightarrow> pystr \<Rightarrow> rat \<Rightarrow> bool \<Rightarrow> int \<Rightarrow> int option \<Rightarrow> topology_builder \<Rightarrow> topology_builder result" where
  "observed_edge source target kind evidence confidence inferred observed_at validity B =
     add_edge \<lparr>tg_source = source, tg_target = target, tg_kind = lit kind, tg_evidence_source = evidence, tg_confidence = confidence,
       tg_inferred = inferred, tg_observed_at = observed_at, tg_valid_until = validity\<rparr> B"

text \<open>\<open>nodes.get(key) or builder.node(...)\<close> followed by the assignment.\<close>

definition subnet_node :: "topology_env \<Rightarrow> pystr \<Rightarrow> topology_state \<Rightarrow> (topology_state \<times> pystr) result" where
  "subnet_node E cidr S =
     (case map_of (ts_subnet_nodes S) cidr of
        Some i \<Rightarrow> Inr (S, i)
      | None \<Rightarrow> bindR (add_node E (lit ''subnet'') cidr None (ts_builder S)) (\<lambda>(B, i).
          Inr (S\<lparr>ts_builder := B, ts_subnet_nodes := od_set cidr i (ts_subnet_nodes S)\<rparr>, i)))"

definition vlan_label :: "int \<Rightarrow> pystr" where
  "vlan_label v = lit ''VLAN '' @ str_int v"

definition add_subnet :: "topology_env \<Rightarrow> topology_state \<Rightarrow> subnet_evidence \<Rightarrow> topology_state result" where
  "add_subnet E S s =
     bindR (add_node E (lit ''subnet'') (se_cidr s) None (ts_builder S)) (\<lambda>(B, i).
       Inr (S\<lparr>ts_builder := B, ts_subnet_nodes := od_set (se_cidr s) i (ts_subnet_nodes S)\<rparr>))"

definition add_vlan_subnet :: "topology_env \<Rightarrow> vlan_evidence \<Rightarrow> pystr \<Rightarrow> topology_state \<Rightarrow> topology_state result" where
  "add_vlan_subnet E v vn S =
     (case ve_subnet_cidr v of
        None \<Rightarrow> Inr S
      | Some cidr \<Rightarrow>
          bindR (subnet_node E cidr S) (\<lambda>(S, sn).
          bindR (observed_edge vn sn ''vlan_subnet'' (ve_source v) (ve_confidence v) False (ve_observed_at v) (ve_valid_until v) (ts_builder S))
            (\<lambda>B. Inr (S\<lparr>ts_builder := B\<rparr>))))"

definition add_vlan :: "topology_env \<Rightarrow> topology_state \<Rightarrow> vlan_evidence \<Rightarrow> topology_state result" where
  "add_vlan E S v =
     bindR (add_node E (lit ''vlan'') (str_int (ve_vlan_id v))
         (Some (vlan_label (ve_vlan_id v) @ (case ve_name v of None \<Rightarrow> [] | Some n \<Rightarrow> if n = [] then [] else [32, 0x2014, 32] @ n)))
         (ts_builder S)) (\<lambda>(B, vn).
       add_vlan_subnet E v vn (S\<lparr>ts_builder := B, ts_vlan_nodes := od_set (ve_vlan_id v) vn (ts_vlan_nodes S)\<rparr>))"

definition membership :: "pystr \<Rightarrow> pystr \<Rightarrow> pystr \<Rightarrow> rat \<Rightarrow> int \<Rightarrow> int option \<Rightarrow> topology_state \<Rightarrow> topology_state result" where
  "membership device address source confidence observed_at validity S =
     bindR (subnet_for address (ts_subnets S)) (\<lambda>m.
       case m of
         None \<Rightarrow> Inr S
       | Some s \<Rightarrow>
           (case map_of (ts_subnet_nodes S) (se_cidr s) of
              None \<Rightarrow> Inl (KeyError (se_cidr s))
            | Some sn \<Rightarrow>
                bindR (observed_edge device sn ''inferred_subnet_membership'' source (min confidence (se_confidence s)) True observed_at validity
                  (ts_builder S)) (\<lambda>B. Inr (S\<lparr>ts_builder := B\<rparr>))))"

text \<open>One observation during its handling: its fields, source and instants.\<close>

record seen =
  sn_kind :: pystr
  sn_fields :: fields
  sn_source :: pystr
  sn_observed_at :: int
  sn_valid_until :: "int option"

definition seen_edge :: "seen \<Rightarrow> pystr \<Rightarrow> pystr \<Rightarrow> string \<Rightarrow> rat \<Rightarrow> topology_state \<Rightarrow> topology_state result" where
  "seen_edge q source target kind confidence S =
     bindR (observed_edge source target kind (sn_source q) confidence False (sn_observed_at q) (sn_valid_until q) (ts_builder S))
       (\<lambda>B. Inr (S\<lparr>ts_builder := B\<rparr>))"

definition seen_device :: "topology_env \<Rightarrow> pystr \<Rightarrow> pystr \<Rightarrow> pystr option \<Rightarrow> topology_state \<Rightarrow> (topology_state \<times> pystr) result" where
  "seen_device E kind ident label S =
     bindR (device_node E kind ident label (ts_builder S)) (\<lambda>(B, i). Inr (S\<lparr>ts_builder := B\<rparr>, i))"

definition seen_node :: "topology_env \<Rightarrow> string \<Rightarrow> pystr \<Rightarrow> topology_state \<Rightarrow> (topology_state \<times> pystr) result" where
  "seen_node E kind ident S =
     bindR (add_node E (lit kind) ident None (ts_builder S)) (\<lambda>(B, i). Inr (S\<lparr>ts_builder := B\<rparr>, i))"

definition vlan_node :: "topology_env \<Rightarrow> int \<Rightarrow> topology_state \<Rightarrow> (topology_state \<times> pystr) result" where
  "vlan_node E v S =
     (case map_of (ts_vlan_nodes S) v of
        Some i \<Rightarrow> Inr (S, i)
      | None \<Rightarrow> bindR (add_node E (lit ''vlan'') (str_int v) (Some (vlan_label v)) (ts_builder S)) (\<lambda>(B, i).
          Inr (S\<lparr>ts_builder := B, ts_vlan_nodes := od_set v i (ts_vlan_nodes S)\<rparr>, i)))"

text \<open>The part of \<open>_link_layer\<close> after the neighbour edge: the VLAN the neighbour announced.\<close>

definition link_layer_vlan :: "topology_env \<Rightarrow> seen \<Rightarrow> pystr \<Rightarrow> topology_state \<Rightarrow> topology_state result" where
  "link_layer_vlan E q remote S =
     (case fget (sn_fields q) ''vlan_id'' of
        Some (JInt v) \<Rightarrow>
          if \<not> (0 \<le> v \<and> v \<le> 4094) then Inr S
          else
            bindR (vlan_node E v S) (\<lambda>(S, vn).
            bindR (seen_edge q remote vn ''observed_vlan'' (19 / 20) S) (\<lambda>S.
              Inr (S\<lparr>ts_claims := append_to remote (v, sn_source q) (ts_claims S)\<rparr>)))
      | _ \<Rightarrow> Inr S)"

definition link_layer_handler :: "topology_env \<Rightarrow> pystr \<Rightarrow> seen \<Rightarrow> topology_state \<Rightarrow> topology_state result" where
  "link_layer_handler E local_node q S =
     (case (field_text (sn_fields q) ''chassis_id'', field_text (sn_fields q) ''port_id'') of
        (Some chassis, Some port) \<Rightarrow>
          bindR (seen_device E (case field_text (sn_fields q) ''chassis_id_subtype'' of None \<Rightarrow> lit ''chassis'' | Some t \<Rightarrow> t) chassis
            (Some (case field_text (sn_fields q) ''system_name'' of None \<Rightarrow> chassis | Some t \<Rightarrow> t)) S) (\<lambda>(S, remote).
          bindR (seen_edge q local_node remote ''link_layer_neighbor'' (99 / 100) S) (\<lambda>S. link_layer_vlan E q remote S))
      | _ \<Rightarrow> Inr (S\<lparr>ts_builder := add_conflict \<lparr>tc_kind = lit ''incomplete_link_evidence'', tc_subject = sn_source q,
            tc_details = [lit ''missing chassis_id or port_id''], tc_sources = [sn_source q]\<rparr> (ts_builder S)\<rparr>))"

definition active_mdns :: "fields \<Rightarrow> bool" where
  "active_mdns d = (case fget d ''action'' of None \<Rightarrow> True | Some (JStr a) \<Rightarrow> a = lit ''announce'' | _ \<Rightarrow> False)"

definition mdns_service :: "topology_env \<Rightarrow> seen \<Rightarrow> topology_state \<Rightarrow> topology_state result" where
  "mdns_service E q S =
     (case (field_text (sn_fields q) ''service_type'', field_text (sn_fields q) ''instance'') of
        (Some service_type, Some inst) \<Rightarrow>
          bindR (seen_node E ''service'' service_type S) (\<lambda>(S, sn).
          bindR (seen_node E ''service_instance'' inst S) (\<lambda>(S, i). seen_edge q sn i ''advertises'' (19 / 20) S))
      | _ \<Rightarrow> Inr S)"

definition mdns_instance :: "topology_env \<Rightarrow> seen \<Rightarrow> topology_state \<Rightarrow> topology_state result" where
  "mdns_instance E q S =
     (case (field_text (sn_fields q) ''instance'', field_text (sn_fields q) ''hostname'') of
        (Some inst, Some host) \<Rightarrow>
          bindR (seen_node E ''service_instance'' inst S) (\<lambda>(S, i).
          bindR (seen_device E (lit ''hostname'') host (Some host) S) (\<lambda>(S, h). seen_edge q i h ''service_host'' (19 / 20) S))
      | _ \<Rightarrow> Inr S)"

definition mdns_address :: "topology_env \<Rightarrow> seen \<Rightarrow> topology_state \<Rightarrow> topology_state result" where
  "mdns_address E q S =
     (case (field_text (sn_fields q) ''hostname'', field_text (sn_fields q) ''address'') of
        (Some host, Some address) \<Rightarrow>
          bindR (seen_device E (lit ''hostname'') host (Some host) S) (\<lambda>(S, h).
            membership h address (sn_source q) (7 / 10) (sn_observed_at q) (sn_valid_until q) S)
      | _ \<Rightarrow> Inr S)"

definition mdns_handler :: "topology_env \<Rightarrow> seen \<Rightarrow> topology_state \<Rightarrow> topology_state result" where
  "mdns_handler E q S =
     (if \<not> active_mdns (sn_fields q) then Inr S
      else if sn_kind q = lit ''mdns_service'' then mdns_service E q S
      else if sn_kind q = lit ''mdns_instance'' then mdns_instance E q S
      else mdns_address E q S)"

definition dhcp_server :: "topology_env \<Rightarrow> seen \<Rightarrow> pystr \<Rightarrow> topology_state \<Rightarrow> topology_state result" where
  "dhcp_server E q client S =
     (case field_text (sn_fields q) ''server_identifier'' of
        None \<Rightarrow> Inr S
      | Some server \<Rightarrow>
          bindR (seen_device E (lit ''ipv4_observation'') server (Some (lit ''DHCP '' @ server)) S) (\<lambda>(S, sn).
            seen_edge q sn client ''dhcp_lease'' (9 / 10) S))"

definition dhcp_handler :: "topology_env \<Rightarrow> seen \<Rightarrow> topology_state \<Rightarrow> topology_state result" where
  "dhcp_handler E q S =
     (if fget (sn_fields q) ''message_type'' \<noteq> Some (jstr ''ack'') then Inr S
      else
        (let mac = field_text (sn_fields q) ''client_mac''; cid = field_text (sn_fields q) ''client_identifier'' in
         case (field_text (sn_fields q) ''assigned_address'', if mac \<noteq> None then mac else cid) of
           (Some address, Some ident) \<Rightarrow>
             bindR (seen_device E (if mac \<noteq> None then lit ''mac'' else lit ''dhcp_client_id'') ident
               (Some (case field_text (sn_fields q) ''hostname'' of None \<Rightarrow> ident | Some h \<Rightarrow> h)) S) (\<lambda>(S, client).
             bindR (membership client address (sn_source q) (9 / 10) (sn_observed_at q) (sn_valid_until q) S) (\<lambda>S. dhcp_server E q client S))
         | _ \<Rightarrow> Inr S))"

definition neighbor_handler :: "topology_env \<Rightarrow> seen \<Rightarrow> topology_state \<Rightarrow> topology_state result" where
  "neighbor_handler E q S =
     (case (field_text (sn_fields q) ''address'', field_text (sn_fields q) ''mac_address'') of
        (Some address, Some mac) \<Rightarrow>
          bindR (seen_device E (lit ''mac'') mac (Some mac) S) (\<lambda>(S, d).
            membership d address (sn_source q) (3 / 4) (sn_observed_at q) (sn_valid_until q) S)
      | _ \<Rightarrow> Inr S)"

text \<open>\<open>json.dumps\<close>, which raises \<open>TypeError\<close> on a value that is not JSON.\<close>

definition dumps :: "(rat \<Rightarrow> pystr) \<Rightarrow> string \<Rightarrow> string \<Rightarrow> json \<Rightarrow> pystr result" where
  "dumps fl isep ksep v =
     (if serialisable v then Inr (json_dumps True (lit isep) (lit ksep) fl v)
      else Inl (TypeError (lit ''Object is not JSON serializable'')))"

definition reuse_handler :: "topology_env \<Rightarrow> seen \<Rightarrow> topology_state \<Rightarrow> topology_state result" where
  "reuse_handler E q S =
     bindR (mapR (\<lambda>(k, v). bindR (dumps (te_float E) '', '' '': '' v) (\<lambda>t. Inr (k @ lit ''='' @ t))) (sort_key fst (sn_fields q))) (\<lambda>details.
       Inr (S\<lparr>ts_builder := add_conflict \<lparr>tc_kind = sn_kind q,
         tc_subject = (case field_text (sn_fields q) ''address'' of None \<Rightarrow> lit ''unspecified'' | Some a \<Rightarrow> a),
         tc_details = details, tc_sources = [sn_source q]\<rparr> (ts_builder S)\<rparr>))"

definition handle_seen :: "topology_env \<Rightarrow> pystr \<Rightarrow> seen \<Rightarrow> topology_state \<Rightarrow> topology_state result" where
  "handle_seen E local_node q S =
     (if sn_kind q = lit ''link_layer_neighbor'' then link_layer_handler E local_node q S
      else if sn_kind q \<in> {lit ''mdns_service'', lit ''mdns_instance'', lit ''mdns_address''} then mdns_handler E q S
      else if sn_kind q = lit ''dhcp_message'' then dhcp_handler E q S
      else if sn_kind q = lit ''neighbor_observation'' then neighbor_handler E q S
      else if sn_kind q \<in> {lit ''dhcp_address_reuse'', lit ''neighbor_ip_reuse'', lit ''neighbor_mac_movement''} then reuse_handler E q S
      else Inr S)"

definition topology_step :: "topology_env \<Rightarrow> pystr \<Rightarrow> topology_state \<Rightarrow> observation \<Rightarrow> topology_state result" where
  "topology_step E local_node S ob =
     bindR (observed_instant ob) (\<lambda>observed.
     bindR (valid_until_opt (ob_expires_at ob) observed) (\<lambda>until.
       case active observed until (ts_builder S) of
         (B, False) \<Rightarrow> Inr (S\<lparr>ts_builder := B\<rparr>)
       | (B, True) \<Rightarrow>
           handle_seen E local_node \<lparr>sn_kind = ob_kind ob, sn_fields = ob_fields ob, sn_source = ob_source ob, sn_observed_at = observed,
             sn_valid_until = until\<rparr> (S\<lparr>ts_builder := B\<rparr>)))"

definition observation_order :: "topology_env \<Rightarrow> observation \<Rightarrow> (pystr \<times> pystr \<times> pystr \<times> pystr) result" where
  "observation_order E ob =
     bindR (observed_instant ob) (\<lambda>t.
     bindR (dumps (te_float E) '','' '':'' (JDict (ob_fields ob))) (\<lambda>s. Inr (isoformat t, ob_kind ob, ob_source ob, s)))"

definition vlan_conflicts :: "(pystr, (int \<times> pystr) list) odict \<Rightarrow> topology_conflict list" where
  "vlan_conflicts claims =
     concat (map (\<lambda>(subject, cs).
         let values = sort (remdups (map fst cs)) in
         if 1 < length values
         then [\<lparr>tc_kind = lit ''vlan_disagreement'', tc_subject = subject, tc_details = map str_int values,
           tc_sources = sort (remdups (map snd cs))\<rparr>] else [])
       (sort_key fst claims))"

text \<open>The loops of \<open>build_topology\<close>, once the local node is there.\<close>

definition fill_topology ::
    "topology_env \<Rightarrow> pystr \<Rightarrow> observation list \<Rightarrow> subnet_evidence list \<Rightarrow> vlan_evidence list \<Rightarrow> topology_builder \<Rightarrow> topology_graph result" where
  "fill_topology E local_node observations subnets vlans B =
     (case active_items (\<lambda>s. (se_observed_at s, se_valid_until s)) (sort_key se_cidr subnets) B of (B, subnet_items) \<Rightarrow>
      case active_items (\<lambda>v. (ve_observed_at v, ve_valid_until v)) (sort_key (\<lambda>v. (ve_vlan_id v, ve_source v)) vlans) B of (B, vlan_items) \<Rightarrow>
      bindR (foldR (add_subnet E) \<lparr>ts_builder = B, ts_subnets = subnet_items, ts_subnet_nodes = [], ts_vlan_nodes = [], ts_claims = []\<rparr>
        subnet_items) (\<lambda>S.
      bindR (foldR (add_vlan E) S vlan_items) (\<lambda>S.
      bindR (mapR (\<lambda>ob. bindR (observation_order E ob) (\<lambda>k. Inr (k, ob))) observations) (\<lambda>keyed.
      bindR (foldR (topology_step E local_node) S (map snd (sort_key fst keyed))) (\<lambda>S.
        Inr (graph_of (fold add_conflict (vlan_conflicts (ts_claims S)) (ts_builder S))))))))"

definition build_topology ::
    "topology_env \<Rightarrow> observation list \<Rightarrow> pystr \<Rightarrow> datetime option \<Rightarrow> pystr option \<Rightarrow> subnet_evidence list \<Rightarrow> vlan_evidence list \<Rightarrow>
      topology_graph result" where
  "build_topology E observations local_identity as_of local_label subnets vlans =
     (case as_of of
        None \<Rightarrow> Inl (topology_error (lit ''an explicit as_of timestamp is required for active topology''))
      | Some d \<Rightarrow>
          bindR (topology_utc d) (\<lambda>snapshot.
          bindR (topology_text local_identity ''local identity'' 512) (\<lambda>ident.
          bindR (device_node E (lit ''local'') ident local_label (new_builder snapshot)) (\<lambda>(B, local_node).
            fill_topology E local_node observations subnets vlans B))))"

section \<open>Rendering\<close>

definition validity_text :: "topology_edge \<Rightarrow> pystr" where
  "validity_text e = (case tg_valid_until e of None \<Rightarrow> lit ''open'' | Some t \<Rightarrow> isoformat t)"

definition edge_status :: "topology_edge \<Rightarrow> pystr" where
  "edge_status e = (if tg_inferred e then lit ''inferred'' else lit ''observed'')"

abbreviation back_n :: pystr where
  "back_n \<equiv> [92, 110]"

definition node_shape :: "pystr \<Rightarrow> pystr" where
  "node_shape kind =
     (if kind = lit ''device'' then lit ''box'' else if kind = lit ''subnet'' then lit ''oval''
      else if kind = lit ''vlan'' then lit ''hexagon'' else if kind = lit ''service'' then lit ''component'' else lit ''ellipse'')"

definition text_lines :: "pystr list \<Rightarrow> pystr" where
  "text_lines ls = join [10] ls @ [10]"

definition graphviz_source :: "topology_env \<Rightarrow> topology_graph \<Rightarrow> pystr" where
  "graphviz_source E g =
     text_lines
       ([lit ''digraph codexnet {'', lit ''  rankdir=LR;'', lit ''  graph [bgcolor=white];''] @
        map (\<lambda>n. lit ''  '' @ tn_id n @ lit '' [shape='' @ node_shape (tn_kind n) @ lit '',label='' @
            json_string True (tn_label n @ back_n @ lit ''['' @ tn_kind n @ lit '']'') @ lit ''];'') (gr_nodes g) @
        map (\<lambda>e. lit ''  '' @ tg_source e @ lit '' -> '' @ tg_target e @ lit '' [style='' @
            (if tg_inferred e then lit ''dashed'' else lit ''solid'') @ lit '',label='' @
            json_string True (tg_kind e @ back_n @ tg_evidence_source e @ lit '' '' @ te_fixed2 E (tg_confidence e) @ lit '' '' @
              edge_status e @ lit '' until='' @ validity_text e) @ lit ''];'') (gr_edges g) @
        map (\<lambda>(i, c). lit ''  conflict_'' @ pad 4 (int i) @ lit '' [shape=note,color=red,fontcolor=red,label='' @
            json_string True (lit ''CONFLICT: '' @ tc_kind c @ back_n @ tc_subject c @ back_n @ join (lit '', '') (tc_details c)) @ lit ''];'')
          (enumerate 0 (gr_conflicts g)) @
        map (\<lambda>(i, l). lit ''  limitation_'' @ pad 4 (int i) @ lit '' [shape=note,color=orange,label='' @
            json_string True (lit ''LIMITATION: '' @ l) @ lit ''];'') (enumerate 0 (gr_limitations g)) @
        [lit ''}''])"

text \<open>\<open>s.replace('"', "'")\<close>\<close>

definition unquote :: "pystr \<Rightarrow> pystr" where
  "unquote = map (\<lambda>c. if c = 34 then 39 else c)"

definition mermaid_source :: "topology_env \<Rightarrow> topology_graph \<Rightarrow> pystr" where
  "mermaid_source E g =
     text_lines
       ([lit ''flowchart LR''] @
        map (\<lambda>n. lit ''  '' @ tn_id n @ [91, 34] @ unquote (tn_label n) @ lit ''<br/>['' @ tn_kind n @ lit '']'' @ [34, 93]) (gr_nodes g) @
        map (\<lambda>e. lit ''  '' @ tg_source e @ lit '' '' @ (if tg_inferred e then lit ''-.->'' else lit ''-->'') @ lit ''|'' @
            tg_kind e @ lit ''; '' @ tg_evidence_source e @ lit ''; '' @ te_fixed2 E (tg_confidence e) @ lit ''; '' @ edge_status e @
            lit ''; until='' @ validity_text e @ lit ''| '' @ tg_target e) (gr_edges g) @
        concat (map (\<lambda>(i, c).
            [lit ''  conflict_'' @ pad 4 (int i) @ [91, 34] @ unquote (lit ''CONFLICT: '' @ tc_kind c @ [32, 0x2014, 32] @ tc_subject c) @ [34, 93],
             lit ''  style conflict_'' @ pad 4 (int i) @ lit '' fill:#fee,stroke:#c00,color:#900''])
          (enumerate 0 (gr_conflicts g))) @
        map (\<lambda>(i, l). lit ''  limitation_'' @ pad 4 (int i) @ [91, 34] @ unquote (lit ''LIMITATION: '' @ l) @ [34, 93])
          (enumerate 0 (gr_limitations g)))"

text \<open>\<open>html.escape\<close>\<close>

definition xml_escape :: "pystr \<Rightarrow> pystr" where
  "xml_escape s = concat (map (\<lambda>c.
     if c = 38 then lit ''&amp;'' else if c = 60 then lit ''&lt;'' else if c = 62 then lit ''&gt;''
     else if c = 34 then lit ''&quot;'' else if c = 39 then lit ''&#x27;'' else [c]) s)"

text \<open>\<open>name="value"\<close>\<close>

definition attr :: "string \<Rightarrow> pystr \<Rightarrow> pystr" where
  "attr name value = lit '' '' @ lit name @ [61, 34] @ value @ [34]"

definition node_positions :: "topology_graph \<Rightarrow> pystr \<rightharpoonup> int \<times> int" where
  "node_positions g =
     map_of (map (\<lambda>(i, n). (tn_id n, 80 + int (i mod 3) * 360, 60 + int (i div 3) * 150)) (enumerate 0 (gr_nodes g)))"

definition position :: "topology_graph \<Rightarrow> pystr \<Rightarrow> (int \<times> int) result" where
  "position g i = (case node_positions g i of None \<Rightarrow> Inl (KeyError i) | Some p \<Rightarrow> Inr p)"

definition svg_edge :: "topology_env \<Rightarrow> topology_graph \<Rightarrow> topology_edge \<Rightarrow> pystr list result" where
  "svg_edge E g e =
     bindR (position g (tg_source e)) (\<lambda>(x1, y1).
     bindR (position g (tg_target e)) (\<lambda>(x2, y2).
       Inr [lit ''<line'' @ attr ''x1'' (str_int (x1 + 130)) @ attr ''y1'' (str_int (y1 + 30)) @ attr ''x2'' (str_int (x2 + 130)) @
           attr ''y2'' (str_int (y2 + 30)) @ attr ''stroke'' (lit ''#555'') @
           (if tg_inferred e then attr ''stroke-dasharray'' (lit ''6 4'') else []) @ lit ''/>'',
         lit ''<text'' @ attr ''x'' (str_int ((x1 + x2) div 2 + 130)) @ attr ''y'' (str_int ((y1 + y2) div 2 + 20)) @
           attr ''font-size'' (lit ''11'') @ attr ''text-anchor'' (lit ''middle'') @ lit ''>'' @
           xml_escape (tg_kind e @ [32, 183, 32] @ tg_evidence_source e @ [32, 183, 32] @ te_fixed2 E (tg_confidence e) @
             [32, 183, 32] @ lit ''until '' @ validity_text e) @ lit ''</text>'']))"

definition svg_node :: "topology_graph \<Rightarrow> topology_node \<Rightarrow> pystr list result" where
  "svg_node g n =
     bindR (position g (tn_id n)) (\<lambda>(x, y).
       Inr [lit ''<rect'' @ attr ''x'' (str_int x) @ attr ''y'' (str_int y) @ attr ''width'' (lit ''260'') @ attr ''height'' (lit ''60'') @
           attr ''rx'' (lit ''8'') @ attr ''fill'' (lit ''#eef5ff'') @ attr ''stroke'' (lit ''#345'') @ lit ''/>'',
         lit ''<text'' @ attr ''x'' (str_int (x + 130)) @ attr ''y'' (str_int (y + 25)) @ attr ''font-size'' (lit ''14'') @
           attr ''text-anchor'' (lit ''middle'') @ lit ''>'' @ xml_escape (tn_label n) @ lit ''</text>'',
         lit ''<text'' @ attr ''x'' (str_int (x + 130)) @ attr ''y'' (str_int (y + 45)) @ attr ''font-size'' (lit ''11'') @
           attr ''text-anchor'' (lit ''middle'') @ attr ''fill'' (lit ''#555'') @ lit ''>['' @ xml_escape (tn_kind n) @ lit '']</text>''])"

definition svg_note :: "int \<Rightarrow> string \<Rightarrow> string \<Rightarrow> pystr \<Rightarrow> pystr" where
  "svg_note y points colour t =
     lit ''<text'' @ attr ''x'' (lit ''80'') @ attr ''y'' (str_int y) @ attr ''font-size'' (lit points) @ attr ''fill'' (lit colour) @ lit ''>'' @
       xml_escape t @ lit ''</text>''"

definition render_svg :: "topology_env \<Rightarrow> topology_graph \<Rightarrow> pystr result" where
  "render_svg E g =
     (let rows = (length (gr_nodes g) + 2) div 3;
          conflict_y = 80 + int rows * 150;
          notes = length (gr_conflicts g) + length (gr_limitations g);
          height = str_int (max 240 (conflict_y + int (max 1 notes) * 45 + 40));
          limitation_y = conflict_y + int (length (gr_conflicts g)) * 45 in
      bindR (mapR (svg_edge E g) (gr_edges g)) (\<lambda>es.
      bindR (mapR (svg_node g) (gr_nodes g)) (\<lambda>ns.
        Inr (text_lines
          ([lit ''<svg'' @ attr ''xmlns'' (lit ''http://www.w3.org/2000/svg'') @ attr ''width'' (lit ''1200'') @ attr ''height'' height @
              attr ''viewBox'' (lit ''0 0 1200 '' @ height) @ attr ''role'' (lit ''img'') @ lit ''>'',
            lit ''<title>CodexNet topology</title>'',
            lit ''<rect'' @ attr ''width'' (lit ''100%'') @ attr ''height'' (lit ''100%'') @ attr ''fill'' (lit ''white'') @ lit ''/>''] @
           concat es @ concat ns @
           map (\<lambda>(i, c). svg_note (conflict_y + int i * 45) ''14'' ''#a00'' (lit ''CONFLICT: '' @ tc_kind c @ [32, 0x2014, 32] @ tc_subject c))
             (enumerate 0 (gr_conflicts g)) @
           map (\<lambda>(i, l). svg_note (limitation_y + int i * 45) ''13'' ''#964b00'' (lit ''LIMITATION: '' @ l)) (enumerate 0 (gr_limitations g)) @
           [lit ''</svg>''])))))"

text \<open>\<open>diagram_digest\<close>\<close>

definition diagram_digest :: "topology_env \<Rightarrow> pystr \<Rightarrow> pystr result" where
  "diagram_digest E content = bindR (utf8_encode content) (\<lambda>raw. Inr (te_sha E raw))"

section \<open>The graph is closed\<close>

text \<open>Nodes are filed under their identity, every edge joins two different nodes, and it was valid at the snapshot.\<close>

definition edge_ok :: "int \<Rightarrow> topology_edge \<Rightarrow> bool" where
  "edge_ok as_of e \<longleftrightarrow> tg_source e \<noteq> tg_target e \<and> 0 \<le> tg_confidence e \<and> tg_confidence e \<le> 1 \<and> tg_observed_at e \<le> as_of \<and>
     (case tg_valid_until e of None \<Rightarrow> True | Some t \<Rightarrow> as_of < t)"

definition node_in :: "topology_builder \<Rightarrow> pystr \<Rightarrow> bool" where
  "node_in B i \<longleftrightarrow> i \<in> fst ` set (tb_nodes B)"

definition builder_ok :: "topology_builder \<Rightarrow> bool" where
  "builder_ok B \<longleftrightarrow> od_ok (tb_nodes B) \<and> od_ok (tb_edges B) \<and> (\<forall>(i, n) \<in> set (tb_nodes B). tn_id n = i) \<and>
     (\<forall>(k, e) \<in> set (tb_edges B). edge_key_of e = k \<and> edge_ok (tb_as_of B) e \<and> node_in B (tg_source e) \<and> node_in B (tg_target e))"

text \<open>One builder grows out of another: the snapshot is the same and no node goes away.\<close>

definition grows :: "topology_builder \<Rightarrow> topology_builder \<Rightarrow> bool" where
  "grows B B' \<longleftrightarrow> tb_as_of B' = tb_as_of B \<and> (\<forall>i. node_in B i \<longrightarrow> node_in B' i)"

lemma grows_refl [simp]: "grows B B"
  by (simp add: grows_def)

lemma grows_trans: "grows A B \<Longrightarrow> grows B C \<Longrightarrow> grows A C"
  by (simp add: grows_def)

lemma od_set_mem: "od_ok d \<Longrightarrow> (k, v) \<in> set (od_set k' v' d) \<longleftrightarrow> (if k = k' then v = v' else (k, v) \<in> set d)"
proof -
  assume d: "od_ok d"
  have "(k, v) \<in> set e \<longleftrightarrow> map_of e k = Some v" if "od_ok e" for e
    using that by (simp add: od_ok_def)
  from this [OF d] this [OF od_ok_set [OF d]] show ?thesis by (auto simp: od_get_set)
qed

lemma node_in_set [simp]: "node_in (B\<lparr>tb_nodes := od_set i n (tb_nodes B)\<rparr>) j \<longleftrightarrow> j = i \<or> node_in B j"
  by (simp add: node_in_def od_set_def dom_update)

lemma node_in_edges [simp]: "node_in (B\<lparr>tb_edges := es\<rparr>) = node_in B"
  and node_in_counts [simp]: "node_in (B\<lparr>tb_expired := n\<rparr>) = node_in B" "node_in (B\<lparr>tb_future := n\<rparr>) = node_in B"
    "node_in (B\<lparr>tb_conflicts := cs\<rparr>) = node_in B"
  by (simp_all add: node_in_def fun_eq_iff)

lemma node_in_get: "map_of (tb_nodes B) i \<noteq> None \<Longrightarrow> node_in B i"
  by (metis map_of_eq_None_iff node_in_def)

lemma builder_ok_node:
  assumes "builder_ok B" "tn_id n = i"
  shows "builder_ok (B\<lparr>tb_nodes := od_set i n (tb_nodes B)\<rparr>)"
  using assms unfolding builder_ok_def node_in_set by (auto simp: od_set_mem split: if_splits)

lemma add_node_ok:
  assumes "builder_ok B" "add_node E kind ident label B = Inr (B', i)"
  shows "builder_ok B'" "grows B B'" "node_in B' i"
proof -
  have "B' = B \<and> map_of (tb_nodes B) i \<noteq> None \<or> (\<exists>n. B' = B\<lparr>tb_nodes := od_set i n (tb_nodes B)\<rparr> \<and> tn_id n = i)"
    using assms(2) by (auto simp: add_node_def Let_def bindR_eq_Inr split: if_splits option.splits)
  then consider "B' = B" "node_in B i" | n where "B' = B\<lparr>tb_nodes := od_set i n (tb_nodes B)\<rparr>" "tn_id n = i"
    using node_in_get by blast
  then have "builder_ok B' \<and> grows B B' \<and> node_in B' i"
    by cases (use assms(1) builder_ok_node in \<open>simp_all add: grows_def\<close>)
  then show "builder_ok B'" "grows B B'" "node_in B' i" by simp_all
qed

lemma new_edge_Inr:
  assumes "new_edge e = Inr e'"
  shows "tg_source e' = tg_source e" "tg_target e' = tg_target e" "tg_source e \<noteq> tg_target e" "0 \<le> tg_confidence e" "tg_confidence e \<le> 1"
    "tg_confidence e' = tg_confidence e" "tg_observed_at e' = tg_observed_at e" "tg_valid_until e' = tg_valid_until e"
  using assms by (auto simp: new_edge_def bindR_eq_Inr confidence_check_def split: if_splits option.splits)

lemma put_edge_ok:
  assumes "builder_ok B" "edge_ok (tb_as_of B) e" "node_in B (tg_source e)" "node_in B (tg_target e)"
  shows "builder_ok (put_edge e B)" "grows B (put_edge e B)"
proof -
  have "builder_ok (B\<lparr>tb_edges := od_set (edge_key_of e) e (tb_edges B)\<rparr>)"
    using assms unfolding builder_ok_def node_in_edges by (auto simp: od_set_mem split: if_splits)
  then show "builder_ok (put_edge e B)" using assms(1) by (simp add: put_edge_def split: option.split)
  show "grows B (put_edge e B)" by (simp add: put_edge_def grows_def split: option.split)
qed

definition live :: "int \<Rightarrow> int \<Rightarrow> int option \<Rightarrow> bool" where
  "live as_of observed validity \<longleftrightarrow> observed \<le> as_of \<and> (case validity of None \<Rightarrow> True | Some t \<Rightarrow> as_of < t)"

lemma observed_edge_ok:
  assumes "builder_ok B" "node_in B source" "node_in B target" "live (tb_as_of B) observed validity"
    and "observed_edge source target kind evidence confidence inferred observed validity B = Inr B'"
  shows "builder_ok B'" "grows B B'"
proof -
  let ?e = "\<lparr>tg_source = source, tg_target = target, tg_kind = lit kind, tg_evidence_source = evidence, tg_confidence = confidence,
       tg_inferred = inferred, tg_observed_at = observed, tg_valid_until = validity\<rparr>"
  obtain e where e: "new_edge ?e = Inr e" "B' = put_edge e B"
    using assms(5) by (auto simp: observed_edge_def add_edge_def bindR_eq_Inr)
  note n = new_edge_Inr [OF e(1)]
  have "edge_ok (tb_as_of B) e" using n assms(4) by (simp add: edge_ok_def live_def)
  with n assms(1-3) put_edge_ok [of B e] e(2) show "builder_ok B'" "grows B B'" by simp_all
qed

section \<open>The handlers keep it\<close>

definition state_ok :: "topology_state \<Rightarrow> bool" where
  "state_ok S \<longleftrightarrow> builder_ok (ts_builder S) \<and> (\<forall>i \<in> snd ` set (ts_subnet_nodes S). node_in (ts_builder S) i) \<and>
     (\<forall>i \<in> snd ` set (ts_vlan_nodes S). node_in (ts_builder S) i)"

definition step_ok :: "topology_state \<Rightarrow> topology_state \<Rightarrow> bool" where
  "step_ok S S' \<longleftrightarrow> state_ok S' \<and> grows (ts_builder S) (ts_builder S')"

abbreviation in_state :: "topology_state \<Rightarrow> pystr \<Rightarrow> bool" where
  "in_state S \<equiv> node_in (ts_builder S)"

abbreviation live_in :: "topology_state \<Rightarrow> int \<Rightarrow> int option \<Rightarrow> bool" where
  "live_in S \<equiv> live (tb_as_of (ts_builder S))"

lemma step_ok_refl: "state_ok S \<Longrightarrow> step_ok S S"
  by (simp add: step_ok_def)

lemma step_ok_trans: "step_ok A B \<Longrightarrow> step_ok B C \<Longrightarrow> step_ok A C"
  unfolding step_ok_def using grows_trans by blast

lemma step_ok_state: "step_ok S S' \<Longrightarrow> state_ok S'"
  by (simp add: step_ok_def)

lemma step_ok_in: "step_ok S S' \<Longrightarrow> in_state S i \<Longrightarrow> in_state S' i"
  by (simp add: step_ok_def grows_def)

lemma step_ok_live: "step_ok S S' \<Longrightarrow> live_in S' = live_in S"
  by (simp add: step_ok_def grows_def)

text \<open>A change of the builder alone.\<close>

lemma builder_step:
  assumes "state_ok S" "builder_ok B" "grows (ts_builder S) B"
  shows "step_ok S (S\<lparr>ts_builder := B\<rparr>)"
  using assms by (simp add: step_ok_def state_ok_def grows_def)

lemma builder_in_ok: "state_ok S \<Longrightarrow> builder_ok (ts_builder S)"
  by (simp add: state_ok_def)

lemma snd_od_set: "snd ` set (od_set k v d) \<subseteq> insert v (snd ` set d)"
  unfolding od_set_def by (induction d) auto

lemma seen_edge_ok:
  assumes "state_ok S" "in_state S source" "in_state S target" "live_in S (sn_observed_at q) (sn_valid_until q)"
    and "seen_edge q source target kind c S = Inr S'"
  shows "step_ok S S'"
proof -
  obtain B where B: "observed_edge source target kind (sn_source q) c False (sn_observed_at q) (sn_valid_until q) (ts_builder S) = Inr B"
    "S' = S\<lparr>ts_builder := B\<rparr>" using assms(5) by (auto simp: seen_edge_def bindR_eq_Inr)
  from observed_edge_ok [OF builder_in_ok [OF assms(1)] assms(2-4) B(1)] show ?thesis
    unfolding B(2) by (intro builder_step assms(1))
qed

lemma seen_device_ok:
  assumes "state_ok S" "seen_device E kind ident label S = Inr (S', i)"
  shows "step_ok S S'" "in_state S' i"
proof -
  obtain B where B: "device_node E kind ident label (ts_builder S) = Inr (B, i)" "S' = S\<lparr>ts_builder := B\<rparr>"
    using assms(2) by (auto simp: seen_device_def bindR_eq_Inr)
  note n = add_node_ok [OF builder_in_ok [OF assms(1)] B(1) [unfolded device_node_def]]
  show "step_ok S S'" unfolding B(2) by (intro builder_step assms(1) n)
  show "in_state S' i" using n(3) B(2) by simp
qed

lemma seen_node_ok:
  assumes "state_ok S" "seen_node E kind ident S = Inr (S', i)"
  shows "step_ok S S'" "in_state S' i"
proof -
  obtain B where B: "add_node E (lit kind) ident None (ts_builder S) = Inr (B, i)" "S' = S\<lparr>ts_builder := B\<rparr>"
    using assms(2) by (auto simp: seen_node_def bindR_eq_Inr)
  note n = add_node_ok [OF builder_in_ok [OF assms(1)] B(1)]
  show "step_ok S S'" unfolding B(2) by (intro builder_step assms(1) n)
  show "in_state S' i" using n(3) B(2) by simp
qed

text \<open>A new node that is also entered in one of the two tables.\<close>

lemma od_set_values: "\<forall>j \<in> snd ` set d. P j \<Longrightarrow> P i \<Longrightarrow> \<forall>j \<in> snd ` set (od_set k i d). P j"
  using snd_od_set [of k i d] by blast

lemma table_step:
  assumes "state_ok S" "builder_ok B" "grows (ts_builder S) B" "node_in B i"
  shows "step_ok S (S\<lparr>ts_builder := B, ts_subnet_nodes := od_set cidr i (ts_subnet_nodes S)\<rparr>)"
    and "step_ok S (S\<lparr>ts_builder := B, ts_vlan_nodes := od_set v i (ts_vlan_nodes S)\<rparr>)"
proof -
  have old: "\<forall>j \<in> snd ` set (ts_subnet_nodes S). node_in B j" "\<forall>j \<in> snd ` set (ts_vlan_nodes S). node_in B j"
    using assms(1,3) by (auto simp: state_ok_def grows_def)
  show "step_ok S (S\<lparr>ts_builder := B, ts_subnet_nodes := od_set cidr i (ts_subnet_nodes S)\<rparr>)"
    using assms(2,3) old(2) od_set_values [OF old(1) assms(4)] by (simp add: step_ok_def state_ok_def)
  show "step_ok S (S\<lparr>ts_builder := B, ts_vlan_nodes := od_set v i (ts_vlan_nodes S)\<rparr>)"
    using assms(2,3) old(1) od_set_values [OF old(2) assms(4)] by (simp add: step_ok_def state_ok_def)
qed

lemma subnet_node_ok:
  assumes "state_ok S" "subnet_node E cidr S = Inr (S', i)"
  shows "step_ok S S'" "in_state S' i"
proof -
  have "step_ok S S' \<and> in_state S' i"
  proof (cases "map_of (ts_subnet_nodes S) cidr")
    case None
    then obtain B where B: "add_node E (lit ''subnet'') cidr None (ts_builder S) = Inr (B, i)"
      "S' = S\<lparr>ts_builder := B, ts_subnet_nodes := od_set cidr i (ts_subnet_nodes S)\<rparr>"
      using assms(2) by (auto simp: subnet_node_def bindR_eq_Inr)
    note n = add_node_ok [OF builder_in_ok [OF assms(1)] B(1)]
    show ?thesis unfolding B(2) using table_step(1) [OF assms(1) n] n(3) by simp
  next
    case (Some j)
    then show ?thesis
      using assms step_ok_refl [OF assms(1)] map_of_SomeD [OF Some] by (force simp: subnet_node_def state_ok_def)
  qed
  then show "step_ok S S'" "in_state S' i" by simp_all
qed

lemma vlan_node_ok:
  assumes "state_ok S" "vlan_node E v S = Inr (S', i)"
  shows "step_ok S S'" "in_state S' i"
proof -
  have "step_ok S S' \<and> in_state S' i"
  proof (cases "map_of (ts_vlan_nodes S) v")
    case None
    then obtain B where B: "add_node E (lit ''vlan'') (str_int v) (Some (vlan_label v)) (ts_builder S) = Inr (B, i)"
      "S' = S\<lparr>ts_builder := B, ts_vlan_nodes := od_set v i (ts_vlan_nodes S)\<rparr>"
      using assms(2) by (auto simp: vlan_node_def bindR_eq_Inr)
    note n = add_node_ok [OF builder_in_ok [OF assms(1)] B(1)]
    show ?thesis unfolding B(2) using table_step(2) [OF assms(1) n] n(3) by simp
  next
    case (Some j)
    then show ?thesis
      using assms step_ok_refl [OF assms(1)] map_of_SomeD [OF Some] by (force simp: vlan_node_def state_ok_def)
  qed
  then show "step_ok S S'" "in_state S' i" by simp_all
qed

lemma membership_ok:
  assumes "state_ok S" "in_state S d" "live_in S observed validity" "membership d address source c observed validity S = Inr S'"
  shows "step_ok S S'"
proof -
  obtain m where m: "subnet_for address (ts_subnets S) = Inr m" using assms(4) by (auto simp: membership_def bindR_eq_Inr)
  show ?thesis
  proof (cases m)
    case None
    then show ?thesis using assms m step_ok_refl by (simp add: membership_def)
  next
    case (Some s)
    then obtain sn where sn: "map_of (ts_subnet_nodes S) (se_cidr s) = Some sn"
      using assms(4) m by (auto simp: membership_def split: option.splits)
    then obtain B where B: "observed_edge d sn ''inferred_subnet_membership'' source (min c (se_confidence s)) True observed validity (ts_builder S) = Inr B"
      "S' = S\<lparr>ts_builder := B\<rparr>" using assms(4) m Some by (auto simp: membership_def bindR_eq_Inr)
    have "in_state S sn" using assms(1) map_of_SomeD [OF sn] by (force simp: state_ok_def)
    from observed_edge_ok [OF builder_in_ok [OF assms(1)] assms(2) this assms(3) B(1)] show ?thesis
      unfolding B(2) by (intro builder_step assms(1))
  qed
qed

lemma conflict_ok: "state_ok S \<Longrightarrow> step_ok S (S\<lparr>ts_builder := add_conflict c (ts_builder S)\<rparr>)"
  by (rule builder_step) (simp_all add: state_ok_def builder_ok_def add_conflict_def grows_def)

lemmas step_rules = step_ok_state step_ok_in step_ok_live step_ok_trans

lemma link_layer_ok:
  assumes "state_ok S" "in_state S local_node" "live_in S (sn_observed_at q) (sn_valid_until q)"
    and "link_layer_handler E local_node q S = Inr S'"
  shows "step_ok S S'"
proof (cases "field_text (sn_fields q) ''chassis_id'' = None \<or> field_text (sn_fields q) ''port_id'' = None")
  case True
  then show ?thesis using assms(1,4) conflict_ok by (auto simp: link_layer_handler_def split: option.splits)
next
  case False
  then obtain chassis port where f: "field_text (sn_fields q) ''chassis_id'' = Some chassis" "field_text (sn_fields q) ''port_id'' = Some port"
    by auto
  obtain kind label S1 remote where 1: "seen_device E kind chassis label S = Inr (S1, remote)" and after:
    "bindR (seen_edge q local_node remote ''link_layer_neighbor'' (99 / 100) S1) (\<lambda>S. link_layer_vlan E q remote S) = Inr S'"
    using assms(4) by (auto simp: link_layer_handler_def f bindR_eq_Inr)
  from after obtain S2 where 2: "seen_edge q local_node remote ''link_layer_neighbor'' (99 / 100) S1 = Inr S2" "link_layer_vlan E q remote S2 = Inr S'"
    by (auto simp: bindR_eq_Inr)
  have rest: "S' = S2 \<or> (\<exists>v S3 vn S4. vlan_node E v S2 = Inr (S3, vn) \<and> seen_edge q remote vn ''observed_vlan'' (19 / 20) S3 = Inr S4 \<and>
        S' = S4\<lparr>ts_claims := append_to remote (v, sn_source q) (ts_claims S4)\<rparr>)"
    using 2(2) by (auto simp: link_layer_vlan_def bindR_eq_Inr split: option.splits json.splits if_splits)
  note d = seen_device_ok [OF assms(1) 1]
  have s2: "step_ok S1 S2" using d assms step_rules(1-3) by (intro seen_edge_ok [OF _ _ _ _ 2(1)]) auto
  from rest show ?thesis
  proof (elim disjE exE conjE)
    assume "S' = S2"
    then show ?thesis using d(1) s2 step_ok_trans by blast
  next
    fix v S3 vn S4
    assume v: "vlan_node E v S2 = Inr (S3, vn)" "seen_edge q remote vn ''observed_vlan'' (19 / 20) S3 = Inr S4"
      "S' = S4\<lparr>ts_claims := append_to remote (v, sn_source q) (ts_claims S4)\<rparr>"
    note n = vlan_node_ok [OF step_ok_state [OF s2] v(1)]
    have s3: "step_ok S S3" using d(1) s2 n(1) step_ok_trans by blast
    have "in_state S3 remote" using d(2) s2 n(1) step_ok_in by blast
    moreover have "live_in S3 (sn_observed_at q) (sn_valid_until q)" using step_ok_live [OF s3] assms(3) by simp
    ultimately have "step_ok S3 S4" by (intro seen_edge_ok [OF step_ok_state [OF s3] _ n(2) _ v(2)])
    with s3 have "step_ok S S4" using step_ok_trans by blast
    then show ?thesis by (simp add: v(3) step_ok_def state_ok_def)
  qed
qed

lemma device_membership_ok:
  assumes "state_ok S" "live_in S (sn_observed_at q) (sn_valid_until q)"
    and "bindR (seen_device E kind ident label S) (\<lambda>(S, d). membership d address source c (sn_observed_at q) (sn_valid_until q) S) = Inr S'"
  shows "step_ok S S'"
proof -
  obtain S1 d where 1: "seen_device E kind ident label S = Inr (S1, d)"
    "membership d address source c (sn_observed_at q) (sn_valid_until q) S1 = Inr S'" using assms(3) by (auto simp: bindR_eq_Inr)
  note n = seen_device_ok [OF assms(1) 1(1)]
  have "step_ok S1 S'"
    by (rule membership_ok [OF step_ok_state [OF n(1)] n(2) _ 1(2)]) (use step_ok_live [OF n(1)] assms(2) in simp)
  with n(1) show ?thesis by (rule step_ok_trans)
qed

lemma next_edge_ok:
  assumes "step_ok S S1" "in_state S1 a" "in_state S1 b" "live_in S (sn_observed_at q) (sn_valid_until q)" "seen_edge q a b kind c S1 = Inr S'"
  shows "step_ok S S'"
proof -
  have "step_ok S1 S'"
    by (rule seen_edge_ok [OF step_ok_state [OF assms(1)] assms(2,3) _ assms(5)]) (use step_ok_live [OF assms(1)] assms(4) in simp)
  with assms(1) show ?thesis by (rule step_ok_trans)
qed

lemma mdns_service_ok:
  assumes "state_ok S" "live_in S (sn_observed_at q) (sn_valid_until q)" "mdns_service E q S = Inr S'"
  shows "step_ok S S'"
proof -
  consider "S' = S"
    | t i S1 sn S2 n where "seen_node E ''service'' t S = Inr (S1, sn)" "seen_node E ''service_instance'' i S1 = Inr (S2, n)"
        "seen_edge q sn n ''advertises'' (19 / 20) S2 = Inr S'"
    using assms(3) unfolding mdns_service_def by (auto simp: bindR_eq_Inr split: option.splits)
  then show ?thesis
  proof cases
    case 2
    note a = seen_node_ok [OF assms(1) 2(1)]
    note b = seen_node_ok [OF step_ok_state [OF a(1)] 2(2)]
    show ?thesis by (rule next_edge_ok [OF step_ok_trans [OF a(1) b(1)] step_ok_in [OF b(1) a(2)] b(2) assms(2) 2(3)])
  qed (use assms(1) step_ok_refl in simp)
qed

lemma mdns_instance_ok:
  assumes "state_ok S" "live_in S (sn_observed_at q) (sn_valid_until q)" "mdns_instance E q S = Inr S'"
  shows "step_ok S S'"
proof -
  consider "S' = S"
    | i h S1 n S2 d where "seen_node E ''service_instance'' i S = Inr (S1, n)" "seen_device E (lit ''hostname'') h (Some h) S1 = Inr (S2, d)"
        "seen_edge q n d ''service_host'' (19 / 20) S2 = Inr S'"
    using assms(3) unfolding mdns_instance_def by (auto simp: bindR_eq_Inr split: option.splits)
  then show ?thesis
  proof cases
    case 2
    note a = seen_node_ok [OF assms(1) 2(1)]
    note b = seen_device_ok [OF step_ok_state [OF a(1)] 2(2)]
    show ?thesis by (rule next_edge_ok [OF step_ok_trans [OF a(1) b(1)] step_ok_in [OF b(1) a(2)] b(2) assms(2) 2(3)])
  qed (use assms(1) step_ok_refl in simp)
qed

lemma mdns_address_ok:
  assumes "state_ok S" "live_in S (sn_observed_at q) (sn_valid_until q)" "mdns_address E q S = Inr S'"
  shows "step_ok S S'"
proof (cases "S' = S")
  case False
  then obtain h a where "bindR (seen_device E (lit ''hostname'') h (Some h) S) (\<lambda>(S, d).
        membership d a (sn_source q) (7 / 10) (sn_observed_at q) (sn_valid_until q) S) = Inr S'"
    using assms(3) unfolding mdns_address_def by (simp split: option.splits)
  then show ?thesis by (rule device_membership_ok [OF assms(1,2)])
qed (use assms(1) step_ok_refl in simp)

lemma mdns_ok:
  assumes "state_ok S" "live_in S (sn_observed_at q) (sn_valid_until q)" "mdns_handler E q S = Inr S'"
  shows "step_ok S S'"
  using assms(3) mdns_service_ok [OF assms(1,2)] mdns_instance_ok [OF assms(1,2)] mdns_address_ok [OF assms(1,2)] step_ok_refl [OF assms(1)]
  by (simp add: mdns_handler_def split: if_splits)

lemma neighbor_ok:
  assumes "state_ok S" "live_in S (sn_observed_at q) (sn_valid_until q)" "neighbor_handler E q S = Inr S'"
  shows "step_ok S S'"
proof (cases "S' = S")
  case False
  then obtain m a where "bindR (seen_device E (lit ''mac'') m (Some m) S) (\<lambda>(S, d).
        membership d a (sn_source q) (3 / 4) (sn_observed_at q) (sn_valid_until q) S) = Inr S'"
    using assms(3) unfolding neighbor_handler_def by (simp split: option.splits)
  then show ?thesis by (rule device_membership_ok [OF assms(1,2)])
qed (use assms(1) step_ok_refl in simp)

lemma dhcp_server_ok:
  assumes "step_ok S S2" "in_state S2 client" "live_in S (sn_observed_at q) (sn_valid_until q)" "dhcp_server E q client S2 = Inr S'"
  shows "step_ok S S'"
proof -
  consider "S' = S2"
    | k i l S3 sn where "seen_device E k i l S2 = Inr (S3, sn)" "seen_edge q sn client ''dhcp_lease'' (9 / 10) S3 = Inr S'"
    using assms(4) unfolding dhcp_server_def by (auto simp: bindR_eq_Inr split: option.splits)
  then show ?thesis
  proof cases
    case 2
    note b = seen_device_ok [OF step_ok_state [OF assms(1)] 2(1)]
    show ?thesis by (rule next_edge_ok [OF step_ok_trans [OF assms(1) b(1)] b(2) step_ok_in [OF b(1) assms(2)] assms(3) 2(2)])
  qed (use assms(1) in simp)
qed

lemma dhcp_ok:
  assumes "state_ok S" "live_in S (sn_observed_at q) (sn_valid_until q)" "dhcp_handler E q S = Inr S'"
  shows "step_ok S S'"
proof (cases "S' = S")
  case False
  then obtain kind ident label address where "bindR (seen_device E kind ident label S) (\<lambda>(S, client).
      bindR (membership client address (sn_source q) (9 / 10) (sn_observed_at q) (sn_valid_until q) S) (\<lambda>S. dhcp_server E q client S)) = Inr S'"
    using assms(3) unfolding dhcp_handler_def Let_def by (simp split: option.splits if_splits)
  then obtain S1 client S2 where 2: "seen_device E kind ident label S = Inr (S1, client)"
        "membership client address (sn_source q) (9 / 10) (sn_observed_at q) (sn_valid_until q) S1 = Inr S2"
        "dhcp_server E q client S2 = Inr S'" by (auto simp: bindR_eq_Inr)
  note a = seen_device_ok [OF assms(1) 2(1)]
  have m: "step_ok S1 S2"
    by (rule membership_ok [OF step_ok_state [OF a(1)] a(2) _ 2(2)]) (use step_ok_live [OF a(1)] assms(2) in simp)
  show ?thesis by (rule dhcp_server_ok [OF step_ok_trans [OF a(1) m] step_ok_in [OF m a(2)] assms(2) 2(3)])
qed (use assms(1) step_ok_refl in simp)

lemma handle_seen_ok:
  assumes "state_ok S" "in_state S local_node" "live_in S (sn_observed_at q) (sn_valid_until q)" "handle_seen E local_node q S = Inr S'"
  shows "step_ok S S'"
proof -
  have "step_ok S S'" if "reuse_handler E q S = Inr S'" using that conflict_ok [OF assms(1)] by (auto simp: reuse_handler_def bindR_eq_Inr)
  then show ?thesis
    using assms link_layer_ok mdns_ok dhcp_ok neighbor_ok step_ok_refl by (auto simp: handle_seen_def split: if_splits)
qed

section \<open>The whole build\<close>

lemma active_True: "active observed validity B = (B', True) \<Longrightarrow> B' = B \<and> live (tb_as_of B) observed validity"
  by (auto simp: active_def live_def split: if_splits option.splits)

lemma active_ok:
  assumes "builder_ok B"
  shows "builder_ok (fst (active observed validity B))" "grows B (fst (active observed validity B))"
  using assms by (simp_all add: active_def builder_ok_def grows_def split: option.split)

lemma active_items_ok:
  "active_items f xs B = (B', ys) \<Longrightarrow> builder_ok B \<Longrightarrow>
     builder_ok B' \<and> grows B B' \<and> (\<forall>y \<in> set ys. live (tb_as_of B) (fst (f y)) (snd (f y)))"
proof (induction xs arbitrary: B B' ys)
  case (Cons x xs)
  obtain B1 ok where a: "active (fst (f x)) (snd (f x)) B = (B1, ok)" by fastforce
  obtain B2 zs where r: "active_items f xs B1 = (B2, zs)" by fastforce
  have "builder_ok B1" "grows B B1" using active_ok [OF Cons.prems(2), of "fst (f x)" "snd (f x)"] a by simp_all
  moreover have "tb_as_of B1 = tb_as_of B" using \<open>grows B B1\<close> by (simp add: grows_def)
  ultimately have "builder_ok B2" "grows B B2" "\<forall>y \<in> set zs. live (tb_as_of B) (fst (f y)) (snd (f y))"
    using Cons.IH [OF r] grows_trans by auto
  moreover have "ok \<Longrightarrow> live (tb_as_of B) (fst (f x)) (snd (f x))" using active_True a by (cases ok) auto
  ultimately show ?case using Cons.prems(1) a r by (auto split: if_splits)
qed simp

lemma topology_step_ok:
  assumes "state_ok S" "in_state S local_node" "topology_step E local_node S ob = Inr S'"
  shows "step_ok S S'"
proof -
  obtain observed until where i: "observed_instant ob = Inr observed" "valid_until_opt (ob_expires_at ob) observed = Inr until"
    using assms(3) by (auto simp: topology_step_def bindR_eq_Inr)
  obtain B ok where a: "active observed until (ts_builder S) = (B, ok)" by fastforce
  show ?thesis
  proof (cases ok)
    case True
    have S: "S\<lparr>ts_builder := B\<rparr> = S" using a True active_True by fastforce
    have live: "live_in S observed until" using a True active_True by fastforce
    have h: "handle_seen E local_node \<lparr>sn_kind = ob_kind ob, sn_fields = ob_fields ob, sn_source = ob_source ob, sn_observed_at = observed,
             sn_valid_until = until\<rparr> S = Inr S'" using assms(3) i a True S by (simp add: topology_step_def)
    show ?thesis by (rule handle_seen_ok [OF assms(1,2) _ h]) (use live in simp)
  next
    case False
    then have "S' = S\<lparr>ts_builder := B\<rparr>" using assms(3) i a by (simp add: topology_step_def)
    then show ?thesis
      using active_ok [OF builder_in_ok [OF assms(1)], of observed until] a by (auto intro: builder_step [OF assms(1)])
  qed
qed

lemma add_subnet_ok:
  assumes "state_ok S" "add_subnet E S s = Inr S'"
  shows "step_ok S S'"
proof -
  obtain B i where B: "add_node E (lit ''subnet'') (se_cidr s) None (ts_builder S) = Inr (B, i)"
    "S' = S\<lparr>ts_builder := B, ts_subnet_nodes := od_set (se_cidr s) i (ts_subnet_nodes S)\<rparr>"
    using assms(2) by (auto simp: add_subnet_def bindR_eq_Inr)
  show ?thesis unfolding B(2) by (rule table_step(1) [OF assms(1) add_node_ok [OF builder_in_ok [OF assms(1)] B(1)]])
qed

lemma add_vlan_ok:
  assumes "state_ok S" "live_in S (ve_observed_at v) (ve_valid_until v)" "add_vlan E S v = Inr S'"
  shows "step_ok S S'"
proof -
  obtain l B vn where B: "add_node E (lit ''vlan'') (str_int (ve_vlan_id v)) l (ts_builder S) = Inr (B, vn)"
    and rest: "add_vlan_subnet E v vn (S\<lparr>ts_builder := B, ts_vlan_nodes := od_set (ve_vlan_id v) vn (ts_vlan_nodes S)\<rparr>) = Inr S'"
    using assms(3) by (auto simp: add_vlan_def Let_def bindR_eq_Inr)
  define S1 where "S1 = S\<lparr>ts_builder := B, ts_vlan_nodes := od_set (ve_vlan_id v) vn (ts_vlan_nodes S)\<rparr>"
  note n = add_node_ok [OF builder_in_ok [OF assms(1)] B]
  have s1: "step_ok S S1" unfolding S1_def by (rule table_step(2) [OF assms(1) n])
  have vn: "in_state S1 vn" using n(3) by (simp add: S1_def)
  show ?thesis
  proof (cases "ve_subnet_cidr v")
    case None
    then show ?thesis using rest s1 by (simp add: add_vlan_subnet_def S1_def)
  next
    case (Some cidr)
    then obtain S2 sn B2 where 2: "subnet_node E cidr S1 = Inr (S2, sn)"
      "observed_edge vn sn ''vlan_subnet'' (ve_source v) (ve_confidence v) False (ve_observed_at v) (ve_valid_until v) (ts_builder S2) = Inr B2"
      "S' = S2\<lparr>ts_builder := B2\<rparr>" using rest by (auto simp: add_vlan_subnet_def S1_def [symmetric] bindR_eq_Inr)
    note b = subnet_node_ok [OF step_ok_state [OF s1] 2(1)]
    have s2: "step_ok S S2" using s1 b(1) by (rule step_ok_trans)
    have "live_in S2 (ve_observed_at v) (ve_valid_until v)" using step_ok_live [OF s2] assms(2) by simp
    from observed_edge_ok [OF builder_in_ok [OF step_ok_state [OF s2]] step_ok_in [OF b(1) vn] b(2) this 2(2)]
    have "step_ok S2 S'" unfolding 2(3) by (rule builder_step [OF step_ok_state [OF s2]])
    with s2 show ?thesis by (rule step_ok_trans)
  qed
qed

lemma fold_step_ok:
  assumes "foldR f S xs = Inr S'" "state_ok S" and step: "\<And>T x T'. step_ok S T \<Longrightarrow> x \<in> set xs \<Longrightarrow> f T x = Inr T' \<Longrightarrow> step_ok T T'"
  shows "step_ok S S'"
  by (rule foldR_invariant [OF assms(1), of "step_ok S"]) (use assms(2) step_ok_refl step step_ok_trans in blast)+

lemma new_builder_ok: "builder_ok (new_builder t)"
  by (simp add: builder_ok_def new_builder_def)

lemma add_conflicts_same: "tb_nodes (fold add_conflict cs B) = tb_nodes B \<and> tb_edges (fold add_conflict cs B) = tb_edges B \<and>
    tb_as_of (fold add_conflict cs B) = tb_as_of B"
  by (induction cs arbitrary: B) (simp_all add: add_conflict_def)


lemma builder_ok_same:
  "tb_nodes B' = tb_nodes B \<and> tb_edges B' = tb_edges B \<and> tb_as_of B' = tb_as_of B \<Longrightarrow> builder_ok B \<Longrightarrow> builder_ok B'"
  by (simp add: builder_ok_def node_in_def)

lemma fill_topology_ok:
  assumes "builder_ok B0" "node_in B0 local_node" "fill_topology E local_node obs subnets vlans B0 = Inr g"
  obtains B where "builder_ok B" "g = graph_of B" "tb_as_of B = tb_as_of B0"
proof -
  obtain B1 ss where 1: "active_items (\<lambda>s. (se_observed_at s, se_valid_until s)) (sort_key se_cidr subnets) B0 = (B1, ss)" by fastforce
  obtain B2 vs where 2: "active_items (\<lambda>v. (ve_observed_at v, ve_valid_until v)) (sort_key (\<lambda>v. (ve_vlan_id v, ve_source v)) vlans) B1 = (B2, vs)"
    by fastforce
  define S0 where "S0 = \<lparr>ts_builder = B2, ts_subnets = ss, ts_subnet_nodes = [], ts_vlan_nodes = [], ts_claims = []\<rparr>"
  have "\<exists>S1. foldR (add_subnet E) S0 ss = Inr S1 \<and> (\<exists>S2. foldR (add_vlan E) S1 vs = Inr S2 \<and>
      (\<exists>keyed. mapR (\<lambda>ob. bindR (observation_order E ob) (\<lambda>k. Inr (k, ob))) obs = Inr keyed \<and>
      (\<exists>S3. foldR (topology_step E local_node) S2 (map snd (sort_key fst keyed)) = Inr S3 \<and>
        Inr (graph_of (fold add_conflict (vlan_conflicts (ts_claims S3)) (ts_builder S3))) = (Inr g :: topology_graph result))))"
    using assms(3) unfolding fill_topology_def 1 2 prod.case bindR_eq_Inr S0_def [symmetric] .
  then obtain S1 S2 keyed S3 where f: "foldR (add_subnet E) S0 ss = Inr S1" "foldR (add_vlan E) S1 vs = Inr S2"
    "foldR (topology_step E local_node) S2 (map snd (sort_key fst keyed)) = Inr S3"
    and "mapR (\<lambda>ob. bindR (observation_order E ob) (\<lambda>k. Inr (k, ob))) obs = Inr keyed"
      "Inr (graph_of (fold add_conflict (vlan_conflicts (ts_claims S3)) (ts_builder S3))) = (Inr g :: topology_graph result)"
    by blast
  then have g: "g = graph_of (fold add_conflict (vlan_conflicts (ts_claims S3)) (ts_builder S3))" by simp
  note a1 = active_items_ok [OF 1 assms(1)]
  then have b1: "builder_ok B1" by simp
  note a2 = active_items_ok [OF 2 b1]
  have s0: "state_ok S0" using a2 by (simp add: S0_def state_ok_def)
  have local0: "in_state S0 local_node" using a1 a2 assms(2) by (simp add: S0_def grows_def)
  have s1: "step_ok S0 S1"
    by (rule fold_step_ok [OF f(1) s0]) (use add_subnet_ok step_ok_state in blast)
  have live: "live_in S0 (ve_observed_at v) (ve_valid_until v)" if "v \<in> set vs" for v
    using that a2 by (simp add: S0_def grows_def)
  have s2: "step_ok S1 S2"
  proof (rule fold_step_ok [OF f(2) step_ok_state [OF s1]])
    fix T v T'
    assume T: "step_ok S1 T" "v \<in> set vs" "add_vlan E T v = Inr T'"
    have "live_in T = live_in S0" using step_ok_live [OF step_ok_trans [OF s1 T(1)]] .
    then show "step_ok T T'" using add_vlan_ok [OF step_ok_state [OF T(1)] _ T(3)] live [OF T(2)] by simp
  qed
  have s02: "step_ok S0 S2" using s1 s2 by (rule step_ok_trans)
  have s3: "step_ok S2 S3"
  proof (rule fold_step_ok [OF f(3) step_ok_state [OF s2]])
    fix T ob T'
    assume T: "step_ok S2 T" "topology_step E local_node T ob = Inr T'"
    have "in_state T local_node" using step_ok_in [OF step_ok_trans [OF s02 T(1)] local0] .
    then show "step_ok T T'" using topology_step_ok [OF step_ok_state [OF T(1)] _ T(2)] by blast
  qed
  have s: "step_ok S0 S3" using s02 s3 by (rule step_ok_trans)
  let ?B = "fold add_conflict (vlan_conflicts (ts_claims S3)) (ts_builder S3)"
  have b: "builder_ok (ts_builder S3)" using s by (simp add: step_ok_def state_ok_def)
  note same = add_conflicts_same [of "vlan_conflicts (ts_claims S3)" "ts_builder S3"]
  have "builder_ok ?B" using b same builder_ok_same by blast
  moreover have "tb_as_of ?B = tb_as_of B0" using s a1 a2 by (simp add: same step_ok_def grows_def S0_def)
  ultimately show thesis using g that by blast
qed

lemma build_topology_ok:
  assumes "build_topology E obs ident as_of label subnets vlans = Inr g"
  obtains B d where "builder_ok B" "g = graph_of B" "as_of = Some d" "topology_utc d = Inr (tb_as_of B)"
proof -
  obtain d snapshot ident' B0 local_node where 0: "as_of = Some d" "topology_utc d = Inr snapshot"
    "device_node E (lit ''local'') ident' label (new_builder snapshot) = Inr (B0, local_node)"
    "fill_topology E local_node obs subnets vlans B0 = Inr g"
    using assms by (auto simp: build_topology_def bindR_eq_Inr split: option.splits)
  note n = add_node_ok [OF new_builder_ok 0(3) [unfolded device_node_def]]
  obtain B where B: "builder_ok B" "g = graph_of B" "tb_as_of B = tb_as_of B0" by (rule fill_topology_ok [OF n(1,3) 0(4)])
  have "tb_as_of B0 = snapshot" using n(2) by (simp add: grows_def new_builder_def)
  with B 0 that show thesis by simp
qed

section \<open>Properties\<close>

lemma map_fst_nodes: "builder_ok B \<Longrightarrow> map tn_id (map snd (tb_nodes B)) = map fst (tb_nodes B)"
  by (auto simp: builder_ok_def)

lemma graph_of_nodes: "builder_ok B \<Longrightarrow> tn_id ` set (gr_nodes (graph_of B)) = fst ` set (tb_nodes B)"
proof -
  assume B: "builder_ok B"
  have "tn_id ` set (gr_nodes (graph_of B)) = set (map tn_id (map snd (tb_nodes B)))" by (simp add: graph_of_def image_image)
  then show ?thesis unfolding map_fst_nodes [OF B] by simp
qed

lemma graph_of_distinct: "builder_ok B \<Longrightarrow> distinct (map tn_id (gr_nodes (graph_of B)))"
proof -
  assume B: "builder_ok B"
  have "distinct (map tn_id (map snd (tb_nodes B)))" using B unfolding map_fst_nodes [OF B] by (simp add: builder_ok_def od_ok_def)
  moreover have "mset (map tn_id (gr_nodes (graph_of B))) = mset (map tn_id (map snd (tb_nodes B)))"
    by (simp only: graph_of_def topology_graph.simps mset_map mset_sort)
  ultimately show ?thesis using mset_eq_imp_distinct_iff by blast
qed

lemma graph_of_edges:
  assumes "builder_ok B" "e \<in> set (gr_edges (graph_of B))"
  shows "edge_ok (tb_as_of B) e" "node_in B (tg_source e)" "node_in B (tg_target e)"
  using assms by (auto simp: graph_of_def builder_ok_def)

lemma keys_of_numbered: "map fst (map (\<lambda>(k, n). (tn_id n, p k, q k)) xs) = map tn_id (map snd xs)"
  by auto

lemma position_total:
  assumes "i \<in> tn_id ` set (gr_nodes g)"
  shows "\<exists>p. position g i = Inr p"
proof -
  let ?L = "map (\<lambda>(k, n). (tn_id n, 80 + int (k mod 3) * 360, 60 + int (k div 3) * 150)) (enumerate 0 (gr_nodes g))"
  have "map fst ?L = map tn_id (gr_nodes g)" unfolding keys_of_numbered map_snd_enumerate ..
  then have "i \<in> set (map fst ?L)" using assms by (simp only: list.set_map)
  then have "map_of ?L i \<noteq> None" by (simp only: map_of_eq_None_iff not_not list.set_map [symmetric])
  then show ?thesis by (auto simp: position_def node_positions_def)
qed

lemma mapR_total: "(\<And>x. x \<in> set xs \<Longrightarrow> \<exists>y. f x = Inr y) \<Longrightarrow> \<exists>ys. mapR f xs = Inr ys"
proof (induction xs)
  case (Cons x xs)
  then obtain y ys where "f x = Inr y" "mapR f xs = Inr ys" by (meson list.set_intros)
  then show ?case by simp
qed simp

lemma render_svg_total:
  assumes "\<And>e. e \<in> set (gr_edges g) \<Longrightarrow> tg_source e \<in> tn_id ` set (gr_nodes g) \<and> tg_target e \<in> tn_id ` set (gr_nodes g)"
  shows "\<exists>s. render_svg E g = Inr s"
proof -
  have "\<exists>ls. svg_edge E g e = Inr ls" if e: "e \<in> set (gr_edges g)" for e
  proof -
    obtain p q where "position g (tg_source e) = Inr p" "position g (tg_target e) = Inr q"
      using position_total assms [OF e] by meson
    then show ?thesis by (cases p; cases q) (simp add: svg_edge_def)
  qed
  then obtain es where es: "mapR (svg_edge E g) (gr_edges g) = Inr es" using mapR_total by blast
  have "\<exists>ls. svg_node g n = Inr ls" if n: "n \<in> set (gr_nodes g)" for n
  proof -
    obtain p where "position g (tn_id n) = Inr p" using position_total [of "tn_id n" g] n by blast
    then show ?thesis by (cases p) (simp add: svg_node_def)
  qed
  then obtain ns where "mapR (svg_node g) (gr_nodes g) = Inr ns" using mapR_total by blast
  with es show ?thesis by (simp add: render_svg_def Let_def)
qed

text \<open>C17. A built topology is a proper graph: node identities are distinct, every edge joins two different nodes of the
  graph, and so rendering it as SVG never misses a node.\<close>

theorem topology_closed:
  assumes "build_topology E obs ident as_of label subnets vlans = Inr g"
  shows "distinct (map tn_id (gr_nodes g)) \<and>
    (\<forall>e \<in> set (gr_edges g). tg_source e \<noteq> tg_target e \<and> {tg_source e, tg_target e} \<subseteq> tn_id ` set (gr_nodes g)) \<and>
    (\<exists>s. render_svg E g = Inr s)"
proof (rule build_topology_ok [OF assms])
  fix B d
  assume B: "builder_ok B" "g = graph_of B"
  have e: "tg_source e \<noteq> tg_target e \<and> {tg_source e, tg_target e} \<subseteq> tn_id ` set (gr_nodes g)" if "e \<in> set (gr_edges g)" for e
    using graph_of_edges [OF B(1)] that unfolding B(2) graph_of_nodes [OF B(1)] by (auto simp: edge_ok_def node_in_def)
  have "\<exists>s. render_svg E g = Inr s" by (rule render_svg_total) (use e in blast)
  with e show ?thesis using graph_of_distinct [OF B(1)] B(2) by blast
qed

text \<open>Only current evidence is drawn: an edge of the topology was observed at or before the snapshot the caller asked
  for, has not expired by then, and has a confidence between 0 and 1.\<close>

theorem topology_current:
  assumes "build_topology E obs ident as_of label subnets vlans = Inr g" "e \<in> set (gr_edges g)"
  shows "\<exists>d. as_of = Some d \<and> topology_utc d = Inr (gr_as_of g) \<and> tg_observed_at e \<le> gr_as_of g \<and>
    (\<forall>t. tg_valid_until e = Some t \<longrightarrow> gr_as_of g < t) \<and> 0 \<le> tg_confidence e \<and> tg_confidence e \<le> 1"
proof (rule build_topology_ok [OF assms(1)])
  fix B d
  assume B: "builder_ok B" "g = graph_of B" and d: "as_of = Some d" "topology_utc d = Inr (tb_as_of B)"
  have "edge_ok (tb_as_of B) e" using graph_of_edges [OF B(1)] assms(2) B(2) by simp
  then show ?thesis using d by (auto simp: B(2) graph_of_def edge_ok_def)
qed

text \<open>C18. The builder keeps the strongest evidence: after any sequence of edges, an edge is kept for exactly the keys (source,
  target, kind and evidence source) that occurred, and it is one of the edges of that key whose confidence,
  observation time and validity are lexicographically greatest.\<close>

theorem topology_strongest_evidence:
  "case map_of (tb_edges (fold put_edge es (new_builder t))) k of
     None \<Rightarrow> k \<notin> edge_key_of ` set es
   | Some e \<Rightarrow> e \<in> set es \<and> edge_key_of e = k \<and> list_all (\<lambda>x. edge_rank x \<le> edge_rank e) (filter (\<lambda>x. edge_key_of x = k) es)"
proof (induction es rule: rev_induct)
  case Nil
  show ?case by (simp add: new_builder_def)
next
  case (snoc x es)
  define B where "B = fold put_edge es (new_builder t)"
  note IH = snoc [folded B_def]
  have step: "fold put_edge (es @ [x]) (new_builder t) = put_edge x B" by (simp add: B_def)
  show ?case
  proof (cases "edge_key_of x = k")
    case False
    then have "map_of (tb_edges (put_edge x B)) k = map_of (tb_edges B) k"
      by (simp add: put_edge_def od_get_set split: option.split)
    with IH False show ?thesis unfolding step by (auto split: option.splits)
  next
    case True
    show ?thesis
    proof (cases "map_of (tb_edges B) k")
      case None
      then have "map_of (tb_edges (put_edge x B)) k = Some x" using True by (simp add: put_edge_def od_get_set)
      then show ?thesis using IH None True unfolding step by (auto simp: image_iff list_all_iff)
    next
      case (Some e)
      then have "map_of (tb_edges (put_edge x B)) k = Some (if edge_rank e < edge_rank x then x else e)"
        using True by (simp add: put_edge_def od_get_set)
      then show ?thesis using IH Some True unfolding step by (auto simp: list_all_iff intro: order_trans less_imp_le)
    qed
  qed
qed

definition demo_topology_env :: topology_env where
  "demo_topology_env = \<lparr>te_uni = (\<lambda>c. [c]), te_sha = map uint, te_float = (\<lambda>r. []), te_fixed2 = (\<lambda>r. []), te_v6 = (\<lambda>_ _. False)\<rparr>"

definition demo_link :: observation where
  "demo_link = \<lparr>ob_kind = lit ''link_layer_neighbor'', ob_fields = [(lit ''chassis_id'', jstr ''sw1''), (lit ''port_id'', jstr ''p1''), (lit ''vlan_id'', JInt 7)],
     ob_source = lit ''lldp'', ob_observed_at = Some (Aware 0 0), ob_expires_at = Some (Aware 120 0)\<rparr>"

definition demo_build :: "topology_graph result" where
  "demo_build = build_topology demo_topology_env [demo_link] (lit ''me'') (Some (Aware 60 0)) None [] []"

lemma demo_built: "(case demo_build of Inl e \<Rightarrow> [] | Inr g \<Rightarrow> map tg_kind (gr_edges g)) = [lit ''observed_vlan'', lit ''link_layer_neighbor'']"
  by code_simp

definition demo_graph :: topology_graph where
  "demo_graph = (case demo_build of Inl e \<Rightarrow> graph_of (new_builder 0) | Inr g \<Rightarrow> g)"

lemma demo_build_graph: "demo_build = Inr demo_graph"
proof (cases demo_build)
  case (Inr g)
  show ?thesis unfolding demo_graph_def Inr sum.case ..
next
  case (Inl e)
  with demo_built show ?thesis by (metis sum.case(1) list.distinct(1))
qed

lemma demo_graph_edges: "map tg_kind (gr_edges demo_graph) = [lit ''observed_vlan'', lit ''link_layer_neighbor'']"
  using demo_built unfolding demo_build_graph sum.case .

lemma demo_graph_length: "length (gr_edges demo_graph) = 2"
  using arg_cong [OF demo_graph_edges, of length] by simp

theorem topology_closed_witness:
  "length (gr_edges demo_graph) = 2 \<and> distinct (map tn_id (gr_nodes demo_graph)) \<and> (\<exists>s. render_svg demo_topology_env demo_graph = Inr s)"
  using topology_closed [OF demo_build_graph [unfolded demo_build_def]] demo_graph_length by metis

lemma demo_graph_first: "hd (gr_edges demo_graph) \<in> set (gr_edges demo_graph)"
  using demo_graph_length by (metis hd_in_set list.size(3) zero_neq_numeral)

theorem topology_current_witness:
  "tg_observed_at (hd (gr_edges demo_graph)) \<le> 60 \<and> (case tg_valid_until (hd (gr_edges demo_graph)) of None \<Rightarrow> True | Some t \<Rightarrow> 60 < t)"
proof -
  obtain d where d: "Some (Aware 60 0) = Some d" "topology_utc d = Inr (gr_as_of demo_graph)"
    and e: "tg_observed_at (hd (gr_edges demo_graph)) \<le> gr_as_of demo_graph"
      "\<forall>t. tg_valid_until (hd (gr_edges demo_graph)) = Some t \<longrightarrow> gr_as_of demo_graph < t"
    using topology_current [OF demo_build_graph [unfolded demo_build_def] demo_graph_first] by metis
  have "topology_utc (Aware 60 0) = Inr 60" by (simp add: topology_utc_def dt_in_range_def dt_min_def dt_max_def)
  then have "gr_as_of demo_graph = 60" using d by (metis option.inject sum.inject(2))
  then show ?thesis using e by (auto split: option.split)
qed

end
