(* ===== verification/Nmap_Xml.thy ===== *)
theory Nmap_Xml
  imports Py_Json "HOL-Library.Sublist"
begin

text \<open>
  \<open>nmap_xml.py\<close>: the streaming reader of nmap's XML reports, with the screen that keeps entity
  declarations and foreign document type declarations away from the XML parser. The parser itself
  (\<open>ElementTree\<close> over expat) is an argument: what one call of \<open>feed\<close> makes available as events, and what
  \<open>close\<close> does. An element is complete when its end event is read, so elements are finite trees.
\<close>

section \<open>Limits and the result types\<close>

record parser_limits =
  max_bytes :: int
  max_depth :: int
  max_hosts :: int
  max_ports_per_host :: int
  max_scripts_per_host :: int
  max_text :: int
  chunk_size :: int

definition parser_limits_check :: "parser_limits \<Rightarrow> unit result" where
  "parser_limits_check l =
     (if Min (set [max_bytes l, max_depth l, max_hosts l, max_ports_per_host l, max_scripts_per_host l, max_text l, chunk_size l]) \<le> 0
      then Inl (ValueError (lit ''all nmap parser limits must be positive'')) else Inr ())"

definition default_limits :: parser_limits where
  "default_limits = \<lparr>max_bytes = 256 * 1024 * 1024, max_depth = 64, max_hosts = 100000, max_ports_per_host = 65536,
     max_scripts_per_host = 4096, max_text = 1048576, chunk_size = 64 * 1024\<rparr>"

record nmap_address =
  na_address :: pystr
  na_type :: pystr
  na_vendor :: "pystr option"

record nmap_hostname =
  nh_name :: pystr
  nh_type :: "pystr option"

record nmap_script =
  ns_id :: pystr
  ns_output :: pystr
  ns_phase :: pystr

record nmap_service =
  sv_name :: "pystr option"
  sv_product :: "pystr option"
  sv_version :: "pystr option"
  sv_extra_info :: "pystr option"
  sv_method :: "pystr option"
  sv_confidence :: "int option"
  sv_tunnel :: "pystr option"
  sv_cpes :: "pystr list"

record nmap_port =
  np_protocol :: pystr
  np_port :: int
  np_state :: "pystr option"
  np_reason :: "pystr option"
  np_reason_ttl :: "int option"
  np_service :: "nmap_service option"
  np_scripts :: "nmap_script list"

record nmap_os_class =
  oc_device_type :: "pystr option"
  oc_vendor :: "pystr option"
  oc_os_family :: "pystr option"
  oc_os_generation :: "pystr option"
  oc_accuracy :: "int option"
  oc_cpes :: "pystr list"

record nmap_os_match =
  om_name :: pystr
  om_accuracy :: "int option"
  om_line :: "int option"
  om_classes :: "nmap_os_class list"

record nmap_host =
  ho_started_at :: "int option"
  ho_ended_at :: "int option"
  ho_state :: "pystr option"
  ho_state_reason :: "pystr option"
  ho_addresses :: "nmap_address list"
  ho_hostnames :: "nmap_hostname list"
  ho_os_matches :: "nmap_os_match list"
  ho_ports :: "nmap_port list"
  ho_scripts :: "nmap_script list"

record nmap_scan_info =
  si_scan_type :: "pystr option"
  si_protocol :: "pystr option"
  si_num_services :: "int option"
  si_services :: "pystr option"

text \<open>A \<open>float\<close> read from text: a number, or an infinity or NaN.\<close>

datatype pyfloat = Finite rat | Non_finite

record nmap_scan =
  sc_scanner :: "pystr option"
  sc_args :: "pystr option"
  sc_version :: "pystr option"
  sc_xml_version :: "pystr option"
  sc_started_at :: "int option"
  sc_finished_at :: "int option"
  sc_elapsed :: "pyfloat option"
  sc_summary :: "pystr option"
  sc_exit_status :: "pystr option"
  sc_scan_info :: "nmap_scan_info list"
  sc_scripts :: "nmap_script list"
  sc_hosts :: "nmap_host list"

section \<open>Elements and attributes\<close>

datatype xml = Element (tag: pystr) (attrib: "(pystr \<times> pystr) list") (text_of: "pystr option") (children: "xml list")

definition get_attr :: "(pystr \<times> pystr) list \<Rightarrow> string \<Rightarrow> pystr option" where
  "get_attr as k = map_of as (lit k)"

definition get :: "xml \<Rightarrow> string \<Rightarrow> pystr option" where
  "get e k = get_attr (attrib e) k"

text \<open>\<open>findall\<close> with a path of tags, and \<open>find\<close> with one tag.\<close>

fun findall :: "string list \<Rightarrow> xml \<Rightarrow> xml list" where
  "findall [] e = [e]"
| "findall (t # ts) e = concat (map (findall ts) (filter (\<lambda>c. tag c = lit t) (children e)))"

declare findall.simps [simp del]

definition find_child :: "string \<Rightarrow> xml \<Rightarrow> xml option" where
  "find_child t e = List.find (\<lambda>c. tag c = lit t) (children e)"

definition bounded_text :: "parser_limits \<Rightarrow> string \<Rightarrow> pystr option \<Rightarrow> pystr option result" where
  "bounded_text l field value =
     (case value of
        None \<Rightarrow> Inr None
      | Some s \<Rightarrow>
          if int (length s) > max_text l then Inl (NmapXmlError (lit field @ lit '' exceeds the configured text limit''))
          else if 0 \<in> set s then Inl (NmapXmlError (lit field @ lit '' contains a NUL byte''))
          else Inr (Some s))"

definition integer_text :: "digit_table \<Rightarrow> string \<Rightarrow> pystr option \<Rightarrow> int option result" where
  "integer_text table field value =
     (case value of
        None \<Rightarrow> Inr None
      | Some s \<Rightarrow> if s = [] then Inr None
          else (case int_of_text table s of
                  None \<Rightarrow> Inl (NmapXmlError (lit field @ lit '' must be an integer''))
                | Some n \<Rightarrow> Inr (Some n)))"

definition floating_text :: "(pystr \<Rightarrow> pyfloat option) \<Rightarrow> string \<Rightarrow> pystr option \<Rightarrow> pyfloat option result" where
  "floating_text float_of field value =
     (case value of
        None \<Rightarrow> Inr None
      | Some s \<Rightarrow> if s = [] then Inr None
          else (case float_of s of
                  None \<Rightarrow> Inl (NmapXmlError (lit field @ lit '' must be a number''))
                | Some x \<Rightarrow> Inr (Some x)))"

text \<open>The instant in microseconds of UTC; the years 1 to 9999 are the ones \<open>datetime\<close> supports.\<close>

definition timestamp :: "digit_table \<Rightarrow> string \<Rightarrow> pystr option \<Rightarrow> int option result" where
  "timestamp table field value =
     bindR (integer_text table field value) (\<lambda>epoch.
       case epoch of
         None \<Rightarrow> Inr None
       | Some n \<Rightarrow> if dt_in_range (seconds n) then Inr (Some (seconds n))
           else Inl (NmapXmlError (lit field @ lit '' is outside the supported timestamp range'')))"

definition read_script :: "parser_limits \<Rightarrow> pystr \<Rightarrow> xml \<Rightarrow> nmap_script result" where
  "read_script l phase e =
     bindR (bounded_text l ''NSE script id'' (get e ''id'')) (\<lambda>script_id.
       case script_id of
         None \<Rightarrow> Inl (NmapXmlError (lit ''NSE script is missing its id''))
       | Some i \<Rightarrow> if i = [] then Inl (NmapXmlError (lit ''NSE script is missing its id''))
           else bindR (bounded_text l ''NSE script output'' (Some (case get e ''output'' of None \<Rightarrow> [] | Some s \<Rightarrow> s))) (\<lambda>produced.
             case produced of None \<Rightarrow> Inl AssertionError
             | Some s \<Rightarrow> Inr \<lparr>ns_id = i, ns_output = s, ns_phase = phase\<rparr>))"

definition somes :: "'a option list \<Rightarrow> 'a list" where
  "somes xs = concat (map (\<lambda>x. case x of None \<Rightarrow> [] | Some v \<Rightarrow> [v]) xs)"

definition read_cpes :: "parser_limits \<Rightarrow> string \<Rightarrow> xml \<Rightarrow> pystr list result" where
  "read_cpes l field e =
     bindR (mapR (\<lambda>c. bounded_text l field (text_of c)) (findall [''cpe''] e)) (\<lambda>vs. Inr (somes vs))"

definition read_service :: "digit_table \<Rightarrow> parser_limits \<Rightarrow> xml \<Rightarrow> nmap_service result" where
  "read_service table l e =
     bindR (bounded_text l ''service name'' (get e ''name'')) (\<lambda>nam.
     bindR (bounded_text l ''service product'' (get e ''product'')) (\<lambda>product.
     bindR (bounded_text l ''service version'' (get e ''version'')) (\<lambda>version.
     bindR (bounded_text l ''service extra info'' (get e ''extrainfo'')) (\<lambda>extra.
     bindR (bounded_text l ''service method'' (get e ''method'')) (\<lambda>how.
     bindR (integer_text table ''service confidence'' (get e ''conf'')) (\<lambda>conf.
     bindR (bounded_text l ''service tunnel'' (get e ''tunnel'')) (\<lambda>tunnel.
     bindR (read_cpes l ''service CPE'' e) (\<lambda>cpes.
       Inr \<lparr>sv_name = nam, sv_product = product, sv_version = version, sv_extra_info = extra, sv_method = how,
         sv_confidence = conf, sv_tunnel = tunnel, sv_cpes = cpes\<rparr>))))))))"

section \<open>One host\<close>

definition or_empty :: "pystr option \<Rightarrow> pystr" where
  "or_empty v = (case v of None \<Rightarrow> [] | Some s \<Rightarrow> s)"

definition read_address :: "parser_limits \<Rightarrow> xml \<Rightarrow> nmap_address result" where
  "read_address l e =
     bindR (bounded_text l ''host address'' (get e ''addr'')) (\<lambda>addr.
     bindR (bounded_text l ''host address type'' (get e ''addrtype'')) (\<lambda>ty.
     bindR (bounded_text l ''host address vendor'' (get e ''vendor'')) (\<lambda>vendor.
       Inr \<lparr>na_address = or_empty addr, na_type = or_empty ty, na_vendor = vendor\<rparr>)))"

definition read_hostname :: "parser_limits \<Rightarrow> xml \<Rightarrow> nmap_hostname result" where
  "read_hostname l e =
     bindR (bounded_text l ''hostname'' (get e ''name'')) (\<lambda>nam.
     bindR (bounded_text l ''hostname type'' (get e ''type'')) (\<lambda>ty.
       Inr \<lparr>nh_name = or_empty nam, nh_type = ty\<rparr>))"

definition read_os_class :: "digit_table \<Rightarrow> parser_limits \<Rightarrow> xml \<Rightarrow> nmap_os_class result" where
  "read_os_class table l e =
     bindR (bounded_text l ''OS class type'' (get e ''type'')) (\<lambda>ty.
     bindR (bounded_text l ''OS class vendor'' (get e ''vendor'')) (\<lambda>vendor.
     bindR (bounded_text l ''OS family'' (get e ''osfamily'')) (\<lambda>family.
     bindR (bounded_text l ''OS generation'' (get e ''osgen'')) (\<lambda>gen.
     bindR (integer_text table ''OS class accuracy'' (get e ''accuracy'')) (\<lambda>accuracy.
     bindR (read_cpes l ''OS CPE'' e) (\<lambda>cpes.
       Inr \<lparr>oc_device_type = ty, oc_vendor = vendor, oc_os_family = family, oc_os_generation = gen,
         oc_accuracy = accuracy, oc_cpes = cpes\<rparr>))))))"

definition read_os_match :: "digit_table \<Rightarrow> parser_limits \<Rightarrow> xml \<Rightarrow> nmap_os_match result" where
  "read_os_match table l e =
     bindR (bounded_text l ''OS match name'' (get e ''name'')) (\<lambda>nam.
       if or_empty nam = [] then Inl (NmapXmlError (lit ''OS match is missing its name''))
       else bindR (mapR (read_os_class table l) (findall [''osclass''] e)) (\<lambda>classes.
            bindR (integer_text table ''OS match accuracy'' (get e ''accuracy'')) (\<lambda>accuracy.
            bindR (integer_text table ''OS match line'' (get e ''line'')) (\<lambda>line.
              Inr \<lparr>om_name = or_empty nam, om_accuracy = accuracy, om_line = line, om_classes = classes\<rparr>))))"

definition on_child :: "xml option \<Rightarrow> (xml \<Rightarrow> 'a option result) \<Rightarrow> 'a option result" where
  "on_child e f = (case e of None \<Rightarrow> Inr None | Some x \<Rightarrow> f x)"

definition port_identity :: "digit_table \<Rightarrow> parser_limits \<Rightarrow> xml \<Rightarrow> (pystr \<times> int) result" where
  "port_identity table l e =
     bindR (bounded_text l ''port protocol'' (get e ''protocol'')) (\<lambda>protocol.
     bindR (integer_text table ''port number'' (get e ''portid'')) (\<lambda>port_number.
       case port_number of
         None \<Rightarrow> Inl (NmapXmlError (lit ''port requires a valid protocol and port number''))
       | Some n \<Rightarrow> if or_empty protocol = [] \<or> \<not> (0 \<le> n \<and> n \<le> 65535)
           then Inl (NmapXmlError (lit ''port requires a valid protocol and port number''))
           else Inr (or_empty protocol, n)))"

definition read_port :: "digit_table \<Rightarrow> parser_limits \<Rightarrow> xml \<Rightarrow> nmap_port result" where
  "read_port table l e =
     bindR (port_identity table l e) (\<lambda>(protocol, port_number).
     bindR (mapR (read_script l (lit ''port'')) (findall [''script''] e)) (\<lambda>scripts.
     bindR (on_child (find_child ''state'' e) (\<lambda>s. bounded_text l ''port state'' (get s ''state''))) (\<lambda>st.
     bindR (on_child (find_child ''state'' e) (\<lambda>s. bounded_text l ''port state reason'' (get s ''reason''))) (\<lambda>reason.
     bindR (on_child (find_child ''state'' e) (\<lambda>s. integer_text table ''port reason TTL'' (get s ''reason_ttl''))) (\<lambda>ttl.
     bindR (on_child (find_child ''service'' e) (\<lambda>s. bindR (read_service table l s) (\<lambda>v. Inr (Some v)))) (\<lambda>service.
       Inr \<lparr>np_protocol = protocol, np_port = port_number, np_state = st, np_reason = reason, np_reason_ttl = ttl,
         np_service = service, np_scripts = scripts\<rparr>))))))"

definition add_port :: "digit_table \<Rightarrow> parser_limits \<Rightarrow> nmap_port list \<Rightarrow> xml \<Rightarrow> nmap_port list result" where
  "add_port table l ports e =
     (if int (length ports) \<ge> max_ports_per_host l then Inl (NmapXmlError (lit ''host exceeds the configured port limit''))
      else bindR (read_port table l e) (\<lambda>p. Inr (ports @ [p])))"

definition script_count :: "nmap_port list \<Rightarrow> nmap_script list \<Rightarrow> int" where
  "script_count ports scripts = int (length (concat (map np_scripts ports)) + length scripts)"

definition read_addresses :: "parser_limits \<Rightarrow> xml \<Rightarrow> nmap_address list result" where
  "read_addresses l e =
     bindR (mapR (read_address l) (findall [''address''] e)) (\<lambda>addresses.
       if \<exists>a \<in> set addresses. na_address a = [] \<or> na_type a = []
       then Inl (NmapXmlError (lit ''host address is missing addr or addrtype'')) else Inr addresses)"

definition read_hostnames :: "parser_limits \<Rightarrow> xml \<Rightarrow> nmap_hostname list result" where
  "read_hostnames l e =
     bindR (mapR (read_hostname l) (findall [''hostnames'', ''hostname''] e)) (\<lambda>hostnames.
       if \<exists>h \<in> set hostnames. nh_name h = []
       then Inl (NmapXmlError (lit ''hostname entry is missing its name'')) else Inr hostnames)"

definition read_ports :: "digit_table \<Rightarrow> parser_limits \<Rightarrow> xml \<Rightarrow> (nmap_port list \<times> nmap_script list) result" where
  "read_ports table l e =
     bindR (foldR (add_port table l) [] (findall [''ports'', ''port''] e)) (\<lambda>ports.
     bindR (mapR (read_script l (lit ''host'')) (findall [''hostscript'', ''script''] e)) (\<lambda>scripts.
       if script_count ports scripts > max_scripts_per_host l
       then Inl (NmapXmlError (lit ''host exceeds the configured NSE script limit'')) else Inr (ports, scripts)))"

definition read_host :: "digit_table \<Rightarrow> parser_limits \<Rightarrow> xml \<Rightarrow> nmap_host result" where
  "read_host table l e =
     bindR (read_addresses l e) (\<lambda>addresses.
     bindR (read_hostnames l e) (\<lambda>hostnames.
     bindR (mapR (read_os_match table l) (findall [''os'', ''osmatch''] e)) (\<lambda>os_matches.
     bindR (read_ports table l e) (\<lambda>(ports, scripts).
     bindR (timestamp table ''host start time'' (get e ''starttime'')) (\<lambda>started.
     bindR (timestamp table ''host end time'' (get e ''endtime'')) (\<lambda>ended.
     bindR (on_child (find_child ''status'' e) (\<lambda>s. bounded_text l ''host state'' (get s ''state''))) (\<lambda>st.
     bindR (on_child (find_child ''status'' e) (\<lambda>s. bounded_text l ''host state reason'' (get s ''reason''))) (\<lambda>reason.
       Inr \<lparr>ho_started_at = started, ho_ended_at = ended, ho_state = st, ho_state_reason = reason, ho_addresses = addresses,
         ho_hostnames = hostnames, ho_os_matches = os_matches, ho_ports = ports, ho_scripts = scripts\<rparr>))))))))"

section \<open>The screen in front of the XML parser\<close>

definition byte_upper :: "8 word \<Rightarrow> 8 word" where
  "byte_upper b = (if 97 \<le> uint b \<and> uint b \<le> 122 then byte_of (uint b - 32) else b)"

definition ascii_bytes :: "string \<Rightarrow> bytes" where
  "ascii_bytes s = map byte_of (lit s)"

definition doctype_marker :: bytes where
  "doctype_marker = ascii_bytes ''<!DOCTYPE''"

definition entity_marker :: bytes where
  "entity_marker = ascii_bytes ''<!ENTITY''"

definition canonical_doctype :: bytes where
  "canonical_doctype = ascii_bytes ''<!DOCTYPE NMAPRUN>''"

text \<open>\<open>bytes.find\<close>: the offset of the first occurrence; \<open>pattern in window\<close> is that there is one.\<close>

fun find_at :: "bytes \<Rightarrow> bytes \<Rightarrow> nat option" where
  "find_at pat [] = (if pat = [] then Some 0 else None)"
| "find_at pat (b # bs) = (if prefix pat (b # bs) then Some 0 else map_option Suc (find_at pat bs))"

lemma find_at_le: "find_at pat bs = Some i \<Longrightarrow> i \<le> length bs"
  by (induction pat bs arbitrary: i rule: find_at.induct) (auto split: if_splits)

text \<open>
  The loop over the declarations of a window: the rest of the window after \<open>search_from\<close> is the argument,
  the result is \<open>pending_doctype\<close>.
\<close>

function doctype_loop :: "bytes \<Rightarrow> bytes result" where
  "doctype_loop rest =
     (case find_at doctype_marker rest of
        None \<Rightarrow> Inr []
      | Some start \<Rightarrow>
          let fragment = drop start rest
          in (case find_at (ascii_bytes ''>'') fragment of
                None \<Rightarrow> if prefix fragment canonical_doctype then Inr fragment
                  else Inl (NmapXmlError (lit ''external or noncanonical DTD is prohibited''))
              | Some stop \<Rightarrow> if take (Suc stop) fragment \<noteq> canonical_doctype
                  then Inl (NmapXmlError (lit ''external or noncanonical DTD is prohibited''))
                  else doctype_loop (drop (Suc stop) fragment)))"
  by pat_completeness auto
termination
proof (relation "measure length")
  fix rest start fragment stop
  assume "find_at doctype_marker rest = Some start" "fragment = drop start rest"
    "\<not> take (Suc stop) fragment \<noteq> canonical_doctype"
  then show "(drop (Suc stop) fragment, rest) \<in> measure length"
    by (cases rest) (auto simp: canonical_doctype_def ascii_bytes_def lit_def)
qed simp

declare doctype_loop.simps [simp del]

text \<open>The two byte strings that the screen carries from chunk to chunk.\<close>

record dtd_screen =
  declaration_tail :: bytes
  pending_doctype :: bytes

definition new_screen :: dtd_screen where
  "new_screen = \<lparr>declaration_tail = [], pending_doctype = []\<rparr>"

definition screen_window :: "dtd_screen \<Rightarrow> bytes \<Rightarrow> bytes" where
  "screen_window s chunk = (if pending_doctype s \<noteq> [] then pending_doctype s else declaration_tail s) @ map byte_upper chunk"

definition last_bytes :: "nat \<Rightarrow> bytes \<Rightarrow> bytes" where
  "last_bytes n w = drop (length w - n) w"

definition screen_chunk :: "dtd_screen \<Rightarrow> bytes \<Rightarrow> dtd_screen result" where
  "screen_chunk s chunk =
     (let window = screen_window s chunk
      in if find_at entity_marker window \<noteq> None then Inl (NmapXmlError (lit ''entity declarations are prohibited''))
         else bindR (doctype_loop window) (\<lambda>pending.
           Inr \<lparr>declaration_tail = (if pending \<noteq> [] then [] else last_bytes (length doctype_marker - 1) window),
             pending_doctype = pending\<rparr>))"

text \<open>The test of the first chunk alone: a byte order mark of UTF-16, or a zero byte.\<close>

definition encoding_guard :: "bytes \<Rightarrow> unit result" where
  "encoding_guard chunk =
     (if prefix [255, 254] chunk \<or> prefix [254, 255] chunk \<or> 0 \<in> set chunk
      then Inl (NmapXmlError (lit ''nmap XML must use an ASCII-compatible encoding'')) else Inr ())"

section \<open>The reader\<close>

text \<open>
  An event is the start of an element (its tag and attributes), its end with the whole element, or the
  error that the parser has queued.
\<close>

datatype xml_event = Start pystr "(pystr \<times> pystr) list" | End xml | Broken pystr

record 'p xml_parser =
  px_feed :: "'p \<Rightarrow> bytes \<Rightarrow> ('p \<times> xml_event list) result"
  px_close :: "'p \<Rightarrow> xml_event list \<times> pystr option"
  px_new :: 'p

record reader =
  rd_depth :: int
  rd_root :: "(pystr \<times> pystr) list option"
  rd_hosts :: "nmap_host list"
  rd_scan_info :: "nmap_scan_info list"
  rd_scripts :: "nmap_script list"
  rd_finished :: "xml option"

definition new_reader :: reader where
  "new_reader = \<lparr>rd_depth = 0, rd_root = None, rd_hosts = [], rd_scan_info = [], rd_scripts = [], rd_finished = None\<rparr>"

definition malformed :: "pystr \<Rightarrow> exn" where
  "malformed msg = NmapXmlError (lit ''malformed nmap XML: '' @ msg)"

definition read_scan_info :: "digit_table \<Rightarrow> parser_limits \<Rightarrow> xml \<Rightarrow> nmap_scan_info result" where
  "read_scan_info table l e =
     bindR (bounded_text l ''scan type'' (get e ''type'')) (\<lambda>ty.
     bindR (bounded_text l ''scan protocol'' (get e ''protocol'')) (\<lambda>protocol.
     bindR (integer_text table ''scan service count'' (get e ''numservices'')) (\<lambda>num.
     bindR (bounded_text l ''scan services'' (get e ''services'')) (\<lambda>services.
       Inr \<lparr>si_scan_type = ty, si_protocol = protocol, si_num_services = num, si_services = services\<rparr>))))"

definition on_start :: "parser_limits \<Rightarrow> reader \<Rightarrow> pystr \<Rightarrow> (pystr \<times> pystr) list \<Rightarrow> reader result" where
  "on_start l r t attrs =
     (let r' = r\<lparr>rd_depth := rd_depth r + 1\<rparr>
      in if rd_depth r' > max_depth l then Inl (NmapXmlError (lit ''nmap XML exceeds the configured nesting limit''))
         else (case rd_root r of
                 Some _ \<Rightarrow> Inr r'
               | None \<Rightarrow> if t \<noteq> lit ''nmaprun'' then Inl (NmapXmlError (lit ''document root must be nmaprun''))
                   else Inr (r'\<lparr>rd_root := Some attrs\<rparr>)))"

definition on_element :: "digit_table \<Rightarrow> parser_limits \<Rightarrow> reader \<Rightarrow> xml \<Rightarrow> reader result" where
  "on_element table l r e =
     (if tag e = lit ''scaninfo'' then
        bindR (read_scan_info table l e) (\<lambda>i. Inr (r\<lparr>rd_scan_info := rd_scan_info r @ [i]\<rparr>))
      else if tag e = lit ''host'' then
        if int (length (rd_hosts r)) \<ge> max_hosts l then Inl (NmapXmlError (lit ''scan exceeds the configured host limit''))
        else bindR (read_host table l e) (\<lambda>h. Inr (r\<lparr>rd_hosts := rd_hosts r @ [h]\<rparr>))
      else if tag e = lit ''finished'' then Inr (r\<lparr>rd_finished := Some e\<rparr>)
      else if tag e = lit ''prescript'' \<or> tag e = lit ''postscript'' then
        bindR (mapR (read_script l (if tag e = lit ''prescript'' then lit ''pre'' else lit ''post'')) (findall [''script''] e)) (\<lambda>ss.
          Inr (r\<lparr>rd_scripts := rd_scripts r @ ss\<rparr>))
      else Inr r)"

definition on_event :: "digit_table \<Rightarrow> parser_limits \<Rightarrow> reader \<Rightarrow> xml_event \<Rightarrow> reader result" where
  "on_event table l r ev =
     (case ev of
        Start t attrs \<Rightarrow> on_start l r t attrs
      | End e \<Rightarrow> bindR (on_element table l r e) (\<lambda>r'. Inr (r'\<lparr>rd_depth := rd_depth r' - 1\<rparr>))
      | Broken msg \<Rightarrow> Inl (malformed msg))"

text \<open>What \<open>stream.read\<close> returns: bytes, or some other (non-empty) object; the list ends at the end of the file.\<close>

datatype piece = Bytes_piece bytes | Other_piece

record 'p reading =
  rg_total :: int
  rg_screen :: dtd_screen
  rg_parser :: 'p
  rg_reader :: reader

definition new_reading :: "'p xml_parser \<Rightarrow> 'p reading" where
  "new_reading px = \<lparr>rg_total = 0, rg_screen = new_screen, rg_parser = px_new px, rg_reader = new_reader\<rparr>"

definition read_piece :: "'p xml_parser \<Rightarrow> digit_table \<Rightarrow> parser_limits \<Rightarrow> 'p reading \<Rightarrow> piece \<Rightarrow> 'p reading result" where
  "read_piece px table l g p =
     (case p of
        Other_piece \<Rightarrow> Inl (NmapXmlError (lit ''nmap XML input must be opened in binary mode''))
      | Bytes_piece chunk \<Rightarrow>
          let total = rg_total g + int (length chunk)
          in if total > max_bytes l then Inl (NmapXmlError (lit ''nmap XML exceeds the configured byte limit''))
             else bindR (if total = int (length chunk) then encoding_guard chunk else Inr ()) (\<lambda>_.
                  bindR (screen_chunk (rg_screen g) chunk) (\<lambda>screen.
                  bindR (px_feed px (rg_parser g) chunk) (\<lambda>(parser, events).
                  bindR (foldR (on_event table l) (rg_reader g) events) (\<lambda>r.
                    Inr \<lparr>rg_total = total, rg_screen = screen, rg_parser = parser, rg_reader = r\<rparr>)))))"

definition on_finished :: "reader \<Rightarrow> (xml \<Rightarrow> 'a option result) \<Rightarrow> 'a option result" where
  "on_finished r f = on_child (rd_finished r) f"

definition scan_of :: "(pystr \<Rightarrow> pyfloat option) \<Rightarrow> digit_table \<Rightarrow> parser_limits \<Rightarrow> reader \<Rightarrow> nmap_scan result" where
  "scan_of float_of table l r =
     (case rd_root r of
        None \<Rightarrow> Inl AssertionError
      | Some attrs \<Rightarrow>
          bindR (bounded_text l ''scanner'' (get_attr attrs ''scanner'')) (\<lambda>scanner.
          bindR (bounded_text l ''scan arguments'' (get_attr attrs ''args'')) (\<lambda>args.
          bindR (bounded_text l ''nmap version'' (get_attr attrs ''version'')) (\<lambda>version.
          bindR (bounded_text l ''XML output version'' (get_attr attrs ''xmloutputversion'')) (\<lambda>xml_version.
          bindR (timestamp table ''scan start time'' (get_attr attrs ''start'')) (\<lambda>started.
          bindR (on_finished r (\<lambda>f. timestamp table ''scan finish time'' (get f ''time''))) (\<lambda>finished.
          bindR (on_finished r (\<lambda>f. floating_text float_of ''scan elapsed time'' (get f ''elapsed''))) (\<lambda>elapsed.
          bindR (on_finished r (\<lambda>f. bounded_text l ''scan summary'' (get f ''summary''))) (\<lambda>summary.
          bindR (on_finished r (\<lambda>f. bounded_text l ''scan exit status'' (get f ''exit''))) (\<lambda>exit_status.
            Inr \<lparr>sc_scanner = scanner, sc_args = args, sc_version = version, sc_xml_version = xml_version,
              sc_started_at = started, sc_finished_at = finished, sc_elapsed = elapsed, sc_summary = summary,
              sc_exit_status = exit_status, sc_scan_info = rd_scan_info r, sc_scripts = rd_scripts r, sc_hosts = rd_hosts r\<rparr>))))))))))"

text \<open>
  The whole of \<open>_parse_stream\<close>. The events that \<open>close\<close> makes available stay in the parser's queue: the code
  reads none after it.
\<close>

definition parse_stream ::
    "'p xml_parser \<Rightarrow> (pystr \<Rightarrow> pyfloat option) \<Rightarrow> digit_table \<Rightarrow> parser_limits \<Rightarrow> piece stream \<Rightarrow> nmap_scan result" where
  "parse_stream px float_of table l source =
     bindR (consume (read_piece px table l) (new_reading px) source) (\<lambda>g.
       if rg_total g = 0 then Inl (NmapXmlError (lit ''nmap XML document is empty''))
       else if pending_doctype (rg_screen g) \<noteq> [] then Inl (NmapXmlError (lit ''incomplete DTD declaration is prohibited''))
       else (case px_close px (rg_parser g) of
               (_, Some msg) \<Rightarrow> Inl (malformed msg)
             | (_, None) \<Rightarrow> scan_of float_of table l (rg_reader g)))"

text \<open>A file opened in binary mode returns its content in pieces of the requested size.\<close>

function file_pieces :: "nat \<Rightarrow> bytes \<Rightarrow> piece list" where
  "file_pieces n data = (if data = [] \<or> n = 0 then [] else Bytes_piece (take n data) # file_pieces n (drop n data))"
  by pat_completeness auto
termination by (relation "measure (length \<circ> snd)") auto

declare file_pieces.simps [simp del]

datatype nmap_source = Stream_source "piece stream" | Path_source "bytes result"

definition parse_nmap_xml ::
    "'p xml_parser \<Rightarrow> (pystr \<Rightarrow> pyfloat option) \<Rightarrow> digit_table \<Rightarrow> nmap_source \<Rightarrow> parser_limits option \<Rightarrow> nmap_scan result" where
  "parse_nmap_xml px float_of table source limits =
     (let l = (case limits of None \<Rightarrow> default_limits | Some l \<Rightarrow> l)
      in (case source of
            Stream_source s \<Rightarrow> parse_stream px float_of table l s
          | Path_source r \<Rightarrow> bindR r (\<lambda>data. parse_stream px float_of table l (file_pieces (nat (chunk_size l)) data, None))))"

section \<open>The screen is exact and does not depend on the chunks\<close>

lemma find_at_None: "find_at pat bs = None \<longleftrightarrow> (\<forall>s. suffix s bs \<longrightarrow> \<not> prefix pat s)"
  by (induction pat bs rule: find_at.induct) (auto simp: suffix_Cons)

lemma find_at_Some:
  "find_at pat bs = Some i \<Longrightarrow> prefix pat (drop i bs) \<and> (\<forall>s. suffix s bs \<and> prefix pat s \<longrightarrow> suffix s (drop i bs))"
  by (induction pat bs arbitrary: i rule: find_at.induct) (auto simp: suffix_Cons split: if_splits)

lemma find_at_sublist: "find_at pat bs = None \<longleftrightarrow> \<not> sublist pat bs"
  unfolding find_at_None sublist_def suffix_def prefix_def by auto

lemmas marker_defs = doctype_marker_def entity_marker_def canonical_doctype_def ascii_bytes_def lit_def

lemma marker_lengths [simp]:
  "length doctype_marker = 9" "length entity_marker = 8" "length canonical_doctype = 18"
  by (simp_all add: marker_defs)

lemma marker_hd: "prefix doctype_marker s \<Longrightarrow> s \<noteq> [] \<and> s ! 0 = byte_of 60"
  by (auto simp: marker_defs prefix_def)

lemma canonical_inside: "0 < k \<Longrightarrow> k < 18 \<Longrightarrow> canonical_doctype ! k \<noteq> byte_of 60"
proof -
  assume k: "0 < k" "k < 18"
  have "list_all (\<lambda>k. canonical_doctype ! k \<noteq> byte_of 60) [1..<18]" by code_simp
  with k show ?thesis by (simp add: list_all_iff)
qed

lemma canonical_gt: "canonical_doctype ! 17 = byte_of 62" and canonical_gt_only: "k < 17 \<Longrightarrow> canonical_doctype ! k \<noteq> byte_of 62"
proof -
  show "canonical_doctype ! 17 = byte_of 62" by code_simp
  have "list_all (\<lambda>k. canonical_doctype ! k \<noteq> byte_of 62) [0..<17]" by code_simp
  then show "k < 17 \<Longrightarrow> canonical_doctype ! k \<noteq> byte_of 62" by (simp add: list_all_iff)
qed

lemma comparable_nth:
  "prefix f c \<or> prefix c f \<Longrightarrow> k < length f \<Longrightarrow> k < length c \<Longrightarrow> f ! k = c ! k"
  by (auto simp: prefix_def nth_append)

text \<open>Within a (partial) canonical declaration the marker occurs at its start only.\<close>

lemma marker_inside:
  assumes "prefix doctype_marker s" "suffix s f" "prefix f canonical_doctype \<or> prefix canonical_doctype f" "s \<noteq> f"
  shows "18 \<le> length f - length s"
proof (rule ccontr)
  assume short: "\<not> 18 \<le> length f - length s"
  obtain p where f: "f = p @ s" using assms(2) by (auto simp: suffix_def)
  with assms(4) have p: "0 < length p" by simp
  have s: "s \<noteq> []" "s ! 0 = byte_of 60" using marker_hd [OF assms(1)] by auto
  have "f ! length p = byte_of 60" using s by (simp add: f nth_append)
  moreover have "f ! length p = canonical_doctype ! length p"
    by (rule comparable_nth [OF assms(3)]) (use s short in \<open>simp_all add: f\<close>)
  ultimately show False using canonical_inside [OF p] short by (simp add: f)
qed

lemma gt_position:
  assumes "prefix canonical_doctype f" "find_at (ascii_bytes ''>'') f = Some stop"
  shows "stop = 17"
proof -
  obtain r where f: "f = canonical_doctype @ r" using assms(1) by (auto simp: prefix_def)
  have gt: "ascii_bytes ''>'' = [byte_of 62]" by (simp add: ascii_bytes_def lit_def)
  have at17: "prefix [byte_of 62] (drop 17 f)"
    using canonical_gt by (simp add: f Cons_nth_drop_Suc [symmetric])
  have "suffix (drop 17 f) (drop stop f)"
    using find_at_Some [OF assms(2)] at17 gt suffix_drop by metis
  then have le: "stop \<le> 17" by (auto dest!: suffix_length_le simp: f)
  have "prefix [byte_of 62] (drop stop f)" using find_at_Some [OF assms(2)] gt by simp
  moreover have "drop stop f = canonical_doctype ! stop # drop (Suc stop) f"
    using le by (simp add: f Cons_nth_drop_Suc [symmetric] nth_append)
  ultimately have "canonical_doctype ! stop = byte_of 62" by simp
  with canonical_gt_only le show ?thesis by (metis le_neq_implies_less)
qed

lemma gt_found: "prefix canonical_doctype f \<Longrightarrow> find_at (ascii_bytes ''>'') f \<noteq> None"
proof -
  assume "prefix canonical_doctype f"
  then obtain r where f: "f = canonical_doctype @ r" by (auto simp: prefix_def)
  have "prefix (ascii_bytes ''>'') (drop 17 f)"
    using canonical_gt by (simp add: f Cons_nth_drop_Suc [symmetric] ascii_bytes_def lit_def)
  then show ?thesis using suffix_drop find_at_None by blast
qed

text \<open>
  What the loop over the declarations of a window establishes: every marker starts the canonical declaration,
  apart from the last one when the window ends inside it, and that one is pending.
\<close>

definition doctypes_clean :: "bytes \<Rightarrow> bytes \<Rightarrow> bool" where
  "doctypes_clean w pending \<longleftrightarrow>
     (\<forall>s. suffix s w \<longrightarrow> prefix doctype_marker s \<longrightarrow> prefix canonical_doctype s \<or> (pending \<noteq> [] \<and> s = pending))"

definition pending_ok :: "bytes \<Rightarrow> bytes \<Rightarrow> bool" where
  "pending_ok w pending \<longleftrightarrow> pending = [] \<or>
     (suffix pending w \<and> prefix doctype_marker pending \<and> strict_prefix pending canonical_doctype)"

lemma doctype_loop_sound:
  "doctype_loop w = Inr pending \<Longrightarrow> doctypes_clean w pending \<and> pending_ok w pending"
proof (induction w rule: doctype_loop.induct)
  case (1 w)
  show ?case
  proof (cases "find_at doctype_marker w")
    case None
    with 1(2) show ?thesis
      by (simp add: doctype_loop.simps [of w] find_at_None doctypes_clean_def pending_ok_def)
  next
    case (Some i)
    define f where "f = drop i w"
    have f: "prefix doctype_marker f" "suffix f w" "\<And>s. suffix s w \<Longrightarrow> prefix doctype_marker s \<Longrightarrow> suffix s f"
      using find_at_Some [OF Some] by (auto simp: f_def suffix_drop)
    show ?thesis
    proof (cases "find_at (ascii_bytes ''>'') f")
      case None
      with 1(2) Some have q: "pending = f" "prefix f canonical_doctype"
        by (auto simp: doctype_loop.simps [of w] f_def [symmetric] split: if_splits)
      have "f \<noteq> canonical_doctype" using None gt_found [of canonical_doctype] by auto
      with q have "strict_prefix f canonical_doctype" by simp
      moreover have "s = f" if "suffix s w" "prefix doctype_marker s" for s
      proof (rule ccontr)
        assume "s \<noteq> f"
        then have "18 \<le> length f - length s" using marker_inside [OF that(2) f(3) [OF that]] q(2) by simp
        moreover have "length f \<le> 18" "9 \<le> length s"
          using prefix_length_le [OF q(2)] prefix_length_le [OF that(2)] by simp_all
        ultimately show False by simp
      qed
      moreover have "f \<noteq> []" using marker_hd [OF f(1)] by simp
      ultimately show ?thesis using f(1,2) unfolding doctypes_clean_def pending_ok_def q(1) by blast
    next
      case stop: (Some j)
      with 1(2) Some have c: "take (Suc j) f = canonical_doctype" and rest: "doctype_loop (drop (Suc j) f) = Inr pending"
        by (auto simp: doctype_loop.simps [of w] f_def [symmetric] split: if_splits)
      have pc: "prefix canonical_doctype f" using c take_is_prefix by metis
      have j: "j = 17" by (rule gt_position [OF pc stop])
      have IH: "doctypes_clean (drop 18 f) pending" "pending_ok (drop 18 f) pending"
        using 1(1) [OF Some f_def stop] c rest j by auto
      have "suffix s (drop 18 f)" if "suffix s w" "prefix doctype_marker s" "s \<noteq> f" for s
      proof -
        have "suffix s f" using f(3) that by blast
        moreover have "18 \<le> length f - length s" using marker_inside that(2,3) pc calculation by blast
        ultimately show ?thesis by (auto simp: suffix_def)
      qed
      then have "doctypes_clean w pending" using IH(1) pc unfolding doctypes_clean_def by blast
      moreover have "pending_ok w pending"
        using IH(2) suffix_order.trans [OF suffix_drop f(2)] unfolding pending_ok_def by (meson suffix_order.trans)
      ultimately show ?thesis by simp
    qed
  qed
qed

lemma doctype_loop_complete:
  assumes "\<And>s. suffix s w \<Longrightarrow> prefix doctype_marker s \<Longrightarrow> prefix canonical_doctype s \<or> prefix s canonical_doctype"
  shows "\<exists>pending. doctype_loop w = Inr pending"
  using assms
proof (induction w rule: doctype_loop.induct)
  case (1 w)
  show ?case
  proof (cases "find_at doctype_marker w")
    case (Some i)
    define f where "f = drop i w"
    have f: "prefix doctype_marker f" "suffix f w"
      using find_at_Some [OF Some] by (auto simp: f_def suffix_drop)
    show ?thesis
    proof (cases "find_at (ascii_bytes ''>'') f")
      case None
      then have "prefix f canonical_doctype" using 1(2) [OF f(2,1)] gt_found by blast
      then show ?thesis using None Some by (simp add: doctype_loop.simps [of w] f_def [symmetric])
    next
      case stop: (Some j)
      have pc: "prefix canonical_doctype f"
      proof (rule ccontr)
        assume no: "\<not> prefix canonical_doctype f"
        then have pf: "prefix f canonical_doctype" using 1(2) [OF f(2,1)] by blast
        have "prefix [byte_of 62] (drop j f)"
          using find_at_Some [OF stop] by (simp add: ascii_bytes_def lit_def)
        then have jf: "j < length f" "f ! j = byte_of 62"
          by (auto simp: prefix_def) (metis drop_all leI list.distinct(1), metis drop_eq_Nil hd_drop_conv_nth leI list.distinct(1) list.sel(1))
        have "f ! j = canonical_doctype ! j" using pf jf prefix_length_le [OF pf] by (intro comparable_nth) auto
        then have "17 \<le> j" using jf canonical_gt_only by (metis not_le)
        with jf have "18 \<le> length f" by simp
        with no show False using prefix_length_prefix [OF prefix_order.refl pf] by simp
      qed
      have j: "j = 17" by (rule gt_position [OF pc stop])
      have tk: "take (Suc j) f = canonical_doctype" using pc j by (auto simp: prefix_def)
      have "\<exists>pending. doctype_loop (drop (Suc j) f) = Inr pending"
        using 1(1) [OF Some f_def stop] tk 1(2) f(2) suffix_order.trans suffix_drop by blast
      then show ?thesis using tk stop Some by (simp add: doctype_loop.simps [of w] f_def [symmetric])
    qed
  qed (simp add: doctype_loop.simps [of w])
qed

text \<open>
  What the screen knows after the bytes \<open>d\<close> (upper-cased): no entity declaration so far, every marker is
  accounted for, and enough of the end is kept to see a marker that the next chunk completes.
\<close>

definition screen_ok :: "dtd_screen \<Rightarrow> bytes \<Rightarrow> bool" where
  "screen_ok s d \<longleftrightarrow> \<not> sublist entity_marker d \<and> doctypes_clean d (pending_doctype s) \<and>
     pending_ok d (pending_doctype s) \<and> (pending_doctype s = [] \<longrightarrow> declaration_tail s = last_bytes 8 d)"

definition screen_part :: "dtd_screen \<Rightarrow> bytes" where
  "screen_part s = (if pending_doctype s \<noteq> [] then pending_doctype s else declaration_tail s)"

lemma screen_part_ok:
  assumes "screen_ok s d"
  shows "suffix (screen_part s) d \<and> (8 \<le> length (screen_part s) \<or> screen_part s = d)"
proof (cases "pending_doctype s = []")
  case True
  then have "screen_part s = last_bytes 8 d" using assms by (simp add: screen_ok_def screen_part_def)
  then show ?thesis by (cases "8 \<le> length d") (simp_all add: last_bytes_def suffix_drop)
next
  case False
  then have "suffix (pending_doctype s) d" "prefix doctype_marker (pending_doctype s)"
    using assms by (auto simp: screen_ok_def pending_ok_def)
  then show ?thesis using False prefix_length_le by (fastforce simp: screen_part_def)
qed

lemma screen_window_suffix:
  assumes "screen_ok s d"
  shows "suffix (screen_window s c) (d @ map byte_upper c)"
  using screen_part_ok [OF assms] by (auto simp: screen_window_def screen_part_def suffix_def)

text \<open>An occurrence of a short pattern ends before the chunk or lies in the window.\<close>

lemma occurrence_split:
  assumes "screen_ok s d" "suffix x (d @ map byte_upper c)" "prefix pat x" "length pat \<le> 9"
  obtains "suffix x (screen_window s c)" | x' where "x = x' @ map byte_upper c" "suffix x' d" "prefix pat x'"
proof -
  define u where "u = map byte_upper c"
  obtain p where d: "d = p @ screen_part s" and long: "8 \<le> length (screen_part s) \<or> p = []"
    using screen_part_ok [OF assms(1)] by (auto simp: suffix_def)
  have w: "screen_window s c = screen_part s @ u" by (simp add: screen_window_def screen_part_def u_def)
  obtain q where x: "d @ u = q @ x" using assms(2) by (auto simp: suffix_def u_def)
  show ?thesis
  proof (cases "length p \<le> length q")
    case True
    then have "suffix x (screen_part s @ u)"
    proof -
      obtain r where "q = p @ r" using x True unfolding d by (auto simp: append_eq_append_conv2)
      then show ?thesis using x unfolding d suffix_def by auto
    qed
    then show ?thesis using that(1) w by simp
  next
    case False
    then obtain r where r: "p = q @ r" "r \<noteq> []" using x unfolding d by (auto simp: append_eq_append_conv2)
    then have x': "x = (r @ screen_part s) @ u" using x unfolding d by simp
    have "8 \<le> length (screen_part s)" using long r by auto
    then have "9 \<le> length (r @ screen_part s)" using r(2) by (cases r) simp_all
    then have "prefix pat (r @ screen_part s)"
      using assms(3,4) x' prefix_length_prefix [OF assms(3), of "r @ screen_part s"] by simp
    moreover have "suffix (r @ screen_part s) d" using r d by (simp add: suffix_def)
    ultimately show ?thesis using that(2) x' u_def by blast
  qed
qed

lemma new_screen_ok: "screen_ok new_screen []"
  by (auto simp: screen_ok_def new_screen_def doctypes_clean_def pending_ok_def last_bytes_def marker_defs)

lemma last_bytes_suffix: "suffix w d \<Longrightarrow> n \<le> length w \<Longrightarrow> last_bytes n d = last_bytes n w"
  by (auto simp: suffix_def last_bytes_def)

lemma screen_chunk_sound:
  assumes ok: "screen_ok s d" and step: "screen_chunk s c = Inr t"
  shows "screen_ok t (d @ map byte_upper c)"
proof -
  define w where "w = screen_window s c"
  define u where "u = map byte_upper c"
  have none: "find_at entity_marker w = None"
    and loop: "doctype_loop w = Inr (pending_doctype t)"
    and tail: "pending_doctype t = [] \<Longrightarrow> declaration_tail t = last_bytes 8 w"
    using step by (auto simp: screen_chunk_def w_def Let_def result_simps split: if_splits)
  have w: "suffix w (d @ u)" using screen_window_suffix [OF ok] by (simp add: w_def u_def)
  have clean: "doctypes_clean w (pending_doctype t)" and pend: "pending_ok w (pending_doctype t)"
    using doctype_loop_sound [OF loop] by simp_all
  have "\<not> sublist entity_marker (d @ u)"
  proof
    assume "sublist entity_marker (d @ u)"
    then obtain x where x: "suffix x (d @ u)" "prefix entity_marker x"
      using find_at_sublist find_at_None by blast
    show False
    proof (rule occurrence_split [OF ok x(1) [unfolded u_def] x(2)])
      show "suffix x (screen_window s c) \<Longrightarrow> False" using none x(2) by (simp add: find_at_None w_def)
      show "suffix x' d \<Longrightarrow> prefix entity_marker x' \<Longrightarrow> False" for x'
        using ok find_at_sublist find_at_None by (auto simp: screen_ok_def)
    qed simp
  qed
  moreover have "doctypes_clean (d @ u) (pending_doctype t)"
    unfolding doctypes_clean_def
  proof (intro allI impI)
    fix x assume x: "suffix x (d @ u)" "prefix doctype_marker x"
    show "prefix canonical_doctype x \<or> pending_doctype t \<noteq> [] \<and> x = pending_doctype t"
    proof (rule occurrence_split [OF ok x(1) [unfolded u_def] x(2)])
      assume "suffix x (screen_window s c)"
      then show ?thesis using clean x(2) by (simp add: doctypes_clean_def w_def)
    next
      fix x' assume x': "x = x' @ map byte_upper c" "suffix x' d" "prefix doctype_marker x'"
      then consider "prefix canonical_doctype x'" | "pending_doctype s \<noteq> []" "x' = pending_doctype s"
        using ok by (auto simp: screen_ok_def doctypes_clean_def)
      then show ?thesis
      proof cases
        case 1
        then show ?thesis using x'(1) by simp
      next
        case 2
        then have "x = w" using x'(1) by (simp add: w_def screen_window_def)
        then show ?thesis using clean x(2) by (simp add: doctypes_clean_def)
      qed
    qed simp
  qed
  moreover have "pending_ok (d @ u) (pending_doctype t)"
    using pend suffix_order.trans [OF _ w] by (auto simp: pending_ok_def)
  moreover have "declaration_tail t = last_bytes 8 (d @ u)" if "pending_doctype t = []"
  proof (cases "8 \<le> length (screen_part s)")
    case True
    then have "8 \<le> length w" by (simp add: w_def screen_window_def screen_part_def split: if_splits)
    then show ?thesis using tail [OF that] last_bytes_suffix [OF w] by simp
  next
    case False
    then have "w = d @ u" using screen_part_ok [OF ok] by (simp add: w_def u_def screen_window_def screen_part_def split: if_splits)
    then show ?thesis using tail [OF that] by simp
  qed
  ultimately show ?thesis by (simp add: screen_ok_def u_def)
qed

definition dtd_free :: "bytes \<Rightarrow> bool" where
  "dtd_free d \<longleftrightarrow> \<not> sublist entity_marker d \<and> (\<forall>s \<in> set (suffixes d). prefix doctype_marker s \<longrightarrow> prefix canonical_doctype s)"

lemma dtd_free_iff:
  "dtd_free d \<longleftrightarrow> \<not> sublist entity_marker d \<and> (\<forall>s. suffix s d \<longrightarrow> prefix doctype_marker s \<longrightarrow> prefix canonical_doctype s)"
  by (auto simp: dtd_free_def)

lemma screen_chunk_complete:
  assumes ok: "screen_ok s d" and free: "dtd_free (d @ map byte_upper c @ r)"
  shows "\<exists>t. screen_chunk s c = Inr t"
proof -
  define w where "w = screen_window s c"
  have w: "suffix w (d @ map byte_upper c)" using screen_window_suffix [OF ok] by (simp add: w_def)
  have "\<not> sublist entity_marker w"
  proof
    assume "sublist entity_marker w"
    moreover have "sublist w (d @ map byte_upper c @ r)"
      using w by (metis append.assoc sublist_appendI suffix_def)
    ultimately show False using free sublist_order.order_trans unfolding dtd_free_iff by blast
  qed
  moreover have "\<exists>q. doctype_loop w = Inr q"
  proof (rule doctype_loop_complete)
    fix x assume x: "suffix x w" "prefix doctype_marker x"
    have "suffix (x @ r) (d @ map byte_upper c @ r)" using suffix_order.trans [OF x(1) w] by (auto simp: suffix_def)
    moreover have "prefix doctype_marker (x @ r)" using x(2) by simp
    ultimately have "prefix canonical_doctype (x @ r)" using free unfolding dtd_free_iff by blast
    then show "prefix canonical_doctype x \<or> prefix x canonical_doctype"
      using prefix_same_cases [of canonical_doctype "x @ r" x] by simp
  qed
  ultimately show ?thesis by (auto simp: screen_chunk_def w_def Let_def find_at_sublist)
qed

text \<open>The screen over a whole input, as the loop and the test after it run it.\<close>

definition screen_document :: "bytes list \<Rightarrow> unit result" where
  "screen_document chunks =
     bindR (foldR screen_chunk new_screen chunks) (\<lambda>s.
       if pending_doctype s \<noteq> [] then Inl (NmapXmlError (lit ''incomplete DTD declaration is prohibited'')) else Inr ())"

lemma screen_fold_sound:
  "foldR screen_chunk s chunks = Inr t \<Longrightarrow> screen_ok s d \<Longrightarrow> screen_ok t (d @ map byte_upper (concat chunks))"
proof (induction chunks arbitrary: s d)
  case (Cons c cs)
  then obtain s' where "screen_chunk s c = Inr s'" "foldR screen_chunk s' cs = Inr t" by (auto simp: result_simps)
  then show ?case using Cons.IH screen_chunk_sound [OF Cons.prems(2)] by fastforce
qed simp

lemma screen_fold_complete:
  "screen_ok s d \<Longrightarrow> dtd_free (d @ map byte_upper (concat chunks)) \<Longrightarrow> \<exists>t. foldR screen_chunk s chunks = Inr t"
proof (induction chunks arbitrary: s d)
  case (Cons c cs)
  obtain s' where s': "screen_chunk s c = Inr s'"
    using screen_chunk_complete [OF Cons.prems(1)] Cons.prems(2) by auto
  then show ?case using Cons.IH [OF screen_chunk_sound [OF Cons.prems(1) s']] Cons.prems(2) by simp
qed simp

lemma screen_ok_free: "screen_ok s d \<Longrightarrow> pending_doctype s = [] \<Longrightarrow> dtd_free d"
  by (simp add: screen_ok_def dtd_free_iff doctypes_clean_def)

lemma screen_ok_pending: "screen_ok s d \<Longrightarrow> dtd_free d \<Longrightarrow> pending_doctype s = []"
  by (auto simp: screen_ok_def dtd_free_iff pending_ok_def dest: prefix_order.less_le_trans)

text \<open>C19. The screen in front of the XML parser is exact and does not depend on how the input is cut into chunks: it
  accepts precisely the inputs in which, after upper-casing, no \<open><!ENTITY\<close> occurs and every \<open><!DOCTYPE\<close> is the start of
  \<open><!DOCTYPE NMAPRUN>\<close>.\<close>

theorem dtd_screen_exact:
  "screen_document chunks = Inr () \<longleftrightarrow> dtd_free (map byte_upper (concat chunks))"
proof
  assume "screen_document chunks = Inr ()"
  then obtain s where s: "foldR screen_chunk new_screen chunks = Inr s" "pending_doctype s = []"
    by (auto simp: screen_document_def result_simps split: if_splits)
  show "dtd_free (map byte_upper (concat chunks))"
    using screen_ok_free [OF screen_fold_sound [OF s(1) new_screen_ok]] s(2) by simp
next
  assume free: "dtd_free (map byte_upper (concat chunks))"
  then obtain s where s: "foldR screen_chunk new_screen chunks = Inr s"
    using screen_fold_complete [OF new_screen_ok] by auto
  then show "screen_document chunks = Inr ()"
    using screen_ok_pending [OF screen_fold_sound [OF s new_screen_ok]] free by (simp add: screen_document_def)
qed

section \<open>What an accepted scan satisfies\<close>

definition text_ok :: "parser_limits \<Rightarrow> pystr \<Rightarrow> bool" where
  "text_ok l s \<longleftrightarrow> int (length s) \<le> max_text l \<and> 0 \<notin> set s"

definition opt_ok :: "parser_limits \<Rightarrow> pystr option \<Rightarrow> bool" where
  "opt_ok l v = (case v of None \<Rightarrow> True | Some s \<Rightarrow> text_ok l s)"

definition script_ok :: "parser_limits \<Rightarrow> nmap_script \<Rightarrow> bool" where
  "script_ok l s \<longleftrightarrow> ns_id s \<noteq> [] \<and> text_ok l (ns_id s) \<and> text_ok l (ns_output s)"

definition service_ok :: "parser_limits \<Rightarrow> nmap_service \<Rightarrow> bool" where
  "service_ok l s \<longleftrightarrow> opt_ok l (sv_name s) \<and> opt_ok l (sv_product s) \<and> opt_ok l (sv_version s) \<and> opt_ok l (sv_extra_info s) \<and>
     opt_ok l (sv_method s) \<and> opt_ok l (sv_tunnel s) \<and> list_all (text_ok l) (sv_cpes s)"

definition port_ok :: "parser_limits \<Rightarrow> nmap_port \<Rightarrow> bool" where
  "port_ok l p \<longleftrightarrow> np_protocol p \<noteq> [] \<and> text_ok l (np_protocol p) \<and> 0 \<le> np_port p \<and> np_port p \<le> 65535 \<and>
     opt_ok l (np_state p) \<and> opt_ok l (np_reason p) \<and> pred_option (service_ok l) (np_service p) \<and> list_all (script_ok l) (np_scripts p)"

definition address_ok :: "parser_limits \<Rightarrow> nmap_address \<Rightarrow> bool" where
  "address_ok l a \<longleftrightarrow> na_address a \<noteq> [] \<and> na_type a \<noteq> [] \<and> text_ok l (na_address a) \<and> text_ok l (na_type a) \<and> opt_ok l (na_vendor a)"

definition hostname_ok :: "parser_limits \<Rightarrow> nmap_hostname \<Rightarrow> bool" where
  "hostname_ok l h \<longleftrightarrow> nh_name h \<noteq> [] \<and> text_ok l (nh_name h) \<and> opt_ok l (nh_type h)"

definition os_class_ok :: "parser_limits \<Rightarrow> nmap_os_class \<Rightarrow> bool" where
  "os_class_ok l c \<longleftrightarrow> opt_ok l (oc_device_type c) \<and> opt_ok l (oc_vendor c) \<and> opt_ok l (oc_os_family c) \<and>
     opt_ok l (oc_os_generation c) \<and> list_all (text_ok l) (oc_cpes c)"

definition os_match_ok :: "parser_limits \<Rightarrow> nmap_os_match \<Rightarrow> bool" where
  "os_match_ok l m \<longleftrightarrow> om_name m \<noteq> [] \<and> text_ok l (om_name m) \<and> list_all (os_class_ok l) (om_classes m)"

definition instant_ok :: "int option \<Rightarrow> bool" where
  "instant_ok t = (case t of None \<Rightarrow> True | Some n \<Rightarrow> dt_in_range n)"

definition host_ok :: "parser_limits \<Rightarrow> nmap_host \<Rightarrow> bool" where
  "host_ok l h \<longleftrightarrow> instant_ok (ho_started_at h) \<and> instant_ok (ho_ended_at h) \<and> opt_ok l (ho_state h) \<and> opt_ok l (ho_state_reason h) \<and>
     list_all (address_ok l) (ho_addresses h) \<and> list_all (hostname_ok l) (ho_hostnames h) \<and>
     list_all (os_match_ok l) (ho_os_matches h) \<and> list_all (port_ok l) (ho_ports h) \<and> list_all (script_ok l) (ho_scripts h) \<and>
     int (length (ho_ports h)) \<le> max_ports_per_host l \<and> script_count (ho_ports h) (ho_scripts h) \<le> max_scripts_per_host l"

lemma opt_ok_simps [simp]: "opt_ok l None" "opt_ok l (Some s) = text_ok l s"
  by (simp_all add: opt_ok_def)

lemma bounded_text_Inr [result_simps]: "bounded_text l field v = Inr w \<longleftrightarrow> w = v \<and> opt_ok l v"
  by (auto simp: bounded_text_def text_ok_def split: option.splits if_splits)

lemma or_empty_ok: "opt_ok l v \<Longrightarrow> or_empty v \<noteq> [] \<Longrightarrow> text_ok l (or_empty v)"
  by (cases v) (simp_all add: or_empty_def)

lemma mapR_list_all:
  assumes "mapR f xs = Inr ys" "\<And>x y. f x = Inr y \<Longrightarrow> P y"
  shows "list_all P ys"
  using assms(1)
proof (induction xs arbitrary: ys)
  case (Cons x xs)
  then show ?case using assms(2) by (auto simp: result_simps)
qed simp

lemma timestamp_ok: "timestamp table field v = Inr t \<Longrightarrow> instant_ok t"
  by (auto simp: timestamp_def instant_ok_def result_simps split: option.splits if_splits)

lemma read_script_ok: "read_script l phase e = Inr s \<Longrightarrow> script_ok l s"
  by (auto simp: read_script_def script_ok_def result_simps split: option.splits if_splits)

lemma scripts_ok: "mapR (read_script l phase) es = Inr ss \<Longrightarrow> list_all (script_ok l) ss"
  by (erule mapR_list_all) (rule read_script_ok)

lemma list_all_somes: "list_all P (somes vs) = list_all (pred_option P) vs"
  by (induction vs) (auto simp: somes_def split: option.splits)

lemma read_cpes_ok: "read_cpes l field e = Inr cs \<Longrightarrow> list_all (text_ok l) cs"
proof -
  assume "read_cpes l field e = Inr cs"
  then obtain vs where vs: "mapR (\<lambda>c. bounded_text l field (text_of c)) (findall [''cpe''] e) = Inr vs" "cs = somes vs"
    unfolding read_cpes_def bindR_eq_Inr by auto
  have "list_all (pred_option (text_ok l)) vs"
    by (rule mapR_list_all [OF vs(1)]) (auto simp: result_simps opt_ok_def split: option.splits)
  then show ?thesis by (simp add: vs(2) list_all_somes)
qed

lemma read_service_ok: "read_service table l e = Inr s \<Longrightarrow> service_ok l s"
  by (auto simp: read_service_def service_ok_def result_simps read_cpes_ok)

lemma read_os_class_ok: "read_os_class table l e = Inr c \<Longrightarrow> os_class_ok l c"
  by (auto simp: read_os_class_def os_class_ok_def result_simps read_cpes_ok)

lemma os_classes_ok: "mapR (read_os_class table l) es = Inr cs \<Longrightarrow> list_all (os_class_ok l) cs"
  by (erule mapR_list_all) (rule read_os_class_ok)

lemma read_os_match_ok: "read_os_match table l e = Inr m \<Longrightarrow> os_match_ok l m"
  by (auto simp: read_os_match_def os_match_ok_def result_simps or_empty_ok os_classes_ok split: if_splits)

lemma os_matches_ok: "mapR (read_os_match table l) es = Inr ms \<Longrightarrow> list_all (os_match_ok l) ms"
  by (erule mapR_list_all) (rule read_os_match_ok)

lemma on_child_Inr: "on_child e f = Inr v \<longleftrightarrow> (case e of None \<Rightarrow> v = None | Some x \<Rightarrow> f x = Inr v)"
  by (auto simp: on_child_def split: option.split)

lemma port_identity_ok:
  "port_identity table l e = Inr (protocol, n) \<Longrightarrow> protocol \<noteq> [] \<and> text_ok l protocol \<and> 0 \<le> n \<and> n \<le> 65535"
proof -
  assume "port_identity table l e = Inr (protocol, n)"
  then obtain v num where v: "bounded_text l ''port protocol'' (get e ''protocol'') = Inr v"
    and num: "(case num of None \<Rightarrow> Inl (NmapXmlError (lit ''port requires a valid protocol and port number''))
       | Some m \<Rightarrow> if or_empty v = [] \<or> \<not> (0 \<le> m \<and> m \<le> 65535)
           then Inl (NmapXmlError (lit ''port requires a valid protocol and port number'')) else Inr (or_empty v, m)) = Inr (protocol, n)"
    unfolding port_identity_def bindR_eq_Inr by blast
  obtain m where m: "(if or_empty v = [] \<or> \<not> (0 \<le> m \<and> m \<le> 65535)
       then Inl (NmapXmlError (lit ''port requires a valid protocol and port number'')) else Inr (or_empty v, m)) = Inr (protocol, n)"
  proof (cases num)
    case None
    with num show ?thesis by simp
  next
    case (Some m)
    with num show ?thesis using that [of m] by simp
  qed
  have "opt_ok l v" using iffD1 [OF bounded_text_Inr v] by simp
  moreover have "or_empty v \<noteq> []" "0 \<le> n" "n \<le> 65535" "protocol = or_empty v" using m by (auto split: if_split_asm)
  ultimately show ?thesis using or_empty_ok [of l v] by simp
qed

lemma on_child_text: "on_child c (\<lambda>s. bounded_text l field (get s k)) = Inr v \<Longrightarrow> opt_ok l v"
  by (auto simp: on_child_Inr result_simps split: option.splits)

lemma on_child_service: "on_child c (\<lambda>s. bindR (read_service table l s) (\<lambda>v. Inr (Some v))) = Inr v \<Longrightarrow> pred_option (service_ok l) v"
  by (auto simp: on_child_Inr result_simps read_service_ok split: option.splits)

lemma read_port_ok:
  assumes "read_port table l e = Inr p"
  shows "port_ok l p"
proof -
  obtain protocol n ss st reason ttl v where
    parts: "port_identity table l e = Inr (protocol, n)" "mapR (read_script l (lit ''port'')) (findall [''script''] e) = Inr ss"
      "on_child (find_child ''state'' e) (\<lambda>s. bounded_text l ''port state'' (get s ''state'')) = Inr st"
      "on_child (find_child ''state'' e) (\<lambda>s. bounded_text l ''port state reason'' (get s ''reason'')) = Inr reason"
      "on_child (find_child ''service'' e) (\<lambda>s. bindR (read_service table l s) (\<lambda>v. Inr (Some v))) = Inr v"
    and p: "p = \<lparr>np_protocol = protocol, np_port = n, np_state = st, np_reason = reason, np_reason_ttl = ttl,
         np_service = v, np_scripts = ss\<rparr>"
    using assms unfolding read_port_def by (auto simp: bindR_eq_Inr split: prod.splits)
  show ?thesis
    using port_identity_ok [OF parts(1)] scripts_ok [OF parts(2)] on_child_text [OF parts(3)] on_child_text [OF parts(4)]
      on_child_service [OF parts(5)]
    by (simp add: p port_ok_def)
qed

lemma add_port_ok:
  assumes "foldR (add_port table l) ports es = Inr ports'" "list_all (port_ok l) ports" "int (length ports) \<le> max_ports_per_host l"
  shows "list_all (port_ok l) ports' \<and> int (length ports') \<le> max_ports_per_host l"
  by (rule foldR_invariant [OF assms(1)]) (use assms(2,3) in \<open>auto simp: add_port_def result_simps read_port_ok split: if_splits\<close>)

lemma read_ports_ok:
  assumes "read_ports table l e = Inr (ports, scripts)" "0 \<le> max_ports_per_host l"
  shows "list_all (port_ok l) ports \<and> int (length ports) \<le> max_ports_per_host l \<and> list_all (script_ok l) scripts \<and>
    script_count ports scripts \<le> max_scripts_per_host l"
proof -
  have "foldR (add_port table l) [] (findall [''ports'', ''port''] e) = Inr ports"
    and scripts: "mapR (read_script l (lit ''host'')) (findall [''hostscript'', ''script''] e) = Inr scripts"
    and bound: "script_count ports scripts \<le> max_scripts_per_host l"
    using assms(1) by (auto simp: read_ports_def result_simps split: if_splits)
  then have "list_all (port_ok l) ports \<and> int (length ports) \<le> max_ports_per_host l"
    using add_port_ok assms(2) by fastforce
  then show ?thesis using bound scripts_ok [OF scripts] by blast
qed

lemma read_addresses_ok: "read_addresses l e = Inr as \<Longrightarrow> list_all (address_ok l) as"
proof -
  assume "read_addresses l e = Inr as"
  then have m: "mapR (read_address l) (findall [''address''] e) = Inr as"
    and ne: "\<forall>a \<in> set as. na_address a \<noteq> [] \<and> na_type a \<noteq> []"
    by (auto simp: read_addresses_def result_simps split: if_splits)
  have "list_all (\<lambda>a. na_address a \<noteq> [] \<and> na_type a \<noteq> [] \<longrightarrow> address_ok l a) as"
    by (rule mapR_list_all [OF m]) (auto simp: read_address_def address_ok_def result_simps or_empty_ok)
  with ne show ?thesis by (auto simp: list_all_iff)
qed

lemma read_hostnames_ok: "read_hostnames l e = Inr hs \<Longrightarrow> list_all (hostname_ok l) hs"
proof -
  assume "read_hostnames l e = Inr hs"
  then have m: "mapR (read_hostname l) (findall [''hostnames'', ''hostname''] e) = Inr hs"
    and ne: "\<forall>h \<in> set hs. nh_name h \<noteq> []"
    by (auto simp: read_hostnames_def result_simps split: if_splits)
  have "list_all (\<lambda>h. nh_name h \<noteq> [] \<longrightarrow> hostname_ok l h) hs"
    by (rule mapR_list_all [OF m]) (auto simp: read_hostname_def hostname_ok_def result_simps or_empty_ok)
  with ne show ?thesis by (auto simp: list_all_iff)
qed

lemma read_host_ok:
  assumes "read_host table l e = Inr h" "0 \<le> max_ports_per_host l"
  shows "host_ok l h"
proof -
  obtain as hs ms ps ss started ended st reason where
    parts: "read_addresses l e = Inr as" "read_hostnames l e = Inr hs"
      "mapR (read_os_match table l) (findall [''os'', ''osmatch''] e) = Inr ms" "read_ports table l e = Inr (ps, ss)"
    and times: "timestamp table ''host start time'' (get e ''starttime'') = Inr started"
      "timestamp table ''host end time'' (get e ''endtime'') = Inr ended"
    and states: "on_child (find_child ''status'' e) (\<lambda>s. bounded_text l ''host state'' (get s ''state'')) = Inr st"
      "on_child (find_child ''status'' e) (\<lambda>s. bounded_text l ''host state reason'' (get s ''reason'')) = Inr reason"
    and h: "h = \<lparr>ho_started_at = started, ho_ended_at = ended, ho_state = st, ho_state_reason = reason, ho_addresses = as,
         ho_hostnames = hs, ho_os_matches = ms, ho_ports = ps, ho_scripts = ss\<rparr>"
    using assms(1) unfolding read_host_def by (auto simp: bindR_eq_Inr split: prod.splits)
  show ?thesis
    using read_ports_ok [OF parts(4) assms(2)] read_addresses_ok [OF parts(1)] read_hostnames_ok [OF parts(2)]
      os_matches_ok [OF parts(3)] timestamp_ok [OF times(1)] timestamp_ok [OF times(2)]
      on_child_text [OF states(1)] on_child_text [OF states(2)]
    by (simp add: h host_ok_def)
qed

definition reader_ok :: "parser_limits \<Rightarrow> reader \<Rightarrow> bool" where
  "reader_ok l r \<longleftrightarrow> int (length (rd_hosts r)) \<le> max_hosts l \<and> list_all (host_ok l) (rd_hosts r) \<and> list_all (script_ok l) (rd_scripts r)"

lemma on_event_ok:
  assumes "reader_ok l r" "0 \<le> max_ports_per_host l" "on_event table l r ev = Inr r'"
  shows "reader_ok l r'"
proof (cases ev)
  case (End e)
  then obtain q where q: "on_element table l r e = Inr q" "r' = q\<lparr>rd_depth := rd_depth q - 1\<rparr>"
    using assms(3) by (auto simp: on_event_def result_simps)
  have "reader_ok l q"
    using q(1) assms(1,2) unfolding on_element_def reader_ok_def
    by (auto simp: result_simps read_host_ok scripts_ok split: if_splits)
  then show ?thesis by (simp add: q(2) reader_ok_def)
qed (use assms in \<open>auto simp: on_event_def on_start_def reader_ok_def Let_def split: if_splits option.splits\<close>)

definition content :: "piece list \<Rightarrow> bytes" where
  "content ps = concat (map (\<lambda>p. case p of Bytes_piece b \<Rightarrow> b | Other_piece \<Rightarrow> []) ps)"

definition reading_ok :: "parser_limits \<Rightarrow> 'p reading \<Rightarrow> bytes \<Rightarrow> bool" where
  "reading_ok l g d \<longleftrightarrow> rg_total g = int (length d) \<and> int (length d) \<le> max_bytes l \<and>
     screen_ok (rg_screen g) (map byte_upper d) \<and> reader_ok l (rg_reader g)"

lemma read_piece_Inr:
  "read_piece px table l g p = Inr g' \<longleftrightarrow> (\<exists>chunk screen parser events r.
     p = Bytes_piece chunk \<and> rg_total g + int (length chunk) \<le> max_bytes l \<and>
     (rg_total g = 0 \<longrightarrow> encoding_guard chunk = Inr ()) \<and> screen_chunk (rg_screen g) chunk = Inr screen \<and>
     px_feed px (rg_parser g) chunk = Inr (parser, events) \<and> foldR (on_event table l) (rg_reader g) events = Inr r \<and>
     g' = \<lparr>rg_total = rg_total g + int (length chunk), rg_screen = screen, rg_parser = parser, rg_reader = r\<rparr>)"
  by (cases p) (auto simp: read_piece_def Let_def bindR_eq_Inr split: if_splits prod.splits)

lemma read_piece_ok:
  assumes "reading_ok l g d" "0 \<le> max_ports_per_host l" "read_piece px table l g p = Inr g'"
  shows "reading_ok l g' (d @ content [p])"
proof -
  obtain chunk screen parser events r where p: "p = Bytes_piece chunk" "rg_total g + int (length chunk) \<le> max_bytes l"
      "screen_chunk (rg_screen g) chunk = Inr screen" "foldR (on_event table l) (rg_reader g) events = Inr r"
    and g': "g' = \<lparr>rg_total = rg_total g + int (length chunk), rg_screen = screen, rg_parser = parser, rg_reader = r\<rparr>"
    using assms(3) by (auto simp: read_piece_Inr)
  have "reader_ok l r"
    by (rule foldR_invariant [OF p(4)]) (use assms on_event_ok in \<open>auto simp: reading_ok_def\<close>)
  then show ?thesis
    using assms(1) p screen_chunk_sound [of "rg_screen g" "map byte_upper d" chunk screen]
    by (simp add: reading_ok_def g' content_def)
qed

lemma read_pieces_ok:
  assumes "foldR (read_piece px table l) g ps = Inr g'" "reading_ok l g d" "0 \<le> max_ports_per_host l"
  shows "reading_ok l g' (d @ content ps)"
  using assms
proof (induction ps arbitrary: g d)
  case Nil
  then show ?case by (simp add: content_def)
next
  case (Cons p ps)
  then obtain h where "read_piece px table l g p = Inr h" "foldR (read_piece px table l) h ps = Inr g'"
    by (auto simp: result_simps)
  then show ?case using Cons.IH [OF _ read_piece_ok [OF Cons.prems(2,3)] Cons.prems(3)]
    by (fastforce simp: content_def)
qed

lemma limits_positive:
  assumes "parser_limits_check l = Inr ()"
  shows "0 < max_bytes l \<and> 0 < max_depth l \<and> 0 < max_hosts l \<and> 0 < max_ports_per_host l \<and> 0 < max_scripts_per_host l \<and>
    0 < max_text l \<and> 0 < chunk_size l"
proof -
  have "0 < Min (set [max_bytes l, max_depth l, max_hosts l, max_ports_per_host l, max_scripts_per_host l, max_text l, chunk_size l])"
    using assms unfolding parser_limits_check_def by (metis not_le sum.distinct(1))
  then show ?thesis by (subst (asm) Min_gr_iff) simp_all
qed


lemma parse_stream_Inr:
  assumes "parse_stream px float_of table l (ps, ending) = Inr scan"
  shows "\<exists>g. foldR (read_piece px table l) (new_reading px) ps = Inr g \<and> ending = None \<and> rg_total g \<noteq> 0 \<and>
    pending_doctype (rg_screen g) = [] \<and> scan_of float_of table l (rg_reader g) = Inr scan"
  using assms
  by (auto simp: parse_stream_def consume_Inr bindR_eq_Inr split: if_splits prod.splits option.splits)

lemma parse_stream_ok:
  fixes px :: "'p xml_parser"
  assumes "parser_limits_check l = Inr ()" "parse_stream px float_of table l (ps, ending) = Inr scan"
  obtains g :: "'p reading" where "reading_ok l g (content ps)" "pending_doctype (rg_screen g) = []" "scan_of float_of table l (rg_reader g) = Inr scan"
proof -
  obtain g where g: "foldR (read_piece px table l) (new_reading px) ps = Inr g" "pending_doctype (rg_screen g) = []"
      "scan_of float_of table l (rg_reader g) = Inr scan"
    using parse_stream_Inr [OF assms(2)] by blast
  have "reading_ok l (new_reading px) []"
    using limits_positive [OF assms(1)] new_screen_ok by (simp add: reading_ok_def new_reading_def reader_ok_def new_reader_def)
  then have "reading_ok l g (content ps)"
    using read_pieces_ok [OF g(1)] limits_positive [OF assms(1)] by fastforce
  then show ?thesis using that g by blast
qed

text \<open>No scan comes out of an unscreened input: when the reader returns a scan, its whole input is within the byte limit,
  declares no entity and has no document type declaration but the canonical one, whatever the XML parser does.\<close>

theorem nmap_input_screened:
  assumes "parser_limits_check l = Inr ()" "parse_stream px float_of table l (ps, ending) = Inr scan"
  shows "dtd_free (map byte_upper (content ps)) \<and> int (length (content ps)) \<le> max_bytes l"
proof (rule parse_stream_ok [OF assms])
  fix g assume "reading_ok l g (content ps)" "pending_doctype (rg_screen g) = []"
  then show ?thesis using screen_ok_free by (auto simp: reading_ok_def)
qed


section \<open>Reading a document\<close>

text \<open>
  The events of a document: the start of an element, those of its children, its end. The reader's meaning of a
  document does not speak of events: it goes through the elements in the order of their ends.
\<close>

fun tree_events :: "xml \<Rightarrow> xml_event list" where
  "tree_events (Element t as s cs) = Start t as # concat (map tree_events cs) @ [End (Element t as s cs)]"

fun post_order :: "xml \<Rightarrow> xml list" where
  "post_order (Element t as s cs) = concat (map post_order cs) @ [Element t as s cs]"

fun height :: "xml \<Rightarrow> nat" where
  "height (Element t as s cs) = Suc (foldr max (map height cs) 0)"

definition read_document :: "digit_table \<Rightarrow> parser_limits \<Rightarrow> xml \<Rightarrow> reader result" where
  "read_document table l t = foldR (on_element table l) (new_reader\<lparr>rd_root := Some (attrib t)\<rparr>) (post_order t)"

lemma on_element_depth:
  "on_element table l (r\<lparr>rd_depth := d\<rparr>) e = bindR (on_element table l r e) (\<lambda>r'. Inr (r'\<lparr>rd_depth := d\<rparr>))"
  by (auto simp: on_element_def bindR_def split: sum.splits)

lemma on_element_root: "on_element table l r e = Inr r' \<Longrightarrow> rd_root r' = rd_root r \<and> rd_depth r' = rd_depth r"
  by (auto simp: on_element_def result_simps split: if_splits)

lemma elements_root: "foldR (on_element table l) r es = Inr r' \<Longrightarrow> rd_root r' = rd_root r \<and> rd_depth r' = rd_depth r"
proof (induction es arbitrary: r)
  case (Cons e es)
  then obtain q where q: "on_element table l r e = Inr q" "foldR (on_element table l) q es = Inr r'" by (auto simp: result_simps)
  then show ?case using Cons.IH on_element_root [OF q(1)] by metis
qed simp

lemma elements_depth:
  "foldR (on_element table l) (r\<lparr>rd_depth := d\<rparr>) es = bindR (foldR (on_element table l) r es) (\<lambda>r'. Inr (r'\<lparr>rd_depth := d\<rparr>))"
proof (induction es arbitrary: r)
  case (Cons e es)
  then show ?case by (cases "on_element table l r e") (simp_all add: on_element_depth)
qed simp

lemma foldr_max: "x \<in> set xs \<Longrightarrow> x \<le> foldr max xs (0::nat)"
  by (induction xs) auto

text \<open>Once the root is known, the events of an element amount to its elements in post-order.\<close>

lemma events_elements:
  assumes "rd_root r \<noteq> None" "rd_depth r + int (height t) \<le> max_depth l"
  shows "foldR (on_event table l) r (tree_events t) = foldR (on_element table l) r (post_order t)"
  using assms
proof (induction t arbitrary: r)
  case (Element t as s cs)
  define e where "e = Element t as s cs"
  define r1 where "r1 = r\<lparr>rd_depth := rd_depth r + 1\<rparr>"
  have start: "on_event table l r (Start t as) = Inr r1"
    using Element.prems by (auto simp: on_event_def on_start_def r1_def)
  have sub: "foldR (on_event table l) q (concat (map tree_events ds)) = foldR (on_element table l) q (concat (map post_order ds))"
    if "set ds \<subseteq> set cs" "rd_root q \<noteq> None" "rd_depth q = rd_depth r + 1" for ds q
    using that
  proof (induction ds arbitrary: q)
    case (Cons d ds)
    have "height d \<le> foldr max (map height cs) 0" using Cons.prems(1) foldr_max by simp
    then have "foldR (on_event table l) q (tree_events d) = foldR (on_element table l) q (post_order d)"
      using Element.IH [of d q] Cons.prems Element.prems(2) by simp
    moreover have "foldR (on_event table l) q' (concat (map tree_events ds)) = foldR (on_element table l) q' (concat (map post_order ds))"
      if "foldR (on_element table l) q (post_order d) = Inr q'" for q'
      using Cons.IH [of q'] Cons.prems elements_root [OF that] by simp
    ultimately show ?case by (simp add: foldR_append cong: bindR_cong)
  qed simp
  have "foldR (on_event table l) r (tree_events e) =
      bindR (foldR (on_element table l) r1 (concat (map post_order cs))) (\<lambda>q. on_event table l q (End e))"
    using sub [of cs r1] start Element.prems(1) by (simp add: e_def foldR_append r1_def bindR_def split: sum.split)
  also have "\<dots> = bindR (foldR (on_element table l) r (concat (map post_order cs))) (\<lambda>q. on_element table l q e)"
  proof (cases "foldR (on_element table l) r (concat (map post_order cs))")
    case (Inr q)
    have q: "rd_depth q = rd_depth r" using elements_root [OF Inr] by simp
    show ?thesis
    proof (cases "on_element table l q e")
      case (Inr q')
      then have "rd_depth q' = rd_depth r" using on_element_root q by metis
      then show ?thesis
        using \<open>foldR (on_element table l) r _ = Inr q\<close> Inr q by (simp add: r1_def elements_depth on_event_def on_element_depth)
    qed (use Inr in \<open>simp add: r1_def elements_depth on_event_def on_element_depth\<close>)
  qed (simp add: r1_def elements_depth)
  finally show ?case by (simp add: e_def foldR_append bindR_def split: sum.split)
qed

lemma events_document:
  assumes "tag t = lit ''nmaprun''" "int (height t) \<le> max_depth l"
  shows "foldR (on_event table l) new_reader (tree_events t) = read_document table l t"
proof -
  define r where "r = new_reader\<lparr>rd_root := Some (attrib t)\<rparr>"
  have "on_event table l new_reader (Start (tag t) (attrib t)) = on_event table l r (Start (tag t) (attrib t))"
    using assms by (cases t) (auto simp: on_event_def on_start_def r_def new_reader_def)
  then have "foldR (on_event table l) new_reader (tree_events t) = foldR (on_event table l) r (tree_events t)"
    by (cases t) simp
  also have "\<dots> = foldR (on_element table l) r (post_order t)"
    by (rule events_elements) (use assms in \<open>simp_all add: r_def new_reader_def\<close>)
  finally show ?thesis by (simp add: read_document_def r_def)
qed

text \<open>A parser that delivers, while it is fed, all the events of the input and none at its close.\<close>

fun delivers :: "'p xml_parser \<Rightarrow> 'p \<Rightarrow> bytes list \<Rightarrow> xml_event list \<Rightarrow> bool" where
  "delivers px p [] events = (events = [] \<and> px_close px p = ([], None))"
| "delivers px p (c # cs) events =
     (case px_feed px p c of Inl _ \<Rightarrow> False
      | Inr (p', now) \<Rightarrow> prefix now events \<and> delivers px p' cs (drop (length now) events))"

lemma read_delivered:
  assumes "delivers px (rg_parser g) cs events"
    and "int (length (concat cs)) + rg_total g \<le> max_bytes l" "cs = [] \<or> rg_total g \<noteq> 0 \<or> encoding_guard (hd cs) = Inr ()"
    and "[] \<notin> set cs" "0 \<le> rg_total g"
    and "screen_ok (rg_screen g) d" "dtd_free (d @ map byte_upper (concat cs))"
  shows "bindR (foldR (read_piece px table l) g (map Bytes_piece cs)) (\<lambda>g'. Inr (rg_reader g', rg_total g', rg_screen g', px_close px (rg_parser g'))) =
    bindR (foldR (on_event table l) (rg_reader g) events) (\<lambda>r.
      Inr (r, rg_total g + int (length (concat cs)), (case foldR screen_chunk (rg_screen g) cs of Inr s \<Rightarrow> s | Inl _ \<Rightarrow> new_screen), ([], None)))"
  using assms
proof (induction cs arbitrary: g events d)
  case (Cons c cs)
  obtain p' now where feed: "px_feed px (rg_parser g) c = Inr (p', now)" and now: "prefix now events"
    and later: "delivers px p' cs (drop (length now) events)"
    using Cons.prems(1) by (auto split: sum.splits)
  obtain s where s: "screen_chunk (rg_screen g) c = Inr s"
    using screen_chunk_complete [OF Cons.prems(6)] Cons.prems(7) by auto
  have c: "c \<noteq> []" using Cons.prems(4) by auto
  have positive: "rg_total g + int (length c) \<noteq> 0" using c Cons.prems(5) by (cases c) auto
  obtain rest where events: "events = now @ rest" using now by (auto simp: prefix_def)
  have guard: "(if rg_total g + int (length c) = int (length c) then encoding_guard c else Inr ()) = Inr ()"
    using Cons.prems(3) by auto
  show ?case
  proof (cases "foldR (on_event table l) (rg_reader g) now")
    case (Inl e)
    then show ?thesis using Cons.prems(2) guard s feed by (simp add: read_piece_def Let_def events foldR_append)
  next
    case (Inr r)
    define h where "h = \<lparr>rg_total = rg_total g + int (length c), rg_screen = s, rg_parser = p', rg_reader = r\<rparr>"
    have step: "read_piece px table l g (Bytes_piece c) = Inr h"
      using Cons.prems(2) guard s feed Inr by (simp add: read_piece_def Let_def h_def)
    have IH: "bindR (foldR (read_piece px table l) h (map Bytes_piece cs)) (\<lambda>g'. Inr (rg_reader g', rg_total g', rg_screen g', px_close px (rg_parser g'))) =
      bindR (foldR (on_event table l) r rest) (\<lambda>r.
        Inr (r, rg_total h + int (length (concat cs)), (case foldR screen_chunk s cs of Inr s \<Rightarrow> s | Inl _ \<Rightarrow> new_screen), ([], None)))"
      using Cons.IH [of h rest "d @ map byte_upper c"] later events Cons.prems c
        screen_chunk_sound [OF Cons.prems(6) s] positive feed
      by (simp add: h_def)
    show ?thesis using IH step Inr s by (simp add: events foldR_append h_def add.assoc)
  qed
qed simp

text \<open>C21. The reader returns what the document says: when the XML parser delivers the events of a document while it is fed,
  the result is the reading of the document's elements in post-order, for every way of cutting the input into
  chunks; an error of the reading is the error of the reader.\<close>

theorem nmap_reads_document:
  assumes "delivers px (px_new px) cs (tree_events t)" "tag t = lit ''nmaprun''" "int (height t) \<le> max_depth l"
    and "cs \<noteq> []" "[] \<notin> set cs" "encoding_guard (hd cs) = Inr ()" "int (length (concat cs)) \<le> max_bytes l"
    and "dtd_free (map byte_upper (concat cs))"
  shows "parse_stream px float_of table l (map Bytes_piece cs, None) = bindR (read_document table l t) (scan_of float_of table l)"
proof -
  define g where "g = new_reading px"
  define X where "X = foldR (read_piece px table l) g (map Bytes_piece cs)"
  have g: "rg_parser g = px_new px" "rg_total g = 0" "rg_screen g = new_screen" "rg_reader g = new_reader"
    by (simp_all add: g_def new_reading_def)
  obtain s where s: "foldR screen_chunk new_screen cs = Inr s" "pending_doctype s = []"
    using screen_fold_complete [OF new_screen_ok] screen_ok_pending screen_fold_sound [OF _ new_screen_ok] assms(8)
    by (metis append_Nil)
  have "0 < int (length (concat cs))" using assms(4,5) by (cases cs; cases "hd cs") auto
  have "bindR X (\<lambda>g'. Inr (rg_reader g', rg_total g', rg_screen g', px_close px (rg_parser g'))) =
      bindR (read_document table l t) (\<lambda>r. Inr (r, int (length (concat cs)), s, ([], None)))"
    using read_delivered [of px g cs "tree_events t" l "[]" table] assms new_screen_ok g s events_document [OF assms(2,3)]
    by (simp add: X_def)
  then show ?thesis
    using \<open>0 < int (length (concat cs))\<close> s(2)
    by (cases X; cases "read_document table l t") (auto simp: parse_stream_def consume_def X_def g_def split: prod.splits)
qed

section \<open>A small report\<close>

definition el :: "string \<Rightarrow> (string \<times> string) list \<Rightarrow> xml list \<Rightarrow> xml" where
  "el t as cs = Element (lit t) (map (\<lambda>(k, v). (lit k, lit v)) as) None cs"

definition demo_report :: xml where
  "demo_report = el ''nmaprun'' [(''scanner'', ''nmap'')]
     [el ''host'' [] [el ''address'' [(''addr'', ''10.0.0.1''), (''addrtype'', ''ipv4'')] [],
        el ''ports'' [] [el ''port'' [(''protocol'', ''tcp''), (''portid'', ''22'')] []]],
      el ''finished'' [(''time'', ''60'')] []]"

text \<open>A parser whose state is the list of what its next feeds deliver, and the events it would only give at its close.\<close>

definition scripted_parser :: "xml_event list list \<Rightarrow> xml_event list \<Rightarrow> xml_event list list xml_parser" where
  "scripted_parser feeds late =
     \<lparr>px_feed = (\<lambda>p c. case p of [] \<Rightarrow> Inr ([], []) | es # p' \<Rightarrow> Inr (p', es)), px_close = (\<lambda>p. (late, None)), px_new = feeds\<rparr>"

definition demo_parser :: "xml_event list list xml_parser" where
  "demo_parser = scripted_parser [take 3 (tree_events demo_report), drop 3 (tree_events demo_report)] []"

definition demo_scan :: "nmap_scan result" where
  "demo_scan = parse_stream demo_parser (\<lambda>s. None) (\<lambda>c. None) default_limits (map Bytes_piece [ascii_bytes ''<nmap'', ascii_bytes ''run/>''], None)"

lemma default_limits_ok: "parser_limits_check default_limits = Inr ()"
  by code_simp

definition scan_ports :: "nmap_scan result \<Rightarrow> int list list" where
  "scan_ports r = (case r of Inl _ \<Rightarrow> [] | Inr s \<Rightarrow> map (\<lambda>h. map np_port (ho_ports h)) (sc_hosts s))"

lemma demo_scan_ports: "scan_ports demo_scan = [[22]]"
  by code_simp

lemma demo_scan_Inr:
  obtains s where "demo_scan = Inr s" "map (\<lambda>h. map np_port (ho_ports h)) (sc_hosts s) = [[22]]"
  using that demo_scan_ports by (auto simp: scan_ports_def split: sum.splits)

text \<open>Cutting the text after five bytes, with the events delivered over the two feeds.\<close>

theorem nmap_reads_document_witness:
  "scan_ports (bindR (read_document (\<lambda>c. None) default_limits demo_report) (scan_of (\<lambda>s. None) (\<lambda>c. None) default_limits)) = [[22]]"
proof -
  let ?cs = "[ascii_bytes ''<nmap'', ascii_bytes ''run/>'']"
  have "delivers demo_parser (px_new demo_parser) ?cs (tree_events demo_report)"
    by code_simp
  moreover have "tag demo_report = lit ''nmaprun''" by (simp add: demo_report_def el_def)
  moreover have "int (height demo_report) \<le> max_depth default_limits" by code_simp
  moreover have "[] \<notin> set ?cs" by (simp add: ascii_bytes_def)
  moreover have "encoding_guard (hd ?cs) = Inr ()" by code_simp
  moreover have "int (length (concat ?cs)) \<le> max_bytes default_limits" by code_simp
  moreover have "dtd_free (map byte_upper (concat ?cs))" by code_simp
  ultimately show ?thesis
    using nmap_reads_document [of demo_parser ?cs demo_report default_limits "\<lambda>s. None" "\<lambda>c. None"] demo_scan_ports
    by (simp add: demo_scan_def)
qed

theorem nmap_input_screened_witness:
  "dtd_free (map byte_upper (content (map Bytes_piece [ascii_bytes ''<nmap'', ascii_bytes ''run/>''])))"
proof (rule demo_scan_Inr)
  fix s assume "demo_scan = Inr s"
  then show ?thesis using nmap_input_screened [OF default_limits_ok] by (metis demo_scan_def)
qed


text \<open>
  The events that a parser makes available only at its close are lost: the report below has two hosts, the
  parser holds the second back until it is closed, and the returned scan has the first one only. (Expat 2.6
  defers the parsing of a long token that a chunk leaves incomplete, so this happens on real reports.)
\<close>

lemma close_events_lost:
  "scan_ports (parse_stream (scripted_parser [take 10 es] (drop 10 es)) (\<lambda>s. None) (\<lambda>c. None) default_limits ([Bytes_piece (ascii_bytes ''<x/>'')], None)) = [[22]]"
  if "es = tree_events (el ''nmaprun'' [] [el ''host'' [] [el ''ports'' [] [el ''port'' [(''protocol'', ''tcp''), (''portid'', ''22'')] []]],
     el ''host'' [] [el ''ports'' [] [el ''port'' [(''protocol'', ''tcp''), (''portid'', ''80'')] []]]])"
  unfolding that by code_simp

text \<open>
  The test for an encoding that is not ASCII-compatible looks at the first chunk only, so a short first read
  passes what a longer one rejects: the screen then sees no declaration in the UTF-16 text that follows.
\<close>

lemma encoding_guard_first_chunk:
  "encoding_guard ([255] @ [254, 60, 0, 33, 0]) \<noteq> Inr () \<and> encoding_guard [255] = Inr () \<and>
   screen_document [[255], [254, 60, 0, 33, 0, 69, 0, 78, 0, 84, 0, 73, 0, 84, 0, 89, 0]] = Inr ()"
  by code_simp

text \<open>An exception of the parser that is not its syntax error (an unknown encoding, for example) leaves as it is.\<close>

lemma parser_exception_escapes:
  assumes "px_feed px (px_new px) c = Inl e" "encoding_guard c = Inr ()" "screen_document [c] = Inr ()" "int (length c) \<le> max_bytes l"
  shows "parse_stream px float_of table l ([Bytes_piece c], None) = Inl e"
proof -
  obtain s where "screen_chunk new_screen c = Inr s" using assms(3) by (auto simp: screen_document_def result_simps)
  then show ?thesis using assms(1,2,4) by (simp add: parse_stream_def consume_def read_piece_def new_reading_def Let_def)
qed

end
