(* ===== verification/Artifacts.thy ===== *)
theory Artifacts
  imports Py_Json
begin

text \<open>
  \<open>artifacts.py\<close>: names of artifacts, the store that publishes a sanitised payload with its metadata under
  one directory, its retention, and the audit of written files. A directory is its entries by name; every
  call into the operating system can fail, and the failures of one publication are an argument. The redactor,
  the digest, \<open>json.loads\<close>, \<open>datetime.fromisoformat\<close>, Unicode decomposition and random names are arguments.
\<close>

section \<open>Names\<close>

definition is_alnum :: "int \<Rightarrow> bool" where
  "is_alnum c = ((65 \<le> c \<and> c \<le> 90) \<or> (97 \<le> c \<and> c \<le> 122) \<or> (48 \<le> c \<and> c \<le> 57))"

definition is_name_char :: "int \<Rightarrow> bool" where
  "is_name_char c = (is_alnum c \<or> c = 46 \<or> c = 95 \<or> c = 45)"

text \<open>\<open>[A-Za-z0-9][A-Za-z0-9._-]{0,99}\<close> and \<open>[a-z][a-z0-9_-]{0,31}\<close>, matched in full.\<close>

definition safe_name :: "pystr \<Rightarrow> bool" where
  "safe_name s = (case s of [] \<Rightarrow> False | c # cs \<Rightarrow> is_alnum c \<and> length cs \<le> 99 \<and> list_all is_name_char cs)"

definition is_lower_alpha :: "int \<Rightarrow> bool" where
  "is_lower_alpha c = (97 \<le> c \<and> c \<le> 122)"

definition safe_category :: "pystr \<Rightarrow> bool" where
  "safe_category s = (case s of [] \<Rightarrow> False
     | c # cs \<Rightarrow> is_lower_alpha c \<and> length cs \<le> 31 \<and>
         list_all (\<lambda>c. is_lower_alpha c \<or> (48 \<le> c \<and> c \<le> 57) \<or> c = 95 \<or> c = 45) cs)"

definition METADATA_SUFFIX :: pystr where
  "METADATA_SUFFIX = lit ''.metadata.json''"

definition MAX_METADATA_BYTES :: int where
  "MAX_METADATA_BYTES = 64 * 1024"

definition ends_with :: "pystr \<Rightarrow> pystr \<Rightarrow> bool" where
  "ends_with s t = (length t \<le> length s \<and> drop (length s - length t) s = t)"

definition validate_filename :: "pystr \<Rightarrow> pystr result" where
  "validate_filename s =
     (if safe_name s then Inr s else Inl (UnsafeArtifactPath (lit ''artifact filename must be a safe portable basename'')))"

record artifact_env =
  ae_redact :: "pystr \<Rightarrow> pystr"
  ae_redact_json :: "json \<Rightarrow> json"
  ae_sha :: "bytes \<Rightarrow> pystr"
  ae_float :: "rat \<Rightarrow> pystr"
  ae_zone :: "int \<Rightarrow> int"
  ae_loads :: "bytes \<Rightarrow> json option"
  ae_parse_iso :: "pystr \<Rightarrow> datetime option"
  ae_decompose :: "pystr \<Rightarrow> pystr"

definition REDACTED :: pystr where
  "REDACTED = lit ''[REDACTED]''"

text \<open>
  \<open>re.sub("[^A-Za-z0-9._-]+", "-", s)\<close> and \<open>re.sub("[-_.]{2,}", "-", s)\<close>: a maximal run becomes one hyphen, in
  the second case when it has at least two characters. The first argument is the length of the run before.
\<close>

fun squash_others :: "bool \<Rightarrow> pystr \<Rightarrow> pystr" where
  "squash_others inside [] = []"
| "squash_others inside (c # cs) =
     (if is_name_char c then c # squash_others False cs
      else if inside then squash_others True cs else 45 # squash_others True cs)"

definition is_punctuation :: "int \<Rightarrow> bool" where
  "is_punctuation c = (c = 46 \<or> c = 95 \<or> c = 45)"

function squash_runs :: "pystr \<Rightarrow> pystr" where
  "squash_runs [] = []"
| "squash_runs [c] = [c]"
| "squash_runs (c # d # cs) =
     (if is_punctuation c \<and> is_punctuation d then 45 # squash_runs (dropWhile is_punctuation cs)
      else c # squash_runs (d # cs))"
  by pat_completeness auto
termination
  by (relation "measure length") (auto simp: less_Suc_eq_le length_dropWhile_le le_SucI)

definition strip_punctuation :: "pystr \<Rightarrow> pystr" where
  "strip_punctuation = strip_with is_punctuation"

definition rstrip_punctuation :: "pystr \<Rightarrow> pystr" where
  "rstrip_punctuation s = rev (dropWhile is_punctuation (rev s))"

definition simple_suffix :: "pystr \<Rightarrow> bool" where
  "simple_suffix s = (case s of [] \<Rightarrow> False | c # cs \<Rightarrow> c = 46 \<and> 1 \<le> length cs \<and> length cs \<le> 12 \<and> list_all is_alnum cs)"

definition or_artifact :: "pystr \<Rightarrow> pystr" where
  "or_artifact s = (if s = [] then lit ''artifact'' else s)"

definition safe_filename :: "artifact_env \<Rightarrow> pystr \<Rightarrow> pystr \<Rightarrow> pystr result" where
  "safe_filename E label suffix =
     (if suffix \<noteq> [] \<and> \<not> simple_suffix suffix then Inl (UnsafeArtifactPath (lit ''artifact suffix must be a simple extension''))
      else let cleaned = ae_redact E label;
               cleaned = (if contains_text REDACTED cleaned then lit ''artifact'' else cleaned);
               ascii_label = filter (\<lambda>c. 0 \<le> c \<and> c < 128) (ae_decompose E cleaned);
               slug = strip_punctuation (squash_others False ascii_label);
               slug = or_artifact (squash_runs slug);
               maximum = 100 - length suffix
           in validate_filename (or_artifact (rstrip_punctuation (take maximum slug)) @ suffix))"

section \<open>Metadata\<close>

text \<open>
  The record as it is read back: the dataclass checks the names of its fields but not the types, and only the
  file name and the expiry are used as texts.
\<close>

record artifact_metadata =
  am_schema_version :: json
  am_filename :: pystr
  am_category :: json
  am_media_type :: json
  am_size_bytes :: json
  am_sha256 :: json
  am_created_at :: json
  am_expires_at :: pystr

definition metadata_fields :: "artifact_metadata \<Rightarrow> fields" where
  "metadata_fields m =
     [(lit ''schema_version'', am_schema_version m), (lit ''filename'', JStr (am_filename m)), (lit ''category'', am_category m),
      (lit ''media_type'', am_media_type m), (lit ''size_bytes'', am_size_bytes m), (lit ''sha256'', am_sha256 m),
      (lit ''created_at'', am_created_at m), (lit ''expires_at'', JStr (am_expires_at m))]"

definition field_names :: "pystr list" where
  "field_names = map lit [''schema_version'', ''filename'', ''category'', ''media_type'', ''size_bytes'', ''sha256'', ''created_at'', ''expires_at'']"

definition field_or_null :: "fields \<Rightarrow> string \<Rightarrow> json" where
  "field_or_null d k = (case fget d k of None \<Rightarrow> JNull | Some v \<Rightarrow> v)"

definition metadata_of_json :: "json \<Rightarrow> artifact_metadata option" where
  "metadata_of_json v =
     (case v of
        JDict d \<Rightarrow>
          if fst ` set d \<noteq> set field_names then None
          else (case (fget d ''filename'', fget d ''expires_at'') of
                  (Some (JStr f), Some (JStr x)) \<Rightarrow>
                    Some \<lparr>am_schema_version = field_or_null d ''schema_version'', am_filename = f, am_category = field_or_null d ''category'',
                      am_media_type = field_or_null d ''media_type'', am_size_bytes = field_or_null d ''size_bytes'',
                      am_sha256 = field_or_null d ''sha256'', am_created_at = field_or_null d ''created_at'', am_expires_at = x\<rparr>
                | _ \<Rightarrow> None)
      | _ \<Rightarrow> None)"

definition metadata_payload :: "artifact_env \<Rightarrow> artifact_metadata \<Rightarrow> bytes result" where
  "metadata_payload E m = utf8_encode (json_dumps True (lit '','') (lit '':'') (ae_float E) (JDict (metadata_fields m)))"

section \<open>The store\<close>

text \<open>A directory entry: a regular file with its bytes, a symbolic link, or something else.\<close>

datatype entry = Regular bytes | Link | Special

type_synonym directory = "(pystr, entry) odict"

text \<open>The root as \<open>lstat\<close> shows it, with the permission bits of a real directory.\<close>

datatype store_root = Missing | Real_directory int directory | Linked | Not_directory

record artifact_store =
  st_root :: store_root
  st_max_bytes :: int
  st_guard :: "(int \<Rightarrow> unit result) option"

definition ensure_root :: "store_root \<Rightarrow> store_root result" where
  "ensure_root rt =
     (case rt of
        Missing \<Rightarrow> Inr (Real_directory 448 [])
      | Not_directory \<Rightarrow> Inl (UnsafeArtifactPath (lit ''artifact root cannot be prepared''))
      | Linked \<Rightarrow> Inl (UnsafeArtifactPath (lit ''artifact root must be a real directory''))
      | Real_directory mode d \<Rightarrow>
          if mode mod 64 \<noteq> 0 then Inl (UnsafeArtifactPath (lit ''artifact root permissions must not allow group or other access''))
          else Inr rt)"

definition new_store :: "store_root \<Rightarrow> int \<Rightarrow> (int \<Rightarrow> unit result) option \<Rightarrow> artifact_store result" where
  "new_store rt max_size guard =
     (if max_size < 1 then Inl (ValueError (lit ''max_bytes must be positive''))
      else bindR (ensure_root rt) (\<lambda>r. Inr \<lparr>st_root = r, st_max_bytes = max_size, st_guard = guard\<rparr>))"

definition open_root :: "store_root \<Rightarrow> directory result" where
  "open_root rt = (case rt of Real_directory _ d \<Rightarrow> Inr d | _ \<Rightarrow> Inl (UnsafeArtifactPath (lit ''artifact root is not link-safe'')))"

text \<open>
  One publication: a staging file is created, written and synchronised, linked to its name and removed. The
  fault says which call the system refuses; a name that exists is refused by the calls themselves.
\<close>

datatype publish_fault = No_fault | Open_fault | Write_fault | Link_fault

definition os_refusal :: exn where
  "os_refusal = OSError []"

definition publish :: "publish_fault \<Rightarrow> pystr \<Rightarrow> pystr \<Rightarrow> bytes \<Rightarrow> directory \<Rightarrow> directory \<times> unit result" where
  "publish fault unique filename payload d =
     (let temporary = lit ''.staging-'' @ unique
      in if fault = Open_fault \<or> temporary \<in> fst ` set d then (d, Inl os_refusal)
         else let d1 = od_set temporary (Regular []) d
              in if fault = Write_fault then (od_pop temporary d1, Inl os_refusal)
                 else let d2 = od_set temporary (Regular payload) d1
                      in if fault = Link_fault \<or> filename \<in> fst ` set d2 then (od_pop temporary d2, Inl os_refusal)
                         else (od_pop temporary (od_set filename (Regular payload) d2), Inr ()))"

definition publish_pair ::
    "publish_fault \<times> publish_fault \<Rightarrow> pystr \<times> pystr \<Rightarrow> pystr \<Rightarrow> bytes \<Rightarrow> bytes \<Rightarrow> directory \<Rightarrow> directory \<times> unit result" where
  "publish_pair faults uniques filename payload metadata d =
     (case publish (fst faults) (fst uniques) (filename @ METADATA_SUFFIX) metadata d of
        (d1, Inl e) \<Rightarrow> (d1, Inl e)
      | (d1, Inr _) \<Rightarrow>
          (case publish (snd faults) (snd uniques) filename payload d1 of
             (d2, Inl e) \<Rightarrow> (od_pop (filename @ METADATA_SUFFIX) d2, Inl e)
           | (d2, Inr _) \<Rightarrow> (d2, Inr ())))"

text \<open>Everything that \<open>_write\<close> checks and computes before it touches the directory.\<close>

record write_request =
  wr_filename :: pystr
  wr_payload :: bytes
  wr_category :: pystr
  wr_retention :: int
  wr_media_type :: pystr
  wr_now :: datetime

definition check_request :: "artifact_store \<Rightarrow> write_request \<Rightarrow> unit result" where
  "check_request S w =
     bindR (validate_filename (wr_filename w)) (\<lambda>filename.
       if ends_with filename METADATA_SUFFIX then Inl (UnsafeArtifactPath (lit ''reserved metadata suffix''))
       else if \<not> safe_category (wr_category w) then Inl (ArtifactError (lit ''artifact category is invalid''))
       else if wr_retention w \<le> 0 then Inl (ArtifactError (lit ''artifact retention must be positive''))
       else if int (length (wr_payload w)) > st_max_bytes S
       then Inl (ArtifactTooLarge (lit ''artifact exceeds configured '' @ str_int (st_max_bytes S) @ lit '' byte limit''))
       else Inr ())"

definition request_metadata :: "artifact_env \<Rightarrow> write_request \<Rightarrow> artifact_metadata result" where
  "request_metadata E w =
     bindR (as_utc (ae_zone E) (wr_now w)) (\<lambda>created.
     bindR (dt_add (utc_dt created) (wr_retention w)) (\<lambda>expires.
     bindR (utc_instant os_refusal expires) (\<lambda>expires_at.
       Inr \<lparr>am_schema_version = JInt 1, am_filename = wr_filename w, am_category = JStr (wr_category w),
         am_media_type = JStr (wr_media_type w), am_size_bytes = JInt (int (length (wr_payload w))),
         am_sha256 = JStr (ae_sha E (wr_payload w)), am_created_at = JStr (isoformat created),
         am_expires_at = isoformat expires_at\<rparr>)))"

definition prepare_write :: "artifact_env \<Rightarrow> artifact_store \<Rightarrow> write_request \<Rightarrow> (artifact_metadata \<times> bytes) result" where
  "prepare_write E S w =
     bindR (check_request S w) (\<lambda>_.
     bindR (request_metadata E w) (\<lambda>m.
     bindR (metadata_payload E m) (\<lambda>raw.
     bindR (case st_guard S of None \<Rightarrow> Inr () | Some guard \<Rightarrow> guard (int (length (wr_payload w)) + int (length raw))) (\<lambda>_.
       Inr (m, raw)))))"

definition write_artifact ::
    "artifact_env \<Rightarrow> publish_fault \<times> publish_fault \<Rightarrow> pystr \<times> pystr \<Rightarrow> artifact_store \<Rightarrow> write_request \<Rightarrow> artifact_store \<times> artifact_metadata result" where
  "write_artifact E faults uniques S w =
     (case prepare_write E S w of
        Inl e \<Rightarrow> (S, Inl e)
      | Inr (m, raw) \<Rightarrow>
          (case st_root S of
             Real_directory mode d \<Rightarrow>
               (case publish_pair faults uniques (wr_filename w) (wr_payload w) raw d of
                  (d', r) \<Rightarrow> (S\<lparr>st_root := Real_directory mode d'\<rparr>, bindR r (\<lambda>_. Inr m)))
           | _ \<Rightarrow> (S, Inl (UnsafeArtifactPath (lit ''artifact root is not link-safe'')))))"

definition write_text ::
    "artifact_env \<Rightarrow> publish_fault \<times> publish_fault \<Rightarrow> pystr \<times> pystr \<Rightarrow> artifact_store \<Rightarrow> pystr \<Rightarrow> pystr \<Rightarrow> pystr \<Rightarrow> int \<Rightarrow> pystr
     \<Rightarrow> datetime \<Rightarrow> artifact_store \<times> artifact_metadata result" where
  "write_text E faults uniques S filename content category retention media_type now =
     (case utf8_encode (ae_redact E content) of
        Inl e \<Rightarrow> (S, Inl e)
      | Inr payload \<Rightarrow> write_artifact E faults uniques S
          \<lparr>wr_filename = filename, wr_payload = payload, wr_category = category, wr_retention = retention,
            wr_media_type = media_type, wr_now = now\<rparr>)"

definition write_json ::
    "artifact_env \<Rightarrow> publish_fault \<times> publish_fault \<Rightarrow> pystr \<times> pystr \<Rightarrow> artifact_store \<Rightarrow> pystr \<Rightarrow> json \<Rightarrow> pystr \<Rightarrow> int
     \<Rightarrow> datetime \<Rightarrow> artifact_store \<times> artifact_metadata result" where
  "write_json E faults uniques S filename v category retention now =
     (case utf8_encode (json_dumps False (lit '','') (lit '':'') (ae_float E) (ae_redact_json E v)) of
        Inl e \<Rightarrow> (S, Inl e)
      | Inr payload \<Rightarrow> write_artifact E faults uniques S
          \<lparr>wr_filename = filename, wr_payload = payload, wr_category = category, wr_retention = retention,
            wr_media_type = lit ''application/json'', wr_now = now\<rparr>)"

section \<open>Retention\<close>

definition invalid_metadata :: exn where
  "invalid_metadata = UnsafeArtifactPath (lit ''artifact metadata is invalid'')"

definition decode_metadata :: "artifact_env \<Rightarrow> bytes \<Rightarrow> artifact_metadata result" where
  "decode_metadata E raw =
     (case ae_loads E raw of
        None \<Rightarrow> Inl invalid_metadata
      | Some v \<Rightarrow>
          (case metadata_of_json v of
             None \<Rightarrow> Inl invalid_metadata
           | Some m \<Rightarrow> if \<not> safe_name (am_filename m) \<or> ae_parse_iso E (am_expires_at m) = None then Inl invalid_metadata else Inr m))"

definition read_metadata :: "artifact_env \<Rightarrow> directory \<Rightarrow> pystr \<Rightarrow> artifact_metadata result" where
  "read_metadata E d name =
     bindR (validate_filename name) (\<lambda>_.
       case map_of d name of
         None \<Rightarrow> Inl os_refusal
       | Some Link \<Rightarrow> Inl os_refusal
       | Some Special \<Rightarrow> Inl (UnsafeArtifactPath (lit ''artifact metadata must be a bounded regular file''))
       | Some (Regular raw) \<Rightarrow>
           if int (length raw) > MAX_METADATA_BYTES
           then Inl (UnsafeArtifactPath (lit ''artifact metadata must be a bounded regular file''))
           else bindR (decode_metadata E raw) (\<lambda>m.
             if name \<noteq> am_filename m @ METADATA_SUFFIX then Inl (UnsafeArtifactPath (lit ''artifact metadata filename mismatch''))
             else Inr m))"

definition expired_item :: "artifact_env \<Rightarrow> int \<Rightarrow> artifact_metadata \<Rightarrow> bool result" where
  "expired_item E cutoff m =
     (case ae_parse_iso E (am_expires_at m) of
        Some (Aware t off) \<Rightarrow> Inr (t - off \<le> cutoff)
      | Some (Naive t) \<Rightarrow> Inl (TypeError (lit ''can't compare offset-naive and offset-aware datetimes''))
      | None \<Rightarrow> Inl (ValueError (lit ''Invalid isoformat string'')))"

fun filterR :: "('a \<Rightarrow> bool result) \<Rightarrow> 'a list \<Rightarrow> 'a list result" where
  "filterR p [] = Inr []"
| "filterR p (x # xs) = bindR (p x) (\<lambda>b. bindR (filterR p xs) (\<lambda>ys. Inr (if b then x # ys else ys)))"

definition metadata_names :: "directory \<Rightarrow> pystr list" where
  "metadata_names d = sort (filter (\<lambda>n. ends_with n METADATA_SUFFIX) (map fst d))"

definition expired :: "artifact_env \<Rightarrow> store_root \<Rightarrow> datetime \<Rightarrow> artifact_metadata list result" where
  "expired E rt now =
     bindR (as_utc (ae_zone E) now) (\<lambda>cutoff.
     bindR (open_root rt) (\<lambda>d.
     bindR (mapR (read_metadata E d) (metadata_names d)) (\<lambda>items.
       filterR (expired_item E cutoff) items)))"

definition require_regular :: "directory \<Rightarrow> pystr \<Rightarrow> unit result" where
  "require_regular d name =
     (case map_of d name of
        None \<Rightarrow> Inl os_refusal
      | Some (Regular _) \<Rightarrow> Inr ()
      | Some _ \<Rightarrow> Inl (UnsafeArtifactPath (lit ''retention refuses non-regular artifact entries'')))"

fun prune_items :: "artifact_metadata list \<Rightarrow> directory \<Rightarrow> directory \<times> unit result" where
  "prune_items [] d = (d, Inr ())"
| "prune_items (m # ms) d =
     (case bindR (require_regular d (am_filename m)) (\<lambda>_. require_regular d (am_filename m @ METADATA_SUFFIX)) of
        Inl e \<Rightarrow> (d, Inl e)
      | Inr _ \<Rightarrow> prune_items ms (od_pop (am_filename m @ METADATA_SUFFIX) (od_pop (am_filename m) d)))"

definition prune_expired :: "artifact_env \<Rightarrow> store_root \<Rightarrow> datetime \<Rightarrow> bool \<Rightarrow> store_root \<times> artifact_metadata list result" where
  "prune_expired E rt now dry_run =
     (case expired E rt now of
        Inl e \<Rightarrow> (rt, Inl e)
      | Inr items \<Rightarrow>
          if dry_run then (rt, Inr items)
          else (case rt of
                  Real_directory mode d \<Rightarrow>
                    (case prune_items items d of (d', r) \<Rightarrow> (Real_directory mode d', bindR r (\<lambda>_. Inr items)))
                | _ \<Rightarrow> (rt, Inl (UnsafeArtifactPath (lit ''artifact root is not link-safe'')))))"

section \<open>Audit of written files\<close>

text \<open>A root is a link, a file, or a tree; the entries of a tree come in the order of their paths.\<close>

datatype audit_entry = Audit_link | Audit_file bytes | Audit_other

datatype audit_root = Root_link | Root_file bytes | Root_tree "(pystr \<times> audit_entry) list"

fun audit_entry_findings :: "artifact_env \<Rightarrow> int \<Rightarrow> pystr \<times> audit_entry \<Rightarrow> (pystr \<times> pystr) list" where
  "audit_entry_findings E limit (path, Audit_link) = [(path, lit ''symlink'')]"
| "audit_entry_findings E limit (path, Audit_other) = []"
| "audit_entry_findings E limit (path, Audit_file raw) =
     (if int (length raw) > limit then [(path, lit ''oversized'')]
      else let s = utf8_decode_replace raw in if ae_redact E s \<noteq> s then [(path, lit ''sensitive-pattern'')] else [])"

fun audit_root_findings :: "artifact_env \<Rightarrow> int \<Rightarrow> pystr \<times> audit_root \<Rightarrow> (pystr \<times> pystr) list" where
  "audit_root_findings E limit (path, Root_link) = [(path, lit ''symlink'')]"
| "audit_root_findings E limit (path, Root_file raw) = audit_entry_findings E limit (path, Audit_file raw)"
| "audit_root_findings E limit (path, Root_tree entries) = concat (map (audit_entry_findings E limit) entries)"

definition audit_outputs :: "artifact_env \<Rightarrow> int \<Rightarrow> (pystr \<times> audit_root) list \<Rightarrow> (pystr \<times> pystr) list" where
  "audit_outputs E limit roots = concat (map (audit_root_findings E limit) roots)"

section \<open>Generated names are valid\<close>

lemma name_chars_others: "list_all is_name_char (squash_others inside s)"
  by (induction inside s rule: squash_others.induct) (auto simp: is_name_char_def)

lemma list_all_dropWhile: "list_all p s \<Longrightarrow> list_all p (dropWhile q s)"
  by (induction s) auto

lemma name_chars_runs: "list_all is_name_char s \<Longrightarrow> list_all is_name_char (squash_runs s)"
proof (induction s rule: squash_runs.induct)
  case (3 c d cs)
  then show ?case by (auto simp: list_all_dropWhile is_name_char_def)
qed simp_all

lemma squash_runs_hd: "\<not> is_punctuation c \<Longrightarrow> \<exists>t. squash_runs (c # s) = c # t"
  by (cases s) auto

lemma name_chars_strip: "list_all is_name_char s \<Longrightarrow> list_all is_name_char (strip_punctuation s)"
  using set_strip_with [of is_punctuation s] by (auto simp: strip_punctuation_def list_all_iff)

lemma rstrip_keeps: "\<not> is_punctuation c \<Longrightarrow> \<exists>t. rstrip_punctuation (c # s) = c # t \<and> length t \<le> length s \<and> set t \<subseteq> set s"
proof -
  assume c: "\<not> is_punctuation c"
  define u where "u = dropWhile is_punctuation (rev s)"
  have "rstrip_punctuation (c # s) = c # rev u"
    using c by (cases "\<forall>x \<in> set s. is_punctuation x") (auto simp: rstrip_punctuation_def u_def dropWhile_append)
  moreover have "length u \<le> length s" "set u \<subseteq> set s"
    using length_dropWhile_le [of is_punctuation "rev s"] set_dropWhileD by (fastforce simp: u_def)+
  ultimately show ?thesis by auto
qed

lemma name_char_cases: "is_name_char c \<Longrightarrow> \<not> is_punctuation c \<Longrightarrow> is_alnum c"
  by (auto simp: is_name_char_def is_punctuation_def)

lemma slug_shape:
  assumes "list_all is_name_char s"
  obtains c t where "or_artifact (squash_runs (strip_punctuation s)) = c # t" "is_alnum c" "list_all is_name_char t"
proof (cases "strip_punctuation s")
  case Nil
  have "or_artifact [] = 97 # lit ''rtifact''" by code_simp
  moreover have "list_all is_name_char (lit ''rtifact'')" "is_alnum 97" by code_simp+
  ultimately show ?thesis using that Nil by simp
next
  case (Cons c u)
  have "\<not> is_punctuation c" using strip_with_hd_last [of is_punctuation s] Cons by (auto simp: strip_punctuation_def)
  then obtain t where t: "squash_runs (c # u) = c # t" using squash_runs_hd by blast
  have "list_all is_name_char (c # t)" using name_chars_runs [of "c # u"] name_chars_strip [OF assms] Cons t by simp
  then show ?thesis using that [of c t] Cons t \<open>\<not> is_punctuation c\<close> name_char_cases by (auto simp: or_artifact_def)
qed

lemma or_artifact_Cons: "or_artifact (c # s) = c # s"
  by (simp add: or_artifact_def)

text \<open>A generated artifact name is always usable: for every label, whatever the redactor and the decomposition make of it, and
  every simple suffix, \<open>safe_filename\<close> succeeds, and its name ends in the suffix and passes the check that every
  publication makes.\<close>

theorem safe_filename_valid:
  assumes "suffix = [] \<or> simple_suffix suffix"
  shows "\<exists>n. safe_filename E label suffix = Inr n \<and> safe_name n \<and> ends_with n suffix"
proof -
  define cleaned where "cleaned = (if contains_text REDACTED (ae_redact E label) then lit ''artifact'' else ae_redact E label)"
  define s where "s = squash_others False (filter (\<lambda>c. 0 \<le> c \<and> c < 128) (ae_decompose E cleaned))"
  obtain c t where slug: "or_artifact (squash_runs (strip_punctuation s)) = c # t" "is_alnum c" "list_all is_name_char t"
    using slug_shape [of s] name_chars_others s_def by blast
  have suffix: "length suffix \<le> 13" "list_all is_name_char suffix"
    using assms by (auto simp: simple_suffix_def is_name_char_def list_all_iff split: list.splits)
  define k where "k = 99 - length suffix"
  have k: "100 - length suffix = Suc k" using suffix(1) by (simp add: k_def)
  have "\<not> is_punctuation c" using slug(2) by (auto simp: is_alnum_def is_punctuation_def)
  then obtain u where u: "rstrip_punctuation (c # take k t) = c # u" "length u \<le> k" "set u \<subseteq> set t"
    using rstrip_keeps [of c "take k t"] set_take_subset [of k t] by (metis length_take min.bounded_iff order_trans)
  have n: "safe_name (c # u @ suffix)"
    using slug suffix u(2,3) by (auto simp: safe_name_def k_def list_all_iff)
  have "safe_filename E label suffix = Inr (c # u @ suffix)"
    using assms n unfolding safe_filename_def Let_def cleaned_def [symmetric] s_def [symmetric] slug(1) k take_Suc_Cons u(1) or_artifact_Cons
    by (auto simp: validate_filename_def)
  then show ?thesis using n by (auto simp: ends_with_def)
qed

section \<open>Publication is all or nothing\<close>

lemma od_set_fresh: "k \<notin> fst ` set d \<Longrightarrow> od_set k v d = d @ [(k, v)]"
  by (simp add: od_set_new map_of_eq_None_iff)

lemma od_pop_fresh: "k \<notin> fst ` set d \<Longrightarrow> od_pop k d = d"
  by (force simp: od_pop_def AList.delete_eq filter_id_conv)

lemma od_pop_append: "od_pop k (d @ e) = od_pop k d @ od_pop k e"
  by (simp add: od_pop_def AList.delete_eq)

lemma od_pop_Cons: "od_pop k ((j, v) # d) = (if j = k then od_pop k d else (j, v) # od_pop k d)"
  by (simp add: od_pop_def AList.delete_eq)

lemma od_set_last: "k \<notin> fst ` set d \<Longrightarrow> od_set k v (d @ [(k, w)]) = d @ [(k, v)]"
  by (induction d) (auto simp: od_set_def)

lemma od_pop_Nil: "od_pop k [] = []"
  by (simp add: od_pop_def)

lemma publish_result:
  assumes "publish fault unique name payload d = (d', r)" "name \<noteq> lit ''.staging-'' @ unique"
  shows "case r of Inl e \<Rightarrow> d' = d | Inr _ \<Rightarrow> name \<notin> fst ` set d \<and> d' = d @ [(name, Regular payload)]"
  using assms
  by (auto simp: publish_def Let_def od_set_fresh od_set_last od_pop_fresh od_pop_append od_pop_Cons od_pop_Nil split: if_splits)

lemma safe_name_start: "safe_name s \<Longrightarrow> s @ t \<noteq> lit ''.staging-'' @ u"
  by (auto simp: safe_name_def lit_def is_alnum_def split: list.splits)

lemma check_request_Inr:
  "check_request S w = Inr () \<Longrightarrow> safe_name (wr_filename w) \<and> \<not> ends_with (wr_filename w) METADATA_SUFFIX \<and>
     int (length (wr_payload w)) \<le> st_max_bytes S \<and> 0 < wr_retention w"
  by (auto simp: check_request_def validate_filename_def bindR_eq_Inr split: if_splits)

lemma publish_pair_result:
  assumes "publish_pair faults uniques name payload raw d = (d', r)" "safe_name name"
  shows "case r of Inl e \<Rightarrow> d' = d
    | Inr _ \<Rightarrow> d' = d @ [(name @ METADATA_SUFFIX, Regular raw), (name, Regular payload)] \<and> {name, name @ METADATA_SUFFIX} \<inter> fst ` set d = {}"
proof -
  obtain d1 r1 where p1: "publish (fst faults) (fst uniques) (name @ METADATA_SUFFIX) raw d = (d1, r1)" by fastforce
  obtain d2 r2 where p2: "publish (snd faults) (snd uniques) name payload d1 = (d2, r2)" by fastforce
  note q1 = publish_result [OF p1 safe_name_start [OF assms(2)]]
  note q2 = publish_result [OF p2 safe_name_start [OF assms(2), of "[]", simplified]]
  show ?thesis
  proof (cases r1)
    case (Inl e)
    then show ?thesis using assms(1) p1 q1 by (auto simp: publish_pair_def)
  next
    case (Inr x)
    have d1: "d1 = d @ [(name @ METADATA_SUFFIX, Regular raw)]" "name @ METADATA_SUFFIX \<notin> fst ` set d" using q1 Inr by auto
    show ?thesis
    proof (cases r2)
      case (Inl e)
      then have "d' = od_pop (name @ METADATA_SUFFIX) d1" "r = Inl e" using assms(1) p1 p2 q2 \<open>r1 = Inr x\<close> by (auto simp: publish_pair_def)
      then show ?thesis using d1 by (simp add: od_pop_append od_pop_Cons od_pop_Nil od_pop_fresh)
    next
      case (Inr y)
      then have "d' = d2" "r = Inr ()" using assms(1) p1 p2 \<open>r1 = Inr x\<close> by (auto simp: publish_pair_def)
      then show ?thesis using q2 Inr d1 by auto
    qed
  qed
qed

lemma prepare_write_Inr:
  assumes "prepare_write E S w = Inr (m, raw)"
  shows "check_request S w = Inr () \<and> request_metadata E w = Inr m \<and> metadata_payload E m = Inr raw"
  using assms unfolding prepare_write_def by (auto simp: bindR_eq_Inr)

lemma request_metadata_Inr:
  assumes "request_metadata E w = Inr m"
  shows "am_filename m = wr_filename w \<and> am_size_bytes m = JInt (int (length (wr_payload w))) \<and> am_sha256 m = JStr (ae_sha E (wr_payload w)) \<and>
    (\<exists>created. as_utc (ae_zone E) (wr_now w) = Inr created \<and> am_expires_at m = isoformat (created + wr_retention w) \<and>
       dt_in_range (created + wr_retention w))"
  using assms unfolding request_metadata_def by (auto simp: bindR_eq_Inr split: if_splits)

lemma write_artifact_result:
  assumes "st_root S = Real_directory mode d" "write_artifact E faults uniques S w = (S', r)"
  shows "case r of Inl e \<Rightarrow> S' = S
    | Inr m \<Rightarrow> (\<exists>raw. metadata_payload E m = Inr raw \<and>
        S' = S\<lparr>st_root := Real_directory mode (d @ [(wr_filename w @ METADATA_SUFFIX, Regular raw), (wr_filename w, Regular (wr_payload w))])\<rparr> \<and>
        {wr_filename w, wr_filename w @ METADATA_SUFFIX} \<inter> fst ` set d = {} \<and> am_filename m = wr_filename w \<and>
        am_size_bytes m = JInt (int (length (wr_payload w))) \<and> am_sha256 m = JStr (ae_sha E (wr_payload w)) \<and>
        int (length (wr_payload w)) \<le> st_max_bytes S)"
proof (cases "prepare_write E S w")
  case (Inl e)
  then show ?thesis using assms(2) by (auto simp: write_artifact_def)
next
  case (Inr p)
  obtain m raw where p: "p = (m, raw)" by fastforce
  note prep = prepare_write_Inr [OF Inr [unfolded p]]
  obtain d' q where pair: "publish_pair faults uniques (wr_filename w) (wr_payload w) raw d = (d', q)" by fastforce
  note result = publish_pair_result [OF pair check_request_Inr [THEN conjunct1, OF prep [THEN conjunct1]]]
  have S': "S' = S\<lparr>st_root := Real_directory mode d'\<rparr>" "r = bindR q (\<lambda>_. Inr m)"
    using assms Inr p pair by (auto simp: write_artifact_def)
  show ?thesis
  proof (cases q)
    case (Inl e)
    then show ?thesis using S' result assms(1) by simp
  next
    case (Inr x)
    then show ?thesis using S' result prep check_request_Inr request_metadata_Inr by fastforce
  qed
qed


section \<open>What was written can be listed and pruned\<close>

lemma fget_same:
  assumes "set v = set w" "od_ok v" "od_ok w"
  shows "fget v k = fget w k"
  using map_of_inject_set [of v w] assms by (simp add: fget_def od_ok_def)

lemma metadata_fields_ok: "od_ok (metadata_fields m)" "fst ` set (metadata_fields m) = set field_names"
  by (simp_all add: metadata_fields_def od_ok_def field_names_def)

lemma metadata_of_fields:
  assumes "set v = set (metadata_fields m)" "od_ok v"
  shows "metadata_of_json (JDict v) = Some m"
proof -
  have get: "fget v k = fget (metadata_fields m) k" for k
    using fget_same [OF assms metadata_fields_ok(1)] .
  have "fst ` set v = set field_names" using assms(1) metadata_fields_ok(2) by simp
  moreover have "field_or_null v k = field_or_null (metadata_fields m) k" for k by (simp add: field_or_null_def get)
  ultimately show ?thesis by (simp add: metadata_of_json_def get) (simp add: metadata_fields_def field_or_null_def)
qed

lemma suffix_length [simp]: "length METADATA_SUFFIX = 14"
  by (simp add: METADATA_SUFFIX_def)

lemma safe_metadata_name: "safe_name n \<Longrightarrow> safe_name (n @ METADATA_SUFFIX) \<longleftrightarrow> length n \<le> 86"
proof -
  have "list_all is_name_char METADATA_SUFFIX" by code_simp
  moreover assume "safe_name n"
  ultimately show ?thesis by (cases n) (auto simp: safe_name_def)
qed

text \<open>C23. Metadata can be read back as it was written, provided the JSON decoder returns the encoded object, but only for a name of at
  most 86 characters: with a longer one, which the publication accepts (up to 100), the name of the metadata
  file is too long for the reader's own check.\<close>

theorem metadata_roundtrip:
  assumes "st_root S = Real_directory mode d" "write_artifact E faults uniques S w = (S', Inr m)" "st_root S' = Real_directory mode d'"
    and "metadata_payload E m = Inr raw" "int (length raw) \<le> MAX_METADATA_BYTES"
    and "ae_loads E raw = Some (JDict v)" "set v = set (metadata_fields m)" "od_ok v" "ae_parse_iso E (am_expires_at m) \<noteq> None"
  shows "read_metadata E d' (wr_filename w @ METADATA_SUFFIX) =
    (if length (wr_filename w) \<le> 86 then Inr m else Inl (UnsafeArtifactPath (lit ''artifact filename must be a safe portable basename'')))"
proof -
  have d': "d' = d @ [(wr_filename w @ METADATA_SUFFIX, Regular raw), (wr_filename w, Regular (wr_payload w))]"
    and fresh: "wr_filename w @ METADATA_SUFFIX \<notin> fst ` set d" and name: "am_filename m = wr_filename w"
    using write_artifact_result [OF assms(1,2)] assms(3,4) by auto
  have safe: "safe_name (wr_filename w)"
    using assms(1,2) check_request_Inr prepare_write_Inr
    by (fastforce simp: write_artifact_def split: sum.splits prod.splits)
  have get: "map_of d' (wr_filename w @ METADATA_SUFFIX) = Some (Regular raw)"
    using fresh by (simp add: d' map_add_def map_of_eq_None_iff [THEN iffD2])
  have "decode_metadata E raw = Inr m"
    using metadata_of_fields [OF assms(7,8)] assms(6,9) safe by (simp add: decode_metadata_def name)
  then show ?thesis
    using assms(5) safe_metadata_name [OF safe] by (simp add: read_metadata_def validate_filename_def get name)
qed

lemma mapR_Inl: "x \<in> set xs \<Longrightarrow> f x = Inl e \<Longrightarrow> \<exists>e'. mapR f xs = Inl e'"
proof (induction xs)
  case (Cons y ys)
  show ?case
  proof (cases "f y")
    case (Inr v)
    then have "x \<in> set ys" using Cons.prems by auto
    then obtain e' where "mapR f ys = Inl e'" using Cons.IH Cons.prems(2) by blast
    then show ?thesis using Inr by simp
  qed simp
qed simp

text \<open>Such a name stops every later listing, and with it every retention run, of the whole store.\<close>

lemma long_name_blocks_retention:
  assumes "st_root S = Real_directory mode d" "write_artifact E faults uniques S w = (S', Inr m)" "86 < length (wr_filename w)"
  shows "\<exists>e. expired E (st_root S') now = Inl e"
proof -
  obtain raw where S': "st_root S' = Real_directory mode (d @ [(wr_filename w @ METADATA_SUFFIX, Regular raw), (wr_filename w, Regular (wr_payload w))])"
    using write_artifact_result [OF assms(1,2)] by auto
  have safe: "safe_name (wr_filename w)"
    using assms(1,2) check_request_Inr prepare_write_Inr
    by (fastforce simp: write_artifact_def split: sum.splits prod.splits)
  let ?n = "wr_filename w @ METADATA_SUFFIX"
  let ?d = "d @ [(?n, Regular raw), (wr_filename w, Regular (wr_payload w))]"
  have "?n \<in> set (metadata_names ?d)" by (simp add: metadata_names_def ends_with_def)
  moreover have "\<exists>e. read_metadata E ?d ?n = Inl e"
    using safe_metadata_name [OF safe] assms(3) by (simp add: read_metadata_def validate_filename_def)
  ultimately obtain e where "mapR (read_metadata E ?d) (metadata_names ?d) = Inl e" using mapR_Inl by meson
  then show ?thesis by (cases "as_utc (ae_zone E) now") (simp_all add: expired_def S' open_root_def)
qed

lemma od_pop_filter: "od_pop k d = filter (\<lambda>p. fst p \<noteq> k) d"
  by (auto simp: od_pop_def AList.delete_eq intro: filter_cong)

definition belongs_to :: "artifact_metadata list \<Rightarrow> pystr \<Rightarrow> bool" where
  "belongs_to items n \<longleftrightarrow> (\<exists>m \<in> set items. n = am_filename m \<or> n = am_filename m @ METADATA_SUFFIX)"

lemma prune_items_Inr:
  "prune_items items d = (d', Inr ()) \<Longrightarrow> d' = filter (\<lambda>p. \<not> belongs_to items (fst p)) d"
proof (induction items arbitrary: d)
  case Nil
  then show ?case by (simp add: belongs_to_def)
next
  case (Cons m ms)
  have "prune_items ms (od_pop (am_filename m @ METADATA_SUFFIX) (od_pop (am_filename m) d)) = (d', Inr ())"
    using Cons.prems by (auto split: sum.splits)
  from Cons.IH [OF this] show ?case by (simp add: od_pop_filter belongs_to_def)
qed

lemma filterR_Inr: "filterR p xs = Inr ys \<Longrightarrow> ys = filter (\<lambda>x. p x = Inr True) xs"
  by (induction xs arbitrary: ys) (auto simp: result_simps split: if_splits)

lemma mapR_set: "mapR f xs = Inr ys \<Longrightarrow> set ys = {y. \<exists>x \<in> set xs. f x = Inr y}"
  by (induction xs arbitrary: ys) (auto simp: result_simps)

lemma expired_Inr:
  assumes "expired E (Real_directory mode d) now = Inr items" "as_utc (ae_zone E) now = Inr cutoff"
  shows "m \<in> set items \<longleftrightarrow> (\<exists>n \<in> set (metadata_names d). read_metadata E d n = Inr m) \<and> expired_item E cutoff m = Inr True"
proof -
  obtain all where all: "mapR (read_metadata E d) (metadata_names d) = Inr all" "filterR (expired_item E cutoff) all = Inr items"
    using assms by (auto simp: expired_def open_root_def bindR_eq_Inr)
  have "m \<in> set all \<longleftrightarrow> (\<exists>n \<in> set (metadata_names d). read_metadata E d n = Inr m)"
    using mapR_set [OF all(1)] by auto
  then show ?thesis using filterR_Inr [OF all(2)] by auto
qed

text \<open>C24. Retention deletes exactly the expired artifacts: a pass that succeeds removes the payload and the metadata of each artifact
  whose recorded expiry has come, and nothing else, and it reports those artifacts.\<close>

theorem prune_expired_exact:
  assumes "prune_expired E (Real_directory mode d) now False = (rt', Inr items)" "as_utc (ae_zone E) now = Inr cutoff"
  shows "rt' = Real_directory mode (filter (\<lambda>p. \<not> belongs_to items (fst p)) d) \<and>
    set items = {m. (\<exists>n \<in> set (metadata_names d). read_metadata E d n = Inr m) \<and> expired_item E cutoff m = Inr True}"
proof -
  have items: "expired E (Real_directory mode d) now = Inr items"
    using assms(1) by (auto simp: prune_expired_def bindR_eq_Inr split: sum.splits prod.splits)
  obtain d' where "prune_items items d = (d', Inr ())" "rt' = Real_directory mode d'"
    using assms(1) items by (auto simp: prune_expired_def bindR_eq_Inr split: prod.splits)
  then show ?thesis using prune_items_Inr expired_Inr [OF items assms(2)] by auto
qed

section \<open>A small store\<close>

definition demo_metadata :: artifact_metadata where
  "demo_metadata =
     \<lparr>am_schema_version = JInt 1, am_filename = lit ''a.txt'', am_category = jstr ''ssh'', am_media_type = jstr ''text/plain'',
       am_size_bytes = JInt 1, am_sha256 = jstr ''00'', am_created_at = JStr (isoformat 0), am_expires_at = isoformat 60000000\<rparr>"

definition demo_artifact_env :: artifact_env where
  "demo_artifact_env =
     \<lparr>ae_redact = id, ae_redact_json = id, ae_sha = (\<lambda>_. lit ''00''), ae_float = (\<lambda>_. []), ae_zone = (\<lambda>_. 0),
       ae_loads = (\<lambda>_. Some (JDict (metadata_fields demo_metadata))),
       ae_parse_iso = (\<lambda>s. if s = isoformat 60000000 then Some (Aware 60000000 0) else None), ae_decompose = id\<rparr>"

definition demo_store :: artifact_store where
  "demo_store = \<lparr>st_root = Real_directory 448 [], st_max_bytes = 100, st_guard = None\<rparr>"

definition demo_write :: "publish_fault \<Rightarrow> artifact_store \<times> artifact_metadata result" where
  "demo_write fault = write_artifact demo_artifact_env (No_fault, fault) ([97], [98]) demo_store
     \<lparr>wr_filename = lit ''a.txt'', wr_payload = [7], wr_category = lit ''ssh'', wr_retention = 60000000,
       wr_media_type = lit ''text/plain'', wr_now = Aware 0 0\<rparr>"

lemma demo_written: "snd (demo_write No_fault) = Inr demo_metadata"
  by code_simp


definition demo_raw :: bytes where
  "demo_raw = (case metadata_payload demo_artifact_env demo_metadata of Inr raw \<Rightarrow> raw | Inl _ \<Rightarrow> [])"

lemma demo_raw: "metadata_payload demo_artifact_env demo_metadata = Inr demo_raw" "length demo_raw < 1000"
  by code_simp+

definition demo_directory :: directory where
  "demo_directory = [(lit ''a.txt.metadata.json'', Regular demo_raw), (lit ''a.txt'', Regular [7])]"

lemma demo_write_root: "st_root (fst (demo_write No_fault)) = Real_directory 448 demo_directory"
  by code_simp


theorem metadata_roundtrip_witness:
  "read_metadata demo_artifact_env demo_directory (lit ''a.txt'' @ METADATA_SUFFIX) = Inr demo_metadata"
proof -
  have root: "st_root demo_store = Real_directory 448 []" by (simp add: demo_store_def)
  have written: "write_artifact demo_artifact_env (No_fault, No_fault) ([97], [98]) demo_store
     \<lparr>wr_filename = lit ''a.txt'', wr_payload = [7], wr_category = lit ''ssh'', wr_retention = 60000000,
       wr_media_type = lit ''text/plain'', wr_now = Aware 0 0\<rparr> = (fst (demo_write No_fault), Inr demo_metadata)"
    using demo_written unfolding demo_write_def by (metis prod.collapse)
  have size: "int (length demo_raw) \<le> MAX_METADATA_BYTES" using demo_raw(2) by (simp add: MAX_METADATA_BYTES_def)
  have loads: "ae_loads demo_artifact_env demo_raw = Some (JDict (metadata_fields demo_metadata))" by (simp add: demo_artifact_env_def)
  have iso: "ae_parse_iso demo_artifact_env (am_expires_at demo_metadata) \<noteq> None" by (simp add: demo_artifact_env_def demo_metadata_def)
  show ?thesis
    using metadata_roundtrip [OF root written demo_write_root demo_raw(1) size loads refl metadata_fields_ok(1) iso] by simp
qed

definition demo_pruned :: "store_root \<times> artifact_metadata list result" where
  "demo_pruned = prune_expired demo_artifact_env (Real_directory 448 demo_directory) (Aware 60000000 0) False"

theorem prune_expired_exact_witness: "fst demo_pruned = Real_directory 448 []"
proof -
  have items: "snd demo_pruned = Inr [demo_metadata]" by code_simp
  then have run: "prune_expired demo_artifact_env (Real_directory 448 demo_directory) (Aware 60000000 0) False = (fst demo_pruned, Inr [demo_metadata])"
    unfolding demo_pruned_def by (metis prod.collapse)
  have cutoff: "as_utc (ae_zone demo_artifact_env) (Aware 60000000 0) = Inr 60000000"
    by (simp add: as_utc_def dt_in_range_def dt_min_def dt_max_def)
  have "fst demo_pruned = Real_directory 448 (filter (\<lambda>p. \<not> belongs_to [demo_metadata] (fst p)) demo_directory)"
    using prune_expired_exact [OF run cutoff] by simp
  moreover have "filter (\<lambda>p. \<not> belongs_to [demo_metadata] (fst p)) demo_directory = []"
    by (simp add: demo_directory_def belongs_to_def demo_metadata_def METADATA_SUFFIX_def lit_def)
  ultimately show ?thesis by simp
qed

theorem safe_filename_valid_witness:
  "\<exists>n. safe_filename demo_artifact_env (lit ''../Core switch: 1'') (lit ''.txt'') = Inr n \<and> safe_name n \<and> ends_with n (lit ''.txt'')"
proof -
  have "simple_suffix (lit ''.txt'')" by code_simp
  then show ?thesis using safe_filename_valid by blast
qed

end
