(* ===== verification/Storage.thy ===== *)
theory Storage
  imports Artifacts
begin

text \<open>
  \<open>storage.py\<close>: the disk reserve that pauses heavy writes, the retention of backups in two phases (a plan and
  its application to a directory that may have changed since), and the retention of a tree of artifact
  stores. What the disk reports, the rounded percentage of a float division and the local time zone are
  arguments.
\<close>

section \<open>The disk reserve\<close>

record disk_status =
  ds_checked_path :: pystr
  ds_total :: int
  ds_free :: int
  ds_required :: int
  ds_remaining :: int
  ds_percent :: rat
  ds_minimum_bytes :: int
  ds_minimum_percent :: int
  ds_allowed :: bool

text \<open>\<open>dg_percent r t\<close> is \<open>round(r * 100 / t, 2)\<close>; \<open>dg_probe\<close> the total and free bytes at a path.\<close>

record disk_guard =
  dg_minimum_bytes :: int
  dg_minimum_percent :: int
  dg_probe :: "pystr \<Rightarrow> int \<times> int"
  dg_percent :: "int \<Rightarrow> int \<Rightarrow> rat"

text \<open>The path and its parents up to the root, each with whether it exists: the first existing one, else the last.\<close>

fun nearest_existing :: "(pystr \<times> bool) list \<Rightarrow> pystr" where
  "nearest_existing [] = []"
| "nearest_existing [(p, there)] = p"
| "nearest_existing ((p, there) # q # ps) = (if there then p else nearest_existing (q # ps))"

definition guard_inspect :: "disk_guard \<Rightarrow> (pystr \<times> bool) list \<Rightarrow> int \<Rightarrow> disk_status result" where
  "guard_inspect g path required =
     (if required < 0 then Inl (ValueError (lit ''required_bytes must not be negative''))
      else let candidate = nearest_existing path;
               (total, free) = dg_probe g candidate;
               remaining = max 0 (free - required);
               percentage = (if total \<noteq> 0 then dg_percent g remaining total else 0)
           in Inr \<lparr>ds_checked_path = candidate, ds_total = total, ds_free = free, ds_required = required, ds_remaining = remaining,
                ds_percent = percentage, ds_minimum_bytes = dg_minimum_bytes g, ds_minimum_percent = dg_minimum_percent g,
                ds_allowed = (remaining \<ge> dg_minimum_bytes g \<and> percentage \<ge> of_int (dg_minimum_percent g))\<rparr>)"

definition guard_check :: "disk_guard \<Rightarrow> (pystr \<times> bool) list \<Rightarrow> int \<Rightarrow> disk_status result" where
  "guard_check g path required =
     bindR (guard_inspect g path required) (\<lambda>s.
       if \<not> ds_allowed s
       then Inl (LowDiskSpace (lit ''artifact-heavy work paused: available disk reserve is below the configured '' @
              str_int (ds_minimum_bytes s) @ lit '' byte/'' @ str_int (ds_minimum_percent s) @ lit ''% threshold''))
       else Inr s)"

section \<open>Backups\<close>















section \<open>Artifact trees\<close>

text \<open>The root of the tree: absent (or a dangling link), a link or other entry, or a directory of entries.\<close>

datatype artifact_tree = Tree_absent | Tree_unsafe | Tree "(pystr, store_root) odict"

definition DEFAULT_MAX_ARTIFACT_BYTES :: int where
  "DEFAULT_MAX_ARTIFACT_BYTES = 4 * 1024 * 1024"

text \<open>One entry: the store is opened on it and pruned; its own refusals of a path become refusals of the tree.\<close>

definition prune_entry :: "artifact_env \<Rightarrow> datetime \<Rightarrow> bool \<Rightarrow> store_root \<Rightarrow> store_root \<times> int result" where
  "prune_entry E now dry_run rt =
     (case rt of
        Real_directory _ _ \<Rightarrow>
          (case new_store rt DEFAULT_MAX_ARTIFACT_BYTES None of
             Inl (UnsafeArtifactPath _) \<Rightarrow> (rt, Inl (UnsafeStoragePath (lit ''artifact retention path is unsafe'')))
           | Inl e \<Rightarrow> (rt, Inl e)
           | Inr S \<Rightarrow>
               (case prune_expired E (st_root S) now dry_run of
                  (rt', Inl (UnsafeArtifactPath _)) \<Rightarrow> (rt', Inl (UnsafeStoragePath (lit ''artifact retention path is unsafe'')))
                | (rt', Inl e) \<Rightarrow> (rt', Inl e)
                | (rt', Inr items) \<Rightarrow> (rt', Inr (int (length items)))))
      | _ \<Rightarrow> (rt, Inl (UnsafeStoragePath (lit ''artifact retention refuses unexpected entries''))))"

fun prune_entries :: "artifact_env \<Rightarrow> datetime \<Rightarrow> bool \<Rightarrow> (pystr, store_root) odict \<Rightarrow> (pystr, store_root) odict \<times> int result" where
  "prune_entries E now dry_run [] = ([], Inr 0)"
| "prune_entries E now dry_run ((n, rt) # es) =
     (case prune_entry E now dry_run rt of
        (rt', Inl e) \<Rightarrow> ((n, rt') # es, Inl e)
      | (rt', Inr k) \<Rightarrow>
          (case prune_entries E now dry_run es of (es', r) \<Rightarrow> ((n, rt') # es', bindR r (\<lambda>j. Inr (k + j)))))"

definition prune_artifact_tree :: "artifact_env \<Rightarrow> artifact_tree \<Rightarrow> datetime \<Rightarrow> bool \<Rightarrow> artifact_tree \<times> int result" where
  "prune_artifact_tree E tree now dry_run =
     (case tree of
        Tree_absent \<Rightarrow> (tree, Inr 0)
      | Tree_unsafe \<Rightarrow> (tree, Inl (UnsafeStoragePath (lit ''artifact retention root must be a real directory'')))
      | Tree es \<Rightarrow> (case prune_entries E now dry_run (sort_key fst es) of (es', r) \<Rightarrow> (Tree es', r)))"

section \<open>The reserve is kept\<close>

text \<open>A write that the guard lets through leaves the reserve: at least the configured bytes remain free after it, and the
  remaining share is below the configured percentage by at most the rounding of the reported percentage,
  which must be within \<open>slack\<close> of the exact one.\<close>

theorem guard_keeps_reserve:
  assumes "guard_check g path required = Inr s"
    and "\<And>r t. 0 < t \<Longrightarrow> dg_percent g r t \<le> of_int (100 * r) / of_int t + slack" "0 < ds_total s"
  shows "0 \<le> required \<and> dg_minimum_bytes g \<le> max 0 (ds_free s - required) \<and>
    (of_int (dg_minimum_percent g) - slack) * of_int (ds_total s) \<le> of_int (100 * max 0 (ds_free s - required))"
proof -
  obtain total free where probe: "dg_probe g (nearest_existing path) = (total, free)" by fastforce
  define r where "r = max 0 (free - required)"
  have s: "ds_total s = total" "ds_free s = free" "0 \<le> required" "dg_minimum_bytes g \<le> r"
    "total \<noteq> 0 \<Longrightarrow> of_int (dg_minimum_percent g) \<le> dg_percent g r total"
    using assms(1) probe by (auto simp: guard_check_def guard_inspect_def Let_def bindR_eq_Inr r_def split: if_splits)
  have t: "0 < total" using assms(3) s(1) by simp
  have "of_int (dg_minimum_percent g) \<le> of_int (100 * r) / of_int total + slack"
    using s(5) t assms(2) [OF t, of r] by fastforce
  then have "(of_int (dg_minimum_percent g) - slack) * of_int total \<le> of_int (100 * r)"
    using t by (simp add: pos_le_divide_eq [symmetric] diff_le_eq)
  then show ?thesis using s by (simp add: r_def)
qed

text \<open>
  The reserve itself is not kept exactly: rounding the percentage to two places lets a write pass that leaves
  4.996 percent of the disk under a reserve of 5 percent.
\<close>

definition round2 :: "int \<Rightarrow> int \<Rightarrow> rat" where
  "round2 r t = of_int (round (of_int (10000 * r) / of_int t :: rat)) / 100"

definition demo_guard :: disk_guard where
  "demo_guard = \<lparr>dg_minimum_bytes = 1, dg_minimum_percent = 5, dg_probe = (\<lambda>_. (100000, 5000)), dg_percent = round2\<rparr>"

lemma reserve_crossed_by_rounding:
  "\<exists>s. guard_check demo_guard [([47], True)] 4 = Inr s \<and> 100 * ds_remaining s < dg_minimum_percent demo_guard * ds_total s"
proof -
  have "round (of_int (10000 * 4996) / of_int 100000 :: rat) = 500" by (simp add: round_def floor_eq_iff)
  then have "round2 4996 100000 = 5" by (simp add: round2_def)
  then show ?thesis by (simp add: guard_check_def guard_inspect_def demo_guard_def)
qed

lemma round2_close: "0 < t \<Longrightarrow> round2 r t \<le> of_int (100 * r) / of_int t + 1 / 200"
proof -
  assume "0 < t"
  have "of_int (round (of_int (10000 * r) / of_int t :: rat)) \<le> (of_int (10000 * r) / of_int t :: rat) + 1 / 2"
    by (rule of_int_round_le)
  then show ?thesis by (simp add: round2_def field_simps)
qed

section \<open>A plan is applied in full or not at all\<close>









section \<open>A small data root\<close>





theorem guard_keeps_reserve_witness:
  "\<exists>s. guard_check demo_guard [([47], True)] 4 = Inr s \<and> 1 \<le> max 0 (ds_free s - 4)"
proof -
  obtain s where s: "guard_check demo_guard [([47], True)] 4 = Inr s" using reserve_crossed_by_rounding by blast
  have "dg_percent demo_guard = round2" by (simp add: demo_guard_def)
  moreover have "ds_total s = 100000" using s by (auto simp: guard_check_def guard_inspect_def demo_guard_def Let_def bindR_eq_Inr split: if_splits)
  ultimately have "dg_minimum_bytes demo_guard \<le> max 0 (ds_free s - 4)"
    using guard_keeps_reserve [OF s, of "1 / 200"] round2_close by simp
  then show ?thesis using s by (auto simp: demo_guard_def)
qed

end
