(* ===== verification/Ssh_Collection.thy ===== *)
theory Ssh_Collection
  imports Collectors Artifacts
begin

text \<open>
  \<open>ssh_collection.py\<close>: the platforms and their exact command lists, the resolution of credentials, the
  parameters of a connection, and the collection of one device, which stores every output as an artifact and
  registers it in the repository. The Netmiko library is what a connection attempt and each command return;
  \<open>json.loads\<close>, the secret file, the helper process and the clock are arguments.
\<close>

section \<open>Platforms\<close>

definition PLATFORM_ALIASES :: "(pystr \<times> pystr) list" where
  "PLATFORM_ALIASES = map (\<lambda>(a, p). (lit a, lit p))
     [(''cisco'', ''cisco_ios''), (''cisco_ios'', ''cisco_ios''), (''ios'', ''cisco_ios''), (''hp'', ''hp_comware''), (''hpe'', ''hp_comware''),
      (''hp_comware'', ''hp_comware''), (''comware'', ''hp_comware''), (''aruba'', ''aruba_aos''), (''aruba_aos'', ''aruba_aos''),
      (''arubaos-switch'', ''aruba_aos''), (''procurve'', ''aruba_aos'')]"

definition NETMIKO_DEVICE_TYPES :: "(pystr \<times> pystr) list" where
  "NETMIKO_DEVICE_TYPES = map (\<lambda>(a, p). (lit a, lit p))
     [(''cisco_ios'', ''cisco_ios''), (''hp_comware'', ''hp_comware''), (''aruba_aos'', ''terminal_server'')]"

record command_profile =
  cp_paging :: pystr
  cp_commands :: "pystr list"

definition COMMAND_PROFILES :: "(pystr \<times> command_profile) list" where
  "COMMAND_PROFILES =
     [(lit ''cisco_ios'', \<lparr>cp_paging = lit ''terminal length 0'', cp_commands = map lit
         [''show version'', ''show inventory'', ''show interfaces status'', ''show interfaces'', ''show vlan brief'',
          ''show mac address-table'', ''show ip arp'', ''show lldp neighbors detail'', ''show cdp neighbors detail'',
          ''show power inline'', ''show environment all'']\<rparr>),
      (lit ''hp_comware'', \<lparr>cp_paging = lit ''screen-length disable'', cp_commands = map lit
         [''display version'', ''display device manuinfo'', ''display interface brief'', ''display interface'', ''display vlan all'',
          ''display mac-address'', ''display arp'', ''display lldp neighbor-information verbose'', ''display poe device'',
          ''display environment'']\<rparr>),
      (lit ''aruba_aos'', \<lparr>cp_paging = lit ''no page'', cp_commands = map lit
         [''show system'', ''show version'', ''show modules'', ''show interfaces brief'', ''show interfaces'', ''show vlans'',
          ''show mac-address'', ''show arp'', ''show lldp info remote-device detail'', ''show power-over-ethernet brief'',
          ''show system temperature'']\<rparr>)]"

definition NETMIKO_SESSION_CONTROL_ALLOWLIST :: "(pystr \<times> pystr list) list" where
  "NETMIKO_SESSION_CONTROL_ALLOWLIST =
     [(lit ''cisco_ios'', map lit [''terminal width 511'', ''terminal length 0'', ''exit'']),
      (lit ''hp_comware'', map lit [''screen-length disable'', ''quit'']), (lit ''aruba_aos'', map lit [''no page''])]"

text \<open>
  \<open>\bios(?:-xe)?\b\<close> matches where the word \<open>ios\<close> stands alone: after it either nothing, or a character that is no
  word character (the hyphen of \<open>-xe\<close> is one). Word characters outside ASCII are an argument.
\<close>

definition word_char :: "(int \<Rightarrow> bool) \<Rightarrow> int \<Rightarrow> bool" where
  "word_char other c = (is_alnum c \<or> c = 95 \<or> (127 < c \<and> other c))"

fun word_at :: "(int \<Rightarrow> bool) \<Rightarrow> pystr \<Rightarrow> bool \<Rightarrow> pystr \<Rightarrow> bool" where
  "word_at other w inside [] = False"
| "word_at other w inside (c # cs) =
     ((\<not> inside \<and> take (length w) (c # cs) = w \<and>
        (case drop (length w) (c # cs) of [] \<Rightarrow> True | d # _ \<Rightarrow> \<not> word_char other d)) \<or>
      word_at other w (word_char other c) cs)"

definition evidence_platforms :: "unidata \<Rightarrow> (int \<Rightarrow> bool) \<Rightarrow> pystr \<Rightarrow> pystr set" where
  "evidence_platforms U other item =
     (let folded = casefold U item
      in (if contains_text (lit ''cisco'') folded \<or> word_at other (lit ''ios'') False folded then {lit ''cisco_ios''} else {}) \<union>
         (if contains_text (lit ''comware'') folded \<or> contains_text (lit ''h3c'') folded then {lit ''hp_comware''} else {}) \<union>
         (if contains_text (lit ''aruba'') folded \<or> contains_text (lit ''procurve'') folded \<or> contains_text (lit ''arubaos-switch'') folded
          then {lit ''aruba_aos''} else {}))"

definition platforms :: "pystr list" where
  "platforms = map lit [''cisco_ios'', ''hp_comware'', ''aruba_aos'']"

definition select_platform :: "unidata \<Rightarrow> (int \<Rightarrow> bool) \<Rightarrow> pystr option \<Rightarrow> pystr list \<Rightarrow> pystr result" where
  "select_platform U other explicit evidence =
     (case explicit of
        Some e \<Rightarrow>
          (case map_of PLATFORM_ALIASES (casefold U (strip_with py_isspace e)) of
             None \<Rightarrow> Inl (UnknownPlatformError (lit ''explicit SSH platform is not supported''))
           | Some p \<Rightarrow> Inr p)
      | None \<Rightarrow>
          (case filter (\<lambda>p. \<exists>item \<in> set evidence. p \<in> evidence_platforms U other item) platforms of
             [p] \<Rightarrow> Inr p
           | _ \<Rightarrow> Inl (UnknownPlatformError (lit ''SSH platform evidence is absent, ambiguous, or unsupported''))))"

text \<open>\<open>tuple(dict.fromkeys(xs))\<close>: the first occurrence of each element.\<close>

fun first_occurrences :: "'a list \<Rightarrow> 'a list" where
  "first_occurrences [] = []"
| "first_occurrences (x # xs) = x # filter (\<lambda>y. y \<noteq> x) (first_occurrences xs)"

definition approved_commands :: "pystr \<Rightarrow> pystr list result" where
  "approved_commands platform =
     (case (map_of COMMAND_PROFILES platform, map_of NETMIKO_SESSION_CONTROL_ALLOWLIST platform) of
        (Some profile, Some controls) \<Rightarrow> Inr (first_occurrences (controls @ cp_paging profile # cp_commands profile))
      | _ \<Rightarrow> Inl (UnknownPlatformError (lit ''SSH platform is not supported'')))"

definition require_approved_command :: "pystr \<Rightarrow> pystr \<Rightarrow> pystr result" where
  "require_approved_command platform command =
     bindR (approved_commands platform) (\<lambda>approved.
       if command \<notin> set approved then Inl (CommandRejectedError (lit ''SSH command is outside the exact read-only allowlist''))
       else Inr command)"

section \<open>Credentials\<close>

definition ssh_error :: "string \<Rightarrow> exn" where
  "ssh_error s = SSHCollectionError (lit s)"

type_synonym profile = "(pystr \<times> pystr) list"

fun string_mapping :: "(pystr \<times> json) list \<Rightarrow> profile option" where
  "string_mapping [] = Some []"
| "string_mapping ((k, v) # d) = (case v of JStr s \<Rightarrow> map_option ((#) (k, s)) (string_mapping d) | _ \<Rightarrow> None)"

definition given :: "profile \<Rightarrow> string \<Rightarrow> bool" where
  "given p k = (case map_of p (lit k) of None \<Rightarrow> False | Some s \<Rightarrow> s \<noteq> [])"

definition profile_fields :: "pystr set" where
  "profile_fields = lit ` {''username'', ''password'', ''key_file'', ''passphrase'', ''port'', ''known_hosts_file''}"

definition port_valid :: "digit_table \<Rightarrow> profile \<Rightarrow> bool" where
  "port_valid table p =
     (case map_of p (lit ''port'') of
        None \<Rightarrow> True
      | Some s \<Rightarrow> (case int_of_text table s of None \<Rightarrow> False | Some n \<Rightarrow> 1 \<le> n \<and> n \<le> 65535))"

definition credential_profile :: "digit_table \<Rightarrow> (pystr \<Rightarrow> json option) \<Rightarrow> pystr \<Rightarrow> profile result" where
  "credential_profile table loads raw =
     (case loads raw of
        None \<Rightarrow> Inl (ssh_error ''referenced SSH credential profile is not valid JSON'')
      | Some v \<Rightarrow>
          (case (case v of JDict d \<Rightarrow> string_mapping d | _ \<Rightarrow> None) of
             None \<Rightarrow> Inl (ssh_error ''referenced SSH credential profile must be a string mapping'')
           | Some p \<Rightarrow>
               if \<not> fst ` set p \<subseteq> profile_fields \<or> \<not> given p ''username''
               then Inl (ssh_error ''referenced SSH credential profile has unsupported fields'')
               else if \<not> given p ''password'' \<and> \<not> given p ''key_file''
               then Inl (ssh_error ''referenced SSH credential profile lacks authentication material'')
               else if \<not> port_valid table p then Inl (ssh_error ''referenced SSH credential profile port is invalid'')
               else Inr p))"

definition MAX_SECRET_BYTES :: int where
  "MAX_SECRET_BYTES = 65536"

text \<open>The secret file: unavailable, or its kind, permission bits and content (or a read error).\<close>

datatype secret_file = No_file | Secret_file bool int "bytes option"

definition env_line :: "(pystr, pystr) odict \<Rightarrow> pystr \<Rightarrow> (pystr, pystr) odict result" where
  "env_line table_values line =
     (if skip_line line then Inr table_values
      else (case partition_equals line of
              None \<Rightarrow> Inl (ssh_error ''SSH secret file contains an invalid line'')
            | Some (n, v) \<Rightarrow> Inr (od_set (strip_with py_isspace n) (strip_with py_isspace v) table_values)))"

definition from_env_file :: "secret_file \<Rightarrow> pystr \<Rightarrow> pystr result" where
  "from_env_file f key =
     (case f of
        No_file \<Rightarrow> Inl (ssh_error ''SSH secret file cannot be read'')
      | Secret_file regular mode raw \<Rightarrow>
          if \<not> regular \<or> mode \<noteq> 384 then Inl (ssh_error ''SSH secret file must be regular and mode 0600'')
          else (case raw of
                  None \<Rightarrow> Inl (ssh_error ''SSH secret file cannot be read'')
                | Some bs \<Rightarrow>
                    if int (length bs) > MAX_SECRET_BYTES then Inl (ssh_error ''SSH secret file exceeds the size limit'')
                    else (case utf8_decode bs of
                            None \<Rightarrow> Inl (ValueError (lit ''invalid utf-8''))
                          | Some s \<Rightarrow>
                              bindR (foldR env_line [] (split_lines s)) (\<lambda>table_values.
                                case map_of table_values key of
                                  None \<Rightarrow> Inl (ssh_error ''SSH credential reference is not defined'')
                                | Some v \<Rightarrow> Inr v))))"

text \<open>What the helper process does: it cannot be run or times out, or it exits with a status and output.\<close>

datatype helper = Helper_failed | Helper_done int pystr

definition from_command :: "(pystr \<Rightarrow> helper) \<Rightarrow> bool \<Rightarrow> pystr \<Rightarrow> pystr result" where
  "from_command run_helper timeout_is_int key =
     (if \<not> timeout_is_int then Inl (ssh_error ''SSH secret helper timeout is invalid'')
      else (case run_helper (key @ [10]) of
              Helper_failed \<Rightarrow> Inl (ssh_error ''SSH secret helper failed'')
            | Helper_done code produced \<Rightarrow>
                if code \<noteq> 0 then Inl (ssh_error ''SSH secret helper rejected the reference'')
                else bindR (utf8_encode produced) (\<lambda>raw.
                  if int (length raw) > MAX_SECRET_BYTES then Inl (ssh_error ''SSH secret helper output exceeds the size limit'')
                  else Inr (strip_with py_isspace produced))))"

text \<open>A configured provider, with what its file or process gives.\<close>

datatype secret_provider = Env_file secret_file | Command "pystr \<Rightarrow> helper" bool | Unsupported

definition resolve_secret ::
    "digit_table \<Rightarrow> (pystr \<Rightarrow> json option) \<Rightarrow> (pystr \<times> secret_provider) list \<Rightarrow> credential_reference \<Rightarrow> profile result" where
  "resolve_secret table loads providers reference =
     (case map_of providers (cr_provider reference) of
        None \<Rightarrow> Inl (ssh_error ''SSH credential provider is unavailable'')
      | Some provider \<Rightarrow>
          bindR (case provider of
                   Env_file f \<Rightarrow> from_env_file f (cr_key reference)
                 | Command run_helper timeout_is_int \<Rightarrow> from_command run_helper timeout_is_int (cr_key reference)
                 | Unsupported \<Rightarrow> Inl (ssh_error ''SSH credential provider type is unsupported''))
            (credential_profile table loads))"

section \<open>Connections\<close>

text \<open>A failure of the transport is classified by the folded name of its class.\<close>

definition transport_error :: "unidata \<Rightarrow> string \<Rightarrow> string \<Rightarrow> pystr \<Rightarrow> exn" where
  "transport_error U timeout_text other_text class_name =
     (let name = casefold U class_name
      in if contains_text (lit ''auth'') name then CollectorAuthenticationError (lit ''referenced SSH credential was rejected'')
         else if contains_text (lit ''timeout'') name then RetryableCollectorError (lit timeout_text)
         else ssh_error other_text)"

text \<open>The known-hosts file as \<open>lstat\<close> shows it: whether its path is absolute, a link, a regular file.\<close>

type_synonym hosts_file = "(bool \<times> bool \<times> bool) option"

definition or_none :: "pystr option \<Rightarrow> json" where
  "or_none v = (case v of None \<Rightarrow> JNull | Some s \<Rightarrow> JStr s)"

definition base_parameters :: "pystr \<Rightarrow> pystr \<Rightarrow> pystr \<Rightarrow> bool \<Rightarrow> fields" where
  "base_parameters device_type target username strict =
     [(lit ''device_type'', JStr device_type), (lit ''host'', JStr target), (lit ''username'', JStr username),
      (lit ''timeout'', JInt 20), (lit ''auth_timeout'', JInt 20), (lit ''banner_timeout'', JInt 20), (lit ''ssh_strict'', JBool strict),
      (lit ''system_host_keys'', JBool strict),
      (lit ''disabled_algorithms'', JDict [(lit ''keys'', JList [jstr ''ssh-rsa'']), (lit ''pubkeys'', JList [jstr ''ssh-rsa''])])]"

definition key_parameters :: "profile \<Rightarrow> fields \<Rightarrow> fields" where
  "key_parameters p d =
     (case map_of p (lit ''key_file'') of
        None \<Rightarrow> d
      | Some k \<Rightarrow> if k = [] then d
          else fset ''passphrase'' (or_none (map_of p (lit ''passphrase''))) (fset ''key_file'' (JStr k) (fset ''use_keys'' (JBool True) d)))"

definition password_parameters :: "profile \<Rightarrow> fields \<Rightarrow> fields" where
  "password_parameters p d =
     (case map_of p (lit ''password'') of None \<Rightarrow> d | Some s \<Rightarrow> if s = [] then d else fset ''password'' (JStr s) d)"

definition port_parameters :: "digit_table \<Rightarrow> profile \<Rightarrow> fields \<Rightarrow> fields result" where
  "port_parameters table p d =
     (case map_of p (lit ''port'') of
        None \<Rightarrow> Inr d
      | Some s \<Rightarrow> if s = [] then Inr d
          else (case int_of_text table s of
                  None \<Rightarrow> Inl (ValueError (lit ''invalid literal for int() with base 10''))
                | Some n \<Rightarrow> Inr (fset ''port'' (JInt n) d)))"

definition hosts_parameters :: "(pystr \<Rightarrow> hosts_file) \<Rightarrow> profile \<Rightarrow> fields \<Rightarrow> fields result" where
  "hosts_parameters lstat p d =
     (case map_of p (lit ''known_hosts_file'') of
        None \<Rightarrow> Inr d
      | Some path \<Rightarrow> if path = [] then Inr d
          else (case lstat path of
                  None \<Rightarrow> Inl (ssh_error ''SSH known-hosts file is unavailable'')
                | Some (absolute, linked, regular) \<Rightarrow>
                    if \<not> absolute \<or> linked \<or> \<not> regular
                    then Inl (ssh_error ''SSH known-hosts file must be an absolute regular non-symlink'')
                    else Inr (fset ''alt_key_file'' (JStr path) (fset ''alt_host_keys'' (JBool True) d))))"

definition connection_parameters ::
    "digit_table \<Rightarrow> (pystr \<Rightarrow> hosts_file) \<Rightarrow> pystr \<Rightarrow> pystr \<Rightarrow> profile \<Rightarrow> pystr \<Rightarrow> fields result" where
  "connection_parameters table lstat target platform p policy =
     (case (map_of NETMIKO_DEVICE_TYPES platform, map_of p (lit ''username'')) of
        (Some device_type, Some username) \<Rightarrow>
          bindR (port_parameters table p (key_parameters p (password_parameters p
              (base_parameters device_type target username (policy = lit ''strict'')))))
            (hosts_parameters lstat p)
      | (None, _) \<Rightarrow> Inl (KeyError platform)
      | (_, None) \<Rightarrow> Inl (KeyError (lit ''username'')))"

text \<open>The Netmiko library: not installed, or what \<open>ConnectHandler\<close> does with the parameters (the name of an exception's class, or a session).\<close>

type_synonym 'c netmiko = "(fields \<Rightarrow> pystr + 'c) option"

definition ssh_connect ::
    "unidata \<Rightarrow> digit_table \<Rightarrow> (pystr \<Rightarrow> hosts_file) \<Rightarrow> 'c netmiko \<Rightarrow> pystr \<Rightarrow> pystr \<Rightarrow> profile \<Rightarrow> pystr \<Rightarrow> 'c result" where
  "ssh_connect U table lstat library target platform p policy =
     (case library of
        None \<Rightarrow> Inl (ssh_error ''Netmiko SSH support is not installed'')
      | Some handler \<Rightarrow>
          bindR (connection_parameters table lstat target platform p policy) (\<lambda>d.
            case handler d of
              Inl class_name \<Rightarrow> Inl (transport_error U ''SSH connection timed out'' ''SSH connection failed'' class_name)
            | Inr c \<Rightarrow> Inr c))"

section \<open>One command\<close>

datatype ssh_output = Text_output pystr | Structured_output json | Other_output

definition session_run :: "unidata \<Rightarrow> pystr + ssh_output \<Rightarrow> ssh_output result" where
  "session_run U reply =
     (case reply of
        Inl class_name \<Rightarrow> Inl (transport_error U ''SSH command timed out'' ''SSH command transport failed'' class_name)
      | Inr out \<Rightarrow> Inr out)"

text \<open>
  The paging markers, without regard to case: \<open>--\s*more\s*--\<close>, \<open>press\s+(?:any\s+key|space)\<close>, \<open><---\s*more\s*--->\<close>.
  Besides the ASCII letters, the long s matches s and the Kelvin sign matches k.
\<close>

definition same_letter :: "int \<Rightarrow> int \<Rightarrow> bool" where
  "same_letter x c = (ascii_lower c = x \<or> (x = 115 \<and> c = 0x17F) \<or> (x = 107 \<and> c = 0x212A))"

fun match_word :: "pystr \<Rightarrow> pystr \<Rightarrow> pystr option" where
  "match_word [] s = Some s"
| "match_word (x # xs) [] = None"
| "match_word (x # xs) (c # cs) = (if same_letter x c then match_word xs cs else None)"

definition skip_spaces :: "nat \<Rightarrow> pystr \<Rightarrow> pystr option" where
  "skip_spaces least s = (if length (takeWhile py_isspace s) < least then None else Some (dropWhile py_isspace s))"

definition then_match :: "pystr option \<Rightarrow> (pystr \<Rightarrow> pystr option) \<Rightarrow> pystr option" where
  "then_match r f = (case r of None \<Rightarrow> None | Some s \<Rightarrow> f s)"

definition match_more :: "string \<Rightarrow> string \<Rightarrow> pystr \<Rightarrow> pystr option" where
  "match_more before after s =
     then_match (match_word (lit before) s) (\<lambda>s. then_match (skip_spaces 0 s) (\<lambda>s. then_match (match_word (lit ''more'') s) (\<lambda>s.
       then_match (skip_spaces 0 s) (match_word (lit after)))))"

definition match_press :: "pystr \<Rightarrow> pystr option" where
  "match_press s =
     then_match (match_word (lit ''press'') s) (\<lambda>s. then_match (skip_spaces 1 s) (\<lambda>s.
       case then_match (match_word (lit ''any'') s) (\<lambda>s. then_match (skip_spaces 1 s) (match_word (lit ''key''))) of
         Some t \<Rightarrow> Some t
       | None \<Rightarrow> match_word (lit ''space'') s))"

definition match_paging :: "pystr \<Rightarrow> pystr option" where
  "match_paging s =
     (case match_more ''--'' ''--'' s of
        Some t \<Rightarrow> Some t
      | None \<Rightarrow> (case match_press s of Some t \<Rightarrow> Some t | None \<Rightarrow> match_more ''<---'' ''--->'' s))"

text \<open>\<open>sub\<close> from left to right; a match is never empty, the fuel is the length of the text.\<close>

fun sub_paging :: "nat \<Rightarrow> pystr \<Rightarrow> pystr" where
  "sub_paging 0 s = s"
| "sub_paging (Suc n) s =
     (case match_paging s of
        Some t \<Rightarrow> lit ''[PAGING]'' @ sub_paging n t
      | None \<Rightarrow> (case s of [] \<Rightarrow> [] | c # cs \<Rightarrow> c # sub_paging n cs))"

fun has_paging :: "pystr \<Rightarrow> bool" where
  "has_paging [] = (match_paging [] \<noteq> None)"
| "has_paging (c # cs) = (match_paging (c # cs) \<noteq> None \<or> has_paging cs)"

definition encoded_size :: "pystr \<Rightarrow> int" where
  "encoded_size s = sum_list (map (\<lambda>c. if is_scalar c then int (length (utf8_encode_char c)) else 1) s)"

definition MAX_COMMAND_OUTPUT_BYTES :: int where
  "MAX_COMMAND_OUTPUT_BYTES = 4 * 1024 * 1024"

fun fact_chars :: "bool \<Rightarrow> pystr \<Rightarrow> pystr" where
  "fact_chars inside [] = []"
| "fact_chars inside (c # cs) =
     (if (97 \<le> c \<and> c \<le> 122) \<or> (48 \<le> c \<and> c \<le> 57) then c # fact_chars False cs
      else if inside then fact_chars True cs else 95 # fact_chars True cs)"

definition command_fact :: "unidata \<Rightarrow> pystr \<Rightarrow> pystr" where
  "command_fact U command = take 80 (strip_with (\<lambda>c. c = 95) (fact_chars False (casefold U command)))"

record ssh_env =
  se_artifacts :: artifact_env
  se_redact :: "pystr \<Rightarrow> pystr"
  se_redact_json :: "json \<Rightarrow> json"
  se_uni :: unidata
  se_word :: "int \<Rightarrow> bool"
  se_faults :: "nat \<Rightarrow> publish_fault \<times> publish_fault"
  se_uniques :: "nat \<Rightarrow> pystr \<times> pystr"
  se_clock :: "nat \<Rightarrow> datetime"
  se_retention :: int
  se_deployment :: nat

record ssh_state =
  ss_repository :: repository
  ss_store :: artifact_store
  ss_sent :: "(pystr \<times> bool) list"
  ss_open :: bool

definition ssh_issue :: "string \<Rightarrow> pystr \<Rightarrow> collector_issue" where
  "ssh_issue category detail = issue_of category detail False"

text \<open>The text to store, the value to record, and the issues, before anything is written.\<close>

definition output_payload :: "ssh_env \<Rightarrow> pystr \<Rightarrow> ssh_output \<Rightarrow> (pystr \<times> json \<times> collector_issue list) result" where
  "output_payload E command out =
     bindR (case out of
              Text_output s \<Rightarrow> Inr (s, JDict [(lit ''raw_artifact_only'', JBool True)],
                [ssh_issue ''ssh_parse_fallback'' (lit ''no structured parser for '' @ command)])
            | Structured_output v \<Rightarrow>
                if \<not> serialisable v then Inl (TypeError (lit ''Object is not JSON serializable''))
                else Inr (json_dumps False (lit '','') (lit '':'') (ae_float (se_artifacts E)) v, v, [])
            | Other_output \<Rightarrow> Inl (ssh_error ''SSH parser returned an unsupported result type''))
       (\<lambda>(payload, parsed, issues).
          if encoded_size payload > MAX_COMMAND_OUTPUT_BYTES then Inl (ssh_error ''SSH command output exceeds the artifact size limit'')
          else if has_paging payload
          then Inr (sub_paging (length payload) payload, parsed, issues @ [ssh_issue ''ssh_paging'' (lit ''paging marker remained for '' @ command)])
          else Inr (payload, parsed, issues))"

definition artifact_filename :: "ssh_env \<Rightarrow> pystr \<Rightarrow> pystr \<Rightarrow> pystr \<Rightarrow> int \<Rightarrow> nat \<Rightarrow> pystr result" where
  "artifact_filename E target platform command observed index =
     bindR (utf8_encode (target @ lit ''|'' @ platform @ lit ''|'' @ command @ lit ''|'' @ isoformat observed)) (\<lambda>raw.
       safe_filename (se_artifacts E) (pad 2 (int index) @ lit ''-'' @ platform @ lit ''-'' @ take 12 (ae_sha (se_artifacts E) raw)) (lit ''.txt''))"

fun json_text :: "json \<Rightarrow> pystr" where
  "json_text (JStr s) = s"
| "json_text _ = []"

fun json_int :: "json \<Rightarrow> int" where
  "json_int (JInt n) = n"
| "json_int _ = 0"

definition register_output ::
    "ssh_env \<Rightarrow> repository \<Rightarrow> artifact_metadata \<Rightarrow> pystr \<Rightarrow> pystr \<Rightarrow> pystr \<Rightarrow> json \<Rightarrow> collector_issue list \<Rightarrow> repository \<times> unit result" where
  "register_output E repo m target platform command parsed issues =
     (let path = lit ''ssh/'' @ am_filename m; created = json_text (am_created_at m)
      in case register_artifact (se_redact E) repo (Some (se_deployment E)) None path (json_text (am_sha256 m)) (json_text (am_media_type m))
                (json_int (am_size_bytes m)) created (Some created) (lit ''ssh:'' @ platform) created of
           Inl e \<Rightarrow> (repo, Inl e)
         | Inr (repo', _, _) \<Rightarrow>
             (case record_observation (se_redact E) (se_redact_json E) (ae_float (se_artifacts E)) repo' (se_deployment E)
                     (lit ''network_device_target'') None (lit ''ssh.'' @ command_fact (se_uni E) command)
                     (JDict [(lit ''target'', JStr target), (lit ''command'', JStr command), (lit ''value'', parsed), (lit ''artifact'', JStr path)])
                     (if issues = [] then 9 / 10 else 6 / 10) False (lit ''ssh:'' @ platform) created of
                Inl e \<Rightarrow> (repo', Inl e)
              | Inr (repo'', _) \<Rightarrow> (repo'', Inr ())))"

definition output_count :: "ssh_output \<Rightarrow> int" where
  "output_count out = (case out of Structured_output (JList xs) \<Rightarrow> int (length xs) | _ \<Rightarrow> 1)"

definition persist_output ::
    "ssh_env \<Rightarrow> ssh_state \<Rightarrow> pystr \<Rightarrow> pystr \<Rightarrow> pystr \<Rightarrow> ssh_output \<Rightarrow> nat \<Rightarrow> ssh_state \<times> (int \<times> collector_issue list) result" where
  "persist_output E st target platform command out index =
     (case bindR (as_utc (ae_zone (se_artifacts E)) (se_clock E index)) (\<lambda>observed.
             bindR (output_payload E command out) (\<lambda>(payload, parsed, issues).
             bindR (artifact_filename E target platform command observed index) (\<lambda>filename.
               Inr (observed, payload, parsed, issues, filename)))) of
        Inl e \<Rightarrow> (st, Inl e)
      | Inr (observed, payload, parsed, issues, filename) \<Rightarrow>
          (case write_text (se_artifacts E) (se_faults E index) (se_uniques E index) (ss_store st) filename payload (lit ''ssh'')
                  (se_retention E) (lit ''text/plain'') (utc_dt observed) of
             (store, Inl e) \<Rightarrow> (st\<lparr>ss_store := store\<rparr>, Inl e)
           | (store, Inr m) \<Rightarrow>
               (case register_output E (ss_repository st) m target platform command parsed issues of
                  (repo, r) \<Rightarrow> (st\<lparr>ss_store := store, ss_repository := repo\<rparr>, bindR r (\<lambda>_. Inr (output_count out, issues))))))"

section \<open>One device\<close>

text \<open>
  What the device answers to the n-th command, whether the run is cancelled before the n-th command of the
  profile, and how closing the session ends.
\<close>

record ssh_device =
  sd_reply :: "nat \<Rightarrow> pystr + ssh_output"
  sd_cancelled :: "nat \<Rightarrow> bool"
  sd_close :: "unit result"

definition send :: "ssh_env \<Rightarrow> ssh_device \<Rightarrow> pystr \<Rightarrow> ssh_state \<Rightarrow> pystr \<Rightarrow> bool \<Rightarrow> ssh_state \<times> ssh_output result" where
  "send E dev platform st command structured =
     (case require_approved_command platform command of
        Inl e \<Rightarrow> (st, Inl e)
      | Inr c \<Rightarrow> (st\<lparr>ss_sent := ss_sent st @ [(c, structured)]\<rparr>, session_run (se_uni E) (sd_reply dev (length (ss_sent st)))))"

definition run_command ::
    "ssh_env \<Rightarrow> ssh_device \<Rightarrow> pystr \<Rightarrow> pystr \<Rightarrow> ssh_state \<Rightarrow> nat \<Rightarrow> pystr \<Rightarrow> ssh_state \<times> (int \<times> collector_issue list) result" where
  "run_command E dev target platform st index command =
     (case send E dev platform st command True of
        (st', Inl e) \<Rightarrow> (st', Inl e)
      | (st', Inr out) \<Rightarrow> persist_output E st' target platform command out index)"

text \<open>\<open>str(exc)\<close> of an SSH collection error.\<close>

definition ssh_detail :: "exn \<Rightarrow> pystr option" where
  "ssh_detail e = (case e of SSHCollectionError s \<Rightarrow> Some s | UnknownPlatformError s \<Rightarrow> Some s | CommandRejectedError s \<Rightarrow> Some s | _ \<Rightarrow> None)"

fun run_commands ::
    "ssh_env \<Rightarrow> ssh_device \<Rightarrow> pystr \<Rightarrow> pystr \<Rightarrow> nat \<Rightarrow> pystr list \<Rightarrow> ssh_state \<Rightarrow> int \<times> collector_issue list
     \<Rightarrow> ssh_state \<times> (int \<times> collector_issue list) result" where
  "run_commands E dev target platform index [] st acc = (st, Inr acc)"
| "run_commands E dev target platform index (c # cs) st (k, issues) =
     (if sd_cancelled dev index then (st, Inl CancelledError)
      else (case run_command E dev target platform st index c of
              (st', Inr (n, found)) \<Rightarrow> run_commands E dev target platform (Suc index) cs st' (k + n, issues @ found)
            | (st', Inl e) \<Rightarrow>
                (case ssh_detail e of
                   None \<Rightarrow> (st', Inl e)
                 | Some detail \<Rightarrow> run_commands E dev target platform (Suc index) cs st' (k, issues @ [ssh_issue ''ssh_command'' detail]))))"

definition run_session ::
    "ssh_env \<Rightarrow> ssh_device \<Rightarrow> pystr \<Rightarrow> pystr \<Rightarrow> command_profile \<Rightarrow> ssh_state \<Rightarrow> ssh_state \<times> (int \<times> collector_issue list) result" where
  "run_session E dev target platform profile st =
     (case send E dev platform st (cp_paging profile) False of
        (st', Inl e) \<Rightarrow> (st', Inl e)
      | (st', Inr _) \<Rightarrow> run_commands E dev target platform 0 (cp_commands profile) st' (0, []))"

definition close_session :: "ssh_device \<Rightarrow> ssh_state \<times> 'a result \<Rightarrow> ssh_state \<times> 'a result" where
  "close_session dev q =
     ((fst q)\<lparr>ss_open := False\<rparr>, (case sd_close dev of Inl e \<Rightarrow> Inl e | Inr _ \<Rightarrow> snd q))"

record ssh_request =
  sq_target :: pystr
  sq_reference :: "credential_reference option"
  sq_platform :: "pystr option"
  sq_evidence :: "pystr list"
  sq_policy :: pystr

definition ssh_collect ::
    "ssh_env \<Rightarrow> (credential_reference \<Rightarrow> profile result) \<Rightarrow> (pystr \<Rightarrow> pystr \<Rightarrow> profile \<Rightarrow> pystr \<Rightarrow> ssh_device result) \<Rightarrow> ssh_state \<Rightarrow> ssh_request
     \<Rightarrow> ssh_state \<times> collector_result result" where
  "ssh_collect E resolve connect st q =
     (case sq_reference q of
        None \<Rightarrow> (st, Inl (ssh_error ''SSH collection requires an explicit credential reference''))
      | Some reference \<Rightarrow>
          (case bindR (select_platform (se_uni E) (se_word E) (sq_platform q) (sq_evidence q)) (\<lambda>platform.
                bindR (resolve reference) (\<lambda>credential.
                bindR (connect (sq_target q) platform credential (sq_policy q)) (\<lambda>dev.
                case map_of COMMAND_PROFILES platform of None \<Rightarrow> Inl (KeyError platform) | Some profile \<Rightarrow> Inr (platform, dev, profile)))) of
             Inl e \<Rightarrow> (st, Inl e)
           | Inr (platform, dev, profile) \<Rightarrow>
               (case close_session dev (run_session E dev (sq_target q) platform profile (st\<lparr>ss_open := True\<rparr>)) of
                  (st', r) \<Rightarrow> (st', bindR r (\<lambda>(k, issues). new_result k issues)))))"

section \<open>Only the listed commands are sent\<close>

lemma approved_has_profile:
  assumes "map_of COMMAND_PROFILES platform = Some profile" "approved_commands platform = Inr cs"
  shows "cp_paging profile \<in> set cs \<and> set (cp_commands profile) \<subseteq> set cs"
proof -
  have first: "set (first_occurrences xs) = set xs" for xs :: "'a list" by (induction xs) auto
  show ?thesis using assms by (auto simp: approved_commands_def first split: option.splits)
qed

lemma persist_output_sent: "persist_output E st target platform command out index = (st', r) \<Longrightarrow> ss_sent st' = ss_sent st"
  by (auto simp: persist_output_def split: sum.splits prod.splits)

lemma send_sent:
  assumes "send E dev platform st command structured = (st', r)"
  shows "ss_sent st' = ss_sent st \<and> (\<exists>e. r = Inl e) \<or>
    ss_sent st' = ss_sent st @ [(command, structured)] \<and> (\<exists>cs. approved_commands platform = Inr cs \<and> command \<in> set cs)"
  using assms by (auto simp: send_def require_approved_command_def bindR_eq_Inr bindR_eq_Inl split: sum.splits if_splits)

lemma send_approved:
  assumes "send E dev platform st command structured = (st', r)" "approved_commands platform = Inr cs" "command \<in> set cs"
  shows "ss_sent st' = ss_sent st @ [(command, structured)]"
  using assms by (auto simp: send_def require_approved_command_def)

lemma run_command_sent:
  assumes "run_command E dev target platform st index command = (st', r)" "approved_commands platform = Inr cs" "command \<in> set cs"
  shows "ss_sent st' = ss_sent st @ [(command, True)]"
proof -
  obtain st1 q where sent: "send E dev platform st command True = (st1, q)" by fastforce
  show ?thesis
    using assms(1) sent send_approved [OF sent assms(2,3)] persist_output_sent
    by (cases q) (fastforce simp: run_command_def)+
qed

lemma run_commands_sent:
  assumes "run_commands E dev target platform index cs st acc = (st', r)" "approved_commands platform = Inr approved"
    and "set cs \<subseteq> set approved"
  shows "\<exists>n. ss_sent st' = ss_sent st @ map (\<lambda>c. (c, True)) (take n cs)"
  using assms(1,3)
proof (induction cs arbitrary: st index acc)
  case Nil
  then show ?case by simp
next
  case (Cons c cs)
  obtain k issues where acc: "acc = (k, issues)" by fastforce
  show ?case
  proof (cases "sd_cancelled dev index")
    case True
    then have "ss_sent st' = ss_sent st @ map (\<lambda>c. (c, True)) (take 0 (c # cs))" using Cons.prems(1) acc by simp
    then show ?thesis by blast
  next
    case False
    obtain st1 q where run: "run_command E dev target platform st index c = (st1, q)" by fastforce
    have st1: "ss_sent st1 = ss_sent st @ [(c, True)]" using run_command_sent [OF run assms(2)] Cons.prems(2) by simp
    have "st' = st1 \<or> (\<exists>acc'. run_commands E dev target platform (Suc index) cs st1 acc' = (st', r))"
      using Cons.prems(1) False run acc by (auto split: sum.splits option.splits)
    then show ?thesis
    proof
      assume "st' = st1"
      then have "ss_sent st' = ss_sent st @ map (\<lambda>c. (c, True)) (take 1 (c # cs))" using st1 by simp
      then show ?thesis by blast
    next
      assume "\<exists>acc'. run_commands E dev target platform (Suc index) cs st1 acc' = (st', r)"
      then obtain n where "ss_sent st' = ss_sent st1 @ map (\<lambda>c. (c, True)) (take n cs)"
        using Cons.IH Cons.prems(2) by fastforce
      then have "ss_sent st' = ss_sent st @ map (\<lambda>c. (c, True)) (take (Suc n) (c # cs))" using st1 by simp
      then show ?thesis by blast
    qed
  qed
qed

definition allowed_script :: "command_profile \<Rightarrow> (pystr \<times> bool) list" where
  "allowed_script profile = (cp_paging profile, False) # map (\<lambda>c. (c, True)) (cp_commands profile)"

lemma approved_total: "map_of COMMAND_PROFILES platform = Some profile \<Longrightarrow> \<exists>cs. approved_commands platform = Inr cs"
  by (auto simp: approved_commands_def COMMAND_PROFILES_def NETMIKO_SESSION_CONTROL_ALLOWLIST_def split: if_splits)

lemma run_session_sent:
  assumes "run_session E dev target platform profile st = (st', r)" "map_of COMMAND_PROFILES platform = Some profile"
  shows "\<exists>n. ss_sent st' = ss_sent st @ take n (allowed_script profile)"
proof -
  obtain approved where ok: "approved_commands platform = Inr approved" using approved_total [OF assms(2)] by blast
  note profile = approved_has_profile [OF assms(2) ok]
  obtain st1 q where sent: "send E dev platform st (cp_paging profile) False = (st1, q)" by fastforce
  have st1: "ss_sent st1 = ss_sent st @ [(cp_paging profile, False)]" using send_approved [OF sent ok] profile by simp
  show ?thesis
  proof (cases q)
    case (Inl e)
    then have "ss_sent st' = ss_sent st @ take 1 (allowed_script profile)" using assms(1) sent st1 by (simp add: run_session_def allowed_script_def)
    then show ?thesis by blast
  next
    case (Inr v)
    then have "run_commands E dev target platform 0 (cp_commands profile) st1 (0, []) = (st', r)"
      using assms(1) sent by (simp add: run_session_def)
    from run_commands_sent [OF this ok] profile obtain n where
      "ss_sent st' = ss_sent st1 @ map (\<lambda>c. (c, True)) (take n (cp_commands profile))" by blast
    then have "ss_sent st' = ss_sent st @ take (Suc n) (allowed_script profile)" using st1 by (simp add: allowed_script_def take_map)
    then show ?thesis by blast
  qed
qed

lemma ssh_collect_cases:
  assumes "ssh_collect E resolve connect st q = (st', r)"
  obtains "st' = st"
    | platform dev profile where "map_of COMMAND_PROFILES platform = Some profile"
      "select_platform (se_uni E) (se_word E) (sq_platform q) (sq_evidence q) = Inr platform"
      "st' = (fst (run_session E dev (sq_target q) platform profile (st\<lparr>ss_open := True\<rparr>)))\<lparr>ss_open := False\<rparr>"
proof (cases "sq_reference q")
  case None
  then show ?thesis using assms that(1) by (simp add: ssh_collect_def)
next
  case (Some reference)
  define X where "X = bindR (select_platform (se_uni E) (se_word E) (sq_platform q) (sq_evidence q)) (\<lambda>platform.
                bindR (resolve reference) (\<lambda>credential.
                bindR (connect (sq_target q) platform credential (sq_policy q)) (\<lambda>dev.
                case map_of COMMAND_PROFILES platform of None \<Rightarrow> Inl (KeyError platform) | Some profile \<Rightarrow> Inr (platform, dev, profile))))"
  show ?thesis
  proof (cases X)
    case (Inl e)
    then show ?thesis using assms Some that(1) by (simp add: ssh_collect_def X_def)
  next
    case (Inr t)
    obtain platform dev profile where t: "t = (platform, dev, profile)" by (cases t)
    have "select_platform (se_uni E) (se_word E) (sq_platform q) (sq_evidence q) = Inr platform"
      "map_of COMMAND_PROFILES platform = Some profile"
      using Inr t by (auto simp: X_def bindR_eq_Inr split: option.splits)
    moreover have "st' = (fst (run_session E dev (sq_target q) platform profile (st\<lparr>ss_open := True\<rparr>)))\<lparr>ss_open := False\<rparr>"
      using assms Some Inr t by (auto simp: ssh_collect_def X_def close_session_def split: prod.splits)
    ultimately show ?thesis using that(2) by blast
  qed
qed

text \<open>C26. A device only ever sees the audited commands: whatever it answers, and however the run ends, the commands sent are an initial
  part of the fixed script of the selected platform (paging first, then its list in order), each of them is in
  the allowlist, and the session is closed.\<close>

theorem ssh_sends_only_allowed:
  assumes "ssh_collect E resolve connect st q = (st', r)" "\<not> ss_open st"
  shows "\<not> ss_open st' \<and> (ss_sent st' = ss_sent st \<or>
    (\<exists>platform profile approved n. map_of COMMAND_PROFILES platform = Some profile \<and>
       select_platform (se_uni E) (se_word E) (sq_platform q) (sq_evidence q) = Inr platform \<and>
       ss_sent st' = ss_sent st @ take n (allowed_script profile) \<and>
       approved_commands platform = Inr approved \<and> fst ` set (allowed_script profile) \<subseteq> set approved))"
proof (rule ssh_collect_cases [OF assms(1)])
  assume "st' = st"
  then show ?thesis using assms(2) by simp
next
  fix platform dev profile
  assume p: "map_of COMMAND_PROFILES platform = Some profile"
      "select_platform (se_uni E) (se_word E) (sq_platform q) (sq_evidence q) = Inr platform"
    and st': "st' = (fst (run_session E dev (sq_target q) platform profile (st\<lparr>ss_open := True\<rparr>)))\<lparr>ss_open := False\<rparr>"
  obtain st1 r1 where run: "run_session E dev (sq_target q) platform profile (st\<lparr>ss_open := True\<rparr>) = (st1, r1)" by fastforce
  obtain approved where ok: "approved_commands platform = Inr approved" using approved_total [OF p(1)] by blast
  have "fst ` set (allowed_script profile) \<subseteq> set approved"
    using approved_has_profile [OF p(1) ok] by (auto simp: allowed_script_def)
  moreover obtain n where "ss_sent st1 = ss_sent st @ take n (allowed_script profile)"
    using run_session_sent [OF run p(1)] by auto
  ultimately show ?thesis using p ok st' run by auto
qed

section \<open>Registered artifacts are in the store\<close>

definition in_store :: "ssh_env \<Rightarrow> directory \<Rightarrow> artifact_row \<Rightarrow> bool" where
  "in_store E d row \<longleftrightarrow> (\<forall>f. ar_path row = lit ''ssh/'' @ f \<longrightarrow>
     (\<exists>payload. map_of d f = Some (Regular payload) \<and> ar_digest row = ae_sha (se_artifacts E) payload \<and> ar_size row = int (length payload)))"

definition ssh_state_ok :: "ssh_env \<Rightarrow> ssh_state \<Rightarrow> bool" where
  "ssh_state_ok E st \<longleftrightarrow> (\<exists>mode d. st_root (ss_store st) = Real_directory mode d \<and> list_all (in_store E d) (rp_artifacts (ss_repository st)))"

lemma in_store_append: "in_store E d row \<Longrightarrow> in_store E (d @ e) row"
  by (fastforce simp: in_store_def map_add_def split: option.splits)

lemma register_artifact_rows:
  assumes "register_artifact redact s dep run path digest media nbytes coll imp src obs = Inr (s', i, b)"
  shows "rp_artifacts s' = rp_artifacts s \<or> (\<exists>row. rp_artifacts s' = rp_artifacts s @ [row] \<and> ar_path row = path \<and> ar_digest row = digest \<and> ar_size row = nbytes)"
  using assms
  by (auto simp: register_artifact_def bindR_eq_Inr Let_def split: if_splits option.splits)

lemma record_observation_artifacts:
  "record_observation redact rv fl s dep ty i ft v c inferred src obs = Inr (s', n) \<Longrightarrow> rp_artifacts s' = rp_artifacts s"
  by (auto simp: record_observation_def bindR_eq_Inr Let_def split: if_splits option.splits)

lemma register_output_rows:
  assumes "register_output E repo m target platform command parsed issues = (repo', r)"
  shows "rp_artifacts repo' = rp_artifacts repo \<or> (\<exists>row. rp_artifacts repo' = rp_artifacts repo @ [row] \<and>
    ar_path row = lit ''ssh/'' @ am_filename m \<and> ar_digest row = json_text (am_sha256 m) \<and> ar_size row = json_int (am_size_bytes m))"
proof (cases "register_artifact (se_redact E) repo (Some (se_deployment E)) None (lit ''ssh/'' @ am_filename m) (json_text (am_sha256 m))
    (json_text (am_media_type m)) (json_int (am_size_bytes m)) (json_text (am_created_at m)) (Some (json_text (am_created_at m)))
    (lit ''ssh:'' @ platform) (json_text (am_created_at m))")
  case (Inl e)
  then show ?thesis using assms by (simp add: register_output_def Let_def)
next
  case (Inr p)
  obtain s1 i b where p: "p = (s1, i, b)" by (cases p)
  have "rp_artifacts repo' = rp_artifacts s1"
    using assms Inr p record_observation_artifacts
    by (auto simp: register_output_def Let_def split: sum.splits prod.splits)
  then show ?thesis using register_artifact_rows [OF Inr [unfolded p]] by simp
qed

lemma write_text_result:
  assumes "write_text A faults uniques S filename content category retention media now = (S', r)" "st_root S = Real_directory mode d"
  shows "\<exists>e. st_root S' = Real_directory mode (d @ e) \<and>
    (case r of Inl _ \<Rightarrow> True | Inr m \<Rightarrow> \<exists>payload. map_of (d @ e) (am_filename m) = Some (Regular payload) \<and>
       am_sha256 m = JStr (ae_sha A payload) \<and> am_size_bytes m = JInt (int (length payload)))"
proof (cases "utf8_encode (ae_redact A content)")
  case (Inl x)
  then show ?thesis using assms by (auto simp: write_text_def intro: exI [of _ "[]"])
next
  case (Inr payload)
  let ?w = "\<lparr>wr_filename = filename, wr_payload = payload, wr_category = category, wr_retention = retention,
            wr_media_type = media, wr_now = now\<rparr>"
  have run: "write_artifact A faults uniques S ?w = (S', r)" using assms(1) Inr by (simp add: write_text_def)
  note atomic = write_artifact_result [OF assms(2) run]
  show ?thesis
  proof (cases r)
    case (Inl x)
    then show ?thesis using atomic assms(2) by (auto intro: exI [of _ "[]"])
  next
    case (Inr m)
    then obtain raw where S': "st_root S' = Real_directory mode (d @ [(filename @ METADATA_SUFFIX, Regular raw), (filename, Regular payload)])"
      and m: "filename \<notin> fst ` set d" "am_filename m = filename" "am_sha256 m = JStr (ae_sha A payload)" "am_size_bytes m = JInt (int (length payload))"
      using atomic by auto
    have "filename \<noteq> filename @ METADATA_SUFFIX" by (simp add: METADATA_SUFFIX_def)
    then have "map_of (d @ [(filename @ METADATA_SUFFIX, Regular raw), (filename, Regular payload)]) filename = Some (Regular payload)"
      using m(1) by (simp add: map_add_def map_of_eq_None_iff [THEN iffD2])
    then show ?thesis using S' m Inr by auto
  qed
qed

lemma persist_output_ok:
  assumes "ssh_state_ok E st" "persist_output E st target platform command out index = (st', r)"
  shows "ssh_state_ok E st'"
proof -
  obtain mode d where root: "st_root (ss_store st) = Real_directory mode d" and rows: "list_all (in_store E d) (rp_artifacts (ss_repository st))"
    using assms(1) by (auto simp: ssh_state_ok_def)
  define X where "X = bindR (as_utc (ae_zone (se_artifacts E)) (se_clock E index)) (\<lambda>observed.
             bindR (output_payload E command out) (\<lambda>(payload, parsed, issues).
             bindR (artifact_filename E target platform command observed index) (\<lambda>filename.
               Inr (observed, payload, parsed, issues, filename))))"
  show ?thesis
  proof (cases X)
    case (Inl x)
    then have "st' = st" using assms(2) by (simp add: persist_output_def X_def)
    then show ?thesis using assms(1) by simp
  next
    case (Inr t)
    obtain observed payload parsed issues filename where t: "t = (observed, payload, parsed, issues, filename)" by (cases t)
    obtain store q where wrote: "write_text (se_artifacts E) (se_faults E index) (se_uniques E index) (ss_store st) filename payload (lit ''ssh'')
           (se_retention E) (lit ''text/plain'') (utc_dt observed) = (store, q)" by fastforce
    obtain e where e: "st_root store = Real_directory mode (d @ e)"
      and written: "case q of Inl _ \<Rightarrow> True | Inr m \<Rightarrow> \<exists>payload. map_of (d @ e) (am_filename m) = Some (Regular payload) \<and>
       am_sha256 m = JStr (ae_sha (se_artifacts E) payload) \<and> am_size_bytes m = JInt (int (length payload))"
      using write_text_result [OF wrote root] by blast
    have old: "list_all (in_store E (d @ e)) (rp_artifacts (ss_repository st))"
      using rows in_store_append by (auto simp: list_all_iff)
    show ?thesis
    proof (cases q)
      case (Inl x)
      then have "st' = st\<lparr>ss_store := store\<rparr>"
        using assms(2) \<open>X = Inr t\<close> t wrote by (simp add: persist_output_def X_def)
      then show ?thesis using e old by (auto simp: ssh_state_ok_def)
    next
      case (Inr m)
      obtain repo x where reg: "register_output E (ss_repository st) m target platform command parsed issues = (repo, x)" by fastforce
      have st': "st' = st\<lparr>ss_store := store, ss_repository := repo\<rparr>"
        using assms(2) \<open>X = Inr t\<close> t wrote Inr reg by (simp add: persist_output_def X_def)
      have "list_all (in_store E (d @ e)) (rp_artifacts repo)"
        using register_output_rows [OF reg] old written Inr by (auto simp: in_store_def simp del: map_of_append)
      then show ?thesis using e by (auto simp: ssh_state_ok_def st')
    qed
  qed
qed

lemma send_ok: "ssh_state_ok E st \<Longrightarrow> send E dev platform st command structured = (st', r) \<Longrightarrow> ssh_state_ok E st'"
  by (auto simp: send_def ssh_state_ok_def split: sum.splits)

lemma run_command_ok:
  assumes "ssh_state_ok E st" "run_command E dev target platform st index command = (st', r)"
  shows "ssh_state_ok E st'"
proof -
  obtain st1 q where sent: "send E dev platform st command True = (st1, q)" by fastforce
  show ?thesis using assms(2) sent send_ok [OF assms(1) sent] persist_output_ok
    by (cases q) (fastforce simp: run_command_def)+
qed

lemma run_commands_ok:
  "run_commands E dev target platform index cs st acc = (st', r) \<Longrightarrow> ssh_state_ok E st \<Longrightarrow> ssh_state_ok E st'"
proof (induction cs arbitrary: st index acc)
  case (Cons c cs)
  obtain k issues where acc: "acc = (k, issues)" by fastforce
  obtain st1 q where run: "run_command E dev target platform st index c = (st1, q)" by fastforce
  have "ssh_state_ok E st1" using run_command_ok [OF Cons.prems(2) run] .
  then show ?case
    using Cons.prems run acc Cons.IH by (auto split: if_splits sum.splits option.splits)
qed simp

text \<open>C27. The repository never points at a missing or different SSH artifact: collecting a device keeps every registered path under
  \<open>ssh/\<close> a file of the store with the registered digest and size, whichever command or write fails and wherever
  the run stops.\<close>

theorem ssh_artifacts_registered:
  assumes "ssh_state_ok E st" "ssh_collect E resolve connect st q = (st', r)"
  shows "ssh_state_ok E st'"
proof -
  have open_ok: "ssh_state_ok E (s\<lparr>ss_open := b\<rparr>) = ssh_state_ok E s" for s b by (simp add: ssh_state_ok_def)
  have session: "ssh_state_ok E (fst (run_session E dev target platform profile (st\<lparr>ss_open := True\<rparr>)))" for dev target platform profile
  proof -
    obtain st1 x where sent: "send E dev platform (st\<lparr>ss_open := True\<rparr>) (cp_paging profile) False = (st1, x)" by fastforce
    have st1: "ssh_state_ok E st1" using send_ok [OF _ sent] assms(1) open_ok by blast
    obtain st2 y where "run_commands E dev target platform 0 (cp_commands profile) st1 (0, []) = (st2, y)" by fastforce
    then show ?thesis using run_commands_ok st1 sent by (cases x) (auto simp: run_session_def)
  qed
  show ?thesis
    by (rule ssh_collect_cases [OF assms(2)]) (use assms(1) session open_ok in auto)
qed

section \<open>The platform is unambiguous\<close>

lemma evidence_platforms_sub: "evidence_platforms U other item \<subseteq> set platforms"
  by (auto simp: evidence_platforms_def platforms_def Let_def)

lemma filter_single: "distinct xs \<Longrightarrow> filter P xs = [p] \<longleftrightarrow> {x \<in> set xs. P x} = {p}"
proof
  assume d: "distinct xs" and s: "{x \<in> set xs. P x} = {p}"
  have "set (filter P xs) = {p}" using s by simp
  moreover have "length (filter P xs) = card (set (filter P xs))" using d by (metis distinct_card distinct_filter)
  ultimately have "length (filter P xs) = 1" by simp
  then show "filter P xs = [p]" using \<open>set (filter P xs) = {p}\<close> by (cases "filter P xs") auto
qed (metis list.set(1,2) set_filter)

text \<open>Without an explicit platform the evidence decides, and only when it points at exactly one supported platform: one is selected
  if and only if the platforms of all evidence texts together are that one.\<close>

theorem platform_selected_exact:
  "select_platform U other None evidence = Inr p \<longleftrightarrow> (\<Union>item \<in> set evidence. evidence_platforms U other item) = {p}"
proof -
  let ?P = "\<lambda>p. \<exists>item \<in> set evidence. p \<in> evidence_platforms U other item"
  have "distinct platforms" by code_simp
  then have "filter ?P platforms = [p] \<longleftrightarrow> {x \<in> set platforms. ?P x} = {p}" by (rule filter_single)
  moreover have "{x \<in> set platforms. ?P x} = (\<Union>item \<in> set evidence. evidence_platforms U other item)"
    using evidence_platforms_sub by auto
  moreover have "select_platform U other None evidence = Inr p \<longleftrightarrow> filter ?P platforms = [p]"
    by (auto simp: select_platform_def split: list.split)
  ultimately show ?thesis by simp
qed

section \<open>A small collection\<close>

definition demo_ssh_env :: ssh_env where
  "demo_ssh_env =
     \<lparr>se_artifacts = demo_artifact_env\<lparr>ae_sha := (\<lambda>_. replicate 64 48)\<rparr>, se_redact = id, se_redact_json = id, se_uni = (\<lambda>c. [c]),
       se_word = (\<lambda>_. False), se_faults = (\<lambda>_. (No_fault, No_fault)), se_uniques = (\<lambda>_. ([97], [98])), se_clock = (\<lambda>_. Aware 0 0),
       se_retention = 60000000, se_deployment = 1\<rparr>"

definition demo_ssh_state :: ssh_state where
  "demo_ssh_state =
     \<lparr>ss_repository = empty_repository\<lparr>rp_deployments := [\<lparr>dp_id = 1, dp_site_key = [97], dp_display_name = [97], dp_started_at = []\<rparr>]\<rparr>,
       ss_store = demo_store, ss_sent = [], ss_open = False\<rparr>"

text \<open>A device that prints one line per command; the run is cancelled before the second command of the list.\<close>

definition demo_device_session :: ssh_device where
  "demo_device_session = \<lparr>sd_reply = (\<lambda>_. Inr (Text_output (lit ''uptime''))), sd_cancelled = (\<lambda>i. i = 1), sd_close = Inr ()\<rparr>"

definition demo_collect :: "ssh_state \<times> collector_result result" where
  "demo_collect = ssh_collect demo_ssh_env (\<lambda>_. Inr []) (\<lambda>_ _ _ _. Inr demo_device_session) demo_ssh_state
     \<lparr>sq_target = lit ''10.0.0.1'', sq_reference = Some \<lparr>cr_provider = [], cr_key = []\<rparr>, sq_platform = Some (lit ''Cisco''),
       sq_evidence = [], sq_policy = lit ''strict''\<rparr>"

lemma demo_collect_sent: "map fst (ss_sent (fst demo_collect)) = map lit [''terminal length 0'', ''show version'']"
  by code_simp

lemma demo_collect_rows: "map ar_size (rp_artifacts (ss_repository (fst demo_collect))) = [6]"
  by code_simp

theorem ssh_sends_only_allowed_witness: "\<not> ss_open (fst demo_collect) \<and> length (ss_sent (fst demo_collect)) = 2"
proof -
  have "length (map fst (ss_sent (fst demo_collect))) = 2" by (subst demo_collect_sent) simp
  moreover have "\<not> ss_open (fst demo_collect)"
    using ssh_sends_only_allowed [of demo_ssh_env "\<lambda>_. Inr []" "\<lambda>_ _ _ _. Inr demo_device_session" demo_ssh_state
        "\<lparr>sq_target = lit ''10.0.0.1'', sq_reference = Some \<lparr>cr_provider = [], cr_key = []\<rparr>, sq_platform = Some (lit ''Cisco''),
       sq_evidence = [], sq_policy = lit ''strict''\<rparr>" "fst demo_collect" "snd demo_collect"]
    by (simp add: demo_collect_def demo_ssh_state_def)
  ultimately show ?thesis by simp
qed

theorem ssh_artifacts_registered_witness:
  "ssh_state_ok demo_ssh_env (fst demo_collect) \<and> length (rp_artifacts (ss_repository (fst demo_collect))) = 1"
proof -
  have "ssh_state_ok demo_ssh_env demo_ssh_state"
    by (simp add: ssh_state_ok_def demo_ssh_state_def demo_store_def empty_repository_def)
  then have "ssh_state_ok demo_ssh_env (fst demo_collect)"
    using ssh_artifacts_registered [of demo_ssh_env demo_ssh_state "\<lambda>_. Inr []" "\<lambda>_ _ _ _. Inr demo_device_session"
        "\<lparr>sq_target = lit ''10.0.0.1'', sq_reference = Some \<lparr>cr_provider = [], cr_key = []\<rparr>, sq_platform = Some (lit ''Cisco''),
       sq_evidence = [], sq_policy = lit ''strict''\<rparr>" "fst demo_collect" "snd demo_collect"]
    by (simp add: demo_collect_def)
  moreover have "length (map ar_size (rp_artifacts (ss_repository (fst demo_collect)))) = 1" by (subst demo_collect_rows) simp
  ultimately show ?thesis by simp
qed

end
