(* ===== verification/Snmp.thy ===== *)
theory Snmp
  imports Collectors
begin

text \<open>
  SNMP collection (\<open>snmp.py\<close>): credential profiles and the secret file or helper process they come from, the
  registry of known object identifiers, the transport that reads scalars and bounded tables, the normalisation of
  the answers, and the collector that records the facts. json.loads, the file system, the helper process, PySNMP
  and the redactor are arguments; a PySNMP table walk is the list of responses it would yield.
\<close>

section \<open>Credentials\<close>

datatype snmp_credential =
    SnmpV3Credential pystr pystr pystr "pystr option" "pystr option"
  | SnmpV2cCredential pystr

definition secrets :: "snmp_credential \<Rightarrow> pystr list" where
  "secrets c = (case c of
     SnmpV3Credential username auth_key auth_protocol priv_key priv_protocol \<Rightarrow>
       filter (\<lambda>s. s \<noteq> []) (auth_key # (case priv_key of None \<Rightarrow> [] | Some k \<Rightarrow> [k]))
   | SnmpV2cCredential community \<Rightarrow> [community])"

definition AUTH_PROTOCOLS :: "(pystr \<times> pystr) list" where
  "AUTH_PROTOCOLS =
     [(lit ''sha1'', lit ''USM_AUTH_HMAC96_SHA''), (lit ''sha224'', lit ''USM_AUTH_HMAC128_SHA224''),
      (lit ''sha256'', lit ''USM_AUTH_HMAC192_SHA256''), (lit ''sha384'', lit ''USM_AUTH_HMAC256_SHA384''),
      (lit ''sha512'', lit ''USM_AUTH_HMAC384_SHA512'')]"

definition PRIV_PROTOCOLS :: "(pystr \<times> pystr) list" where
  "PRIV_PROTOCOLS =
     [(lit ''aes128'', lit ''USM_PRIV_CFB128_AES''), (lit ''aes192'', lit ''USM_PRIV_CFB192_AES''),
      (lit ''aes256'', lit ''USM_PRIV_CFB256_AES'')]"

definition snmp_error :: "string \<Rightarrow> exn" where
  "snmp_error s = SnmpConfigurationError (lit s)"

text \<open>A JSON string, and a field that may be absent or \<open>null\<close>.\<close>

definition text_of :: "json option \<Rightarrow> pystr option" where
  "text_of v = (case v of Some (JStr s) \<Rightarrow> Some s | _ \<Rightarrow> None)"

definition or_null :: "json option \<Rightarrow> json" where
  "or_null v = (case v of None \<Rightarrow> JNull | Some j \<Rightarrow> j)"

definition v2c_credential :: "bool \<Rightarrow> fields \<Rightarrow> snmp_credential result" where
  "v2c_credential allow_insecure_v2c d =
     (if \<not> allow_insecure_v2c then Inl (snmp_error ''SNMPv2c requires explicit allow_insecure_v2c'')
      else if set (map fst d) \<noteq> {lit ''community''} then Inl (snmp_error ''SNMPv2c profile must contain only community'')
      else (case text_of (fget d ''community'') of
              Some (c # cs) \<Rightarrow> Inr (SnmpV2cCredential (c # cs))
            | _ \<Rightarrow> Inl (snmp_error ''SNMPv2c community must be non-empty'')))"

definition v3_credential :: "fields \<Rightarrow> snmp_credential result" where
  "v3_credential d =
     (let auth_protocol = (case fget d ''auth_protocol'' of None \<Rightarrow> Some (lit ''sha256'') | Some v \<Rightarrow> text_of (Some v));
          priv_key = or_null (fget d ''priv_key'');
          priv_protocol = (case fget d ''priv_protocol'' of
            None \<Rightarrow> if priv_key \<noteq> JNull then jstr ''aes128'' else JNull | Some v \<Rightarrow> v)
      in if \<not> set (map fst d) \<subseteq> lit ` {''username'', ''auth_key'', ''auth_protocol'', ''priv_key'', ''priv_protocol''} \<or>
            \<not> lit ` {''username'', ''auth_key''} \<subseteq> set (map fst d)
         then Inl (snmp_error ''SNMPv3 profile requires username and auth_key only'')
         else (case text_of (fget d ''username'') of
           None \<Rightarrow> Inl (snmp_error ''SNMPv3 username must be non-empty'')
         | Some username \<Rightarrow>
         if username = [] then Inl (snmp_error ''SNMPv3 username must be non-empty'')
         else (case text_of (fget d ''auth_key'') of
           None \<Rightarrow> Inl (snmp_error ''SNMPv3 auth_key must contain at least eight characters'')
         | Some auth_key \<Rightarrow>
         if length auth_key < 8 then Inl (snmp_error ''SNMPv3 auth_key must contain at least eight characters'')
         else (case auth_protocol of
           None \<Rightarrow> Inl (snmp_error ''SNMPv3 auth_protocol is unsupported'')
         | Some auth_protocol \<Rightarrow>
         if auth_protocol \<notin> fst ` set AUTH_PROTOCOLS then Inl (snmp_error ''SNMPv3 auth_protocol is unsupported'')
         else if priv_key \<noteq> JNull \<and> (case priv_key of JStr k \<Rightarrow> length k < 8 | _ \<Rightarrow> True)
         then Inl (snmp_error ''SNMPv3 priv_key must contain at least eight characters'')
         else if priv_key = JNull \<and> priv_protocol \<noteq> JNull then Inl (snmp_error ''SNMPv3 priv_protocol requires priv_key'')
         else if priv_protocol \<noteq> JNull \<and> (case priv_protocol of JStr p \<Rightarrow> p \<notin> fst ` set PRIV_PROTOCOLS | _ \<Rightarrow> True)
         then Inl (snmp_error ''SNMPv3 priv_protocol is unsupported'')
         else Inr (SnmpV3Credential username auth_key auth_protocol (text_of (Some priv_key)) (text_of (Some priv_protocol)))))))"

definition parse_snmp_credential :: "(pystr \<Rightarrow> json option) \<Rightarrow> pystr \<Rightarrow> pystr \<Rightarrow> bool \<Rightarrow> snmp_credential result" where
  "parse_snmp_credential loads raw protocol allow_insecure_v2c =
     (case loads raw of
        None \<Rightarrow> Inl (snmp_error ''SNMP credential profile must be JSON'')
      | Some (JDict d) \<Rightarrow>
          if protocol = lit ''v2c'' then v2c_credential allow_insecure_v2c d
          else if protocol \<noteq> lit ''v3'' then Inl (snmp_error ''SNMP protocol must be v3 or explicitly enabled v2c'')
          else v3_credential d
      | Some _ \<Rightarrow> Inl (snmp_error ''SNMP credential profile must be a JSON object''))"

text \<open>The authentication data PySNMP is given; a protocol name outside the tables would be a \<open>KeyError\<close>.\<close>

datatype pysnmp_auth_data =
    CommunityData pystr pystr int
  | UsmUserData pystr pystr "pystr option" pystr "pystr option"

definition dict_lookup :: "(pystr \<times> pystr) list \<Rightarrow> pystr \<Rightarrow> pystr result" where
  "dict_lookup d k = (case map_of d k of None \<Rightarrow> Inl (KeyError k) | Some v \<Rightarrow> Inr v)"

definition pysnmp_auth :: "snmp_credential \<Rightarrow> pysnmp_auth_data result" where
  "pysnmp_auth c = (case c of
     SnmpV2cCredential community \<Rightarrow> Inr (CommunityData (lit ''codexnet-explicit-v2c'') community 1)
   | SnmpV3Credential username auth_key auth_protocol priv_key priv_protocol \<Rightarrow>
       bindR (dict_lookup AUTH_PROTOCOLS auth_protocol) (\<lambda>a.
         bindR (case priv_protocol of None \<Rightarrow> Inr None | Some p \<Rightarrow> bindR (dict_lookup PRIV_PROTOCOLS p) (\<lambda>x. Inr (Some x))) (\<lambda>p.
           Inr (UsmUserData username auth_key priv_key a p))))"

section \<open>Secrets\<close>

definition MAX_CREDENTIAL_BYTES :: int where
  "MAX_CREDENTIAL_BYTES = 65536"

text \<open>
  The secret file as the calls see it: whether it is a regular file (and no link) and its mode at \<open>lstat\<close>, the
  same at \<open>fstat\<close> of the opened descriptor, and its content; a call that fails is \<open>None\<close>.
\<close>

record secret_view =
  vw_lstat :: "(bool \<times> int) option"
  vw_open :: bool
  vw_fstat :: "(bool \<times> int) option"
  vw_content :: "bytes option"

definition others_may :: "int \<Rightarrow> bool" where
  "others_may mode \<longleftrightarrow> mode mod 64 \<noteq> 0"

definition secret_bytes :: "secret_view \<Rightarrow> bytes result" where
  "secret_bytes f =
     (case vw_lstat f of
        None \<Rightarrow> Inl (snmp_error ''credential file is unavailable'')
      | Some (regular, mode) \<Rightarrow>
          if \<not> regular then Inl (snmp_error ''credential file must be a regular non-symlink'')
          else if others_may mode then Inl (snmp_error ''credential file permissions must be 0600 or stricter'')
          else if \<not> vw_open f then Inl (snmp_error ''credential file cannot be read'')
          else (case vw_fstat f of
                  None \<Rightarrow> Inl (snmp_error ''credential file cannot be read'')
                | Some (regular, mode) \<Rightarrow>
                    if \<not> regular \<or> others_may mode then Inl (snmp_error ''credential file cannot be read'')
                    else (case vw_content f of
                            None \<Rightarrow> Inl (snmp_error ''credential file cannot be read'')
                          | Some bs \<Rightarrow> Inr (take (nat (MAX_CREDENTIAL_BYTES + 1)) bs))))"

definition secret_line :: "pystr \<Rightarrow> pystr option \<Rightarrow> pystr \<Rightarrow> pystr option result" where
  "secret_line key found line =
     (if skip_line line then Inr found
      else (case partition_equals line of
              None \<Rightarrow> Inl (snmp_error ''credential file contains a malformed line'')
            | Some (name, v) \<Rightarrow>
                if name = [] then Inl (snmp_error ''credential file contains a malformed line'')
                else if name = key then
                  if found \<noteq> None then Inl (snmp_error ''credential file contains a duplicate key'') else Inr (Some v)
                else Inr found))"

definition read_env_secret :: "secret_view \<Rightarrow> pystr \<Rightarrow> pystr result" where
  "read_env_secret f key =
     bindR (secret_bytes f) (\<lambda>raw.
       if int (length raw) > MAX_CREDENTIAL_BYTES then Inl (snmp_error ''credential file exceeds size limit'')
       else (case utf8_decode raw of
               None \<Rightarrow> Inl (snmp_error ''credential file must be UTF-8'')
             | Some s \<Rightarrow> bindR (foldR (secret_line key) None (split_lines s)) (\<lambda>found.
                 case found of
                   Some (c # cs) \<Rightarrow> Inr (c # cs)
                 | _ \<Rightarrow> Inl (snmp_error ''credential reference is missing or empty''))))"

text \<open>What the helper does with its input: it cannot be started or times out, or it ends with a status and output.\<close>

type_synonym secret_helper = "bytes \<Rightarrow> (int \<times> bytes) option"

definition command_secret :: "secret_helper \<Rightarrow> pystr \<Rightarrow> pystr result" where
  "command_secret run key =
     bindR (utf8_encode (key @ [10])) (\<lambda>input.
       case run input of
         None \<Rightarrow> Inl (snmp_error ''credential command failed'')
       | Some (code, stdout) \<Rightarrow>
           if code \<noteq> 0 \<or> stdout = [] \<or> int (length stdout) > MAX_CREDENTIAL_BYTES
           then Inl (snmp_error ''credential command returned no usable value'')
           else (case utf8_decode (rev (dropWhile (\<lambda>b. b \<in> {13, 10}) (rev stdout))) of
                   None \<Rightarrow> Inl (snmp_error ''credential command output must be UTF-8'')
                 | Some v \<Rightarrow> if v = [] then Inl (snmp_error ''credential command returned no usable value'') else Inr v))"

text \<open>A configured provider; a path, executable or timeout of the wrong type is \<open>None\<close>.\<close>

datatype secret_source = Env_source "secret_view option" | Command_source "secret_helper option" | Other_source

definition resolve_named_secret :: "(pystr \<times> secret_source) list \<Rightarrow> credential_reference \<Rightarrow> pystr result" where
  "resolve_named_secret providers reference =
     (case map_of providers (cr_provider reference) of
        None \<Rightarrow> Inl (snmp_error ''credential reference names an unknown provider'')
      | Some (Env_source None) \<Rightarrow> Inl (snmp_error ''credential env_file path is invalid'')
      | Some (Env_source (Some f)) \<Rightarrow> read_env_secret f (cr_key reference)
      | Some (Command_source None) \<Rightarrow> Inl (snmp_error ''credential command provider is invalid'')
      | Some (Command_source (Some run)) \<Rightarrow> command_secret run (cr_key reference)
      | Some Other_source \<Rightarrow> Inl (snmp_error ''credential provider type is unsupported''))"

section \<open>The registry\<close>

record oid_field =
  of_oid :: pystr
  of_fact_type :: pystr
  of_table :: bool
  of_value_kind :: pystr
  of_unit :: "pystr option"
  of_enum_labels :: "(int \<times> pystr) list"
  of_special_values :: "(pystr \<times> pystr) list"

definition scalar_oid :: "string \<Rightarrow> string \<Rightarrow> string \<Rightarrow> oid_field" where
  "scalar_oid oid fact_type value_kind =
     \<lparr>of_oid = lit oid, of_fact_type = lit fact_type, of_table = False, of_value_kind = lit value_kind, of_unit = None,
       of_enum_labels = [], of_special_values = []\<rparr>"

definition table_oid :: "string \<Rightarrow> string \<Rightarrow> string \<Rightarrow> oid_field" where
  "table_oid oid fact_type value_kind = (scalar_oid oid fact_type value_kind)\<lparr>of_table := True\<rparr>"

definition labels :: "(int \<times> string) list \<Rightarrow> (int \<times> pystr) list" where
  "labels xs = map (\<lambda>(n, s). (n, lit s)) xs"

definition specials :: "(string \<times> string) list \<Rightarrow> (pystr \<times> pystr) list" where
  "specials xs = map (\<lambda>(v, s). (lit v, lit s)) xs"

definition SYSTEM_PROFILE :: "oid_field list" where
  "SYSTEM_PROFILE =
    [scalar_oid ''1.3.6.1.2.1.1.1.0'' ''snmp.system.description'' ''text'',
     scalar_oid ''1.3.6.1.2.1.1.2.0'' ''snmp.system.object_id'' ''oid'',
     scalar_oid ''1.3.6.1.2.1.1.3.0'' ''snmp.system.uptime'' ''integer'',
     scalar_oid ''1.3.6.1.2.1.1.5.0'' ''snmp.system.name'' ''text'']"

definition INTERFACE_PROFILE :: "oid_field list" where
  "INTERFACE_PROFILE =
    [table_oid ''1.3.6.1.2.1.2.2.1.1'' ''snmp.interface.index'' ''integer'',
     table_oid ''1.3.6.1.2.1.2.2.1.2'' ''snmp.interface.description'' ''text'',
     table_oid ''1.3.6.1.2.1.2.2.1.6'' ''snmp.interface.mac'' ''mac'',
     table_oid ''1.3.6.1.2.1.2.2.1.7'' ''snmp.interface.admin_state'' ''integer'',
     table_oid ''1.3.6.1.2.1.2.2.1.8'' ''snmp.interface.oper_state'' ''integer'']"

definition ADDRESS_PROFILE :: "oid_field list" where
  "ADDRESS_PROFILE =
    [table_oid ''1.3.6.1.2.1.4.20.1.1'' ''snmp.address.ipv4'' ''ipv4'',
     table_oid ''1.3.6.1.2.1.4.20.1.2'' ''snmp.address.interface_index'' ''integer'',
     table_oid ''1.3.6.1.2.1.4.20.1.3'' ''snmp.address.netmask'' ''ipv4'']"

definition LLDP_PROFILE :: "oid_field list" where
  "LLDP_PROFILE =
    [table_oid ''1.0.8802.1.1.2.1.4.1.1.5'' ''snmp.lldp.remote.chassis_id'' ''text'',
     table_oid ''1.0.8802.1.1.2.1.4.1.1.7'' ''snmp.lldp.remote.port_id'' ''text'',
     table_oid ''1.0.8802.1.1.2.1.4.1.1.9'' ''snmp.lldp.remote.system_name'' ''text'',
     table_oid ''1.0.8802.1.1.2.1.4.1.1.10'' ''snmp.lldp.remote.description'' ''text'']"

definition BRIDGE_PROFILE :: "oid_field list" where
  "BRIDGE_PROFILE =
    [table_oid ''1.3.6.1.2.1.17.4.3.1.1'' ''snmp.bridge.mac'' ''mac'',
     table_oid ''1.3.6.1.2.1.17.4.3.1.2'' ''snmp.bridge.port'' ''integer'',
     (table_oid ''1.3.6.1.2.1.17.4.3.1.3'' ''snmp.bridge.status'' ''integer'')\<lparr>of_enum_labels := labels [(1, ''other''),
          (2, ''invalid''), (3, ''learned''), (4, ''self''), (5, ''management'')]\<rparr>]"

definition NEIGHBOR_PROFILE :: "oid_field list" where
  "NEIGHBOR_PROFILE =
    [table_oid ''1.3.6.1.2.1.4.22.1.1'' ''snmp.neighbor.interface_index'' ''integer'',
     table_oid ''1.3.6.1.2.1.4.22.1.2'' ''snmp.neighbor.mac'' ''mac'',
     table_oid ''1.3.6.1.2.1.4.22.1.3'' ''snmp.neighbor.ipv4'' ''ipv4'',
     (table_oid ''1.3.6.1.2.1.4.22.1.4'' ''snmp.neighbor.mapping_type'' ''integer'')\<lparr>of_enum_labels := labels [(1, ''other''),
          (2, ''invalid''), (3, ''dynamic''), (4, ''static'')]\<rparr>]"

definition VLAN_PROFILE :: "oid_field list" where
  "VLAN_PROFILE =
    [table_oid ''1.3.6.1.2.1.17.7.1.4.3.1.1'' ''snmp.vlan.name'' ''text'',
     table_oid ''1.3.6.1.2.1.17.7.1.4.3.1.2'' ''snmp.vlan.egress_ports'' ''hex_bytes'',
     table_oid ''1.3.6.1.2.1.17.7.1.4.3.1.3'' ''snmp.vlan.forbidden_ports'' ''hex_bytes'',
     table_oid ''1.3.6.1.2.1.17.7.1.4.3.1.4'' ''snmp.vlan.untagged_ports'' ''hex_bytes'',
     (table_oid ''1.3.6.1.2.1.17.7.1.4.3.1.5'' ''snmp.vlan.row_status'' ''integer'')\<lparr>of_enum_labels := labels [(1, ''active''),
          (2, ''not_in_service''), (3, ''not_ready''), (4, ''create_and_go''), (5, ''create_and_wait''), (6, ''destroy'')]\<rparr>]"

definition POE_PROFILE :: "oid_field list" where
  "POE_PROFILE =
    [(table_oid ''1.3.6.1.2.1.105.1.1.1.3'' ''snmp.poe.port.admin_state'' ''integer'')
       \<lparr>of_enum_labels := labels [(1, ''enabled''), (2, ''disabled'')]\<rparr>,
     (table_oid ''1.3.6.1.2.1.105.1.1.1.6'' ''snmp.poe.port.detection_status'' ''integer'')
       \<lparr>of_enum_labels := labels [(1, ''disabled''), (2, ''searching''), (3, ''delivering_power''), (4, ''fault''),
          (5, ''test''), (6, ''other_fault'')]\<rparr>,
     (table_oid ''1.3.6.1.2.1.105.1.1.1.7'' ''snmp.poe.port.priority'' ''integer'')\<lparr>of_enum_labels := labels [(1, ''critical''),
          (2, ''high''), (3, ''low'')]\<rparr>,
     table_oid ''1.3.6.1.2.1.105.1.1.1.13'' ''snmp.poe.port.class'' ''integer'',
     (table_oid ''1.3.6.1.2.1.105.1.3.1.1.2'' ''snmp.poe.main.power_budget'' ''integer'')\<lparr>of_unit := Some (lit ''W'')\<rparr>,
     (table_oid ''1.3.6.1.2.1.105.1.3.1.1.4'' ''snmp.poe.main.power_consumption'' ''integer'')\<lparr>of_unit := Some (lit ''W'')\<rparr>]"

definition ENVIRONMENT_PROFILE :: "oid_field list" where
  "ENVIRONMENT_PROFILE =
    [(table_oid ''1.3.6.1.2.1.99.1.1.1.1'' ''snmp.environment.sensor.type'' ''integer'')
       \<lparr>of_enum_labels := labels [(1, ''other''), (2, ''unknown''), (3, ''volts_ac''), (4, ''volts_dc''), (5, ''amperes''),
          (6, ''watts''), (7, ''hertz''), (8, ''celsius''), (9, ''percent_relative_humidity''), (10, ''rpm'')]\<rparr>,
     (table_oid ''1.3.6.1.2.1.99.1.1.1.2'' ''snmp.environment.sensor.scale'' ''integer'')
       \<lparr>of_enum_labels := labels [(1, ''yocto''), (2, ''zepto''), (3, ''atto''), (4, ''femto''), (5, ''pico''), (6, ''nano''),
          (7, ''micro''), (8, ''milli''), (9, ''units''), (10, ''kilo''), (11, ''mega''), (12, ''giga''), (13, ''tera''), (14, ''exa''),
          (15, ''peta''), (16, ''zetta''), (17, ''yotta'')]\<rparr>,
     (table_oid ''1.3.6.1.2.1.99.1.1.1.3'' ''snmp.environment.sensor.precision'' ''integer'')
       \<lparr>of_unit := Some (lit ''decimal_places'')\<rparr>,
     table_oid ''1.3.6.1.2.1.99.1.1.1.4'' ''snmp.environment.sensor.value'' ''integer'',
     (table_oid ''1.3.6.1.2.1.99.1.1.1.5'' ''snmp.environment.sensor.oper_state'' ''integer'')
       \<lparr>of_enum_labels := labels [(1, ''ok''), (2, ''unavailable''), (3, ''nonoperational'')]\<rparr>,
     table_oid ''1.3.6.1.2.1.99.1.1.1.6'' ''snmp.environment.sensor.units_display'' ''text'',
     (table_oid ''1.3.6.1.2.1.99.1.1.1.7'' ''snmp.environment.sensor.timestamp'' ''integer'')
       \<lparr>of_unit := Some (lit ''centiseconds'')\<rparr>]"

definition UPS_PROFILE :: "oid_field list" where
  "UPS_PROFILE =
    [(scalar_oid ''1.3.6.1.2.1.33.1.2.1.0'' ''snmp.ups.battery.status'' ''integer'')\<lparr>of_enum_labels := labels [(1, ''unknown''),
          (2, ''normal''), (3, ''low''), (4, ''depleted'')]\<rparr>,
     (scalar_oid ''1.3.6.1.2.1.33.1.2.2.0'' ''snmp.ups.battery.seconds_on_battery'' ''integer'')\<lparr>of_unit := Some (lit ''s'')\<rparr>,
     (scalar_oid ''1.3.6.1.2.1.33.1.2.3.0'' ''snmp.ups.battery.runtime_remaining'' ''integer'')
       \<lparr>of_unit := Some (lit ''min'')\<rparr>,
     (scalar_oid ''1.3.6.1.2.1.33.1.2.4.0'' ''snmp.ups.battery.charge_remaining'' ''integer'')\<lparr>of_unit := Some (lit ''%'')\<rparr>,
     (scalar_oid ''1.3.6.1.2.1.33.1.2.5.0'' ''snmp.ups.battery.voltage'' ''integer'')\<lparr>of_unit := Some (lit ''0.1 V DC'')\<rparr>,
     (scalar_oid ''1.3.6.1.2.1.33.1.2.6.0'' ''snmp.ups.battery.current'' ''integer'')\<lparr>of_unit := Some (lit ''0.1 A DC'')\<rparr>,
     (scalar_oid ''1.3.6.1.2.1.33.1.2.7.0'' ''snmp.ups.battery.temperature'' ''integer'')\<lparr>of_unit := Some ([176, 67])\<rparr>]"

definition PRINTER_PROFILE :: "oid_field list" where
  "PRINTER_PROFILE =
    [table_oid ''1.3.6.1.2.1.43.5.1.1.17'' ''snmp.printer.serial'' ''text'',
     (table_oid ''1.3.6.1.2.1.43.10.2.1.3'' ''snmp.printer.marker.counter_unit'' ''integer'')
       \<lparr>of_enum_labels := labels [(1, ''other''), (2, ''unknown''), (5, ''characters''), (6, ''lines''), (7, ''impressions''),
          (8, ''sheets''), (11, ''hours'')]\<rparr>,
     table_oid ''1.3.6.1.2.1.43.10.2.1.4'' ''snmp.printer.marker.life_count'' ''integer'',
     table_oid ''1.3.6.1.2.1.43.11.1.1.4'' ''snmp.printer.supply.class'' ''integer'',
     table_oid ''1.3.6.1.2.1.43.11.1.1.5'' ''snmp.printer.supply.type'' ''integer'',
     table_oid ''1.3.6.1.2.1.43.11.1.1.6'' ''snmp.printer.supply.description'' ''text'',
     (table_oid ''1.3.6.1.2.1.43.11.1.1.7'' ''snmp.printer.supply.unit'' ''integer'')\<lparr>of_enum_labels := labels [(1, ''other''),
          (2, ''unknown''), (16, ''feet''), (17, ''meters''), (18, ''items''), (19, ''percent'')]\<rparr>,
     (table_oid ''1.3.6.1.2.1.43.11.1.1.8'' ''snmp.printer.supply.maximum_capacity'' ''integer'')
       \<lparr>of_special_values := specials [(''-1'', ''other''), (''-2'', ''unknown'')]\<rparr>,
     (table_oid ''1.3.6.1.2.1.43.11.1.1.9'' ''snmp.printer.supply.level'' ''integer'')
       \<lparr>of_special_values := specials [(''-1'', ''other''), (''-2'', ''unknown''), (''-3'', ''some_remaining'')]\<rparr>]"

definition FIRMWARE_PROFILE :: "oid_field list" where
  "FIRMWARE_PROFILE =
    [table_oid ''1.3.6.1.2.1.47.1.1.1.1.9'' ''snmp.firmware.revision'' ''text'',
     table_oid ''1.3.6.1.2.1.47.1.1.1.1.10'' ''snmp.software.revision'' ''text'',
     table_oid ''1.3.6.1.2.1.47.1.1.1.1.11'' ''snmp.inventory.serial'' ''text'',
     table_oid ''1.3.6.1.2.1.47.1.1.1.1.13'' ''snmp.inventory.model'' ''text'']"

definition BASE_OID_REGISTRY :: "oid_field list" where
  "BASE_OID_REGISTRY = SYSTEM_PROFILE @ INTERFACE_PROFILE @ ADDRESS_PROFILE @ LLDP_PROFILE"

definition INFRASTRUCTURE_OID_REGISTRY :: "oid_field list" where
  "INFRASTRUCTURE_OID_REGISTRY =
     BRIDGE_PROFILE @ NEIGHBOR_PROFILE @ VLAN_PROFILE @ POE_PROFILE @ ENVIRONMENT_PROFILE @ UPS_PROFILE @ PRINTER_PROFILE @
     FIRMWARE_PROFILE"

definition DEFAULT_OID_REGISTRY :: "oid_field list" where
  "DEFAULT_OID_REGISTRY = BASE_OID_REGISTRY @ INFRASTRUCTURE_OID_REGISTRY"

section \<open>The transport\<close>

record snmp_varbind =
  vb_oid :: pystr
  vb_value :: pystr
  vb_unsupported :: bool

record snmp_response =
  sn_varbinds :: "snmp_varbind list"
  sn_issues :: "collector_issue list"
  sn_truncated :: bool

text \<open>
  One PySNMP response: the texts of the error indication and the error status when there is one, and for every
  variable its identifier, the class name of its value and the value printed.
\<close>

record pysnmp_response =
  py_indication :: "pystr option"
  py_status :: "pystr option"
  py_varbinds :: "(pystr \<times> pystr \<times> pystr) list"

definition response_varbinds :: "unidata \<Rightarrow> pysnmp_response \<Rightarrow> snmp_varbind list result" where
  "response_varbinds U r =
     (case py_indication r of
        Some s \<Rightarrow>
          if list_ex (\<lambda>w. contains_text (lit w) (casefold U s)) [''authentication'', ''unknown user'', ''wrong digest'']
          then Inl (CollectorAuthenticationError (lit ''SNMP authentication failed''))
          else Inl (RetryableCollectorError (lit ''SNMP target did not respond''))
      | None \<Rightarrow>
          (case py_status r of
             Some s \<Rightarrow>
               if contains_text (lit ''authorization'') (casefold U s) \<or> contains_text (lit ''access'') (casefold U s)
               then Inl (CollectorAuthenticationError (lit ''SNMP authorization failed''))
               else Inl (SnmpProtocolError (lit ''SNMP agent returned an error status''))
           | None \<Rightarrow> Inr (map (\<lambda>(oid, class_name, printed).
               \<lparr>vb_oid = oid, vb_value = printed,
                 vb_unsupported = list_ex (\<lambda>w. contains_text (lit w) (casefold U class_name)) [''nosuch'', ''endofmib'']\<rparr>)
               (py_varbinds r))))"

text \<open>
  What the library does for one run: opening the endpoint, the answer to the scalar request, the responses of a walk
  from a root with a number of repetitions, and whether cancellation is seen before the table of an index. A
  response may be an exception.
\<close>

record snmp_agent =
  ag_open :: "unit result"
  ag_get :: "pystr list \<Rightarrow> pysnmp_response result"
  ag_walk :: "pystr \<Rightarrow> nat \<Rightarrow> pysnmp_response result list"
  ag_cancelled :: "nat \<Rightarrow> bool"

text \<open>One table, within the rows that remain: the values so far, the rows left and whether the limit was met.\<close>

fun walk_table ::
    "unidata \<Rightarrow> pysnmp_response result list \<Rightarrow> nat \<Rightarrow> snmp_varbind list \<Rightarrow> (snmp_varbind list \<times> nat \<times> bool) result" where
  "walk_table U [] remaining acc = Inr (acc, remaining, False)"
| "walk_table U (Inl e # rs) remaining acc = Inl e"
| "walk_table U (Inr r # rs) remaining acc =
     bindR (response_varbinds U r) (\<lambda>batch.
       let over = length batch > remaining;
           batch = (if over then take remaining batch else batch);
           remaining = remaining - length batch
       in if remaining = 0 then Inr (acc @ batch, remaining, True) else walk_table U rs remaining (acc @ batch))"

fun walk_tables ::
    "unidata \<Rightarrow> snmp_agent \<Rightarrow> nat \<Rightarrow> pystr list \<Rightarrow> nat \<Rightarrow> snmp_varbind list \<Rightarrow> (snmp_varbind list \<times> bool) result" where
  "walk_tables U ag i [] remaining acc = Inr (acc, False)"
| "walk_tables U ag i (start # starts) remaining acc =
     (if ag_cancelled ag i then Inl CancelledError
      else if remaining = 0 then Inr (acc, True)
      else bindR (walk_table U (ag_walk ag start (min 25 remaining)) remaining acc) (\<lambda>(acc, remaining, truncated).
        if truncated then Inr (acc, True) else walk_tables U ag (Suc i) starts remaining acc))"

text \<open>Errors of the program and cancellation pass; any other exception of the library is a retryable failure.\<close>

definition transport_guard :: "'a result \<Rightarrow> 'a result" where
  "transport_guard r = (case r of
     Inl e \<Rightarrow> Inl (if is_collector_error e \<or> e = CancelledError then e else RetryableCollectorError (lit ''SNMP transport failed''))
   | Inr v \<Rightarrow> Inr v)"

definition check_transport :: "int \<Rightarrow> unit result" where
  "check_transport endpoint_port =
     (if \<not> (1 \<le> endpoint_port \<and> endpoint_port \<le> 65535) then Inl (snmp_error ''SNMP transport endpoint port is invalid'') else Inr ())"

definition transport_collect ::
    "unidata \<Rightarrow> snmp_agent \<Rightarrow> snmp_credential \<Rightarrow> pystr list \<Rightarrow> pystr list \<Rightarrow> nat \<Rightarrow> snmp_response result" where
  "transport_collect U ag credential scalar_oids table_oids max_table_rows =
     bindR (pysnmp_auth credential) (\<lambda>auth. bindR (ag_open ag) (\<lambda>_.
       bindR (transport_guard
         (bindR (if scalar_oids = [] then Inr [] else bindR (ag_get ag scalar_oids) (response_varbinds U))
           (walk_tables U ag 0 table_oids max_table_rows))) (\<lambda>(acc, truncated).
         Inr \<lparr>sn_varbinds = acc,
           sn_issues = (if truncated then [issue_of ''table_limit'' (lit ''SNMP table row limit reached'') False] else []),
           sn_truncated = truncated\<rparr>)))"

section \<open>Normalisation\<close>

definition MAX_VALUE_CHARS :: nat where
  "MAX_VALUE_CHARS = 4096"

definition clip :: "pystr \<Rightarrow> pystr" where
  "clip s = take MAX_VALUE_CHARS s"

lemma clip_code [code]: "clip s = (if int (length s) \<le> 4096 then s else take MAX_VALUE_CHARS s)"
  by (simp add: clip_def MAX_VALUE_CHARS_def)

text \<open>The redactor of a run, and the runtime's character tables.\<close>

record snmp_env =
  sx_redact :: "pystr \<Rightarrow> pystr"
  sx_unidata :: unidata
  sx_digits :: digit_table
  sx_isdigit :: "int \<Rightarrow> bool"

definition is_hex_char :: "int \<Rightarrow> bool" where
  "is_hex_char c \<longleftrightarrow> 48 \<le> c \<and> c \<le> 57 \<or> 97 \<le> c \<and> c \<le> 102"

definition remove_prefix :: "pystr \<Rightarrow> pystr \<Rightarrow> pystr" where
  "remove_prefix p s = (if take (length p) s = p then drop (length p) s else s)"

fun pairs :: "pystr \<Rightarrow> pystr list" where
  "pairs (a # b # s) = [a, b] # pairs s"
| "pairs _ = []"

definition isdigit :: "snmp_env \<Rightarrow> pystr \<Rightarrow> bool" where
  "isdigit E s \<longleftrightarrow> s \<noteq> [] \<and> list_all (\<lambda>c. if c < 128 then is_digit c else sx_isdigit E c) s"

definition strip_dots :: "pystr \<Rightarrow> pystr" where
  "strip_dots = strip_with (\<lambda>c. c = 46)"

definition normalize_value :: "snmp_env \<Rightarrow> pystr \<Rightarrow> pystr \<Rightarrow> json result" where
  "normalize_value E v kind =
     (let s = clip (sx_redact E v) in
      if kind = lit ''integer'' then
        (case int_of_text (sx_digits E) s of None \<Rightarrow> Inl (ValueError (lit ''invalid literal for int()'')) | Some n \<Rightarrow> Inr (JInt n))
      else if kind = lit ''ipv4'' then
        (case ipv4_normal s of None \<Rightarrow> Inl (ValueError (lit ''invalid IPv4 address'')) | Some t \<Rightarrow> Inr (JStr t))
      else if kind = lit ''mac'' then
        (let compact = filter is_hex_char (remove_prefix (lit ''0x'') (casefold (sx_unidata E) s)) in
         if length compact \<noteq> 12 then Inl (ValueError (lit ''invalid MAC'')) else Inr (JStr (join (lit '':'') (pairs compact))))
      else if kind = lit ''hex_bytes'' then
        (let compact = filter (\<lambda>c. \<not> py_isspace c \<and> c \<noteq> 58 \<and> c \<noteq> 45) (remove_prefix (lit ''0x'') (casefold (sx_unidata E) s)) in
         if compact = [] \<or> odd (length compact) \<or> \<not> list_all is_hex_char compact then Inl (ValueError (lit ''invalid byte string''))
         else Inr (JStr compact))
      else if kind = lit ''oid'' then
        (if \<not> list_all (isdigit E) (split_on 46 (strip_dots s)) then Inl (ValueError (lit ''invalid OID''))
         else Inr (JStr (strip_dots s)))
      else if kind \<noteq> lit ''text'' then Inl (ValueError (lit ''unsupported normalization kind''))
      else Inr (JStr s))"

definition oid_matches :: "pystr \<Rightarrow> oid_field \<Rightarrow> bool" where
  "oid_matches oid f \<longleftrightarrow> oid = of_oid f \<or> (of_table f \<and> take (length (of_oid f) + 1) oid = of_oid f @ [46])"

text \<open>\<open>sorted(registry, key=len, reverse=True)\<close> keeps the order of identifiers of equal length.\<close>

definition longest_first :: "oid_field list \<Rightarrow> oid_field list" where
  "longest_first registry = sort_key (\<lambda>f. - int (length (of_oid f))) registry"

definition with_unit :: "oid_field \<Rightarrow> fields \<Rightarrow> fields" where
  "with_unit f payload = (case of_unit f of None \<Rightarrow> payload | Some u \<Rightarrow> fset ''unit'' (JStr u) payload)"

definition label_of :: "oid_field \<Rightarrow> json \<Rightarrow> pystr option" where
  "label_of f v = (case v of JInt n \<Rightarrow> map_of (rev (of_enum_labels f)) n | _ \<Rightarrow> None)"

text \<open>The fact of a variable of a registered identifier; an invalid value is an exception.\<close>

definition known_fact :: "snmp_env \<Rightarrow> oid_field \<Rightarrow> snmp_varbind \<Rightarrow> (pystr \<times> fields) result" where
  "known_fact E f b =
     (let index = (if of_table f then dropWhile (\<lambda>c. c = 46) (drop (length (of_oid f)) (vb_oid b)) else []);
          s = clip (sx_redact E (vb_value b))
      in bindR (case map_of (rev (of_special_values f)) s of
           Some special \<Rightarrow>
             Inr [(lit ''index'', JStr index), (lit ''value'', JNull), (lit ''value_status'', JStr special), (lit ''raw_value'', JStr s)]
         | None \<Rightarrow>
             bindR (normalize_value E s (of_value_kind f)) (\<lambda>v.
               let payload = [(lit ''index'', JStr index), (lit ''value'', v)]
               in Inr (case label_of f v of None \<Rightarrow> payload | Some l \<Rightarrow> fset ''label'' (JStr l) payload)))
         (\<lambda>payload. Inr (of_fact_type f, with_unit f payload)))"

definition unknown_fact :: "snmp_env \<Rightarrow> snmp_varbind \<Rightarrow> pystr \<times> fields" where
  "unknown_fact E b =
     (lit ''snmp.raw.unknown'', [(lit ''oid'', JStr (vb_oid b)), (lit ''value'', JStr (clip (sx_redact E (vb_value b))))])"

type_synonym normalization = "(pystr \<times> fields) list \<times> collector_issue list \<times> nat"

definition normalize_one :: "snmp_env \<Rightarrow> oid_field list \<Rightarrow> nat \<Rightarrow> normalization \<Rightarrow> snmp_varbind \<Rightarrow> normalization" where
  "normalize_one E ordered max_unknown acc b =
     (case acc of (facts, issues, unknown) \<Rightarrow>
        if vb_unsupported b
        then (facts, issues @ [issue_of ''unsupported_oid'' (lit ''OID '' @ vb_oid b @ lit '' is unsupported'') False], unknown)
        else (case find (oid_matches (vb_oid b)) ordered of
                None \<Rightarrow> if unknown < max_unknown then (facts @ [unknown_fact E b], issues, Suc unknown) else (facts, issues, unknown)
              | Some f \<Rightarrow>
                  (case known_fact E f b of
                     Inl e \<Rightarrow> (facts, issues @ [issue_of ''invalid_value'' (lit ''OID '' @ vb_oid b @ lit '' value was invalid'') False], unknown)
                   | Inr known \<Rightarrow> (facts @ [known], issues, unknown))))"

definition normalize_varbinds ::
    "snmp_env \<Rightarrow> snmp_varbind list \<Rightarrow> oid_field list \<Rightarrow> nat \<Rightarrow> (pystr \<times> fields) list \<times> collector_issue list" where
  "normalize_varbinds E varbinds registry max_unknown =
     (case foldl (normalize_one E (longest_first registry) max_unknown) ([], [], 0) varbinds of
        (facts, issues, unknown) \<Rightarrow>
          (facts, issues @
            (if length (filter (\<lambda>b. \<not> list_ex (oid_matches (vb_oid b)) registry) varbinds) > max_unknown
             then [issue_of ''unknown_oid_limit'' (lit ''unknown OID retention limit reached'') False] else [])))"

section \<open>The collector\<close>

record snmp_collector =
  sc_deployment :: nat
  sc_protocol :: pystr
  sc_allow_insecure_v2c :: bool
  sc_providers :: "(pystr \<times> secret_source) list"
  sc_registry :: "oid_field list"
  sc_max_table_rows :: int
  sc_max_unknown_oids :: int
  sc_timeout :: rat

definition check_snmp_collector :: "snmp_collector \<Rightarrow> unit result" where
  "check_snmp_collector c =
     (if sc_protocol c = lit ''v2c'' \<and> \<not> sc_allow_insecure_v2c c then Inl (snmp_error ''SNMPv2c requires explicit allow_insecure_v2c'')
      else if sc_protocol c \<notin> {lit ''v3'', lit ''v2c''} then Inl (snmp_error ''SNMP protocol must be v3 or v2c'')
      else if sc_max_table_rows c < 1 \<or> sc_max_unknown_oids c < 0 \<or> sc_timeout c \<le> 0
      then Inl (snmp_error ''SNMP collection bounds are invalid'') else Inr ())"

text \<open>The redactors: of the repository, for text and for values, and of a run for the credential's secrets.\<close>

record snmp_runtime =
  sy_loads :: "pystr \<Rightarrow> json option"
  sy_redactor :: "pystr list \<Rightarrow> pystr \<Rightarrow> pystr"
  sy_repo_redact :: "pystr \<Rightarrow> pystr"
  sy_repo_redact_value :: "json \<Rightarrow> json"
  sy_float :: "rat \<Rightarrow> pystr"
  sy_unidata :: unidata
  sy_digits :: digit_table
  sy_isdigit :: "int \<Rightarrow> bool"
  sy_now :: pystr

text \<open>The facts are recorded one by one: when one raises, those before it stay recorded.\<close>

fun record_facts :: "snmp_runtime \<Rightarrow> snmp_collector \<Rightarrow> pystr \<Rightarrow> repository \<Rightarrow> (pystr \<times> fields) list \<Rightarrow> repository \<times> unit result" where
  "record_facts R c target repo [] = (repo, Inr ())"
| "record_facts R c target repo ((fact_type, payload) # facts) =
     (case record_observation (sy_repo_redact R) (sy_repo_redact_value R) (sy_float R) repo (sc_deployment c) (lit ''snmp_target'') None
        fact_type (JDict ((lit ''target'', JStr target) # payload)) 1 False (lit ''snmp'') (sy_now R) of
        Inl e \<Rightarrow> (repo, Inl e)
      | Inr (repo, i) \<Rightarrow> record_facts R c target repo facts)"

definition snmp_run_env :: "snmp_runtime \<Rightarrow> snmp_credential \<Rightarrow> snmp_env" where
  "snmp_run_env R credential =
     \<lparr>sx_redact = sy_redactor R (secrets credential), sx_unidata = sy_unidata R, sx_digits = sy_digits R, sx_isdigit = sy_isdigit R\<rparr>"

text \<open>What is known before the repository is touched: the facts and all issues of the run.\<close>

definition snmp_gather ::
    "snmp_runtime \<Rightarrow> snmp_agent \<Rightarrow> snmp_collector \<Rightarrow> pystr \<Rightarrow> credential_reference option \<Rightarrow> ((pystr \<times> fields) list \<times> collector_issue list) result" where
  "snmp_gather R ag c target reference =
     (if parse_ipv4 target = None then Inl (snmp_error ''SNMP collection requires one approved IPv4 host'')
      else (case reference of
              None \<Rightarrow> Inl (snmp_error ''SNMP collector requires a credential reference'')
            | Some ref \<Rightarrow>
                bindR (resolve_named_secret (sc_providers c) ref) (\<lambda>raw.
                bindR (parse_snmp_credential (sy_loads R) raw (sc_protocol c) (sc_allow_insecure_v2c c)) (\<lambda>credential.
                bindR (transport_collect (sy_unidata R) ag credential
                    (map of_oid (filter (\<lambda>f. \<not> of_table f) (sc_registry c))) (map of_oid (filter of_table (sc_registry c)))
                    (nat (sc_max_table_rows c))) (\<lambda>response.
                case normalize_varbinds (snmp_run_env R credential) (sn_varbinds response) (sc_registry c) (nat (sc_max_unknown_oids c)) of
                  (facts, issues) \<Rightarrow> Inr (facts, sn_issues response @ issues))))))"

definition snmp_collect ::
    "snmp_runtime \<Rightarrow> snmp_agent \<Rightarrow> snmp_collector \<Rightarrow> repository \<Rightarrow> pystr \<Rightarrow> credential_reference option \<Rightarrow> repository \<times> collector_result result" where
  "snmp_collect R ag c repo target reference =
     (case snmp_gather R ag c target reference of
        Inl e \<Rightarrow> (repo, Inl e)
      | Inr (facts, issues) \<Rightarrow>
          (case record_facts R c target repo facts of
             (repo, Inl e) \<Rightarrow> (repo, Inl e)
           | (repo, Inr _) \<Rightarrow> (repo, new_result (int (length facts)) issues)))"

section \<open>Credentials are complete and usable\<close>

definition credential_sound :: "bool \<Rightarrow> snmp_credential \<Rightarrow> bool" where
  "credential_sound allow_insecure_v2c c \<longleftrightarrow> (case c of
     SnmpV2cCredential community \<Rightarrow> allow_insecure_v2c \<and> community \<noteq> []
   | SnmpV3Credential username auth_key auth_protocol priv_key priv_protocol \<Rightarrow>
       username \<noteq> [] \<and> 8 \<le> length auth_key \<and> auth_protocol \<in> fst ` set AUTH_PROTOCOLS \<and>
       (case priv_key of None \<Rightarrow> priv_protocol = None | Some k \<Rightarrow> 8 \<le> length k) \<and>
       (case priv_protocol of None \<Rightarrow> True | Some p \<Rightarrow> p \<in> fst ` set PRIV_PROTOCOLS))"

lemma dict_lookup_defined: "k \<in> fst ` set d \<Longrightarrow> \<exists>v. dict_lookup d k = Inr v"
  by (cases "map_of d k") (simp_all add: dict_lookup_def map_of_eq_None_iff)

lemma v2c_credential_sound:
  assumes "v2c_credential allow d = Inr c"
  shows "credential_sound allow c"
proof -
  have allow: "allow" using assms by (cases allow) (simp_all add: v2c_credential_def)
  have keys: "fst ` set d = {lit ''community''}"
    using assms by (cases "fst ` set d = {lit ''community''}") (simp_all add: v2c_credential_def allow)
  have "\<exists>x xs. c = SnmpV2cCredential (x # xs)"
  proof (cases "text_of (fget d ''community'')")
    case None
    with assms show ?thesis by (simp add: v2c_credential_def allow keys)
  next
    case (Some t)
    with assms show ?thesis by (cases t) (auto simp: v2c_credential_def allow keys)
  qed
  with allow show ?thesis by (auto simp: credential_sound_def)
qed

lemma text_of_Some: "text_of (Some v) = Some s \<longleftrightarrow> v = JStr s"
  by (cases v) (simp_all add: text_of_def)

lemma checked_Inr: "(if b then Inl e else r) = Inr v \<longleftrightarrow> \<not> b \<and> r = Inr v"
  by simp

lemma option_checked_Inr: "(case x of None \<Rightarrow> Inl e | Some y \<Rightarrow> f y) = Inr v \<longleftrightarrow> (\<exists>y. x = Some y \<and> f y = Inr v)"
  by (cases x) simp_all

lemma v3_credential_sound:
  assumes "v3_credential d = Inr c"
  shows "credential_sound allow c"
proof -
  obtain u a ap pk pp where u: "u \<noteq> []" and a: "\<not> length a < 8" and ap: "\<not> ap \<notin> fst ` set AUTH_PROTOCOLS"
    and pk: "\<not> (pk \<noteq> JNull \<and> (case pk of JStr k \<Rightarrow> length k < 8 | _ \<Rightarrow> True))"
    and both: "\<not> (pk = JNull \<and> pp \<noteq> JNull)"
    and pp: "\<not> (pp \<noteq> JNull \<and> (case pp of JStr p \<Rightarrow> p \<notin> fst ` set PRIV_PROTOCOLS | _ \<Rightarrow> True))"
    and c: "c = SnmpV3Credential u a ap (text_of (Some pk)) (text_of (Some pp))"
    using assms unfolding v3_credential_def Let_def checked_Inr option_checked_Inr by (elim exE conjE) (rule that, (assumption | simp only: sum.inject)+)
  have "case text_of (Some pk) of None \<Rightarrow> text_of (Some pp) = None | Some k \<Rightarrow> 8 \<le> length k"
    using pk both by (cases pk) (auto simp: text_of_def)
  moreover have "case text_of (Some pp) of None \<Rightarrow> True | Some p \<Rightarrow> p \<in> fst ` set PRIV_PROTOCOLS"
    using pp by (cases pp) (simp_all add: text_of_def)
  ultimately show ?thesis using u a ap by (simp add: c credential_sound_def)
qed

lemma sound_auth: "credential_sound allow c \<Longrightarrow> \<exists>a. pysnmp_auth c = Inr a"
  by (cases c) (auto simp: credential_sound_def pysnmp_auth_def dest!: dict_lookup_defined split: option.splits)

lemma parse_credential_sound:
  assumes "parse_snmp_credential loads raw protocol allow = Inr c"
  shows "credential_sound allow c"
proof -
  obtain d where d: "loads raw = Some (JDict d)"
    using assms by (auto simp: parse_snmp_credential_def split: option.splits json.splits)
  show ?thesis
  proof (cases "protocol = lit ''v2c''")
    case True
    with assms d have "v2c_credential allow d = Inr c" by (simp add: parse_snmp_credential_def)
    then show ?thesis by (rule v2c_credential_sound)
  next
    case False
    with assms d have "v3_credential d = Inr c" by (simp add: parse_snmp_credential_def split: if_splits)
    then show ?thesis by (rule v3_credential_sound)
  qed
qed

text \<open>A parsed SNMP profile is complete: a community only when the insecure protocol was allowed, or a user with
  an authentication key of at least eight characters and supported protocols, and no privacy protocol without a key.\<close>

theorem snmp_credential_valid:
  assumes "parse_snmp_credential loads raw protocol allow = Inr c"
  shows "credential_sound allow c"
  using assms by (rule parse_credential_sound)

definition demo_v3 :: fields where
  "demo_v3 = [(lit ''username'', jstr ''u''), (lit ''auth_key'', jstr ''12345678''), (lit ''priv_key'', jstr ''12345678'')]"

theorem snmp_credential_valid_witness:
  "parse_snmp_credential (\<lambda>_. Some (JDict demo_v3)) [] (lit ''v3'') False =
     Inr (SnmpV3Credential (lit ''u'') (lit ''12345678'') (lit ''sha256'') (Some (lit ''12345678'')) (Some (lit ''aes128''))) \<and>
   credential_sound False (SnmpV3Credential (lit ''u'') (lit ''12345678'') (lit ''sha256'') (Some (lit ''12345678'')) (Some (lit ''aes128'')))"
proof -
  have "parse_snmp_credential (\<lambda>_. Some (JDict demo_v3)) [] (lit ''v3'') False =
     Inr (SnmpV3Credential (lit ''u'') (lit ''12345678'') (lit ''sha256'') (Some (lit ''12345678'')) (Some (lit ''aes128'')))"
    by code_simp
  then show ?thesis using snmp_credential_valid by blast
qed

text \<open>A privacy key with an explicit \<open>null\<close> protocol passes, and PySNMP is left to choose the cipher.\<close>

theorem null_privacy_protocol_accepted:
  "bindR (parse_snmp_credential (\<lambda>_. Some (JDict (demo_v3 @ [(lit ''priv_protocol'', JNull)]))) [] (lit ''v3'') False) pysnmp_auth =
     Inr (UsmUserData (lit ''u'') (lit ''12345678'') (Some (lit ''12345678'')) (lit ''USM_AUTH_HMAC192_SHA256'') None)"
  by code_simp

section \<open>The secret file\<close>

definition secret_line_ok :: "pystr \<Rightarrow> bool" where
  "secret_line_ok line \<longleftrightarrow> skip_line line \<or> (case partition_equals line of None \<Rightarrow> False | Some (name, v) \<Rightarrow> name \<noteq> [])"

definition line_values :: "pystr \<Rightarrow> pystr \<Rightarrow> pystr list" where
  "line_values key line = (if skip_line line then [] else
     (case partition_equals line of Some (name, v) \<Rightarrow> if name = key then [v] else [] | None \<Rightarrow> []))"

definition values_of :: "pystr \<Rightarrow> pystr list \<Rightarrow> pystr list" where
  "values_of key ls = concat (map (line_values key) ls)"

lemma values_of_simps [simp]: "values_of key [] = []" "values_of key (l # ls) = line_values key l @ values_of key ls"
  by (simp_all add: values_of_def)

definition private_secret :: "secret_view \<Rightarrow> bytes \<Rightarrow> bool" where
  "private_secret f raw \<longleftrightarrow> vw_open f \<and> vw_content f = Some raw \<and>
     (case vw_lstat f of None \<Rightarrow> False | Some (regular, mode) \<Rightarrow> regular \<and> \<not> others_may mode) \<and>
     (case vw_fstat f of None \<Rightarrow> False | Some (regular, mode) \<Rightarrow> regular \<and> \<not> others_may mode)"

lemma secret_bytes_exact:
  "secret_bytes f = Inr bs \<longleftrightarrow> (\<exists>raw. private_secret f raw \<and> bs = take (nat (MAX_CREDENTIAL_BYTES + 1)) raw)"
  by (auto simp: secret_bytes_def private_secret_def split: option.splits)

lemma secret_line_step:
  "secret_line key None l = Inr r \<longleftrightarrow> secret_line_ok l \<and>
     (line_values key l = [] \<and> r = None \<or> (\<exists>v. line_values key l = [v] \<and> r = Some v))"
  "secret_line key (Some w) l = Inr r \<longleftrightarrow> secret_line_ok l \<and> line_values key l = [] \<and> r = Some w"
proof -
  consider "skip_line l" | "\<not> skip_line l" "partition_equals l = None" | name v where "\<not> skip_line l" "partition_equals l = Some (name, v)"
    by (cases "partition_equals l") auto
  then have "(secret_line key None l = Inr r \<longleftrightarrow> secret_line_ok l \<and>
      (line_values key l = [] \<and> r = None \<or> (\<exists>v. line_values key l = [v] \<and> r = Some v))) \<and>
    (secret_line key (Some w) l = Inr r \<longleftrightarrow> secret_line_ok l \<and> line_values key l = [] \<and> r = Some w)"
  proof cases
    case 3
    then show ?thesis
      by (cases "name = []"; cases "name = key") (simp_all add: secret_line_def secret_line_ok_def line_values_def eq_commute [of r])
  qed (simp_all add: secret_line_def secret_line_ok_def line_values_def eq_commute [of r])
  then show "secret_line key None l = Inr r \<longleftrightarrow> secret_line_ok l \<and>
      (line_values key l = [] \<and> r = None \<or> (\<exists>v. line_values key l = [v] \<and> r = Some v))"
    and "secret_line key (Some w) l = Inr r \<longleftrightarrow> secret_line_ok l \<and> line_values key l = [] \<and> r = Some w"
    by blast+
qed

lemma secret_line_Some:
  "foldR (secret_line key) (Some w) ls = Inr r \<longleftrightarrow> list_all secret_line_ok ls \<and> values_of key ls = [] \<and> r = Some w"
  by (induction ls) (auto simp: bindR_eq_Inr secret_line_step)

lemma secret_line_None:
  "foldR (secret_line key) None ls = Inr r \<longleftrightarrow>
     list_all secret_line_ok ls \<and> (case r of None \<Rightarrow> values_of key ls = [] | Some v \<Rightarrow> values_of key ls = [v])"
  by (induction ls) (auto simp: bindR_eq_Inr secret_line_step secret_line_Some append_eq_Cons_conv split: option.splits)

text \<open>C29. A value is read from a secret file exactly when the file is regular and private at both looks, within the size
  limit, UTF-8 and well formed in every line, and defines the key once, with that non-empty value.\<close>

theorem snmp_secret_exact:
  "read_env_secret f key = Inr v \<longleftrightarrow>
     (\<exists>raw s. private_secret f raw \<and> int (length raw) \<le> MAX_CREDENTIAL_BYTES \<and> utf8_decode raw = Some s \<and>
        list_all secret_line_ok (split_lines s) \<and> values_of key (split_lines s) = [v] \<and> v \<noteq> [])"
  (is "?l \<longleftrightarrow> ?r")
proof
  assume ?l
  then obtain bs where b: "secret_bytes f = Inr bs" and small: "\<not> int (length bs) > MAX_CREDENTIAL_BYTES"
    and rest: "(case utf8_decode bs of None \<Rightarrow> Inl (snmp_error ''credential file must be UTF-8'')
      | Some s \<Rightarrow> bindR (foldR (secret_line key) None (split_lines s)) (\<lambda>found. case found of
          Some (c # cs) \<Rightarrow> Inr (c # cs) | _ \<Rightarrow> Inl (snmp_error ''credential reference is missing or empty''))) = Inr v"
    by (auto simp: read_env_secret_def bindR_eq_Inr split: if_splits)
  obtain raw where raw: "private_secret f raw" "bs = take (nat (MAX_CREDENTIAL_BYTES + 1)) raw" using b secret_bytes_exact by blast
  with small have "bs = raw" "int (length raw) \<le> MAX_CREDENTIAL_BYTES" by (auto simp: MAX_CREDENTIAL_BYTES_def)
  moreover obtain s where s: "utf8_decode bs = Some s" using rest by (auto split: option.splits)
  moreover obtain found where found: "foldR (secret_line key) None (split_lines s) = Inr found"
    and v: "(case found of Some (c # cs) \<Rightarrow> Inr (c # cs)
      | _ \<Rightarrow> Inl (snmp_error ''credential reference is missing or empty'')) = Inr v"
    using rest s by (auto simp: bindR_eq_Inr)
  moreover from v have "found = Some v \<and> v \<noteq> []" by (auto split: option.splits list.splits)
  ultimately show ?r using raw found by (auto simp: secret_line_None)
next
  assume ?r
  then obtain raw s where p: "private_secret f raw" "int (length raw) \<le> MAX_CREDENTIAL_BYTES" "utf8_decode raw = Some s"
    and l: "list_all secret_line_ok (split_lines s)" "values_of key (split_lines s) = [v]" and v: "v \<noteq> []" by blast
  have "secret_bytes f = Inr raw" using p(1,2) by (auto simp: secret_bytes_exact MAX_CREDENTIAL_BYTES_def)
  moreover have "foldR (secret_line key) None (split_lines s) = Inr (Some v)" using l by (simp add: secret_line_None)
  ultimately show ?l using p v by (cases v) (simp_all add: read_env_secret_def)
qed

section \<open>The row limit\<close>

text \<open>The rows of a walk in which no response is an error.\<close>

definition walk_rows :: "unidata \<Rightarrow> pysnmp_response result list \<Rightarrow> snmp_varbind list result" where
  "walk_rows U rs = bindR (mapR (\<lambda>r. bindR r (response_varbinds U)) rs) (\<lambda>batches. Inr (concat batches))"

lemma walk_table_limit:
  assumes "walk_table U rs remaining acc = Inr (acc', left, truncated)" "0 < remaining"
  shows "\<exists>rows. acc' = acc @ rows \<and> length rows + left = remaining \<and> (truncated \<longleftrightarrow> left = 0)"
  using assms
proof (induction U rs remaining acc rule: walk_table.induct)
  case (3 U r rs remaining acc)
  then obtain batch where b: "response_varbinds U r = Inr batch" by (auto simp: bindR_eq_Inr)
  let ?rows = "take remaining batch"
  have cut: "(if length batch > remaining then take remaining batch else batch) = ?rows" by simp
  show ?case
  proof (cases "remaining - length ?rows = 0")
    case True
    with 3 b cut show ?thesis by (intro exI [of _ ?rows]) (auto simp: Let_def)
  next
    case False
    then have "walk_table U rs (remaining - length ?rows) (acc @ ?rows) = Inr (acc', left, truncated)"
      using 3 b cut by (simp add: Let_def)
    with 3(1) [OF b] False cut obtain rows where
      "acc' = (acc @ ?rows) @ rows" "length rows + left = remaining - length ?rows" "truncated \<longleftrightarrow> left = 0" by fastforce
    with False show ?thesis by (intro exI [of _ "?rows @ rows"]) auto
  qed
qed auto

lemma walk_tables_limit:
  assumes "walk_tables U ag i starts remaining acc = Inr (acc', truncated)"
  shows "\<exists>rows. acc' = acc @ rows \<and> length rows \<le> remaining \<and> (truncated \<longleftrightarrow> starts \<noteq> [] \<and> length rows = remaining) \<and>
    (starts = [] \<longrightarrow> rows = [])"
  using assms
proof (induction starts arbitrary: i remaining acc)
  case (Cons start starts)
  show ?case
  proof (cases "remaining = 0")
    case True
    with Cons.prems show ?thesis by (auto split: if_splits)
  next
    case False
    with Cons.prems obtain acc1 left t where
      w: "walk_table U (ag_walk ag start (min 25 remaining)) remaining acc = Inr (acc1, left, t)"
      and n: "(if t then Inr (acc1, True) else walk_tables U ag (Suc i) starts left acc1) = Inr (acc', truncated)"
      by (auto simp: bindR_eq_Inr split: if_splits)
    obtain rows where r: "acc1 = acc @ rows" "length rows + left = remaining" "t \<longleftrightarrow> left = 0"
      using walk_table_limit [OF w] False by auto
    show ?thesis
    proof (cases t)
      case True
      with n r show ?thesis by auto
    next
      case False
      with n Cons.IH obtain more where
        "acc' = acc1 @ more" "length more \<le> left" "truncated \<longleftrightarrow> starts \<noteq> [] \<and> length more = left"
        "starts = [] \<longrightarrow> more = []" by fastforce
      with r False show ?thesis by (intro exI [of _ "rows @ more"]) auto
    qed
  qed
qed auto

definition scalar_answer :: "unidata \<Rightarrow> snmp_agent \<Rightarrow> pystr list \<Rightarrow> snmp_varbind list result" where
  "scalar_answer U ag oids = (if oids = [] then Inr [] else bindR (ag_get ag oids) (response_varbinds U))"

lemma transport_guard_Inr: "transport_guard r = Inr v \<longleftrightarrow> r = Inr v"
  by (cases r) (simp_all add: transport_guard_def)

lemma transport_collect_Inr:
  "transport_collect U ag credential scalars tables limit = Inr r \<longleftrightarrow>
     (\<exists>a u base acc truncated. pysnmp_auth credential = Inr a \<and> ag_open ag = Inr u \<and> scalar_answer U ag scalars = Inr base \<and>
        walk_tables U ag 0 tables limit base = Inr (acc, truncated) \<and>
        r = \<lparr>sn_varbinds = acc,
          sn_issues = (if truncated then [issue_of ''table_limit'' (lit ''SNMP table row limit reached'') False] else []),
          sn_truncated = truncated\<rparr>)"
  unfolding transport_collect_def scalar_answer_def [symmetric] bindR_eq_Inr transport_guard_Inr by (auto simp: bindR_eq_Inr)

text \<open>However long a table an agent reports and however its responses are cut, the answer holds at most the limit of
  table rows after the scalars, and is marked truncated exactly when the rows meet the limit.\<close>

theorem snmp_row_limit:
  assumes "transport_collect U ag credential scalars tables limit = Inr r"
  shows "\<exists>base rows. scalar_answer U ag scalars = Inr base \<and> sn_varbinds r = base @ rows \<and> length rows \<le> limit \<and>
    (sn_truncated r \<longleftrightarrow> tables \<noteq> [] \<and> length rows = limit)"
proof -
  obtain base acc truncated where b: "scalar_answer U ag scalars = Inr base"
    and w: "walk_tables U ag 0 tables limit base = Inr (acc, truncated)" and r: "sn_varbinds r = acc" "sn_truncated r = truncated"
    using iffD1 [OF transport_collect_Inr assms] by auto
  with walk_tables_limit [OF w] show ?thesis by auto
qed

definition demo_rows :: "string list \<Rightarrow> pysnmp_response result" where
  "demo_rows oids = Inr \<lparr>py_indication = None, py_status = None, py_varbinds = map (\<lambda>t. (lit t, lit ''Integer32'', lit ''7'')) oids\<rparr>"

definition demo_agent :: snmp_agent where
  "demo_agent = \<lparr>ag_open = Inr (), ag_get = (\<lambda>_. demo_rows [''1.0'']),
     ag_walk = (\<lambda>start n. [demo_rows [''2.1'', ''2.2''], demo_rows [''2.3'']]), ag_cancelled = (\<lambda>_. False)\<rparr>"

definition demo_row :: "string \<Rightarrow> snmp_varbind" where
  "demo_row t = \<lparr>vb_oid = lit t, vb_value = lit ''7'', vb_unsupported = False\<rparr>"

definition demo_answer :: "string list \<Rightarrow> bool \<Rightarrow> snmp_response" where
  "demo_answer oids truncated = \<lparr>sn_varbinds = map demo_row oids,
     sn_issues = (if truncated then [issue_of ''table_limit'' (lit ''SNMP table row limit reached'') False] else []), sn_truncated = truncated\<rparr>"

lemma demo_transport:
  "transport_collect (\<lambda>_. []) demo_agent (SnmpV2cCredential [1]) [lit ''1.0''] [lit ''2''] 2 = Inr (demo_answer [''1.0'', ''2.1'', ''2.2''] True)"
  by code_simp

theorem snmp_row_limit_witness:
  "\<exists>base rows. scalar_answer (\<lambda>_. []) demo_agent [lit ''1.0''] = Inr base \<and>
     sn_varbinds (demo_answer [''1.0'', ''2.1'', ''2.2''] True) = base @ rows \<and> length rows \<le> 2 \<and>
     (sn_truncated (demo_answer [''1.0'', ''2.1'', ''2.2''] True) \<longleftrightarrow> [lit ''2''] \<noteq> [] \<and> length rows = 2)"
  by (rule snmp_row_limit [OF demo_transport])

lemma walk_table_exact:
  assumes "mapR (\<lambda>r. bindR r (response_varbinds U)) rs = Inr batches" "0 < remaining"
  shows "walk_table U rs remaining acc =
    Inr (acc @ take remaining (concat batches), remaining - length (concat batches), remaining \<le> length (concat batches))"
  using assms
proof (induction U rs remaining acc arbitrary: batches rule: walk_table.induct)
  case (3 U r rs remaining acc)
  then obtain batch bs where b: "response_varbinds U r = Inr batch" "batches = batch # bs"
    and bs: "mapR (\<lambda>r. bindR r (response_varbinds U)) rs = Inr bs"
    by (auto simp: bindR_eq_Inr)
  have cut: "(if length batch > remaining then take remaining batch else batch) = take remaining batch" by simp
  show ?case
  proof (cases "remaining \<le> length batch")
    case True
    with b cut show ?thesis by (simp add: Let_def)
  next
    case False
    then have "walk_table U rs (remaining - length (take remaining batch)) (acc @ take remaining batch) =
      Inr ((acc @ take remaining batch) @ take (remaining - length (take remaining batch)) (concat bs),
        remaining - length (take remaining batch) - length (concat bs), remaining - length (take remaining batch) \<le> length (concat bs))"
      using 3(1) [OF b(1) _ _ _ _ bs] cut by simp
    with b cut False show ?thesis by (auto simp: Let_def)
  qed
qed (auto simp: bindR_eq_Inr)

lemma walk_tables_exact:
  assumes "\<And>start n. start \<in> set starts \<Longrightarrow> 0 < n \<Longrightarrow> walk_rows U (ag_walk ag start n) = Inr (rows start)"
    and "\<And>i. \<not> ag_cancelled ag i" and "0 < remaining"
  shows "walk_tables U ag i starts remaining acc =
    Inr (acc @ take remaining (concat (map rows starts)), starts \<noteq> [] \<and> remaining \<le> length (concat (map rows starts)))"
  using assms(1,3)
proof (induction starts arbitrary: i remaining acc)
  case (Cons start starts)
  obtain batches where m: "mapR (\<lambda>r. bindR r (response_varbinds U)) (ag_walk ag start (min 25 remaining)) = Inr batches"
    and c: "concat batches = rows start"
    using Cons.prems(1) [of start "min 25 remaining"] Cons.prems(2) by (auto simp: walk_rows_def bindR_eq_Inr)
  note one = walk_table_exact [OF m Cons.prems(2), of acc, unfolded c]
  show ?case
  proof (cases "remaining \<le> length (rows start)")
    case True
    with one Cons.prems(2) assms(2) show ?thesis by simp
  next
    case False
    then have "0 < remaining - length (rows start)" by simp
    with Cons.IH [of "remaining - length (rows start)" "Suc i" "acc @ rows start"] Cons.prems(1) False one Cons.prems(2) assms(2)
    show ?thesis by (cases starts) auto
  qed
qed simp

text \<open>C28. When every walk of an agent succeeds and lists the rows of its table, whatever the number of rows per response, the
  answer is the scalars followed by the first rows, up to the limit, of all tables in the order asked.\<close>

theorem snmp_rows_exact:
  assumes "pysnmp_auth credential = Inr a" "ag_open ag = Inr u" "scalar_answer U ag scalars = Inr base"
    and "\<And>start n. start \<in> set tables \<Longrightarrow> 0 < n \<Longrightarrow> walk_rows U (ag_walk ag start n) = Inr (rows start)"
    and "\<And>i. \<not> ag_cancelled ag i" and "0 < limit"
  shows "map_sum id sn_varbinds (transport_collect U ag credential scalars tables limit) =
    Inr (base @ take limit (concat (map rows tables)))"
proof -
  have "walk_tables U ag 0 tables limit base =
      Inr (base @ take limit (concat (map rows tables)), tables \<noteq> [] \<and> limit \<le> length (concat (map rows tables)))"
    using assms(4-6) by (rule walk_tables_exact)
  then have "\<exists>r. transport_collect U ag credential scalars tables limit = Inr r \<and>
      sn_varbinds r = base @ take limit (concat (map rows tables))"
    using assms(1-3) by (auto simp: transport_collect_Inr)
  then show ?thesis by auto
qed

theorem snmp_rows_exact_witness:
  "map_sum id sn_varbinds (transport_collect (\<lambda>_. []) demo_agent (SnmpV2cCredential [1]) [lit ''1.0''] [lit ''2'', lit ''3''] 4) =
     Inr (map demo_row [''1.0''] @ take 4 (concat (map (\<lambda>_. map demo_row [''2.1'', ''2.2'', ''2.3'']) [lit ''2'', lit ''3''])))"
proof (rule snmp_rows_exact)
  show "pysnmp_auth (SnmpV2cCredential [1]) = Inr (CommunityData (lit ''codexnet-explicit-v2c'') [1] 1)"
    by (simp add: pysnmp_auth_def)
  show "scalar_answer (\<lambda>_. []) demo_agent [lit ''1.0''] = Inr (map demo_row [''1.0''])" by code_simp
  show "walk_rows (\<lambda>_. []) (ag_walk demo_agent start n) = Inr (map demo_row [''2.1'', ''2.2'', ''2.3''])" for start n
    unfolding demo_agent_def by code_simp
qed (simp_all add: demo_agent_def)

section \<open>Which registered identifier a variable belongs to\<close>

lemma find_longest:
  assumes "find P (longest_first registry) = Some f"
  shows "f \<in> set registry \<and> P f \<and> (\<forall>g \<in> set registry. P g \<longrightarrow> length (of_oid g) \<le> length (of_oid f))"
proof -
  obtain xs ys where d: "longest_first registry = xs @ f # ys" "P f" "\<forall>x \<in> set xs. \<not> P x"
    using assms by (auto simp: find_Some_iff) (metis id_take_nth_drop in_set_conv_nth length_take min.absorb4 nth_take)
  have "sorted (map (\<lambda>f. - int (length (of_oid f))) (xs @ f # ys))"
    unfolding d(1) [symmetric] by (simp add: longest_first_def)
  then have "\<forall>g \<in> set ys. length (of_oid g) \<le> length (of_oid f)" by (auto simp: sorted_append)
  moreover have "set registry = set (xs @ f # ys)" unfolding d(1) [symmetric] by (simp add: longest_first_def)
  ultimately show ?thesis using d(2,3) by auto
qed

lemma find_longest_None: "find P (longest_first registry) = None \<longleftrightarrow> \<not> list_ex P registry"
  by (auto simp: find_None_iff longest_first_def list_ex_iff)

definition oids_overlap :: "oid_field \<Rightarrow> oid_field \<Rightarrow> bool" where
  "oids_overlap f g \<longleftrightarrow> oid_matches (of_oid g) f \<or> oid_matches (of_oid f) g"

fun no_overlap :: "oid_field list \<Rightarrow> bool" where
  "no_overlap [] = True"
| "no_overlap (f # fs) = (list_all (\<lambda>g. \<not> oids_overlap f g) fs \<and> no_overlap fs)"

lemma take_longer:
  assumes "take (length f + 1) oid = f @ [46]" "take (length g + 1) oid = g @ [46]" "length f < length g"
  shows "take (length f + 1) g = f @ [46]"
proof -
  have "take (length f + 1) g = take (length f + 1) (g @ [46])" using assms(3) by simp
  also have "\<dots> = take (length f + 1) (take (length g + 1) oid)" using assms(2) by simp
  also have "\<dots> = take (length f + 1) oid" using assms(3) by (simp add: min_def)
  finally show ?thesis using assms(1) by simp
qed

lemma both_match: "oid_matches oid f \<Longrightarrow> oid_matches oid g \<Longrightarrow> oids_overlap f g"
proof -
  assume f: "oid_matches oid f" and g: "oid_matches oid g"
  consider "oid = of_oid f" | "oid = of_oid g"
    | "of_table f" "of_table g" "take (length (of_oid f) + 1) oid = of_oid f @ [46]" "take (length (of_oid g) + 1) oid = of_oid g @ [46]"
    using f g by (auto simp: oid_matches_def)
  then show ?thesis
  proof cases
    case 3
    show ?thesis
    proof (cases "length (of_oid f)" "length (of_oid g)" rule: linorder_cases)
      case less
      with take_longer [OF 3(3,4)] 3 show ?thesis by (simp add: oids_overlap_def oid_matches_def)
    next
      case equal
      with 3 show ?thesis by (simp add: oids_overlap_def oid_matches_def)
    next
      case greater
      with take_longer [OF 3(4,3)] 3 show ?thesis by (simp add: oids_overlap_def oid_matches_def)
    qed
  qed (use f g in \<open>auto simp: oids_overlap_def\<close>)
qed

lemma no_overlap_unique: "no_overlap fs \<Longrightarrow> length (filter (oid_matches oid) fs) \<le> 1"
proof (induction fs)
  case (Cons f fs)
  show ?case
  proof (cases "oid_matches oid f")
    case True
    then have "filter (oid_matches oid) fs = []"
      using Cons.prems both_match [OF True] by (auto simp: filter_empty_conv list_all_iff)
    then show ?thesis by simp
  qed (use Cons in simp)
qed simp

text \<open>The check on the registry, character by character.\<close>

fun oids_clash :: "bool \<Rightarrow> bool \<Rightarrow> pystr \<Rightarrow> pystr \<Rightarrow> bool" where
  "oids_clash tf tg [] [] = True"
| "oids_clash tf tg [] (d # ds) = (tf \<and> d = 46)"
| "oids_clash tf tg (c # cs) [] = (tg \<and> c = 46)"
| "oids_clash tf tg (c # cs) (d # ds) = (c = d \<and> oids_clash tf tg cs ds)"

lemma oids_clash_exact:
  "oids_clash tf tg a b \<longleftrightarrow> a = b \<or> (tf \<and> take (length a + 1) b = a @ [46]) \<or> (tg \<and> take (length b + 1) a = b @ [46])"
  by (induction tf tg a b rule: oids_clash.induct) (auto simp: take_Suc)

lemma oids_overlap_clash [code]: "oids_overlap f g \<longleftrightarrow> oids_clash (of_table f) (of_table g) (of_oid f) (of_oid g)"
  by (auto simp: oids_overlap_def oid_matches_def oids_clash_exact)

lemma no_overlap_append:
  "no_overlap (xs @ ys) \<longleftrightarrow> no_overlap xs \<and> no_overlap ys \<and> list_all (\<lambda>f. list_all (\<lambda>g. \<not> oids_overlap f g) ys) xs"
  by (induction xs) auto

lemma registry_parts_clear:
  "no_overlap BASE_OID_REGISTRY" "no_overlap (BRIDGE_PROFILE @ NEIGHBOR_PROFILE @ VLAN_PROFILE @ POE_PROFILE)"
  "no_overlap (ENVIRONMENT_PROFILE @ UPS_PROFILE @ PRINTER_PROFILE @ FIRMWARE_PROFILE)"
  by code_simp+

lemma registry_halves_clear:
  "list_all (\<lambda>f. list_all (\<lambda>g. \<not> oids_overlap f g) (ENVIRONMENT_PROFILE @ UPS_PROFILE @ PRINTER_PROFILE @ FIRMWARE_PROFILE))
     (BRIDGE_PROFILE @ NEIGHBOR_PROFILE @ VLAN_PROFILE @ POE_PROFILE)"
  by code_simp

lemma registry_cross_clear:
  "list_all (\<lambda>f. list_all (\<lambda>g. \<not> oids_overlap f g) INFRASTRUCTURE_OID_REGISTRY) BASE_OID_REGISTRY"
  by code_simp

lemma default_registry_clear: "no_overlap DEFAULT_OID_REGISTRY"
proof -
  have "INFRASTRUCTURE_OID_REGISTRY = (BRIDGE_PROFILE @ NEIGHBOR_PROFILE @ VLAN_PROFILE @ POE_PROFILE) @
      (ENVIRONMENT_PROFILE @ UPS_PROFILE @ PRINTER_PROFILE @ FIRMWARE_PROFILE)"
    by (simp only: INFRASTRUCTURE_OID_REGISTRY_def append.assoc)
  then have "no_overlap INFRASTRUCTURE_OID_REGISTRY"
    by (metis no_overlap_append registry_parts_clear(2,3) registry_halves_clear)
  then show ?thesis unfolding DEFAULT_OID_REGISTRY_def
    by (intro iffD2 [OF no_overlap_append] conjI registry_parts_clear(1) registry_cross_clear)
qed

text \<open>No identifier belongs to two entries of the default registry: the order in which entries are tried does not matter.\<close>

theorem snmp_registry_unambiguous:
  "length (filter (oid_matches oid) DEFAULT_OID_REGISTRY) \<le> 1"
  by (rule no_overlap_unique [OF default_registry_clear])

section \<open>What is retained\<close>

text \<open>The variables of a response that no entry of the registry covers, and the facts of those that one does.\<close>

definition raw_kind :: pystr where
  "raw_kind = lit ''snmp.raw.unknown''"

definition unmatched :: "oid_field list \<Rightarrow> snmp_varbind \<Rightarrow> bool" where
  "unmatched registry b \<longleftrightarrow> \<not> vb_unsupported b \<and> \<not> list_ex (oid_matches (vb_oid b)) registry"

definition matched_facts :: "snmp_env \<Rightarrow> oid_field list \<Rightarrow> snmp_varbind \<Rightarrow> (pystr \<times> fields) list" where
  "matched_facts E registry b =
     (if vb_unsupported b then []
      else case find (oid_matches (vb_oid b)) (longest_first registry) of
             None \<Rightarrow> [] | Some f \<Rightarrow> (case known_fact E f b of Inl e \<Rightarrow> [] | Inr k \<Rightarrow> [k]))"

definition split_facts :: "(pystr \<times> fields) list \<Rightarrow> (pystr \<times> fields) list \<times> (pystr \<times> fields) list" where
  "split_facts facts = (filter (\<lambda>x. fst x \<noteq> raw_kind) facts, filter (\<lambda>x. fst x = raw_kind) facts)"

lemma known_fact_type: "known_fact E f b = Inr k \<Longrightarrow> fst k = of_fact_type f"
  by (auto simp: known_fact_def Let_def bindR_eq_Inr)

lemma unknown_fact_type [simp]: "fst (unknown_fact E b) = raw_kind"
  by (simp add: unknown_fact_def raw_kind_def)

lemma matched_facts_type:
  assumes "list_all (\<lambda>f. of_fact_type f \<noteq> raw_kind) registry" "k \<in> set (matched_facts E registry b)"
  shows "fst k \<noteq> raw_kind"
proof -
  have "\<not> vb_unsupported b" using assms(2) by (auto simp: matched_facts_def split: if_splits)
  moreover from this obtain f where f: "find (oid_matches (vb_oid b)) (longest_first registry) = Some f"
    using assms(2) by (cases "find (oid_matches (vb_oid b)) (longest_first registry)") (auto simp: matched_facts_def)
  ultimately have "known_fact E f b = Inr k"
    using assms(2) by (cases "known_fact E f b") (simp_all add: matched_facts_def)
  with f find_longest [of "oid_matches (vb_oid b)" registry f] known_fact_type [of E f b k] assms(1) show ?thesis
    by (auto simp: list_all_iff)
qed

lemma normalize_one_step:
  "\<exists>more. normalize_one E (longest_first registry) n (facts, issues, unknown) b =
     (facts @ matched_facts E registry b @ (if unmatched registry b \<and> unknown < n then [unknown_fact E b] else []),
      issues @ more, if unmatched registry b \<and> unknown < n then Suc unknown else unknown)"
proof (cases "vb_unsupported b")
  case True
  then show ?thesis by (simp add: normalize_one_def matched_facts_def unmatched_def)
next
  case False
  show ?thesis
  proof (cases "find (oid_matches (vb_oid b)) (longest_first registry)")
    case None
    then have "unmatched registry b" using False by (simp add: unmatched_def find_longest_None)
    with None False show ?thesis by (simp add: normalize_one_def matched_facts_def)
  next
    case (Some f)
    then have "list_ex (oid_matches (vb_oid b)) registry" using find_longest_None [of "oid_matches (vb_oid b)" registry] by auto
    with Some False show ?thesis
      by (cases "known_fact E f b") (simp_all add: normalize_one_def matched_facts_def unmatched_def)
  qed
qed

lemma normalize_loop:
  assumes "list_all (\<lambda>f. of_fact_type f \<noteq> raw_kind) registry" "unknown \<le> n"
    and "split_facts facts = (ks, us)"
  shows "split_facts (fst (foldl (normalize_one E (longest_first registry) n) (facts, issues, unknown) bs)) =
    (ks @ concat (map (matched_facts E registry) bs), us @ take (n - unknown) (map (unknown_fact E) (filter (unmatched registry) bs)))"
  using assms(2,3)
proof (induction bs arbitrary: facts issues unknown ks us)
  case (Cons b bs)
  obtain more where step: "normalize_one E (longest_first registry) n (facts, issues, unknown) b =
     (facts @ matched_facts E registry b @ (if unmatched registry b \<and> unknown < n then [unknown_fact E b] else []),
      issues @ more, if unmatched registry b \<and> unknown < n then Suc unknown else unknown)"
    using normalize_one_step by blast
  have m: "split_facts (matched_facts E registry b) = (matched_facts E registry b, [])"
    using matched_facts_type [OF assms(1)] by (auto simp: split_facts_def filter_id_conv filter_empty_conv)
  show ?case
  proof (cases "unmatched registry b \<and> unknown < n")
    case True
    then have none: "matched_facts E registry b = []"
      by (auto simp: unmatched_def matched_facts_def find_longest_None split: option.splits dest!: find_longest)
        (metis list_ex_iff)
    have "split_facts (facts @ [unknown_fact E b]) = (ks, us @ [unknown_fact E b])"
      using Cons.prems(2) by (auto simp: split_facts_def)
    from Cons.IH [OF _ this] True step none show ?thesis
      by (simp add: Suc_diff_Suc [symmetric] del: foldl_Cons) (simp add: foldl_Cons)
  next
    case False
    have "split_facts (facts @ matched_facts E registry b) = (ks @ matched_facts E registry b, us)"
      using Cons.prems(2) m by (auto simp: split_facts_def)
    from Cons.IH [OF Cons.prems(1) this] False step show ?thesis by auto
  qed
qed (simp add: split_facts_def)

text \<open>Of a response the facts of registered identifiers are all kept, in order, and of the unregistered ones the first, up
  to the limit.\<close>

theorem snmp_unknown_bounded:
  assumes "list_all (\<lambda>f. of_fact_type f \<noteq> raw_kind) registry"
  shows "split_facts (fst (normalize_varbinds E bs registry n)) =
    (concat (map (matched_facts E registry) bs), take n (map (unknown_fact E) (filter (unmatched registry) bs)))"
  using normalize_loop [OF assms, of 0 n "[]" "[]" "[]" E "[]" bs]
  by (cases "foldl (normalize_one E (longest_first registry) n) ([], [], 0) bs") (simp add: normalize_varbinds_def split_facts_def)

definition demo_snmp_env :: snmp_env where
  "demo_snmp_env = \<lparr>sx_redact = id, sx_unidata = (\<lambda>_. []), sx_digits = (\<lambda>_. None), sx_isdigit = (\<lambda>_. False)\<rparr>"

theorem snmp_unknown_bounded_witness:
  "split_facts (fst (normalize_varbinds demo_snmp_env (map demo_row [''9.1'', ''9.2'', ''1.3.6.1.2.1.1.3.0'']) DEFAULT_OID_REGISTRY 1)) =
     (concat (map (matched_facts demo_snmp_env DEFAULT_OID_REGISTRY) (map demo_row [''9.1'', ''9.2'', ''1.3.6.1.2.1.1.3.0''])),
      take 1 (map (unknown_fact demo_snmp_env) (filter (unmatched DEFAULT_OID_REGISTRY) (map demo_row [''9.1'', ''9.2'', ''1.3.6.1.2.1.1.3.0'']))))"
proof (rule snmp_unknown_bounded)
  show "list_all (\<lambda>f. of_fact_type f \<noteq> raw_kind) DEFAULT_OID_REGISTRY" by code_simp
qed

text \<open>The limit is also reported for identifiers an agent does not support, when nothing was left out.\<close>

theorem unknown_limit_without_loss:
  "normalize_varbinds demo_snmp_env [(demo_row ''9.1'')\<lparr>vb_unsupported := True\<rparr>] SYSTEM_PROFILE 0 =
     ([], [issue_of ''unsupported_oid'' (lit ''OID 9.1 is unsupported'') False,
           issue_of ''unknown_oid_limit'' (lit ''unknown OID retention limit reached'') False])"
  by code_simp

section \<open>What a collection records\<close>

definition snmp_row :: "snmp_runtime \<Rightarrow> snmp_collector \<Rightarrow> pystr \<Rightarrow> pystr \<times> fields \<Rightarrow> fact" where
  "snmp_row R c target k =
     \<lparr>fa_deployment = sc_deployment c, fa_subject_type = sy_repo_redact R (lit ''snmp_target''), fa_subject_id = None,
       fa_fact_type = sy_repo_redact R (fst k),
       fa_value_json = value_text (sy_float R) (sy_repo_redact_value R (JDict ((lit ''target'', JStr target) # snd k))),
       fa_confidence = 1, fa_inferred = False, fa_source = sy_repo_redact R (lit ''snmp''), fa_observed_at = sy_now R\<rparr>"

definition added_rows :: "repository \<Rightarrow> repository \<Rightarrow> fact set \<Rightarrow> bool" where
  "added_rows repo repo' rows \<longleftrightarrow> (\<exists>new. repo' = repo\<lparr>rp_observations := rp_observations repo @ new\<rparr> \<and> snd ` set new \<subseteq> rows)"

lemma added_rows_refl [simp]: "added_rows repo repo rows"
  by (auto simp: added_rows_def intro: exI [of _ "[]"])

lemma added_rows_trans:
  assumes "added_rows a b rows" "added_rows b c rows"
  shows "added_rows a c rows"
proof -
  obtain x y where "b = a\<lparr>rp_observations := rp_observations a @ x\<rparr>" "c = b\<lparr>rp_observations := rp_observations b @ y\<rparr>"
    "snd ` set x \<subseteq> rows" "snd ` set y \<subseteq> rows" using assms by (auto simp: added_rows_def)
  then show ?thesis unfolding added_rows_def by (intro exI [of _ "x @ y"]) auto
qed

lemma added_rows_mono: "added_rows a b rows \<Longrightarrow> rows \<subseteq> rows' \<Longrightarrow> added_rows a b rows'"
  by (auto simp: added_rows_def)

lemma added_rows_keep: "added_rows a b rows \<Longrightarrow> snd ` set (rp_observations a) \<subseteq> snd ` set (rp_observations b)"
  by (auto simp: added_rows_def)

lemma record_one:
  assumes "record_observation (sy_repo_redact R) (sy_repo_redact_value R) (sy_float R) repo (sc_deployment c) (lit ''snmp_target'') None
      ft (JDict ((lit ''target'', JStr target) # payload)) 1 False (lit ''snmp'') (sy_now R) = Inr (repo', i)"
  shows "added_rows repo repo' {snmp_row R c target (ft, payload)} \<and>
    snmp_row R c target (ft, payload) \<in> snd ` set (rp_observations repo')"
proof -
  let ?row = "snmp_row R c target (ft, payload)"
  have row: "\<lparr>fa_deployment = sc_deployment c, fa_subject_type = sy_repo_redact R (lit ''snmp_target''), fa_subject_id = None,
     fa_fact_type = sy_repo_redact R ft,
     fa_value_json = value_text (sy_float R) (sy_repo_redact_value R (JDict ((lit ''target'', JStr target) # payload))),
     fa_confidence = 1, fa_inferred = False, fa_source = sy_repo_redact R (lit ''snmp''), fa_observed_at = sy_now R\<rparr> = ?row"
    by (simp add: snmp_row_def)
  show ?thesis
  proof (cases "find (\<lambda>r. snd r = ?row) (rp_observations repo)")
    case None
    with assms have "repo' = repo\<lparr>rp_observations := rp_observations repo @ [(i, ?row)]\<rparr>"
      by (auto simp: record_observation_def Let_def row bindR_eq_Inr split: if_splits)
    then show ?thesis by (auto simp: added_rows_def)
  next
    case (Some r)
    with assms have "repo' = repo"
      by (auto simp: record_observation_def Let_def row bindR_eq_Inr split: if_splits)
    moreover have "?row \<in> snd ` set (rp_observations repo)"
      using Some by (auto simp: find_Some_iff) (metis image_eqI nth_mem)
    ultimately show ?thesis by simp
  qed
qed

lemma record_facts_rows:
  assumes "record_facts R c target repo facts = (repo', r)"
  shows "added_rows repo repo' (snmp_row R c target ` set facts) \<and>
    (r = Inr () \<longrightarrow> snmp_row R c target ` set facts \<subseteq> snd ` set (rp_observations repo'))"
  using assms
proof (induction facts arbitrary: repo)
  case (Cons k facts)
  obtain ft payload where k: "k = (ft, payload)" by (cases k)
  show ?case
  proof (cases "record_observation (sy_repo_redact R) (sy_repo_redact_value R) (sy_float R) repo (sc_deployment c) (lit ''snmp_target'') None
      ft (JDict ((lit ''target'', JStr target) # payload)) 1 False (lit ''snmp'') (sy_now R)")
    case (Inl e)
    with Cons.prems k have "repo' = repo" "r = Inl e" by simp_all
    then show ?thesis by simp
  next
    case (Inr q)
    obtain repo1 i where q: "q = (repo1, i)" by (cases q)
    with Cons.prems k Inr have rest: "record_facts R c target repo1 facts = (repo', r)" by simp
    note one = record_one [OF Inr [unfolded q]]
    note ih = Cons.IH [OF rest]
    have "added_rows repo repo' (snmp_row R c target ` set (k # facts))"
      by (rule added_rows_trans [OF added_rows_mono [OF conjunct1 [OF one]] added_rows_mono [OF conjunct1 [OF ih]]]) (auto simp: k)
    with one ih added_rows_keep [OF conjunct1 [OF ih]] show ?thesis by (auto simp: k)
  qed
qed simp

definition collection_outcome ::
    "snmp_runtime \<Rightarrow> snmp_agent \<Rightarrow> snmp_collector \<Rightarrow> pystr \<Rightarrow> credential_reference option \<Rightarrow> repository \<Rightarrow> repository \<Rightarrow> collector_result result \<Rightarrow> bool" where
  "collection_outcome R ag c target reference repo repo' r \<longleftrightarrow>
     (case snmp_gather R ag c target reference of
        Inl e \<Rightarrow> repo' = repo \<and> r = Inl e
      | Inr (facts, issues) \<Rightarrow> added_rows repo repo' (snmp_row R c target ` set facts) \<and>
          (case r of Inl e \<Rightarrow> True
           | Inr res \<Rightarrow> res = \<lparr>cr_item_count = int (length facts), cr_issues = issues\<rparr> \<and>
               snmp_row R c target ` set facts \<subseteq> snd ` set (rp_observations repo')))"

text \<open>C30. A collection that fails before its facts are known leaves the repository as it was; otherwise it only adds rows of
  those facts, and when it succeeds it reports their number and all of them are recorded.\<close>

theorem snmp_collect_complete:
  assumes "snmp_collect R ag c repo target reference = (repo', r)"
  shows "collection_outcome R ag c target reference repo repo' r"
proof (cases "snmp_gather R ag c target reference")
  case (Inl e)
  with assms show ?thesis by (simp add: snmp_collect_def collection_outcome_def)
next
  case (Inr q)
  obtain facts issues where q: "q = (facts, issues)" by (cases q)
  obtain repo1 r1 where rec: "record_facts R c target repo facts = (repo1, r1)" by (cases "record_facts R c target repo facts")
  note rows = record_facts_rows [OF rec]
  show ?thesis
  proof (cases r1)
    case (Inl e)
    with assms Inr q rec have "repo' = repo1" "r = Inl e" by (simp_all add: snmp_collect_def)
    with Inr q rows show ?thesis by (simp add: collection_outcome_def)
  next
    case (Inr u)
    with assms \<open>snmp_gather R ag c target reference = Inr q\<close> q rec have "repo' = repo1" "r = new_result (int (length facts)) issues"
      by (simp_all add: snmp_collect_def)
    with \<open>snmp_gather R ag c target reference = Inr q\<close> q rows Inr show ?thesis
      by (simp add: collection_outcome_def new_result_def)
  qed
qed

definition demo_runtime :: snmp_runtime where
  "demo_runtime = \<lparr>sy_loads = (\<lambda>_. Some (JDict demo_v3)), sy_redactor = (\<lambda>_ v. v), sy_repo_redact = id, sy_repo_redact_value = id,
     sy_float = (\<lambda>_. []), sy_unidata = (\<lambda>_. []), sy_digits = (\<lambda>_. None), sy_isdigit = (\<lambda>_. False), sy_now = lit ''2026''\<rparr>"

definition demo_snmp :: snmp_collector where
  "demo_snmp = \<lparr>sc_deployment = 1, sc_protocol = lit ''v3'', sc_allow_insecure_v2c = False,
     sc_providers = [(lit ''p'', Command_source (Some (\<lambda>_. Some (0, [120]))))], sc_registry = SYSTEM_PROFILE @ ADDRESS_PROFILE,
     sc_max_table_rows = 4, sc_max_unknown_oids = 1, sc_timeout = 5\<rparr>"

definition demo_snmp_repo :: repository where
  "demo_snmp_repo = \<lparr>rp_deployments = [\<lparr>dp_id = 1, dp_site_key = [], dp_display_name = [], dp_started_at = []\<rparr>], rp_devices = [],
     rp_observations = [], rp_runs = [], rp_errors = [], rp_artifacts = [], rp_software = [], rp_readings = [], rp_edges = [], rp_reports = []\<rparr>"

definition demo_snmp_run :: "repository \<times> collector_result result" where
  "demo_snmp_run = snmp_collect demo_runtime demo_agent demo_snmp demo_snmp_repo (lit ''10.0.0.1'')
     (Some \<lparr>cr_provider = lit ''p'', cr_key = lit ''k''\<rparr>)"

lemma demo_snmp_run_result:
  "map_sum id cr_item_count (snd demo_snmp_run) = Inr 1 \<and> length (rp_observations (fst demo_snmp_run)) = 1"
  by code_simp

theorem snmp_collect_complete_witness:
  "map_sum id cr_item_count (snd demo_snmp_run) = Inr 1 \<and>
   collection_outcome demo_runtime demo_agent demo_snmp (lit ''10.0.0.1'') (Some \<lparr>cr_provider = lit ''p'', cr_key = lit ''k''\<rparr>)
     demo_snmp_repo (fst demo_snmp_run) (snd demo_snmp_run)"
  using demo_snmp_run_result snmp_collect_complete [of demo_runtime demo_agent demo_snmp demo_snmp_repo "lit ''10.0.0.1''"
      "Some \<lparr>cr_provider = lit ''p'', cr_key = lit ''k''\<rparr>" "fst demo_snmp_run" "snd demo_snmp_run"]
  by (simp add: demo_snmp_run_def)

end
