(* ===== verification/Database.thy ===== *)
theory Database
  imports Py_Json
begin

text \<open>
  The database file and its schema migrations (\<open>database.py\<close>): the packaged migrations, opening the file with the
  required modes, splitting a script into statements, and applying the unapplied migrations, each in one
  transaction. SQLite is what it does with a statement (\<open>sq_exec\<close>), when it takes a text as complete, and where it
  fails; the digest of a script is an argument.
\<close>

section \<open>Migrations\<close>

record migration =
  mg_version :: int
  mg_name :: pystr
  mg_sql :: pystr

definition migration_error :: "string \<Rightarrow> exn" where
  "migration_error s = MigrationError (lit s)"

definition validate_migrations :: "migration list \<Rightarrow> unit result" where
  "validate_migrations ms =
     (if map mg_version ms \<noteq> [1..int (length ms)]
      then Inl (migration_error ''migrations must be ordered, unique, and contiguous from version 1'')
      else if list_ex (\<lambda>m. mg_name m = [] \<or> strip (mg_sql m) = []) ms
      then Inl (migration_error ''migration name and SQL must not be empty'')
      else Inr ())"

text \<open>One packaged resource: a name ending in \<open>.sql\<close> is a number, an underscore and a name.\<close>

definition has_suffix :: "pystr \<Rightarrow> pystr \<Rightarrow> bool" where
  "has_suffix s t \<longleftrightarrow> length t \<le> length s \<and> drop (length s - length t) s = t"

definition read_migration :: "(pystr \<Rightarrow> bool) \<Rightarrow> digit_table \<Rightarrow> pystr \<Rightarrow> pystr \<Rightarrow> migration option result" where
  "read_migration is_digits table file_name content =
     (if \<not> has_suffix file_name (lit ''.sql'') then Inr None
      else (let stem = take (length file_name - 4) file_name;
                prefix = takeWhile (\<lambda>c. c \<noteq> 95) stem;
                name = drop (length prefix + 1) stem
            in if 95 \<notin> set stem \<or> \<not> is_digits prefix \<or> name = [] then Inl (MigrationError (lit ''invalid migration filename: '' @ file_name))
               else (case int_of_text table prefix of
                       None \<Rightarrow> Inl (ValueError (lit ''invalid literal for int()''))
                     | Some n \<Rightarrow> Inr (Some \<lparr>mg_version = n, mg_name = name, mg_sql = content\<rparr>))))"

definition available_migrations :: "(pystr \<Rightarrow> bool) \<Rightarrow> digit_table \<Rightarrow> (pystr \<times> pystr) list \<Rightarrow> migration list result" where
  "available_migrations is_digits table resources =
     bindR (mapR (\<lambda>(file_name, content). read_migration is_digits table file_name content) (sort_key fst resources)) (\<lambda>found.
       let ms = concat (map (\<lambda>m. case m of None \<Rightarrow> [] | Some m \<Rightarrow> [m]) found)
       in bindR (validate_migrations ms) (\<lambda>_. Inr ms))"

section \<open>Opening the file\<close>

text \<open>
  What is at the path: nothing, a regular file with its mode, or anything else (which \<open>open\<close> refuses when it is a
  link). The journal files are there or not, with their modes.
\<close>

datatype database_file = Absent | Regular_file int | Special_file | Symbolic_link

record database_files =
  df_main :: database_file
  df_wal :: "int option"
  df_shm :: "int option"

text \<open>What fails: opening or restricting the file, the journal mode the library reports, restricting the journal files.\<close>

record open_faults =
  of_open :: bool
  of_mode :: pystr
  of_chmod :: bool

definition restrict_file :: "open_faults \<Rightarrow> database_files \<Rightarrow> database_files \<times> unit result" where
  "restrict_file F files =
     (if of_open F \<or> df_main files = Symbolic_link then (files, Inl (migration_error ''database path cannot be opened safely''))
      else (case df_main files of
              Special_file \<Rightarrow> (files, Inl (migration_error ''database path is not a regular file''))
            | _ \<Rightarrow> (files\<lparr>df_main := Regular_file 384\<rparr>, Inr ())))"

definition open_database :: "unidata \<Rightarrow> open_faults \<Rightarrow> bool \<Rightarrow> database_files \<Rightarrow> database_files \<times> unit result" where
  "open_database U F memory files =
     (case (if memory then (files, Inr ()) else restrict_file F files) of
        (files, Inl e) \<Rightarrow> (files, Inl e)
      | (files, Inr _) \<Rightarrow>
          (let mode = casefold U (of_mode F) in
           if mode \<noteq> lit ''wal''
           then (files, Inl (MigrationError (lit ''SQLite refused WAL journal mode (reported '' @ mode @ lit '')'')))
           else if memory then (files, Inr ())
           else if of_chmod F then (files, Inl (migration_error ''database files cannot be restricted''))
           else (files\<lparr>df_wal := map_option (\<lambda>_. 384) (df_wal files), df_shm := map_option (\<lambda>_. 384) (df_shm files)\<rparr>, Inr ())))"

section \<open>Statements\<close>

text \<open>\<open>splitlines(keepends=True)\<close>.\<close>

fun keep_lines :: "pystr \<Rightarrow> pystr \<Rightarrow> pystr list" where
  "keep_lines line [] = (if line = [] then [] else [line])"
| "keep_lines line (c # cs) =
     (if line_break c \<and> \<not> (c = 13 \<and> take 1 cs = [10]) then (line @ [c]) # keep_lines [] cs else keep_lines (line @ [c]) cs)"

record 'd sqlite =
  sq_complete :: "pystr \<Rightarrow> bool"
  sq_exec :: "pystr \<Rightarrow> 'd \<Rightarrow> 'd option"
  sq_readable :: bool
  sq_fault :: "int \<Rightarrow> bool"

text \<open>Statements are executed as they are found; \<open>None\<close> is an SQLite error or an incomplete end of the script.\<close>

fun run_lines :: "'d sqlite \<Rightarrow> pystr \<Rightarrow> pystr list \<Rightarrow> 'd \<Rightarrow> 'd option" where
  "run_lines S buffer [] d = (if strip buffer = [] then Some d else None)"
| "run_lines S buffer (l # ls) d =
     (if sq_complete S (buffer @ l)
      then (case sq_exec S (strip (buffer @ l)) d of None \<Rightarrow> None | Some d \<Rightarrow> run_lines S [] ls d)
      else run_lines S (buffer @ l) ls d)"

section \<open>Applying\<close>

text \<open>The content the migrations build, the history table when it exists, and the schema version SQLite keeps.\<close>

record 'd database =
  db_content :: 'd
  db_history :: "(int \<times> pystr \<times> pystr) list option"
  db_user_version :: int

definition history_of :: "'d database \<Rightarrow> (int \<times> pystr \<times> pystr) list" where
  "history_of db = (case db_history db of None \<Rightarrow> [] | Some rows \<Rightarrow> rows)"

definition bootstrap_history :: "'d database \<Rightarrow> 'd database" where
  "bootstrap_history db = db\<lparr>db_history := Some (history_of db)\<rparr>"

text \<open>A transaction that fails at its begin, in a statement, or at its insert or commit is rolled back.\<close>

definition apply_one :: "(pystr \<Rightarrow> pystr) \<Rightarrow> 'd sqlite \<Rightarrow> 'd database \<Rightarrow> migration \<Rightarrow> 'd database \<times> unit result" where
  "apply_one sha S db m =
     (case (if sq_fault S (mg_version m) then None else run_lines S [] (keep_lines [] (mg_sql m)) (db_content db)) of
        None \<Rightarrow> (db, Inl (MigrationError (lit ''migration '' @ str_int (mg_version m) @ lit '' ('' @ mg_name m @ lit '') failed'')))
      | Some d \<Rightarrow>
          (db\<lparr>db_content := d, db_history := Some (history_of db @ [(mg_version m, mg_name m, sha (mg_sql m))]),
             db_user_version := mg_version m\<rparr>, Inr ()))"

fun apply_all ::
    "(pystr \<Rightarrow> pystr) \<Rightarrow> 'd sqlite \<Rightarrow> (int \<times> pystr \<times> pystr) list \<Rightarrow> 'd database \<Rightarrow> migration list \<Rightarrow> 'd database \<times> unit result" where
  "apply_all sha S applied db [] = (db, Inr ())"
| "apply_all sha S applied db (m # ms) =
     (case map_of applied (mg_version m) of
        Some previous \<Rightarrow>
          if previous \<noteq> (mg_name m, sha (mg_sql m))
          then (db, Inl (MigrationError (lit ''migration '' @ str_int (mg_version m) @ lit '' checksum or name mismatch'')))
          else apply_all sha S applied db ms
      | None \<Rightarrow>
          (case apply_one sha S db m of
             (db, Inl e) \<Rightarrow> (db, Inl e)
           | (db, Inr _) \<Rightarrow> apply_all sha S applied db ms))"

definition migrate :: "(pystr \<Rightarrow> pystr) \<Rightarrow> 'd sqlite \<Rightarrow> migration list \<Rightarrow> 'd database \<Rightarrow> 'd database \<times> int result" where
  "migrate sha S ms db =
     (case validate_migrations ms of
        Inl e \<Rightarrow> (db, Inl e)
      | Inr _ \<Rightarrow>
          if \<not> sq_readable S then (db, Inl (migration_error ''cannot read migration history''))
          else (let db = bootstrap_history db; applied = history_of db;
                    unknown = sort (filter (\<lambda>v. v \<notin> set (map mg_version ms)) (map fst applied))
                in if unknown \<noteq> []
                   then (db, Inl (MigrationError (lit ''database contains unknown migration version '' @ str_int (hd unknown))))
                   else if sort (map fst applied) \<noteq> [1..int (length applied)]
                   then (db, Inl (migration_error ''database migration history is not contiguous''))
                   else (case apply_all sha S applied db ms of
                           (db, Inl e) \<Rightarrow> (db, Inl e)
                         | (db, Inr _) \<Rightarrow> (db, Inr (if ms = [] then 0 else mg_version (last ms))))))"

section \<open>The history invariant\<close>

text \<open>The database after the first migrations have been applied to an empty one.\<close>

definition history_row :: "(pystr \<Rightarrow> pystr) \<Rightarrow> migration \<Rightarrow> int \<times> pystr \<times> pystr" where
  "history_row sha m = (mg_version m, mg_name m, sha (mg_sql m))"

definition run_script :: "'d sqlite \<Rightarrow> migration \<Rightarrow> 'd \<Rightarrow> 'd option" where
  "run_script S m d = run_lines S [] (keep_lines [] (mg_sql m)) d"

fun content_after :: "'d sqlite \<Rightarrow> migration list \<Rightarrow> 'd \<Rightarrow> 'd option" where
  "content_after S [] d = Some d"
| "content_after S (m # ms) d = (case run_script S m d of None \<Rightarrow> None | Some d \<Rightarrow> content_after S ms d)"

definition migrated :: "(pystr \<Rightarrow> pystr) \<Rightarrow> 'd sqlite \<Rightarrow> 'd \<Rightarrow> migration list \<Rightarrow> 'd database \<Rightarrow> bool" where
  "migrated sha S blank ms db \<longleftrightarrow> history_of db = map (history_row sha) ms \<and>
     content_after S ms blank = Some (db_content db) \<and> db_user_version db = int (length ms)"

lemma keep_lines_concat: "concat (keep_lines line s) = line @ s"
  by (induction line s rule: keep_lines.induct) auto

lemma content_after_append:
  "content_after S (xs @ ys) d = (case content_after S xs d of None \<Rightarrow> None | Some d \<Rightarrow> content_after S ys d)"
  by (induction xs arbitrary: d) (auto split: option.splits)

lemma version_at:
  assumes "map mg_version ms = [1..int (length ms)]" "i < length ms"
  shows "mg_version (ms ! i) = 1 + int i"
proof -
  have "mg_version (ms ! i) = [1..int (length ms)] ! i" using assms by (metis nth_map)
  then show ?thesis using assms(2) by simp
qed

lemma versions_distinct: "map mg_version ms = [1..int (length ms)] \<Longrightarrow> distinct (map mg_version ms)"
  by (simp only: distinct_upto)

lemma validate_versions: "validate_migrations ms = Inr u \<Longrightarrow> map mg_version ms = [1..int (length ms)]"
  by (simp add: validate_migrations_def split: if_splits)

lemma history_rows_fst [simp]: "map fst (map (history_row sha) ms) = map mg_version ms"
  by (simp add: history_row_def comp_def)

lemma versions_take:
  assumes "map mg_version ms = [1..int (length ms)]" "k \<le> length ms"
  shows "map mg_version (take k ms) = [1..int k]"
proof (rule nth_equalityI)
  show "length (map mg_version (take k ms)) = length [1..int k]" using assms(2) by simp
  fix i assume "i < length (map mg_version (take k ms))"
  with assms show "map mg_version (take k ms) ! i = [1..int k] ! i" by (simp add: version_at)
qed

lemma apply_all_skip:
  assumes "list_all (\<lambda>m. map_of applied (mg_version m) = Some (mg_name m, sha (mg_sql m))) xs"
  shows "apply_all sha S applied db (xs @ ys) = apply_all sha S applied db ys"
  using assms by (induction xs) auto

lemma history_row_in: "distinct (map mg_version ms) \<Longrightarrow> m \<in> set ms \<Longrightarrow>
    map_of (map (history_row sha) ms) (mg_version m) = Some (mg_name m, sha (mg_sql m))"
  by (rule map_of_is_SomeI) (auto simp: comp_def history_row_def)

lemma apply_one_migrated:
  assumes "migrated sha S blank xs db" "mg_version m = int (length xs) + 1" "apply_one sha (S\<lparr>sq_fault := f, sq_readable := b\<rparr>) db m = (db', r)"
  shows "(r = Inr () \<and> db_history db' \<noteq> None \<and> migrated sha S blank (xs @ [m]) db') \<or> (\<exists>e. r = Inl e \<and> db' = db)"
proof -
  have same: "run_lines (S\<lparr>sq_fault := f, sq_readable := b\<rparr>) buffer ls d = run_lines S buffer ls d" for buffer ls d
    by (induction S buffer ls d rule: run_lines.induct) (auto split: option.splits)
  show ?thesis
    using assms by (auto simp: apply_one_def same migrated_def content_after_append run_script_def history_row_def history_of_def
        split: if_splits option.splits)
qed

lemma apply_all_migrated:
  assumes "migrated sha S blank xs db" "db_history db \<noteq> None"
    and "map mg_version ys = [int (length xs) + 1..int (length xs + length ys)]"
    and "\<And>m. m \<in> set ys \<Longrightarrow> map_of applied (mg_version m) = None"
    and "apply_all sha (S\<lparr>sq_fault := f, sq_readable := b\<rparr>) applied db ys = (db', r)"
  shows "\<exists>k \<le> length ys. migrated sha S blank (xs @ take k ys) db' \<and> db_history db' \<noteq> None \<and> (isl r \<longleftrightarrow> k < length ys)"
  using assms
proof (induction ys arbitrary: xs db)
  case (Cons m ys)
  have v: "mg_version m = int (length xs) + 1" and vs: "map mg_version ys = [int (length xs) + 2..int (length xs + length (m # ys))]"
    using Cons.prems(3) by (simp_all add: upto_rec1 add.commute)
  obtain db1 r1 where one: "apply_one sha (S\<lparr>sq_fault := f, sq_readable := b\<rparr>) db m = (db1, r1)"
    by (cases "apply_one sha (S\<lparr>sq_fault := f, sq_readable := b\<rparr>) db m")
  consider "r1 = Inr ()" "db_history db1 \<noteq> None" "migrated sha S blank (xs @ [m]) db1" | e where "r1 = Inl e" "db1 = db"
    using apply_one_migrated [OF Cons.prems(1) v one] by blast
  then show ?case
  proof cases
    case 1
    then have rest: "apply_all sha (S\<lparr>sq_fault := f, sq_readable := b\<rparr>) applied db1 ys = (db', r)"
      using Cons.prems(4,5) one by simp
    have "\<exists>k \<le> length ys. migrated sha S blank ((xs @ [m]) @ take k ys) db' \<and> db_history db' \<noteq> None \<and> (isl r \<longleftrightarrow> k < length ys)"
      by (rule Cons.IH [OF 1(3,2) _ _ rest]) (use vs Cons.prems(4) in \<open>auto simp: add.commute\<close>)
    then obtain k where "k \<le> length ys" "migrated sha S blank ((xs @ [m]) @ take k ys) db'" "db_history db' \<noteq> None" "isl r \<longleftrightarrow> k < length ys"
      by blast
    then show ?thesis by (intro exI [of _ "Suc k"]) simp
  next
    case 2
    with Cons.prems one have "db' = db" "isl r" by auto
    with Cons.prems(1,2) show ?thesis by (intro exI [of _ 0]) simp
  qed
qed auto

lemma bootstrap_migrated: "migrated sha S blank xs db \<Longrightarrow> migrated sha S blank xs (bootstrap_history db)"
  by (simp add: migrated_def bootstrap_history_def history_of_def)

lemma migrate_steps:
  assumes v: "validate_migrations ms = Inr u" and k: "k \<le> length ms" and m: "migrated sha S blank (take k ms) db"
  shows "migrate sha (S\<lparr>sq_fault := f, sq_readable := b\<rparr>) ms db =
    (if \<not> b then (db, Inl (migration_error ''cannot read migration history''))
     else case apply_all sha (S\<lparr>sq_fault := f, sq_readable := b\<rparr>) (map (history_row sha) (take k ms)) (bootstrap_history db) (drop k ms) of
       (db, Inl e) \<Rightarrow> (db, Inl e) | (db, Inr _) \<Rightarrow> (db, Inr (int (length ms))))"
proof -
  note versions = validate_versions [OF v]
  have h: "history_of (bootstrap_history db) = map (history_row sha) (take k ms)"
    using m by (simp add: migrated_def bootstrap_history_def history_of_def)
  have vk: "map fst (map (history_row sha) (take k ms)) = [1..int k]"
    unfolding history_rows_fst by (rule versions_take [OF versions k])
  have "set [1..int k] \<subseteq> set (map mg_version ms)" unfolding versions using k by auto
  then have known: "filter (\<lambda>v. v \<notin> mg_version ` set ms) [1..int k] = []" by (auto simp: filter_empty_conv)
  have ordered: "sort [1..int k] = [1..int k]" by (rule sorted_sort_id) simp
  have "distinct (map mg_version (take k ms))" unfolding versions_take [OF versions k] by simp
  then have "list_all (\<lambda>m. map_of (map (history_row sha) (take k ms)) (mg_version m) = Some (mg_name m, sha (mg_sql m))) (take k ms)"
    by (auto simp: list_all_iff intro: history_row_in)
  from apply_all_skip [OF this, of "S\<lparr>sq_fault := f, sq_readable := b\<rparr>" "bootstrap_history db" "drop k ms"]
  have skip: "apply_all sha (S\<lparr>sq_fault := f, sq_readable := b\<rparr>) (map (history_row sha) (take k ms)) (bootstrap_history db) ms =
      apply_all sha (S\<lparr>sq_fault := f, sq_readable := b\<rparr>) (map (history_row sha) (take k ms)) (bootstrap_history db) (drop k ms)"
    by simp
  have "(if ms = [] then 0 else mg_version (last ms)) = int (length ms)"
    using version_at [OF versions, of "length ms - 1"] by (simp add: last_conv_nth)
  then show ?thesis using k skip
    by (cases b) (simp_all add: migrate_def v h vk [simplified] known ordered Let_def split: prod.splits sum.splits)
qed

lemma migrate_prefix:
  assumes v: "validate_migrations ms = Inr u" and k: "k \<le> length ms" and m: "migrated sha S blank (take k ms) db"
    and run: "migrate sha (S\<lparr>sq_fault := f, sq_readable := b\<rparr>) ms db = (db', r)"
  shows "\<exists>j \<ge> k. j \<le> length ms \<and> migrated sha S blank (take j ms) db' \<and>
    (case r of Inl e \<Rightarrow> True | Inr n \<Rightarrow> j = length ms \<and> n = int (length ms) \<and> db_history db' \<noteq> None)"
proof (cases b)
  case False
  with run migrate_steps [OF v k m] have "db' = db" "isl r" by auto
  with k m show ?thesis by (intro exI [of _ k]) (auto split: sum.splits)
next
  case True
  obtain db1 r1 where rest: "apply_all sha (S\<lparr>sq_fault := f, sq_readable := b\<rparr>) (map (history_row sha) (take k ms)) (bootstrap_history db)
      (drop k ms) = (db1, r1)"
    by (cases "apply_all sha (S\<lparr>sq_fault := f, sq_readable := b\<rparr>) (map (history_row sha) (take k ms)) (bootstrap_history db) (drop k ms)")
  note versions = validate_versions [OF v]
  have fresh: "map_of (map (history_row sha) (take k ms)) (mg_version x) = None" if "x \<in> set (drop k ms)" for x
  proof -
    have "distinct (map mg_version (take k ms @ drop k ms))" using versions_distinct [OF versions] by simp
    then have "mg_version x \<notin> set (map mg_version (take k ms))" using that by (auto simp del: append_take_drop_id)
    then show ?thesis unfolding map_of_eq_None_iff by (simp flip: history_rows_fst [of sha] set_map)
  qed
  have vd: "map mg_version (drop k ms) = [int (length (take k ms)) + 1..int (length (take k ms) + length (drop k ms))]"
  proof (rule nth_equalityI)
    fix i assume "i < length (map mg_version (drop k ms))"
    with k version_at [OF versions, of "k + i"] show "map mg_version (drop k ms) ! i =
        [int (length (take k ms)) + 1..int (length (take k ms) + length (drop k ms))] ! i"
      by (simp add: min_def)
  qed (use k in simp)
  have "db_history (bootstrap_history db) \<noteq> None" by (simp add: bootstrap_history_def)
  from apply_all_migrated [OF bootstrap_migrated [OF m] this vd fresh rest]
  obtain i where i: "i \<le> length (drop k ms)" "migrated sha S blank (take k ms @ take i (drop k ms)) db1"
    "db_history db1 \<noteq> None" "isl r1 \<longleftrightarrow> i < length (drop k ms)" by blast
  have "take k ms @ take i (drop k ms) = take (k + i) ms" by (simp add: take_add)
  with i k run migrate_steps [OF v k m, where f = f and b = b] True rest show ?thesis
    by (intro exI [of _ "k + i"]) (auto split: sum.splits prod.splits)
qed

text \<open>A file that was opened is a regular file of the owner only, its journals too.\<close>

lemma open_database_private:
  "open_database U F False files = (files', Inr u) \<Longrightarrow> df_main files' = Regular_file 384 \<and>
     (case df_wal files' of None \<Rightarrow> True | Some m \<Rightarrow> m = 384) \<and> (case df_shm files' of None \<Rightarrow> True | Some m \<Rightarrow> m = 384)"
  by (auto simp: open_database_def restrict_file_def Let_def split: if_splits database_file.splits option.splits)

section \<open>Interrupted upgrades\<close>

lemma apply_all_succeeds:
  assumes "migrated sha S blank xs db" "\<And>v. \<not> sq_fault S v" "content_after S (xs @ ys) blank \<noteq> None"
    and "\<And>m. m \<in> set ys \<Longrightarrow> map_of applied (mg_version m) = None"
    and "map mg_version ys = [int (length xs) + 1..int (length xs + length ys)]"
  shows "\<exists>db'. apply_all sha S applied db ys = (db', Inr ())"
  using assms(1,3,4,5)
proof (induction ys arbitrary: xs db)
  case (Cons m ys)
  have v: "mg_version m = int (length xs) + 1" and vs: "map mg_version ys = [int (length xs) + 2..int (length xs + length (m # ys))]"
    using Cons.prems(4) by (simp_all add: upto_rec1 add.commute)
  obtain d where d: "run_script S m (db_content db) = Some d"
    using Cons.prems(1,2) by (auto simp: migrated_def content_after_append split: option.splits)
  define db1 where "db1 = fst (apply_one sha S db m)"
  have "apply_one sha S db m = (db1, Inr ())"
    using d assms(2) by (simp add: db1_def apply_one_def run_script_def)
  moreover from this have "migrated sha S blank (xs @ [m]) db1"
    using apply_one_migrated [OF Cons.prems(1) v, where f = "sq_fault S" and b = "sq_readable S" and db' = db1 and r = "Inr ()"] by simp
  ultimately show ?case
    using Cons.IH [of "xs @ [m]" db1] Cons.prems(2,3) vs by (auto simp: add.commute)
qed simp

lemma migrated_unique:
  assumes "migrated sha S blank ms db" "migrated sha S blank ms db'" "db_history db \<noteq> None" "db_history db' \<noteq> None"
  shows "db = (db' :: 'd database)"
proof -
  from assms have "db_content db = db_content db'" "db_user_version db = db_user_version db'" "db_history db = db_history db'"
    by (auto simp: migrated_def history_of_def)
  then show ?thesis by (cases db; cases db') simp
qed

text \<open>C31. Whatever step of an upgrade fails, the database is left with a first part of the migrations applied, no less than it
  had, history and content in agreement, and success means that all of them are.\<close>

theorem migration_prefix:
  assumes "validate_migrations ms = Inr u" "k \<le> length ms" "migrated sha S blank (take k ms) db" "migrate sha S ms db = (db', r)"
  shows "\<exists>j. k \<le> j \<and> j \<le> length ms \<and> migrated sha S blank (take j ms) db' \<and>
    (case r of Inl e \<Rightarrow> True | Inr n \<Rightarrow> j = length ms \<and> n = int (length ms) \<and> db_history db' \<noteq> None)"
  using migrate_prefix [OF assms(1-3), where f = "sq_fault S" and b = "sq_readable S" and db' = db' and r = r] assms(4) by simp

text \<open>C32. An upgrade that was interrupted anywhere and is run again to its end leaves exactly the database of an upgrade that was
  never interrupted.\<close>

theorem migration_resumes:
  assumes "validate_migrations ms = Inr u" "k \<le> length ms" "migrated sha S blank (take k ms) db"
    and "\<And>v. \<not> sq_fault S v" "sq_readable S"
    and "migrate sha (S\<lparr>sq_fault := f, sq_readable := b\<rparr>) ms db = (db1, r1)" "migrate sha S ms db1 = (db2, Inr n)"
  shows "migrate sha S ms db = (db2, Inr n)"
proof -
  obtain j where j: "j \<le> length ms" "migrated sha S blank (take j ms) db1"
    using migrate_prefix [OF assms(1-3,6)] by blast
  have two: "migrated sha S blank ms db2" "n = int (length ms)" "db_history db2 \<noteq> None"
    using migration_prefix [OF assms(1) j assms(7)] by auto
  note versions = validate_versions [OF assms(1)]
  have s: "S = S\<lparr>sq_fault := sq_fault S, sq_readable := True\<rparr>" using assms(5) by (cases S) simp
  have "distinct (map mg_version (take k ms @ drop k ms))" using versions_distinct [OF versions] by simp
  then have fresh: "map_of (map (history_row sha) (take k ms)) (mg_version x) = None" if "x \<in> set (drop k ms)" for x
    using that unfolding map_of_eq_None_iff by (auto simp: image_image history_row_def simp del: append_take_drop_id)
  have vd: "map mg_version (drop k ms) = [int (length (take k ms)) + 1..int (length (take k ms) + length (drop k ms))]"
  proof (rule nth_equalityI)
    fix i assume "i < length (map mg_version (drop k ms))"
    with assms(2) version_at [OF versions, of "k + i"] show "map mg_version (drop k ms) ! i =
        [int (length (take k ms)) + 1..int (length (take k ms) + length (drop k ms))] ! i"
      by (simp add: min_def)
  qed (use assms(2) in simp)
  have "content_after S (take k ms @ drop k ms) blank \<noteq> None" using two(1) by (simp add: migrated_def)
  from apply_all_succeeds [OF bootstrap_migrated [OF assms(3)] assms(4) this fresh vd]
  obtain db3 where "apply_all sha S (map (history_row sha) (take k ms)) (bootstrap_history db) (drop k ms) = (db3, Inr ())" by blast
  then have direct: "migrate sha S ms db = (db3, Inr n)"
    using migrate_steps [OF assms(1-3), where f = "sq_fault S" and b = True, folded s] two(2) by simp
  then have three: "migrated sha S blank ms db3" "db_history db3 \<noteq> None"
    using migration_prefix [OF assms(1-3) direct] by auto
  have "db3 = db2" by (rule migrated_unique [OF three(1) two(1) three(2) two(3)])
  with direct show ?thesis by simp
qed

section \<open>Edited migrations\<close>

lemma apply_all_edited:
  assumes "list_all (\<lambda>m. map_of applied (mg_version m) \<noteq> None) xs"
    and "m \<in> set xs" "map_of applied (mg_version m) \<noteq> Some (mg_name m, sha (mg_sql m))"
  shows "\<exists>e. apply_all sha S applied db (xs @ ys) = (db, Inl e)"
  using assms
proof (induction xs)
  case (Cons x xs)
  then obtain p where "map_of applied (mg_version x) = Some p" by auto
  with Cons show ?case by auto
qed simp

text \<open>C33. A recorded migration whose name or digest differs from the packaged one stops the upgrade before anything is applied.\<close>

theorem edited_history_refused:
  assumes "validate_migrations ms = Inr u" "db_history db = Some rows" "distinct (map fst rows)"
    and "(v, previous) \<in> set rows" "m \<in> set ms" "mg_version m = v" "previous \<noteq> (mg_name m, sha (mg_sql m))"
  shows "\<exists>e. migrate sha S ms db = (db, Inl e)"
proof -
  have boot: "bootstrap_history db = db" "history_of db = rows" using assms(2) by (cases db; simp add: bootstrap_history_def history_of_def)+
  let ?unknown = "sort (filter (\<lambda>v. v \<notin> set (map mg_version ms)) (map fst rows))"
  consider "\<not> sq_readable S" | "?unknown \<noteq> []" | "sort (map fst rows) \<noteq> [1..int (length rows)]"
    | "sq_readable S" "?unknown = []" "sort (map fst rows) = [1..int (length rows)]" by blast
  then show ?thesis
  proof cases
    case 4
    note versions = validate_versions [OF assms(1)]
    have set: "set (map fst rows) = {1..int (length rows)}" using 4(3) by (metis set_sort set_upto)
    have "filter (\<lambda>v. v \<notin> set (map mg_version ms)) (map fst rows) = []" using 4(2) by (metis set_empty set_sort)
    then have "set (map fst rows) \<subseteq> set (map mg_version ms)" by (auto simp: filter_empty_conv)
    then have "{1..int (length rows)} \<subseteq> {1..int (length ms)}" unfolding set versions by simp
    then have "rows \<noteq> [] \<Longrightarrow> int (length rows) \<in> {1..int (length ms)}" by (rule subsetD) (auto simp: Suc_le_eq)
    then have n: "length rows \<le> length ms" by (cases "rows = []") simp_all
    have taken: "map mg_version (take (length rows) ms) = [1..int (length rows)]" by (rule versions_take [OF versions n])
    have all: "map_of rows (mg_version x) \<noteq> None" if "x \<in> set (take (length rows) ms)" for x
    proof -
      have "mg_version x \<in> set (map mg_version (take (length rows) ms))" using that by auto
      then show ?thesis unfolding taken using set by (simp add: map_of_eq_None_iff)
    qed
    then have la: "list_all (\<lambda>m. map_of rows (mg_version m) \<noteq> None) (take (length rows) ms)" unfolding list_all_iff by blast
    have "v \<in> set (map mg_version (take (length rows) ms))" using assms(4) set unfolding taken by force
    then obtain x where x: "x \<in> set (take (length rows) ms)" "mg_version x = v" by auto
    have "x \<in> set ms" using x(1) by (rule in_set_takeD)
    then have "x = m" using x(2) assms(5,6) versions_distinct [OF versions] by (auto simp: distinct_map dest: inj_onD)
    moreover have "map_of rows v = Some previous" using assms(3,4) by (rule map_of_is_SomeI)
    ultimately have "\<exists>e. apply_all sha S rows db (take (length rows) ms @ drop (length rows) ms) = (db, Inl e)"
      using x assms(7) by (intro apply_all_edited [OF la, where m = m]) auto
    then show ?thesis using 4 assms(1) by (auto simp: migrate_def boot Let_def)
  qed (use assms(1) boot in \<open>auto simp: migrate_def Let_def split: prod.splits sum.splits\<close>)
qed

section \<open>An upgrade\<close>

definition demo_sqlite :: "pystr list sqlite" where
  "demo_sqlite = \<lparr>sq_complete = (\<lambda>s. strip s \<noteq> [] \<and> last (strip s) = 59), sq_exec = (\<lambda>s d. Some (d @ [s])),
     sq_readable = True, sq_fault = (\<lambda>_. False)\<rparr>"

definition demo_migrations :: "migration list" where
  "demo_migrations = [\<lparr>mg_version = 1, mg_name = lit ''a'', mg_sql = lit ''x;'' @ [10] @ lit ''y;''\<rparr>,
     \<lparr>mg_version = 2, mg_name = lit ''b'', mg_sql = lit ''z;'' @ [10]\<rparr>]"

definition demo_sha :: "pystr \<Rightarrow> pystr" where
  "demo_sha s = rev s"

definition demo_db :: "nat \<Rightarrow> pystr list database" where
  "demo_db k = \<lparr>db_content = take (k + (if 0 < k then 1 else 0)) [lit ''x;'', lit ''y;'', lit ''z;''],
     db_history = (if k = 0 then None else Some (map (history_row demo_sha) (take k demo_migrations))), db_user_version = int k\<rparr>"

definition broken_sqlite :: "pystr list sqlite" where
  "broken_sqlite = demo_sqlite\<lparr>sq_fault := (\<lambda>v. v = 2), sq_readable := True\<rparr>"

lemma demo_upgrade:
  "validate_migrations demo_migrations = Inr ()" "migrate demo_sha demo_sqlite demo_migrations (demo_db 1) = (demo_db 2, Inr 2)"
  "map_prod id isl (migrate demo_sha broken_sqlite demo_migrations (demo_db 0)) = (demo_db 1, True)"
  by code_simp+

lemma demo_migrated: "migrated demo_sha demo_sqlite [] (take 0 demo_migrations) (demo_db 0)" "0 \<le> length demo_migrations"
  by code_simp+

theorem migration_prefix_witness:
  "\<exists>j. 0 \<le> j \<and> j \<le> length demo_migrations \<and> migrated demo_sha broken_sqlite [] (take j demo_migrations) (demo_db 1) \<and>
    isl (snd (migrate demo_sha broken_sqlite demo_migrations (demo_db 0)))"
proof -
  obtain r where r: "migrate demo_sha broken_sqlite demo_migrations (demo_db 0) = (demo_db 1, r)" "isl r"
    using demo_upgrade(3) by (cases "migrate demo_sha broken_sqlite demo_migrations (demo_db 0)") simp
  have m: "migrated demo_sha broken_sqlite [] (take 0 demo_migrations) (demo_db 0)" by code_simp
  from migration_prefix [OF demo_upgrade(1) demo_migrated(2) m r(1)] r show ?thesis by auto
qed

theorem migration_resumes_witness:
  "migrate demo_sha demo_sqlite demo_migrations (demo_db 0) = (demo_db 2, Inr 2)"
proof -
  obtain r where r: "migrate demo_sha (demo_sqlite\<lparr>sq_fault := (\<lambda>v. v = 2), sq_readable := True\<rparr>) demo_migrations (demo_db 0) = (demo_db 1, r)"
    using demo_upgrade(3) by (cases "migrate demo_sha broken_sqlite demo_migrations (demo_db 0)") (simp add: broken_sqlite_def)
  show ?thesis
    by (rule migration_resumes [OF demo_upgrade(1) demo_migrated(2,1) _ _ r demo_upgrade(2)]) (simp_all add: demo_sqlite_def)
qed

theorem edited_history_refused_witness:
  "\<exists>e. migrate demo_sha demo_sqlite demo_migrations
     \<lparr>db_content = [], db_history = Some [(1, lit ''a'', lit ''old'')], db_user_version = 1\<rparr> =
     (\<lparr>db_content = [], db_history = Some [(1, lit ''a'', lit ''old'')], db_user_version = 1\<rparr>, Inl e)"
  by (rule edited_history_refused [OF demo_upgrade(1), where rows = "[(1, lit ''a'', lit ''old'')]" and v = 1 and
      previous = "(lit ''a'', lit ''old'')" and m = "hd demo_migrations"])
    (simp_all add: demo_migrations_def demo_sha_def lit_def)

end
