(* ===== verification/Scheduler.thy ===== *)
theory Scheduler
  imports Py_Json Odict "HOL-Library.Multiset"
begin

text \<open>
  The scheduler service (\<open>scheduler_service.py\<close>): the commands built from the configuration, one cycle of isolated
  processes under a semaphore as a step relation, the process with its time limit, and the service loop. The
  operating system's answers (a process that cannot be started, its exit status, the signals it obeys) and the
  moments at which the stop event is seen are arguments.
\<close>

section \<open>Commands\<close>

record scheduled_invocation =
  si_collector :: pystr
  si_arguments :: "pystr list"

record scheduled_outcome =
  so_collector :: pystr
  so_returncode :: int
  so_timed_out :: bool

text \<open>The validated configuration of the collectors, as the service reads it.\<close>

record collector_settings =
  cs_snmp :: bool
  cs_snmp_targets :: "pystr list"
  cs_unifi :: bool
  cs_unifi_urls :: "pystr list"
  cs_ad :: bool
  cs_ad_target :: pystr
  cs_ad_domain :: "pystr option"
  cs_ad_server_name :: "pystr option"
  cs_ssh :: bool
  cs_ssh_targets :: "(pystr \<times> pystr) list"

text \<open>\<open>sorted(set(xs))\<close>\<close>

definition sorted_unique :: "pystr list \<Rightarrow> pystr list" where
  "sorted_unique xs = sort (remdups xs)"

definition option_arguments :: "string \<Rightarrow> pystr list \<Rightarrow> pystr list" where
  "option_arguments flag xs = concat (map (\<lambda>x. [lit flag, x]) xs)"

definition maybe :: "pystr option \<Rightarrow> pystr list" where
  "maybe v = (case v of None \<Rightarrow> [] | Some x \<Rightarrow> [x])"

definition snmp_invocations :: "collector_settings \<Rightarrow> scheduled_invocation list" where
  "snmp_invocations c =
     (if cs_snmp c \<and> cs_snmp_targets c \<noteq> []
      then [\<lparr>si_collector = lit ''snmp'',
        si_arguments = [lit ''collect'', lit ''snmp''] @ option_arguments ''--target'' (sorted_unique (cs_snmp_targets c))\<rparr>] else [])"

definition unifi_invocations :: "collector_settings \<Rightarrow> scheduled_invocation list" where
  "unifi_invocations c =
     (if cs_unifi c then map (\<lambda>url. \<lparr>si_collector = lit ''unifi'',
        si_arguments = [lit ''collect'', lit ''unifi'', lit ''--controller'', url]\<rparr>) (sort (cs_unifi_urls c)) else [])"

definition ad_invocations :: "collector_settings \<Rightarrow> scheduled_invocation list" where
  "ad_invocations c =
     (if cs_ad c then [\<lparr>si_collector = lit ''ad'', si_arguments = [lit ''collect'', lit ''ad'', lit ''--target'', cs_ad_target c] @
        option_arguments ''--domain'' (maybe (cs_ad_domain c)) @ option_arguments ''--server-name'' (maybe (cs_ad_server_name c))\<rparr>] else [])"

text \<open>The addresses of each platform, a set kept as the list of its insertions.\<close>

definition add_target :: "(pystr, pystr list) odict \<Rightarrow> pystr \<times> pystr \<Rightarrow> (pystr, pystr list) odict" where
  "add_target d t = od_set (fst t) ((case map_of d (fst t) of None \<Rightarrow> [] | Some xs \<Rightarrow> xs) @ [snd t]) d"

definition by_platform :: "(pystr \<times> pystr) list \<Rightarrow> (pystr, pystr list) odict" where
  "by_platform targets = foldl add_target [] targets"

definition ssh_invocations :: "collector_settings \<Rightarrow> scheduled_invocation list" where
  "ssh_invocations c =
     (if cs_ssh c
      then (let d = by_platform (cs_ssh_targets c) in
        map (\<lambda>platform. \<lparr>si_collector = lit ''ssh'', si_arguments = [lit ''collect'', lit ''ssh'', lit ''--platform'', platform] @
          option_arguments ''--target'' (sorted_unique (case map_of d platform of None \<Rightarrow> [] | Some xs \<Rightarrow> xs))\<rparr>) (sort (map fst d)))
      else [])"

definition build_invocations :: "collector_settings \<Rightarrow> scheduled_invocation list" where
  "build_invocations c = snmp_invocations c @ unifi_invocations c @ ad_invocations c @ ssh_invocations c"

definition command_line :: "pystr \<Rightarrow> pystr \<Rightarrow> scheduled_invocation \<Rightarrow> pystr list" where
  "command_line executable config_path i = [executable, lit ''--json'', lit ''--config'', config_path] @ si_arguments i"

section \<open>One process\<close>

text \<open>
  A process cannot be started, ends within the limit, runs into it, or its wait is cancelled; a process that is asked
  to terminate does so within five seconds or not.
\<close>

datatype process_life = Not_started exn | Ends int | Overruns bool | Interrupted bool

datatype process_signal = Sigterm | Sigkill

definition stop_process :: "bool \<Rightarrow> process_signal list" where
  "stop_process obeys = (if obeys then [Sigterm] else [Sigterm, Sigkill])"

definition run_process :: "process_life \<Rightarrow> process_signal list \<times> (int \<times> bool) result" where
  "run_process p = (case p of
     Not_started e \<Rightarrow> ([], Inl e)
   | Ends code \<Rightarrow> ([], Inr (code, False))
   | Overruns obeys \<Rightarrow> (stop_process obeys, Inr (124, True))
   | Interrupted obeys \<Rightarrow> (stop_process obeys, Inl CancelledError))"

section \<open>One cycle\<close>

text \<open>
  The tasks of \<open>gather\<close> acquire the semaphore in order; each then runs its process to an outcome or an exception.
  The first exception is what \<open>gather\<close> raises, while the other tasks go on.
\<close>

datatype job = Queued | Running | Ended scheduled_outcome | Crashed exn

record cycle =
  cy_jobs :: "job list"
  cy_raised :: "exn option"

definition new_cycle :: "scheduled_invocation list \<Rightarrow> cycle" where
  "new_cycle invocations = \<lparr>cy_jobs = replicate (length invocations) Queued, cy_raised = None\<rparr>"

definition running :: "cycle \<Rightarrow> nat" where
  "running s = length (filter (\<lambda>j. j = Running) (cy_jobs s))"

definition set_job :: "nat \<Rightarrow> job \<Rightarrow> cycle \<Rightarrow> cycle" where
  "set_job i j s = s\<lparr>cy_jobs := (cy_jobs s)[i := j]\<rparr>"

definition end_job :: "scheduled_invocation \<Rightarrow> nat \<Rightarrow> process_life \<Rightarrow> cycle \<Rightarrow> cycle" where
  "end_job invocation i p s =
     (case snd (run_process p) of
        Inl e \<Rightarrow> (set_job i (Crashed e) s)\<lparr>cy_raised := Some (case cy_raised s of None \<Rightarrow> e | Some e \<Rightarrow> e)\<rparr>
      | Inr (code, timed_out) \<Rightarrow>
          set_job i (Ended \<lparr>so_collector = si_collector invocation, so_returncode = code, so_timed_out = timed_out\<rparr>) s)"

inductive cycle_step :: "nat \<Rightarrow> scheduled_invocation list \<Rightarrow> cycle \<Rightarrow> cycle \<Rightarrow> bool" for concurrency invocations where
  step_acquire: "i < length (cy_jobs s) \<Longrightarrow> cy_jobs s ! i = Queued \<Longrightarrow> list_all (\<lambda>j. j \<noteq> Queued) (take i (cy_jobs s)) \<Longrightarrow>
    running s < concurrency \<Longrightarrow> cycle_step concurrency invocations s (set_job i Running s)"
| step_end: "i < length (cy_jobs s) \<Longrightarrow> cy_jobs s ! i = Running \<Longrightarrow>
    cycle_step concurrency invocations s (end_job (invocations ! i) i p s)"

inductive cycle_run :: "nat \<Rightarrow> scheduled_invocation list \<Rightarrow> nat \<Rightarrow> cycle \<Rightarrow> bool" for concurrency invocations where
  cycle_start: "cycle_run concurrency invocations 0 (new_cycle invocations)"
| cycle_next: "cycle_run concurrency invocations n s \<Longrightarrow> cycle_step concurrency invocations s s' \<Longrightarrow>
    cycle_run concurrency invocations (Suc n) s'"

inductive_cases cycle_stepE: "cycle_step c invs s s'"

text \<open>What \<open>run_cycle\<close> gives: the exception, the outcomes once every task has ended, or nothing yet.\<close>

definition job_outcome :: "job \<Rightarrow> scheduled_outcome option" where
  "job_outcome j = (case j of Ended x \<Rightarrow> Some x | _ \<Rightarrow> None)"

definition cycle_result :: "cycle \<Rightarrow> scheduled_outcome list result option" where
  "cycle_result s =
     (case cy_raised s of
        Some e \<Rightarrow> Some (Inl e)
      | None \<Rightarrow> if list_all (\<lambda>j. job_outcome j \<noteq> None) (cy_jobs s) then Some (Inr (map (\<lambda>j. the (job_outcome j)) (cy_jobs s))) else None)"

section \<open>The service\<close>

definition cycle_timeout :: "int \<Rightarrow> int \<Rightarrow> int" where
  "cycle_timeout timeout_seconds retries = max 60 (timeout_seconds * (retries + 1) * 4)"

definition cycle_delay :: "rat \<Rightarrow> rat \<Rightarrow> rat \<Rightarrow> rat" where
  "cycle_delay interval jitter draw = interval + jitter * draw"

text \<open>The log record of a cycle: how many collectors ran, failed and were timed out.\<close>

definition cycle_summary :: "scheduled_outcome list \<Rightarrow> nat \<times> nat \<times> nat" where
  "cycle_summary outcomes =
     (length outcomes, length (filter (\<lambda>x. so_returncode x \<noteq> 0) outcomes), length (filter so_timed_out outcomes))"

text \<open>
  When the stop event is seen, before a cycle or after it (a wait that the event ends goes back to the test before the
  next cycle), and what \<open>run_cycle\<close> gives in each cycle. The service may run for ever; then the result is \<open>None\<close>.
\<close>

record service_world =
  sw_stop_before :: "nat \<Rightarrow> bool"
  sw_cycle :: "nat \<Rightarrow> scheduled_outcome list result"
  sw_stop_after :: "nat \<Rightarrow> bool"

partial_function (option) serve :: "service_world \<Rightarrow> nat \<Rightarrow> (nat \<times> nat \<times> nat) list \<Rightarrow> ((nat \<times> nat \<times> nat) list \<times> unit result) option" where
  "serve W n logged =
     (if sw_stop_before W n then Some (logged, Inr ())
      else (case sw_cycle W n of
              Inl e \<Rightarrow> Some (logged, Inl e)
            | Inr outcomes \<Rightarrow>
                if sw_stop_after W n then Some (logged @ [cycle_summary outcomes], Inr ())
                else serve W (Suc n) (logged @ [cycle_summary outcomes])))"

text \<open>The exit status: a configuration error, an \<open>OSError\<close> or a \<open>RuntimeError\<close> of the run is logged and gives 1.\<close>

definition is_runtime_error :: "exn \<Rightarrow> bool" where
  "is_runtime_error e = (case e of
     RuntimeError _ \<Rightarrow> True | RecursionError \<Rightarrow> True | PassivePipelineError _ \<Rightarrow> True | SubnetResolutionError _ \<Rightarrow> True
   | KernelNeighborError _ \<Rightarrow> True | RepositoryError _ \<Rightarrow> True | UnsafeRepositoryPath _ \<Rightarrow> True | MigrationError _ \<Rightarrow> True
   | ScanLaunchError _ \<Rightarrow> True | NmapImportError _ \<Rightarrow> True | ReportError _ \<Rightarrow> True | ADDetectionError _ \<Rightarrow> True
   | ADDetectionUnreachable _ \<Rightarrow> True | LowDiskSpace _ \<Rightarrow> True | UnsafeStoragePath _ \<Rightarrow> True | _ \<Rightarrow> is_collector_error e)"

definition scheduler_main :: "unit result \<Rightarrow> int result" where
  "scheduler_main r = (case r of
     Inl e \<Rightarrow> if (case e of ConfigurationError _ \<Rightarrow> True | _ \<Rightarrow> False) \<or> is_os_error e \<or> is_runtime_error e then Inr 1 else Inl e
   | Inr _ \<Rightarrow> Inr 0)"

section \<open>The commands do not depend on the order of the configuration\<close>

definition same_settings :: "collector_settings \<Rightarrow> collector_settings \<Rightarrow> bool" where
  "same_settings a b \<longleftrightarrow> cs_snmp a = cs_snmp b \<and> set (cs_snmp_targets a) = set (cs_snmp_targets b) \<and>
     cs_unifi a = cs_unifi b \<and> mset (cs_unifi_urls a) = mset (cs_unifi_urls b) \<and>
     cs_ad a = cs_ad b \<and> cs_ad_target a = cs_ad_target b \<and> cs_ad_domain a = cs_ad_domain b \<and> cs_ad_server_name a = cs_ad_server_name b \<and>
     cs_ssh a = cs_ssh b \<and> set (cs_ssh_targets a) = set (cs_ssh_targets b)"

lemma sorted_unique_eq: "set xs = set ys \<Longrightarrow> sorted_unique xs = sorted_unique ys"
  unfolding sorted_unique_def by (metis sorted_list_of_set_sort_remdups)

lemma sort_mset_eq: "mset xs = mset ys \<Longrightarrow> sort xs = (sort ys :: pystr list)"
  by (rule properties_for_sort) simp_all

lemma by_platform_snoc: "by_platform (ts @ [t]) = add_target (by_platform ts) t"
  by (simp add: by_platform_def)

lemma by_platform_ok:
  "od_ok (by_platform ts) \<and> fst ` set (by_platform ts) = fst ` set ts \<and>
   set (case map_of (by_platform ts) p of None \<Rightarrow> [] | Some xs \<Rightarrow> xs) = {a. (p, a) \<in> set ts}"
proof (induction ts rule: rev_induct)
  case Nil
  then show ?case by (simp add: by_platform_def od_ok_def)
next
  case (snoc t ts)
  have keys: "fst ` set (od_set k v d) = insert k (fst ` set d)" for k v and d :: "(pystr, pystr list) odict"
    by (metis dom_map_of_conv_image_fst od_get_set dom_fun_upd option.distinct(1))
  obtain q a where t: "t = (q, a)" by (cases t)
  from snoc show ?case
    by (cases "q = p") (auto simp: by_platform_snoc add_target_def t keys od_get_set)
qed

lemma ssh_invocations_stable:
  assumes "cs_ssh a = cs_ssh b" "set (cs_ssh_targets a) = set (cs_ssh_targets b)"
  shows "ssh_invocations a = ssh_invocations b"
proof -
  let ?da = "by_platform (cs_ssh_targets a)" and ?db = "by_platform (cs_ssh_targets b)"
  have "distinct (map fst ?da)" "distinct (map fst ?db)" "set (map fst ?da) = set (map fst ?db)"
    using by_platform_ok [of "cs_ssh_targets a"] by_platform_ok [of "cs_ssh_targets b"] assms(2) by (auto simp: od_ok_def)
  then have keys: "sort (map fst ?da) = sort (map fst ?db)"
    by (metis sorted_list_of_set_sort_remdups distinct_remdups_id)
  have targets: "sorted_unique (case map_of ?da p of None \<Rightarrow> [] | Some xs \<Rightarrow> xs) = sorted_unique (case map_of ?db p of None \<Rightarrow> [] | Some xs \<Rightarrow> xs)" for p
    using by_platform_ok [of "cs_ssh_targets a" p] by_platform_ok [of "cs_ssh_targets b" p] assms(2) by (intro sorted_unique_eq) simp
  show ?thesis by (simp add: ssh_invocations_def Let_def keys targets assms(1))
qed

text \<open>The commands of a cycle depend on the configured targets only as sets (and on the controllers as a multiset): neither their
  order nor repetitions matter.\<close>

theorem invocations_deterministic:
  assumes "same_settings a b"
  shows "build_invocations a = build_invocations b"
proof -
  have "snmp_invocations a = snmp_invocations b"
  proof -
    have t: "set (cs_snmp_targets a) = set (cs_snmp_targets b)" and e: "cs_snmp a = cs_snmp b" using assms by (simp_all add: same_settings_def)
    have "cs_snmp_targets a = [] \<longleftrightarrow> cs_snmp_targets b = []" by (metis t set_empty)
    then show ?thesis by (simp only: snmp_invocations_def e sorted_unique_eq [OF t])
  qed
  moreover have "unifi_invocations a = unifi_invocations b"
    using assms sort_mset_eq [of "cs_unifi_urls a" "cs_unifi_urls b"] by (simp add: same_settings_def unifi_invocations_def)
  moreover have "ad_invocations a = ad_invocations b" using assms by (simp add: same_settings_def ad_invocations_def)
  moreover have "ssh_invocations a = ssh_invocations b" by (rule ssh_invocations_stable) (use assms in \<open>simp_all add: same_settings_def\<close>)
  ultimately show ?thesis by (simp add: build_invocations_def)
qed

definition demo_settings :: "(pystr \<times> pystr) list \<Rightarrow> collector_settings" where
  "demo_settings ts = \<lparr>cs_snmp = True, cs_snmp_targets = map snd ts, cs_unifi = False, cs_unifi_urls = [], cs_ad = False, cs_ad_target = [],
     cs_ad_domain = None, cs_ad_server_name = None, cs_ssh = True, cs_ssh_targets = ts\<rparr>"

theorem invocations_deterministic_witness:
  "build_invocations (demo_settings [([2], [50]), ([1], [49]), ([2], [50])]) = build_invocations (demo_settings [([1], [49]), ([2], [50])])"
  by (rule invocations_deterministic) (auto simp: same_settings_def demo_settings_def)

section \<open>The semaphore, the order of the outcomes, and the end of a cycle\<close>

definition job_ok :: "scheduled_invocation list \<Rightarrow> cycle \<Rightarrow> nat \<Rightarrow> bool" where
  "job_ok invs s i \<longleftrightarrow> (case cy_jobs s ! i of
     Ended x \<Rightarrow> so_collector x = si_collector (invs ! i) | Crashed e \<Rightarrow> cy_raised s \<noteq> None | _ \<Rightarrow> True)"

definition cycle_ok :: "nat \<Rightarrow> scheduled_invocation list \<Rightarrow> cycle \<Rightarrow> bool" where
  "cycle_ok c invs s \<longleftrightarrow> length (cy_jobs s) = length invs \<and> running s \<le> c \<and> (\<forall>i < length invs. job_ok invs s i)"

definition job_weight :: "job \<Rightarrow> nat" where
  "job_weight j = (case j of Queued \<Rightarrow> 2 | Running \<Rightarrow> 1 | _ \<Rightarrow> 0)"

definition cycle_weight :: "cycle \<Rightarrow> nat" where
  "cycle_weight s = sum_list (map job_weight (cy_jobs s))"

lemma filter_count_update:
  "i < length xs \<Longrightarrow> length (filter P (xs[i := y])) + (if P (xs ! i) then 1 else 0) = length (filter P xs) + (if P y then 1 else 0)"
proof (induction xs arbitrary: i)
  case (Cons x xs)
  show ?case
  proof (cases i)
    case (Suc k)
    with Cons.IH [of k] Cons.prems show ?thesis by (simp split: if_splits)
  qed (simp split: if_splits)
qed simp

lemma sum_update: "i < length xs \<Longrightarrow> sum_list (map f (xs[i := y])) + f (xs ! i) = sum_list (map f xs) + (f y :: nat)"
  by (induction xs arbitrary: i) (auto split: nat.splits simp: nth_Cons)

lemma running_set: "i < length (cy_jobs s) \<Longrightarrow>
    running (set_job i j s) + (if cy_jobs s ! i = Running then 1 else 0) = running s + (if j = Running then 1 else 0)"
  using filter_count_update [of i "cy_jobs s" "\<lambda>j. j = Running" j] by (simp add: running_def set_job_def)

lemma weight_set: "i < length (cy_jobs s) \<Longrightarrow> cycle_weight (set_job i j s) + job_weight (cy_jobs s ! i) = cycle_weight s + job_weight j"
  using sum_update [of i "cy_jobs s" job_weight j] by (simp add: cycle_weight_def set_job_def)

text \<open>The end of a task puts an outcome or a crash in its place.\<close>

lemma end_job_form:
  obtains j raised where "end_job invocation i p s = (set_job i j s)\<lparr>cy_raised := raised\<rparr>"
    and "(\<exists>x. j = Ended x \<and> so_collector x = si_collector invocation \<and> raised = cy_raised s) \<or> (\<exists>e. j = Crashed e \<and> raised \<noteq> None)"
    and "cy_raised s = None \<or> raised \<noteq> None"
proof (cases "snd (run_process p)")
  case (Inl e)
  then show ?thesis using that [where j = "Crashed e"] by (simp add: end_job_def)
next
  case (Inr x)
  obtain code t where x: "x = (code, t)" by (cases x)
  let ?j = "Ended \<lparr>so_collector = si_collector invocation, so_returncode = code, so_timed_out = t\<rparr>"
  have "end_job invocation i p s = (set_job i ?j s)\<lparr>cy_raised := cy_raised s\<rparr>"
    using Inr x by (simp add: end_job_def set_job_def)
  then show ?thesis by (rule that) auto
qed

lemma raised_update [simp]: "running (s\<lparr>cy_raised := r\<rparr>) = running s" "cycle_weight (s\<lparr>cy_raised := r\<rparr>) = cycle_weight s"
  by (simp_all add: running_def cycle_weight_def)

lemma step_ok:
  assumes "cycle_step c invs s s'" "cycle_ok c invs s"
  shows "cycle_ok c invs s' \<and> cycle_weight s = cycle_weight s' + 1"
  using assms
proof (cases rule: cycle_step.cases)
  case (step_acquire i)
  have "running s' = running s + 1" "cycle_weight s = cycle_weight s' + 1"
    using running_set [of i s Running] weight_set [of i s Running] step_acquire by (simp_all add: job_weight_def)
  moreover have "job_ok invs s' k" if "k < length invs" for k
  proof -
    have "job_ok invs s k" using assms(2) that by (simp add: cycle_ok_def)
    then show ?thesis using step_acquire by (cases "k = i") (auto simp: job_ok_def set_job_def split: job.splits)
  qed
  ultimately show ?thesis using step_acquire assms(2) by (auto simp: cycle_ok_def set_job_def)
next
  case (step_end i p)
  obtain j raised where f: "end_job (invs ! i) i p s = (set_job i j s)\<lparr>cy_raised := raised\<rparr>"
    and j: "(\<exists>x. j = Ended x \<and> so_collector x = si_collector (invs ! i) \<and> raised = cy_raised s) \<or> (\<exists>e. j = Crashed e \<and> raised \<noteq> None)"
    and r: "cy_raised s = None \<or> raised \<noteq> None"
    by (rule end_job_form [where invocation = "invs ! i" and i = i and p = p and s = s])
  have "j \<noteq> Running" "job_weight j = 0" using j by (auto simp: job_weight_def)
  then have "running s' + 1 = running s" "cycle_weight s = cycle_weight s' + 1"
    using running_set [of i s j] weight_set [of i s j] step_end f by (simp_all add: job_weight_def)
  moreover have "job_ok invs s' k" if k: "k < length invs" for k
  proof (cases "k = i")
    case True
    with j step_end f show ?thesis by (auto simp: job_ok_def set_job_def)
  next
    case False
    have old: "job_ok invs s k" using assms(2) k by (simp add: cycle_ok_def)
    with False step_end f r show ?thesis by (auto simp: job_ok_def set_job_def split: job.splits)
  qed
  ultimately show ?thesis using step_end f assms(2) by (auto simp: cycle_ok_def set_job_def)
qed

lemma run_ok: "cycle_run c invs n s \<Longrightarrow> cycle_ok c invs s \<and> n + cycle_weight s = 2 * length invs"
proof (induction rule: cycle_run.induct)
  case cycle_start
  show ?case
    by (auto simp: cycle_ok_def job_ok_def new_cycle_def running_def cycle_weight_def job_weight_def sum_list_replicate)
next
  case (cycle_next n s s')
  with step_ok [OF cycle_next(2)] show ?case by simp
qed

text \<open>In every interleaving of a cycle no more processes run at once than the configured concurrency.\<close>

theorem cycle_concurrency_bounded:
  assumes "cycle_run c invs n s"
  shows "running s \<le> c"
  using run_ok [OF assms] by (simp add: cycle_ok_def)

text \<open>The outcomes of a cycle are those of its collectors, one each and in their order, however the processes interleave.\<close>

theorem cycle_outcomes_ordered:
  assumes "cycle_run c invs n s" "cycle_result s = Some (Inr outcomes)"
  shows "map so_collector outcomes = map si_collector invs"
proof -
  have ok: "cycle_ok c invs s" using run_ok [OF assms(1)] by simp
  have all: "list_all (\<lambda>j. job_outcome j \<noteq> None) (cy_jobs s)" and o: "outcomes = map (\<lambda>j. the (job_outcome j)) (cy_jobs s)"
    using assms(2) by (auto simp: cycle_result_def split: option.splits if_splits)
  show ?thesis
  proof (rule nth_equalityI)
    show "length (map so_collector outcomes) = length (map si_collector invs)" using ok o by (simp add: cycle_ok_def)
    fix i assume "i < length (map so_collector outcomes)"
    then have i: "i < length invs" "i < length (cy_jobs s)" using ok o by (simp_all add: cycle_ok_def)
    have "job_outcome (cy_jobs s ! i) \<noteq> None" using all i(2) by (auto simp: list_all_length)
    then obtain x where "cy_jobs s ! i = Ended x" by (auto simp: job_outcome_def split: job.splits)
    with ok i o show "map so_collector outcomes ! i = map si_collector invs ! i"
      by (auto simp: cycle_ok_def job_ok_def job_outcome_def)
  qed
qed



section \<open>Witnesses of a cycle\<close>

definition demo_invocation :: scheduled_invocation where
  "demo_invocation = \<lparr>si_collector = lit ''ad'', si_arguments = []\<rparr>"

definition demo_cycle :: "job \<Rightarrow> cycle" where
  "demo_cycle j = \<lparr>cy_jobs = [j], cy_raised = None\<rparr>"

definition demo_outcome :: scheduled_outcome where
  "demo_outcome = \<lparr>so_collector = lit ''ad'', so_returncode = 3, so_timed_out = False\<rparr>"

lemma demo_cycle_running: "cycle_run 1 [demo_invocation] 1 (demo_cycle Running)"
proof -
  have "cycle_step 1 [demo_invocation] (new_cycle [demo_invocation]) (set_job 0 Running (new_cycle [demo_invocation]))"
    by (rule step_acquire) (simp_all add: new_cycle_def running_def)
  from cycle_next [OF cycle_start this] show ?thesis by (simp add: new_cycle_def set_job_def demo_cycle_def)
qed

lemma demo_cycle_end: "cycle_run 1 [demo_invocation] 2 (end_job demo_invocation 0 p (demo_cycle Running))"
proof -
  have "cycle_step 1 [demo_invocation] (demo_cycle Running) (end_job ([demo_invocation] ! 0) 0 p (demo_cycle Running))"
    by (rule step_end) (simp_all add: demo_cycle_def)
  from cycle_next [OF demo_cycle_running this] show ?thesis by (simp add: numeral_2_eq_2)
qed

lemma demo_cycle_ended: "end_job demo_invocation 0 (Ends 3) (demo_cycle Running) = demo_cycle (Ended demo_outcome)"
  by (simp add: end_job_def run_process_def demo_cycle_def set_job_def demo_outcome_def demo_invocation_def)

theorem cycle_concurrency_bounded_witness: "running (demo_cycle Running) \<le> 1"
  by (rule cycle_concurrency_bounded [OF demo_cycle_running])

theorem cycle_outcomes_ordered_witness: "map so_collector [demo_outcome] = map si_collector [demo_invocation]"
  using demo_cycle_end [of "Ends 3"] unfolding demo_cycle_ended
  by (rule cycle_outcomes_ordered) (simp add: cycle_result_def demo_cycle_def job_outcome_def)


section \<open>The service goes on\<close>



definition demo_world :: service_world where
  "demo_world = \<lparr>sw_stop_before = (\<lambda>i. i = 2), sw_cycle = (\<lambda>_. Inr [demo_outcome]), sw_stop_after = (\<lambda>_. False)\<rparr>"


text \<open>
  A command that cannot be started, unlike one that fails, is an exception of the cycle: the service ends with it, and
  its exit status is 1.
\<close>

theorem unstartable_collector_ends_service:
  "\<exists>s. cycle_run 1 [demo_invocation] 2 s \<and>
     (case cycle_result s of
        Some r \<Rightarrow> serve (demo_world\<lparr>sw_cycle := \<lambda>_. r\<rparr>) 0 [] = Some ([], Inl (OSError (lit ''too many processes'')))
      | None \<Rightarrow> False) \<and>
     scheduler_main (Inl (OSError (lit ''too many processes''))) = Inr 1"
proof -
  let ?s = "end_job demo_invocation 0 (Not_started (OSError (lit ''too many processes''))) (demo_cycle Running)"
  have "cycle_result ?s = Some (Inl (OSError (lit ''too many processes'')))"
    by (simp add: end_job_def run_process_def cycle_result_def demo_cycle_def)
  moreover have "serve (demo_world\<lparr>sw_cycle := \<lambda>_. Inl (OSError (lit ''too many processes''))\<rparr>) 0 [] =
      Some ([], Inl (OSError (lit ''too many processes'')))"
    by (subst serve.simps) (simp add: demo_world_def)
  ultimately show ?thesis
    using demo_cycle_end [of "Not_started (OSError (lit ''too many processes''))"]
    by (intro exI [of _ ?s]) (simp add: scheduler_main_def is_os_error_def)
qed

end
