(* ===== verification/Nmap_Scan.thy ===== *)
theory Nmap_Scan
  imports Subnet Repository
begin

text \<open>
  The launcher of the protected scan script (\<open>nmap_scan.py\<close>): the target is resolved and must be permitted, one
  invocation holds the lock, the run is recorded, the script is inspected and started with a fixed environment, and a
  script that overruns its time is stopped with its process group. What the file system, the lock, the process and
  the clocks answer are the fields of \<open>scan_world\<close>.
\<close>

section \<open>The world of a launch\<close>

datatype scan_root = Root_unreadable | Root_other | Root_directory

datatype scan_lock = Locked | Blocked | Lock_failed exn

datatype script_file = Script_missing | Script_unreadable | Script_special | Script_regular bool "bytes option"

text \<open>
  A process group that is told to stop: already gone, gone after the first signal, gone before the second, ended by
  the second, or a signal is refused.
\<close>

datatype group_life = Gone_at_term | Ends_after_term | Gone_at_kill | Ends_after_kill | Term_refused exn | Kill_refused exn

datatype scan_process = Process_exits int | Process_overruns group_life

record scan_world =
  nw_open :: "unit result"
  nw_root :: scan_root
  nw_lock_opens :: bool
  nw_lock :: scan_lock
  nw_script :: script_file
  nw_start :: "exn + scan_process"
  nw_started :: int
  nw_finished :: int
  nw_elapsed :: rat
  nw_rounded :: "rat \<Rightarrow> rat"
  nw_sha :: "bytes \<Rightarrow> pystr"

datatype scan_signal = Term_group | Kill_group

datatype scan_event = Script_started "pystr list" "(pystr \<times> pystr) list" | Group_signalled scan_signal

record scan_result =
  sr_status :: pystr
  sr_exit_code :: int
  sr_interface :: pystr
  sr_cidr :: pystr
  sr_started_at :: pystr
  sr_finished_at :: pystr
  sr_duration :: rat
  sr_sha256 :: "pystr option"

definition EXIT_TIMEOUT :: int where "EXIT_TIMEOUT = 124"
definition EXIT_MISSING :: int where "EXIT_MISSING = 127"
definition EXIT_CONCURRENT :: int where "EXIT_CONCURRENT = 75"

definition PROTECTED_NMAP_SCRIPT :: pystr where
  "PROTECTED_NMAP_SCRIPT = lit ''/usr/local/sbin/network-discovery-scan.sh''"

definition launch_error :: "string \<Rightarrow> exn" where
  "launch_error s = ScanLaunchError (lit s)"

section \<open>Steps of a launch\<close>

definition open_lock :: "scan_world \<Rightarrow> unit result" where
  "open_lock W =
     (case nw_root W of
        Root_unreadable \<Rightarrow> Inl (launch_error ''cannot prepare the scan invocation lock'')
      | Root_other \<Rightarrow> Inl (launch_error ''configured data root must be a real directory'')
      | Root_directory \<Rightarrow> if nw_lock_opens W then Inr () else Inl (launch_error ''cannot prepare the scan invocation lock''))"

definition script_digest :: "scan_world \<Rightarrow> pystr result" where
  "script_digest W =
     (case nw_script W of
        Script_missing \<Rightarrow> Inl (OSError (lit ''protected nmap script is not installed''))
      | Script_unreadable \<Rightarrow> Inl (launch_error ''protected nmap script cannot be inspected'')
      | Script_special \<Rightarrow> Inl (launch_error ''protected nmap script must be a regular non-link file'')
      | Script_regular executable content \<Rightarrow>
          if \<not> executable then Inl (launch_error ''protected nmap script is not executable'')
          else (case content of
                  None \<Rightarrow> Inl (launch_error ''protected nmap script cannot be read'')
                | Some bs \<Rightarrow> Inr (nw_sha W bs)))"

definition safe_environment :: "subnet_description \<Rightarrow> (pystr \<times> pystr) list" where
  "safe_environment d =
     [(lit ''PATH'', lit ''/usr/local/sbin:/usr/local/bin:/usr/sbin:/usr/bin:/sbin:/bin''), (lit ''LC_ALL'', lit ''C''),
      (lit ''INTERFACE_OVERRIDE'', sd_interface d), (lit ''CIDR_OVERRIDE'', sd_cidr d)]"

definition terminate_group :: "group_life \<Rightarrow> scan_event list \<times> unit result" where
  "terminate_group g = (case g of
     Gone_at_term \<Rightarrow> ([Group_signalled Term_group], Inr ())
   | Ends_after_term \<Rightarrow> ([Group_signalled Term_group], Inr ())
   | Gone_at_kill \<Rightarrow> ([Group_signalled Term_group, Group_signalled Kill_group], Inr ())
   | Ends_after_kill \<Rightarrow> ([Group_signalled Term_group, Group_signalled Kill_group], Inr ())
   | Term_refused e \<Rightarrow> ([Group_signalled Term_group], Inl e)
   | Kill_refused e \<Rightarrow> ([Group_signalled Term_group, Group_signalled Kill_group], Inl e))"

text \<open>The digest, the exit code and the status; an exception the handlers do not name leaves the block.\<close>

definition launch_failed :: "scan_event list \<Rightarrow> pystr option \<Rightarrow> exn \<Rightarrow> scan_event list \<times> (pystr option \<times> int \<times> pystr) result" where
  "launch_failed events digest e =
     (events, (case e of
        ScanLaunchError _ \<Rightarrow> Inr (digest, EXIT_MISSING, lit ''failed'')
      | _ \<Rightarrow> if is_os_error e then Inr (digest, EXIT_MISSING, lit ''failed'') else Inl e))"

definition attempt_scan :: "scan_world \<Rightarrow> subnet_description \<Rightarrow> pystr \<Rightarrow> scan_event list \<times> (pystr option \<times> int \<times> pystr) result" where
  "attempt_scan W d script =
     (case script_digest W of
        Inl e \<Rightarrow> launch_failed [] None e
      | Inr digest \<Rightarrow>
          (case nw_start W of
             Inl e \<Rightarrow> launch_failed [] (Some digest) e
           | Inr p \<Rightarrow>
               (let started = Script_started [script] (safe_environment d)
                in case p of
                     Process_exits code \<Rightarrow>
                       (let exit_code = (if 0 \<le> code then code else 128 + \<bar>code\<bar>)
                        in ([started], Inr (Some digest, exit_code, if exit_code = 0 then lit ''succeeded'' else lit ''failed'')))
                   | Process_overruns g \<Rightarrow>
                       (case terminate_group g of
                          (signals, Inl e) \<Rightarrow> launch_failed (started # signals) (Some digest) e
                        | (signals, Inr _) \<Rightarrow> (started # signals, Inr (Some digest, EXIT_TIMEOUT, lit ''cancelled''))))))"

text \<open>The recorded run: a launch that finds the lock taken is a failed run of no duration.\<close>

definition record_concurrent :: "(pystr \<Rightarrow> pystr) \<Rightarrow> scan_world \<Rightarrow> subnet_description \<Rightarrow> repository \<Rightarrow> repository \<times> scan_result result" where
  "record_concurrent redact W d repo =
     (let timestamp = isoformat (nw_started W) in
      case start_run redact repo None (lit ''nmap-script'') timestamp (Some (sd_interface d)) (Some (sd_cidr d)) of
        Inl e \<Rightarrow> (repo, Inl e)
      | Inr (repo, run) \<Rightarrow>
          (case finish_run repo run (lit ''failed'') timestamp 0 of
             Inl e \<Rightarrow> (repo, Inl e)
           | Inr repo \<Rightarrow> (repo, Inr \<lparr>sr_status = lit ''concurrent'', sr_exit_code = EXIT_CONCURRENT, sr_interface = sd_interface d,
               sr_cidr = sd_cidr d, sr_started_at = timestamp, sr_finished_at = timestamp, sr_duration = 0, sr_sha256 = None\<rparr>)))"

definition record_scan ::
    "(pystr \<Rightarrow> pystr) \<Rightarrow> scan_world \<Rightarrow> subnet_description \<Rightarrow> pystr \<Rightarrow> repository \<Rightarrow> repository \<times> scan_event list \<times> scan_result result" where
  "record_scan redact W d script repo =
     (let started = isoformat (nw_started W); finished = isoformat (nw_finished W) in
      case start_run redact repo None (lit ''nmap-script'') started (Some (sd_interface d)) (Some (sd_cidr d)) of
        Inl e \<Rightarrow> (repo, [], Inl e)
      | Inr (repo, run) \<Rightarrow>
          (case attempt_scan W d script of
             (events, Inl e) \<Rightarrow> (repo, events, Inl e)
           | (events, Inr (digest, exit_code, status)) \<Rightarrow>
               (case finish_run repo run status finished 0 of
                  Inl e \<Rightarrow> (repo, events, Inl e)
                | Inr repo \<Rightarrow> (repo, events, Inr \<lparr>sr_status = status, sr_exit_code = exit_code, sr_interface = sd_interface d,
                    sr_cidr = sd_cidr d, sr_started_at = started, sr_finished_at = finished,
                    sr_duration = nw_rounded W (max 0 (nw_elapsed W)), sr_sha256 = digest\<rparr>))))"

definition check_timeout :: "json \<Rightarrow> int result" where
  "check_timeout v = (case v of
     JInt n \<Rightarrow> if 1 \<le> n \<and> n \<le> 86400 then Inr n else Inl (launch_error ''scan timeout must be from 1 to 86400 seconds'')
   | _ \<Rightarrow> Inl (launch_error ''scan timeout must be an integer''))"

definition permitted_target :: "subnet_description result \<Rightarrow> subnet_description result" where
  "permitted_target r =
     bindR r (\<lambda>d. if sd_active_target_permitted d then Inr d
       else Inl (SubnetResolutionError (lit ''active scan target refused: '' @ join (lit ''; '') (sd_active_target_reasons d))))"

definition run_nmap_scan ::
    "(pystr \<Rightarrow> pystr) \<Rightarrow> unidata \<Rightarrow> (pystr \<Rightarrow> pystr option) \<Rightarrow> (pystr \<Rightarrow> kernel_state result) \<Rightarrow> scan_world \<Rightarrow> fields \<Rightarrow> json \<Rightarrow> pystr
     \<Rightarrow> repository \<Rightarrow> repository \<times> scan_event list \<times> scan_result result" where
  "run_nmap_scan redact U ip6 reader W config timeout script repo =
     (case bindR (check_timeout timeout) (\<lambda>_. bindR (permitted_target (resolve_subnet U ip6 config reader)) (\<lambda>d.
             bindR (nw_open W) (\<lambda>_. bindR (open_lock W) (\<lambda>_. Inr d)))) of
        Inl e \<Rightarrow> (repo, [], Inl e)
      | Inr d \<Rightarrow>
          (case nw_lock W of
             Lock_failed e \<Rightarrow> (repo, [], Inl e)
           | Blocked \<Rightarrow> (case record_concurrent redact W d repo of (repo, r) \<Rightarrow> (repo, [], r))
           | Locked \<Rightarrow> record_scan redact W d script repo))"

section \<open>The script runs only for a permitted target, under the lock\<close>

definition started_scripts :: "scan_event list \<Rightarrow> (pystr list \<times> (pystr \<times> pystr) list) list" where
  "started_scripts events = concat (map (\<lambda>e. case e of Script_started a v \<Rightarrow> [(a, v)] | _ \<Rightarrow> []) events)"

lemma started_scripts_simps [simp]:
  "started_scripts [] = []" "started_scripts (Script_started a v # es) = (a, v) # started_scripts es"
  "started_scripts (Group_signalled g # es) = started_scripts es"
  by (simp_all add: started_scripts_def)

lemma terminate_no_start: "terminate_group g = (signals, r) \<Longrightarrow> started_scripts signals = []"
  by (cases g) (auto simp: terminate_group_def)

lemma attempt_started:
  "started_scripts (fst (attempt_scan W d script)) = [] \<or>
   (started_scripts (fst (attempt_scan W d script)) = [([script], safe_environment d)] \<and> (\<exists>digest. script_digest W = Inr digest))"
  by (auto simp: attempt_scan_def launch_failed_def Let_def dest: terminate_no_start split: sum.splits scan_process.splits prod.splits)

lemma record_scan_started:
  "started_scripts (fst (snd (record_scan redact W d script repo))) = [] \<or>
   (started_scripts (fst (snd (record_scan redact W d script repo))) = [([script], safe_environment d)] \<and> (\<exists>digest. script_digest W = Inr digest))"
  using attempt_started [of W d script]
  by (auto simp: record_scan_def Let_def split: sum.splits prod.splits)

text \<open>C36. When the script is started, it is started once, with the fixed environment of a resolved network that the configuration
  permits, while the lock is held and after the script was found to be an executable regular file.\<close>

theorem scan_only_permitted:
  assumes "run_nmap_scan redact U ip6 reader W config timeout script repo = (repo', events, r)" "started_scripts events \<noteq> []"
  shows "\<exists>d digest. resolve_subnet U ip6 config reader = Inr d \<and> sd_active_target_permitted d \<and> nw_lock W = Locked \<and>
    script_digest W = Inr digest \<and> started_scripts events = [([script], safe_environment d)]"
proof -
  define pre where "pre = bindR (check_timeout timeout) (\<lambda>_. bindR (permitted_target (resolve_subnet U ip6 config reader)) (\<lambda>d.
             bindR (nw_open W) (\<lambda>_. bindR (open_lock W) (\<lambda>_. Inr d))))"
  obtain d where d: "pre = Inr d" and lock: "nw_lock W = Locked" and rec: "record_scan redact W d script repo = (repo', events, r)"
    using assms by (auto simp: run_nmap_scan_def pre_def [symmetric] split: sum.splits scan_lock.splits prod.splits)
  have "resolve_subnet U ip6 config reader = Inr d \<and> sd_active_target_permitted d"
    using d by (auto simp: pre_def permitted_target_def bindR_eq_Inr split: if_splits)
  with lock record_scan_started [of redact W d script repo] rec assms(2) show ?thesis by auto
qed

definition demo_scan_world :: scan_world where
  "demo_scan_world = \<lparr>nw_open = Inr (), nw_root = Root_directory, nw_lock_opens = True, nw_lock = Locked,
     nw_script = Script_regular True (Some []), nw_start = Inr (Process_exits 0), nw_started = 0, nw_finished = 1000000,
     nw_elapsed = 1, nw_rounded = id, nw_sha = (\<lambda>_. [48])\<rparr>"

definition demo_scan_run :: "scan_world \<Rightarrow> repository \<times> scan_event list \<times> scan_result result" where
  "demo_scan_run W = run_nmap_scan id (\<lambda>c. [c]) (\<lambda>s. None) (\<lambda>i. Inr demo_kernel) W demo_subnet_config (JInt 60) (lit ''s'') empty_repository"

lemma demo_scan_result:
  "case demo_scan_run demo_scan_world of (repo', events, r) \<Rightarrow> length (started_scripts events) = 1 \<and> map_sum id sr_status r = Inr (lit ''succeeded'')"
  by code_simp

theorem scan_only_permitted_witness:
  "\<exists>repo' events r. demo_scan_run demo_scan_world = (repo', events, r) \<and> (\<exists>d digest. resolve_subnet (\<lambda>c. [c]) (\<lambda>s. None) demo_subnet_config (\<lambda>i. Inr demo_kernel) = Inr d \<and>
     sd_active_target_permitted d \<and> nw_lock demo_scan_world = Locked \<and> script_digest demo_scan_world = Inr digest \<and>
     started_scripts events = [([lit ''s''], safe_environment d)])"
proof -
  obtain repo' events r where run: "demo_scan_run demo_scan_world = (repo', events, r)" by (cases "demo_scan_run demo_scan_world")
  moreover from this have "started_scripts events \<noteq> []" using demo_scan_result by auto
  ultimately show ?thesis using scan_only_permitted [OF run [unfolded demo_scan_run_def]] by blast
qed

section \<open>Every launch leaves a closed run\<close>

definition recorded_status :: "scan_result \<Rightarrow> pystr" where
  "recorded_status res = (if sr_status res = lit ''concurrent'' then lit ''failed'' else sr_status res)"

lemma attempt_status:
  assumes "attempt_scan W d script = (events, Inr (digest, code, status))"
  shows "status \<in> FINAL_RUN_STATES \<and> status \<noteq> lit ''concurrent'' \<and> (status = lit ''succeeded'' \<longleftrightarrow> code = 0)"
  using assms
  by (auto simp: attempt_scan_def launch_failed_def Let_def FINAL_RUN_STATES_def EXIT_MISSING_def EXIT_TIMEOUT_def
      split: sum.splits scan_process.splits prod.splits exn.splits if_splits)

lemma start_finish:
  assumes "ledger_ok repo" "start_run redact repo dep collector t interface target = Inr (repo1, run)"
    and "finish_run repo1 run status t' n = Inr repo2"
  shows "ledger_ok repo2 \<and> run_status repo run = None \<and> run_status repo2 = (run_status repo)(run \<mapsto> status)"
  using start_run_law [OF assms(1,2)] finish_run_law [OF _ assms(3)] by (auto simp: run_status_def fun_eq_iff)

text \<open>C37. A launch that returns a result has recorded exactly one new run, closed with the status it reports (a launch that found the lock
  taken is a failed run), and the result is a success exactly when the exit code is 0.\<close>

theorem scan_run_closed:
  assumes "ledger_ok repo" "run_nmap_scan redact U ip6 reader W config timeout script repo = (repo', events, Inr res)"
  shows "\<exists>run. run_status repo run = None \<and> ledger_ok repo' \<and> run_status repo' = (run_status repo)(run \<mapsto> recorded_status res) \<and>
    (sr_status res = lit ''succeeded'' \<longleftrightarrow> sr_exit_code res = 0)"
proof -
  define pre where "pre = bindR (check_timeout timeout) (\<lambda>_. bindR (permitted_target (resolve_subnet U ip6 config reader)) (\<lambda>d.
             bindR (nw_open W) (\<lambda>_. bindR (open_lock W) (\<lambda>_. Inr d))))"
  obtain d where d: "pre = Inr d" using assms(2) by (cases pre) (simp_all add: run_nmap_scan_def pre_def [symmetric])
  show ?thesis
  proof (cases "nw_lock W")
    case (Lock_failed e)
    with d assms(2) show ?thesis by (simp add: run_nmap_scan_def pre_def [symmetric])
  next
    case Blocked
    then have rec: "record_concurrent redact W d repo = (repo', Inr res)"
      using d assms(2) by (auto simp: run_nmap_scan_def pre_def [symmetric] split: prod.splits)
    obtain repo1 run where st: "start_run redact repo None (lit ''nmap-script'') (isoformat (nw_started W)) (Some (sd_interface d))
        (Some (sd_cidr d)) = Inr (repo1, run)"
      using rec by (auto simp: record_concurrent_def Let_def split: sum.splits)
    have fin: "finish_run repo1 run (lit ''failed'') (isoformat (nw_started W)) 0 = Inr repo'"
      and res: "sr_status res = lit ''concurrent''" "sr_exit_code res = EXIT_CONCURRENT"
      using rec st by (auto simp: record_concurrent_def Let_def split: sum.splits)
    from start_finish [OF assms(1) st fin] res show ?thesis by (auto simp: recorded_status_def EXIT_CONCURRENT_def)
  next
    case Locked
    then have rec: "record_scan redact W d script repo = (repo', events, Inr res)"
      using d assms(2) by (auto simp: run_nmap_scan_def pre_def [symmetric] split: prod.splits)
    obtain repo1 run where st: "start_run redact repo None (lit ''nmap-script'') (isoformat (nw_started W)) (Some (sd_interface d))
        (Some (sd_cidr d)) = Inr (repo1, run)"
      using rec by (auto simp: record_scan_def Let_def split: sum.splits)
    obtain digest code status where at: "attempt_scan W d script = (events, Inr (digest, code, status))"
      and fin: "finish_run repo1 run status (isoformat (nw_finished W)) 0 = Inr repo'"
      and res: "sr_status res = status" "sr_exit_code res = code"
      using rec st by (auto simp: record_scan_def Let_def split: sum.splits prod.splits)
    from start_finish [OF assms(1) st fin] attempt_status [OF at] res show ?thesis by (auto simp: recorded_status_def)
  qed
qed

lemma empty_ledger_ok: "ledger_ok empty_repository"
  by (simp add: ledger_ok_def empty_repository_def)

theorem scan_run_closed_witness:
  "\<exists>repo' events res run. demo_scan_run demo_scan_world = (repo', events, Inr res) \<and> run_status empty_repository run = None \<and>
     ledger_ok repo' \<and> run_status repo' = (run_status empty_repository)(run \<mapsto> recorded_status res)"
proof -
  obtain repo' events r where run: "demo_scan_run demo_scan_world = (repo', events, r)" by (cases "demo_scan_run demo_scan_world")
  then obtain res where "r = Inr res" using demo_scan_result by (cases r) auto
  with run scan_run_closed [OF empty_ledger_ok, of id "\<lambda>c. [c]" "\<lambda>s. None" "\<lambda>i. Inr demo_kernel" demo_scan_world demo_subnet_config "JInt 60"
      "lit ''s''" repo' events res] show ?thesis unfolding demo_scan_run_def by blast
qed

text \<open>
  The errors the launch can meet after the run is open (a script that is missing, unreadable or cannot be started, a signal
  that is refused) are outcomes of the run, as long as they are \<open>OSError\<close>s and the clock did not go back.
\<close>

lemma ascii_scalar: "list_all is_scalar (dec_digits n)" if "0 \<le> n"
  using dec_digits_ascii [OF that] by (auto simp: list_all_iff is_scalar_def)

lemma pad_scalar: "list_all is_scalar (pad n k)"
proof -
  have "list_all is_scalar (str_int k)" by (simp add: str_int_def ascii_scalar) (simp add: is_scalar_def)
  moreover have "list_all is_scalar (replicate m 48)" for m by (simp add: list_all_iff is_scalar_def)
  ultimately show ?thesis by (simp add: pad_def Let_def)
qed

lemma isoformat_scalar: "list_all is_scalar (isoformat t)"
  by (simp add: isoformat_def Let_def pad_scalar lit_def is_scalar_def split: prod.split)

lemma finish_open_run:
  assumes "ledger_ok repo" "start_run redact repo dep collector t interface target = Inr (repo1, run)"
    and "status \<in> FINAL_RUN_STATES" "t \<le> t'" "list_all is_scalar t'"
  shows "\<exists>repo2. finish_run repo1 run status t' 0 = Inr repo2"
proof -
  obtain r where i: "run = next_id (map rr_id (rp_runs repo))" and s: "repo1 = repo\<lparr>rp_runs := rp_runs repo @ [r]\<rparr>" and r: "rr_id r = run"
    "rr_status r = lit ''running''" "rr_started r = t"
    using start_run_fields [OF assms(2)] by blast
  have new: "rr_id x \<noteq> run" if "x \<in> set (rp_runs repo)" for x
    using next_id_fresh [of "rr_id x" "map rr_id (rp_runs repo)"] that by (auto simp: i)
  have hit: "filter (\<lambda>x. rr_id x = run \<and> rr_status x = lit ''running'') (rp_runs repo1) = [r]"
    using new r by (auto simp: s filter_empty_conv)
  have fine: "\<not> list_ex (\<lambda>x. (rr_id x = run \<and> rr_status x = lit ''running'') \<and> (t' < rr_started x \<or> (0::int) < 0)) (rp_runs repo1)"
    using new r assms(4) by (auto simp: s list_ex_iff)
  show ?thesis using assms(3,5) hit fine unfolding finish_run_def Let_def by (simp add: bind_params_def)
qed

definition os_faults :: "scan_world \<Rightarrow> bool" where
  "os_faults W \<longleftrightarrow> (case nw_start W of Inl e \<Rightarrow> is_os_error e
     | Inr (Process_overruns (Term_refused e)) \<Rightarrow> is_os_error e | Inr (Process_overruns (Kill_refused e)) \<Rightarrow> is_os_error e | _ \<Rightarrow> True)"

lemma launch_failed_os: "is_os_error e \<Longrightarrow> launch_failed events digest e = (events, Inr (digest, EXIT_MISSING, lit ''failed''))"
  by (cases e) (simp_all add: launch_failed_def is_os_error_def)

lemma launch_failed_script: "script_digest W = Inl e \<Longrightarrow> launch_failed events digest e = (events, Inr (digest, EXIT_MISSING, lit ''failed''))"
  by (auto simp: script_digest_def launch_failed_def launch_error_def is_os_error_def split: script_file.splits if_splits option.splits)

lemma attempt_total:
  assumes "os_faults W"
  shows "\<exists>events x. attempt_scan W d script = (events, Inr x)"
proof (cases "script_digest W")
  case (Inl e)
  then show ?thesis by (simp add: attempt_scan_def launch_failed_script)
next
  case (Inr digest)
  show ?thesis
  proof (cases "nw_start W")
    case (Inl e)
    with assms Inr show ?thesis by (simp add: attempt_scan_def os_faults_def launch_failed_os)
  next
    case (Inr p)
    show ?thesis
    proof (cases p)
      case (Process_overruns g)
      with assms Inr \<open>script_digest W = Inr digest\<close> show ?thesis
        by (cases g) (simp_all add: attempt_scan_def os_faults_def terminate_group_def launch_failed_os Let_def)
    qed (use Inr \<open>script_digest W = Inr digest\<close> in \<open>simp add: attempt_scan_def Let_def\<close>)
  qed
qed

text \<open>C38. Once the run is open nothing about the script or its process can make the launch raise or leave the run open: missing, altered
  and unstartable scripts, time-outs and refused signals are all outcomes.\<close>

theorem scan_faults_recorded:
  assumes "ledger_ok repo" "os_faults W" "isoformat (nw_started W) \<le> isoformat (nw_finished W)"
    and "start_run redact repo None (lit ''nmap-script'') (isoformat (nw_started W)) (Some (sd_interface d)) (Some (sd_cidr d)) = Inr (repo1, run)"
  shows "\<exists>repo' events res. record_scan redact W d script repo = (repo', events, Inr res) \<and> run_status repo' run = Some (sr_status res)"
proof -
  obtain events digest code status where at: "attempt_scan W d script = (events, Inr (digest, code, status))"
    using attempt_total [OF assms(2)] by (metis prod_cases3)
  obtain repo2 where fin: "finish_run repo1 run status (isoformat (nw_finished W)) 0 = Inr repo2"
    using finish_open_run [OF assms(1,4) _ assms(3) isoformat_scalar] attempt_status [OF at] by blast
  show ?thesis using start_finish [OF assms(1,4) fin] by (simp add: record_scan_def Let_def assms(4) at fin)
qed

definition demo_target :: subnet_description where
  "demo_target = \<lparr>sd_interface = lit ''eth0'', sd_address = [], sd_cidr = lit ''10.0.3.0/24'', sd_gateway = None, sd_dns_servers = [],
     sd_address_source = [], sd_route_source = None, sd_route_metric = None, sd_active_target_permitted = True, sd_active_target_reasons = []\<rparr>"

definition faulty_world :: scan_world where
  "faulty_world = demo_scan_world\<lparr>nw_start := Inr (Process_overruns (Term_refused (OSError (lit ''EPERM''))))\<rparr>"

theorem scan_faults_recorded_witness:
  "\<exists>run repo' events res. record_scan id faulty_world demo_target (lit ''s'') empty_repository = (repo', events, Inr res) \<and>
     run_status repo' run = Some (sr_status res)"
proof -
  obtain repo1 run where "start_run id empty_repository None (lit ''nmap-script'') (isoformat (nw_started faulty_world))
      (Some (sd_interface demo_target)) (Some (sd_cidr demo_target)) = Inr (repo1, run)"
    by (simp add: start_run_def Let_def bind_params_def isoformat_scalar demo_target_def empty_repository_def lit_def is_scalar_def)
  moreover have "os_faults faulty_world" "isoformat (nw_started faulty_world) \<le> isoformat (nw_finished faulty_world)" by code_simp+
  ultimately show ?thesis using scan_faults_recorded [OF empty_ledger_ok] by blast
qed

text \<open>
  When the clock is set back during the scan, closing the run breaks the table's check: the launch raises although the script
  ran and ended well, and the run stays open.
\<close>

theorem clock_step_leaves_run_open:
  "case demo_scan_run (demo_scan_world\<lparr>nw_started := 1000000, nw_finished := 0\<rparr>) of
     (repo', events, r) \<Rightarrow> length (started_scripts events) = 1 \<and> isl r \<and> map rr_status (rp_runs repo') = [lit ''running'']"
  by code_simp

end
