(* ===== verification/Unifi.thy ===== *)
theory Unifi
  imports Collectors Partition "HOL-Library.Product_Lexorder"
begin

text \<open>
  The UniFi client (\<open>unifi.py\<close>): controller candidates from evidence already collected, the referenced credential, the
  HTTPS exchange without redirects, the client whose every request is checked to be read-only, its login and its bounded
  pages, and the collector. json.loads, URL splitting and joining, the cookie parser, the file system, the helper process
  and what the controller answers are arguments.
\<close>

section \<open>Candidates\<close>

definition unifi_error :: "string \<Rightarrow> exn" where
  "unifi_error s = UniFiError (lit s)"

definition KNOWN_PORTS :: "int list" where
  "KNOWN_PORTS = [443, 8443]"

definition KNOWN_MDNS_TYPES :: "pystr list" where
  "KNOWN_MDNS_TYPES = [lit ''_unifi._tcp'', lit ''_unifi._tcp.local'']"

record unifi_candidate =
  ca_host :: pystr
  ca_port :: int
  ca_sources :: "pystr list"

text \<open>\<open>str(observation.get(key, default))\<close>; the text of a value that is not a string is the runtime's.\<close>

definition text_field :: "(json \<Rightarrow> pystr) \<Rightarrow> fields \<Rightarrow> string \<Rightarrow> string \<Rightarrow> pystr" where
  "text_field show_value d key absent =
     (case fget d key of None \<Rightarrow> lit absent | Some (JStr s) \<Rightarrow> s | Some v \<Rightarrow> show_value v)"

definition strip_end :: "(int \<Rightarrow> bool) \<Rightarrow> pystr \<Rightarrow> pystr" where
  "strip_end p s = rev (dropWhile p (rev s))"

text \<open>The candidate one observation is evidence for, and its source.\<close>

definition candidate_evidence :: "unidata \<Rightarrow> (json \<Rightarrow> pystr) \<Rightarrow> fields \<Rightarrow> ((pystr \<times> int) \<times> pystr) option" where
  "candidate_evidence U show_value d =
     (case (fget d ''host'', fget d ''port'') of
        (Some (JStr host), Some (JInt port)) \<Rightarrow>
          if host = [] then None
          else (let service = casefold U (text_field show_value d ''service'' '''');
                    hostname = casefold U (text_field show_value d ''hostname'' '''');
                    mdns_type = strip_end (\<lambda>c. c = 46) (casefold U (text_field show_value d ''mdns_type'' ''''));
                    src = text_field show_value d ''source'' ''evidence'';
                    explicit_unifi = (contains_text (lit ''unifi'') service \<or> mdns_type \<in> set KNOWN_MDNS_TYPES);
                    controller_name = list_ex (\<lambda>w. contains_text (lit w) hostname) [''unifi'', ''controller'', ''cloudkey'']
                in if \<not> explicit_unifi \<and> \<not> (port \<in> set KNOWN_PORTS \<and> controller_name) then None
                   else if \<not> (1 \<le> port \<and> port < 65536) then None
                   else Some ((host, port), src))
      | _ \<Rightarrow> None)"

definition found_candidates :: "unidata \<Rightarrow> (json \<Rightarrow> pystr) \<Rightarrow> fields list \<Rightarrow> (pystr \<times> int, ((pystr \<times> int) \<times> pystr) list) odict" where
  "found_candidates U show_value observations = group_by fst (List.map_filter (candidate_evidence U show_value) observations)"

definition candidate_of :: "pystr \<times> int \<Rightarrow> pystr list \<Rightarrow> unifi_candidate" where
  "candidate_of k sources = \<lparr>ca_host = fst k, ca_port = snd k, ca_sources = sort (remdups sources)\<rparr>"

definition discover_candidates :: "unidata \<Rightarrow> (json \<Rightarrow> pystr) \<Rightarrow> fields list \<Rightarrow> unifi_candidate list" where
  "discover_candidates U show_value observations =
     map (\<lambda>(k, es). candidate_of k (map snd es)) (sort_key fst (found_candidates U show_value observations))"

section \<open>Credentials\<close>

definition MAX_UNIFI_SECRET :: int where
  "MAX_UNIFI_SECRET = 16384"

record unifi_credentials =
  uf_username :: pystr
  uf_password :: pystr

definition unifi_credentials_of :: "(pystr \<Rightarrow> json option) \<Rightarrow> pystr \<Rightarrow> unifi_credentials result" where
  "unifi_credentials_of loads v =
     (case loads v of
        None \<Rightarrow> Inl (unifi_error ''referenced UniFi credential has an invalid format'')
      | Some (JDict d) \<Rightarrow>
          if set (map fst d) \<noteq> {lit ''username'', lit ''password''}
          then Inl (unifi_error ''referenced UniFi credential must contain username and password'')
          else (case (fget d ''username'', fget d ''password'') of
                  (Some (JStr u), Some (JStr p)) \<Rightarrow>
                    if u = [] \<or> length p < 4 then Inl (unifi_error ''referenced UniFi credential fields are invalid'')
                    else Inr \<lparr>uf_username = u, uf_password = p\<rparr>
                | _ \<Rightarrow> Inl (unifi_error ''referenced UniFi credential fields are invalid''))
      | Some _ \<Rightarrow> Inl (unifi_error ''referenced UniFi credential must contain username and password''))"

text \<open>A credential file: whether it is regular, its mode, whether a trusted user owns it, and its content or a read error.\<close>

datatype unifi_secret_file = No_secret_file | Unifi_file bool int bool "bytes option"

fun first_value :: "pystr \<Rightarrow> pystr list \<Rightarrow> pystr option" where
  "first_value key [] = None"
| "first_value key (l # ls) = (case partition_equals l of Some (k, v) \<Rightarrow> if k = key then Some v else first_value key ls | None \<Rightarrow> first_value key ls)"

definition file_secret :: "unifi_secret_file \<Rightarrow> pystr \<Rightarrow> pystr option result" where
  "file_secret f key =
     (case f of
        No_secret_file \<Rightarrow> Inl (unifi_error ''UniFi credential file is unavailable'')
      | Unifi_file regular mode trusted raw \<Rightarrow>
          if \<not> regular then Inl (unifi_error ''UniFi credential file must be a regular file'')
          else if mode \<noteq> 384 \<or> \<not> trusted then Inl (unifi_error ''UniFi credential file ownership or mode is unsafe'')
          else (case raw of
                  None \<Rightarrow> Inl (unifi_error ''UniFi credential file is unavailable'')
                | Some bs \<Rightarrow>
                    if int (length bs) > MAX_UNIFI_SECRET then Inl (unifi_error ''UniFi credential file exceeds the size limit'')
                    else (case utf8_decode bs of
                            None \<Rightarrow> Inl (ValueError (lit ''invalid utf-8''))
                          | Some s \<Rightarrow> Inr (first_value key (split_lines s)))))"

text \<open>The helper: it fails or times out, or ends with a status and its output decoded as text.\<close>

definition helper_secret :: "(pystr \<Rightarrow> (int \<times> pystr) option) \<Rightarrow> bool \<Rightarrow> pystr \<Rightarrow> pystr option result" where
  "helper_secret run timeout_is_int key =
     (if \<not> timeout_is_int then Inl (unifi_error ''UniFi credential command timeout is invalid'')
      else (case run (key @ [10]) of
              None \<Rightarrow> Inl (unifi_error ''UniFi credential command failed'')
            | Some (code, stdout) \<Rightarrow>
                if code \<noteq> 0 then Inl (unifi_error ''UniFi credential command failed'')
                else bindR (utf8_encode stdout) (\<lambda>raw.
                  if int (length raw) > MAX_UNIFI_SECRET then Inl (unifi_error ''UniFi credential command failed'')
                  else Inr (Some (strip_end (\<lambda>c. c = 13 \<or> c = 10) stdout)))))"

datatype unifi_provider = File_provider unifi_secret_file | Helper_provider "pystr \<Rightarrow> (int \<times> pystr) option" bool | No_provider_type

definition resolve_credentials ::
    "(pystr \<Rightarrow> json option) \<Rightarrow> (pystr \<times> unifi_provider) list \<Rightarrow> credential_reference \<Rightarrow> unifi_credentials result" where
  "resolve_credentials loads providers reference =
     (case map_of providers (cr_provider reference) of
        None \<Rightarrow> Inl (unifi_error ''UniFi credential provider is unavailable'')
      | Some p \<Rightarrow>
          bindR (case p of
                   File_provider f \<Rightarrow> file_secret f (cr_key reference)
                 | Helper_provider run timeout_is_int \<Rightarrow> helper_secret run timeout_is_int (cr_key reference)
                 | No_provider_type \<Rightarrow> Inl (unifi_error ''UniFi credential provider type is unsupported'')) (\<lambda>secret.
            case secret of
              Some (c # cs) \<Rightarrow> unifi_credentials_of loads (c # cs)
            | _ \<Rightarrow> Inl (unifi_error ''referenced UniFi credential is unavailable'')))"

section \<open>The HTTPS exchange\<close>

record http_response =
  hr_status :: int
  hr_headers :: "(pystr, pystr) odict"
  hr_body :: bytes

text \<open>
  What \<open>opener.open\<close> ends with: a response or an error status, each with its header lines and body, a certificate that
  fails verification, or another failure of the connection. urllib wraps what fails while connecting, the certificate
  included, in a \<open>URLError\<close>.
\<close>

datatype exchange = Answered int "(pystr \<times> pystr) list" bytes | Error_status int "(pystr \<times> pystr) list" bytes | Bad_certificate | Connection_failed

datatype url_exception = Url_error | Certificate_error | Status_error int "(pystr \<times> pystr) list" bytes

definition opener_open :: "exchange \<Rightarrow> url_exception + int \<times> (pystr \<times> pystr) list \<times> bytes" where
  "opener_open x = (case x of
     Answered code headers body \<Rightarrow> Inr (code, headers, body)
   | Error_status code headers body \<Rightarrow> Inl (Status_error code headers body)
   | Bad_certificate \<Rightarrow> Inl Url_error
   | Connection_failed \<Rightarrow> Inl Url_error)"

text \<open>\<open>dict(headers.items())\<close>: of repeated header lines the last value stays.\<close>

definition header_dict :: "(pystr \<times> pystr) list \<Rightarrow> (pystr, pystr) odict" where
  "header_dict headers = foldl (\<lambda>d kv. od_set (fst kv) (snd kv) d) [] headers"

definition bounded_response :: "int \<Rightarrow> int \<Rightarrow> (pystr \<times> pystr) list \<Rightarrow> bytes \<Rightarrow> http_response result" where
  "bounded_response limit code headers body =
     (if int (length body) > limit then Inl (unifi_error ''UniFi response exceeds the size limit'')
      else Inr \<lparr>hr_status = code, hr_headers = header_dict headers, hr_body = body\<rparr>)"

definition stdlib_request :: "int \<Rightarrow> exchange \<Rightarrow> http_response result" where
  "stdlib_request limit x =
     (case opener_open x of
        Inr (code, headers, body) \<Rightarrow> bounded_response limit code headers body
      | Inl (Status_error code headers body) \<Rightarrow> bounded_response limit code headers body
      | Inl Certificate_error \<Rightarrow> Inl (unifi_error ''UniFi controller certificate verification failed'')
      | Inl Url_error \<Rightarrow> Inl (RetryableCollectorError (lit ''UniFi controller transport failed'')))"

section \<open>The endpoint and the client\<close>

record url_parts =
  ur_scheme :: pystr
  ur_hostname :: "pystr option"
  ur_username :: "pystr option"
  ur_password :: "pystr option"

record unifi_endpoint =
  ue_url :: pystr
  ue_api_type :: pystr
  ue_verify_tls :: bool
  ue_allow_self_signed :: bool
  ue_timeout :: rat

definition given_text :: "pystr option \<Rightarrow> bool" where
  "given_text v \<longleftrightarrow> (case v of None \<Rightarrow> False | Some s \<Rightarrow> s \<noteq> [])"

definition new_endpoint :: "(pystr \<Rightarrow> url_parts) \<Rightarrow> unifi_endpoint \<Rightarrow> unifi_endpoint result" where
  "new_endpoint split_url e =
     (let parts = split_url (ue_url e) in
      if ur_scheme parts \<noteq> lit ''https'' \<or> \<not> given_text (ur_hostname parts) \<or> given_text (ur_username parts) \<or> given_text (ur_password parts)
      then Inl (unifi_error ''UniFi endpoint must be an HTTPS URL without credentials'')
      else if ue_api_type e \<notin> {lit ''modern'', lit ''legacy''} then Inl (unifi_error ''UniFi endpoint API type must be modern or legacy'')
      else if \<not> ue_verify_tls e \<and> \<not> ue_allow_self_signed e
      then Inl (unifi_error ''disabled UniFi TLS verification requires explicit self-signed opt-in'')
      else if ue_timeout e \<le> 0 then Inl (unifi_error ''UniFi endpoint timeout must be positive'')
      else Inr e)"

record http_request =
  hq_method :: pystr
  hq_url :: pystr
  hq_headers :: "(pystr, pystr) odict"
  hq_body :: "bytes option"
  hq_verify_tls :: bool

text \<open>The client: its endpoint and bounds, the headers a login leaves, and the requests sent so far.\<close>

record unifi_client =
  uc_endpoint :: unifi_endpoint
  uc_page_size :: nat
  uc_max_pages :: nat
  uc_max_items :: nat
  uc_headers :: "(pystr, pystr) odict"
  uc_sent :: "http_request list"

text \<open>The controller's answer to the n-th request, and the library's parts.\<close>

record unifi_env =
  ux_answer :: "nat \<Rightarrow> http_request \<Rightarrow> http_response result"
  ux_loads :: "bytes \<Rightarrow> json option"
  ux_join :: "pystr \<Rightarrow> pystr \<Rightarrow> pystr"
  ux_cookies :: "pystr \<Rightarrow> (pystr \<times> pystr) list"
  ux_unidata :: unidata
  ux_show :: "json \<Rightarrow> pystr"

definition LOGIN_PATHS :: "(pystr \<times> pystr) list" where
  "LOGIN_PATHS = [(lit ''modern'', lit ''/api/auth/login''), (lit ''legacy'', lit ''/api/login'')]"

definition RESOURCE_PATHS :: "(pystr \<times> pystr) list" where
  "RESOURCE_PATHS =
     [(lit ''devices'', lit ''stat/device''), (lit ''clients'', lit ''stat/sta''), (lit ''networks'', lit ''rest/networkconf''),
      (lit ''wlans'', lit ''rest/wlanconf''), (lit ''profiles'', lit ''rest/portconf''), (lit ''alarms'', lit ''stat/alarm''),
      (lit ''events'', lit ''stat/event'')]"

definition READ_ONLY_RESOURCES :: "pystr list" where
  "READ_ONLY_RESOURCES =
     [lit ''sites'', lit ''devices'', lit ''clients'', lit ''networks'', lit ''wlans'', lit ''profiles'', lit ''alarms'', lit ''events'']"

text \<open>
  \<open>urlsplit\<close> of a path that starts with one slash: it drops tabs and line ends, has no scheme, a network location when two
  slashes then lead, and a fragment after the first number sign.
\<close>

definition split_clean :: "pystr \<Rightarrow> pystr" where
  "split_clean path = filter (\<lambda>c. c \<notin> {9, 10, 13}) path"

definition path_netloc :: "pystr \<Rightarrow> pystr" where
  "path_netloc path =
     (let p = split_clean path in if take 2 p = lit ''//'' then takeWhile (\<lambda>c. c \<notin> {47, 63, 35}) (drop 2 p) else [])"

definition path_fragment :: "pystr \<Rightarrow> pystr" where
  "path_fragment path = tl (dropWhile (\<lambda>c. c \<noteq> 35) (split_clean path))"

definition origin_relative :: "pystr \<Rightarrow> bool" where
  "origin_relative path \<longleftrightarrow> take 1 path = lit ''/'' \<and> take 2 path \<noteq> lit ''//'' \<and> path_netloc path = [] \<and> path_fragment path = []"

definition no_float :: "rat \<Rightarrow> pystr" where
  "no_float r = []"

definition unifi_request :: "unifi_env \<Rightarrow> unifi_client \<Rightarrow> pystr \<Rightarrow> pystr \<Rightarrow> fields option \<Rightarrow> unifi_client \<times> http_response result" where
  "unifi_request E c verb path payload =
     (let read_request = (verb = lit ''GET'' \<and> payload = None);
          login_request = (verb = lit ''POST'' \<and> Some path = map_of LOGIN_PATHS (ue_api_type (uc_endpoint c)))
      in if \<not> origin_relative path \<or> \<not> (read_request \<or> login_request)
         then (c, Inl (unifi_error ''UniFi client refused a non-read-only operation''))
         else (case (case payload of None \<Rightarrow> Inr None | Some d \<Rightarrow> map_sum id Some (utf8_encode (json_dumps True (lit '','') (lit '':'') no_float (JDict d)))) of
                 Inl e \<Rightarrow> (c, Inl e)
               | Inr body \<Rightarrow>
                   (let headers = foldl (\<lambda>d kv. od_set (fst kv) (snd kv) d) [(lit ''Accept'', lit ''application/json'')] (uc_headers c);
                        headers = (if body = None then headers else od_set (lit ''Content-Type'') (lit ''application/json'') headers);
                        q = \<lparr>hq_method = verb,
                          hq_url = ux_join E (strip_end (\<lambda>x. x = 47) (ue_url (uc_endpoint c)) @ lit ''/'') (dropWhile (\<lambda>x. x = 47) path),
                          hq_headers = headers, hq_body = body, hq_verify_tls = ue_verify_tls (uc_endpoint c)\<rparr>
                    in (c\<lparr>uc_sent := uc_sent c @ [q]\<rparr>, ux_answer E (length (uc_sent c)) q))))"

definition unifi_document :: "unifi_env \<Rightarrow> http_response \<Rightarrow> json result" where
  "unifi_document E r =
     (if hr_body r = [] then Inr (JDict [])
      else (case ux_loads E (hr_body r) of None \<Rightarrow> Inl (unifi_error ''UniFi controller returned invalid JSON'') | Some v \<Rightarrow> Inr v))"

definition requires_mfa :: "unifi_env \<Rightarrow> json \<Rightarrow> bool" where
  "requires_mfa E v =
     (case v of
        JDict d \<Rightarrow> list_ex (\<lambda>k. let s = casefold (ux_unidata E) (text_field (ux_show E) d k '''') in
          contains_text (lit ''mfa'') s \<or> contains_text (lit ''2fa'') s) [''error'', ''message'', ''code'']
      | _ \<Rightarrow> False)"

definition legacy_error :: "json \<Rightarrow> bool" where
  "legacy_error v =
     (case v of
        JDict d \<Rightarrow> (case fget d ''meta'' of Some (JDict m) \<Rightarrow> fget m ''rc'' = Some (jstr ''error'') | _ \<Rightarrow> False)
      | _ \<Rightarrow> False)"

definition header_value :: "unidata \<Rightarrow> (pystr, pystr) odict \<Rightarrow> string \<Rightarrow> pystr option" where
  "header_value U headers name = map_option snd (find (\<lambda>kv. casefold U (fst kv) = casefold U (lit name)) headers)"

definition cookie_header :: "unifi_env \<Rightarrow> (pystr, pystr) odict \<Rightarrow> pystr option" where
  "cookie_header E headers =
     (case header_value (ux_unidata E) headers ''set-cookie'' of
        None \<Rightarrow> None
      | Some v \<Rightarrow>
          if v = [] then None
          else (let s = join (lit ''; '') (map (\<lambda>(k, m). k @ lit ''='' @ m) (sort_key fst (ux_cookies E v))) in if s = [] then None else Some s))"

definition login_payload :: "unifi_client \<Rightarrow> unifi_credentials \<Rightarrow> fields" where
  "login_payload c cred =
     [(lit ''username'', JStr (uf_username cred)), (lit ''password'', JStr (uf_password cred))] @
     (if ue_api_type (uc_endpoint c) = lit ''modern'' then [(lit ''rememberMe'', JBool False)] else [])"

definition add_header :: "string \<Rightarrow> pystr option \<Rightarrow> unifi_client \<Rightarrow> unifi_client" where
  "add_header name v c = (case v of None \<Rightarrow> c | Some s \<Rightarrow> if s = [] then c else c\<lparr>uc_headers := od_set (lit name) s (uc_headers c)\<rparr>)"

definition status_error :: "string \<Rightarrow> int \<Rightarrow> exn" where
  "status_error s code = UniFiError (lit s @ lit '' failed with HTTP status '' @ str_int code)"

definition accept_login :: "unifi_env \<Rightarrow> unifi_client \<Rightarrow> http_response \<Rightarrow> unifi_client \<times> unit result" where
  "accept_login E c r =
     (case unifi_document E r of
        Inl e \<Rightarrow> (c, Inl e)
      | Inr document \<Rightarrow>
          if hr_status r \<in> {401, 403} then (c, Inl (CollectorAuthenticationError (lit ''referenced UniFi credential was rejected'')))
          else if hr_status r \<in> {409, 412} \<or> requires_mfa E document
          then (c, Inl (UniFiUnsupportedAuthentication (lit ''UniFi controller requires unsupported MFA'')))
          else if hr_status r < 200 \<or> 300 \<le> hr_status r \<or> legacy_error document then (c, Inl (status_error ''UniFi login'' (hr_status r)))
          else (add_header ''X-CSRF-Token'' (header_value (ux_unidata E) (hr_headers r) ''x-csrf-token'')
                  (add_header ''Cookie'' (cookie_header E (hr_headers r)) c), Inr ()))"

definition unifi_login :: "unifi_env \<Rightarrow> unifi_client \<Rightarrow> unifi_credentials \<Rightarrow> unifi_client \<times> unit result" where
  "unifi_login E c cred =
     (let path = (if ue_api_type (uc_endpoint c) = lit ''modern'' then lit ''/api/auth/login'' else lit ''/api/login'') in
      case unifi_request E c (lit ''POST'') path (Some (login_payload c cred)) of
        (c, Inl e) \<Rightarrow> (c, Inl e)
      | (c, Inr r) \<Rightarrow> accept_login E c r)"

text \<open>\<open>urlencode\<close> of the two page parameters.\<close>

definition page_query :: "unifi_client \<Rightarrow> nat \<Rightarrow> pystr" where
  "page_query c page = lit ''_start='' @ str_int (int (page * uc_page_size c)) @ lit ''&_limit='' @ str_int (int (uc_page_size c))"

definition page_items :: "unifi_env \<Rightarrow> http_response \<Rightarrow> json list result" where
  "page_items E r =
     (if hr_status r \<in> {401, 403} then Inl (CollectorAuthenticationError (lit ''UniFi controller denied read access''))
      else if hr_status r < 200 \<or> 300 \<le> hr_status r then Inl (status_error ''UniFi read'' (hr_status r))
      else bindR (unifi_document E r) (\<lambda>document.
        case (case document of JDict d \<Rightarrow> fget d ''data'' | _ \<Rightarrow> None) of
          Some (JList xs) \<Rightarrow> Inr xs
        | _ \<Rightarrow> Inl (unifi_error ''UniFi response does not contain a data list'')))"

text \<open>The loop over the pages: the pages left, the number of the next and the items so far.\<close>

fun page_loop :: "unifi_env \<Rightarrow> pystr \<Rightarrow> nat \<Rightarrow> nat \<Rightarrow> json list \<Rightarrow> unifi_client \<Rightarrow> unifi_client \<times> json list result" where
  "page_loop E base 0 page items c = (c, Inr items)"
| "page_loop E base (Suc n) page items c =
     (case unifi_request E c (lit ''GET'') (base @ lit ''?'' @ page_query c page) None of
        (c, Inl e) \<Rightarrow> (c, Inl e)
      | (c, Inr r) \<Rightarrow>
          (case page_items E r of
             Inl e \<Rightarrow> (c, Inl e)
           | Inr xs \<Rightarrow>
               (let items = items @ take (uc_max_items c - length items) xs
                in if uc_max_items c \<le> length items \<or> length xs < uc_page_size c then (c, Inr items)
                   else page_loop E base n (Suc page) items c)))"

definition resource_base :: "unifi_client \<Rightarrow> pystr \<Rightarrow> pystr \<Rightarrow> pystr" where
  "resource_base c resource site =
     (let start = (if ue_api_type (uc_endpoint c) = lit ''modern'' then lit ''/proxy/network'' else []) in
      if resource = lit ''sites'' then start @ lit ''/api/self/sites''
      else start @ lit ''/api/s/'' @ site @ lit ''/'' @ (case map_of RESOURCE_PATHS resource of None \<Rightarrow> [] | Some p \<Rightarrow> p))"

definition get_pages :: "unifi_env \<Rightarrow> unifi_client \<Rightarrow> pystr \<Rightarrow> pystr \<Rightarrow> unifi_client \<times> json list result" where
  "get_pages E c resource site =
     (if resource \<notin> set READ_ONLY_RESOURCES then (c, Inl (unifi_error ''UniFi resource is not on the read-only allowlist''))
      else page_loop E (resource_base c resource site) (uc_max_pages c) 0 [] c)"

definition new_unifi_client :: "unifi_endpoint \<Rightarrow> int \<Rightarrow> int \<Rightarrow> int \<Rightarrow> unifi_client result" where
  "new_unifi_client e page_size max_pages max_items =
     (if page_size < 1 \<or> max_pages < 1 \<or> max_items < 1 then Inl (unifi_error ''UniFi pagination bounds must be positive'')
      else Inr \<lparr>uc_endpoint = e, uc_page_size = nat page_size, uc_max_pages = nat max_pages, uc_max_items = nat max_items,
        uc_headers = [], uc_sent = []\<rparr>)"

definition unifi_collect ::
    "unifi_env \<Rightarrow> (credential_reference \<Rightarrow> unifi_credentials result) \<Rightarrow> unifi_client \<Rightarrow> credential_reference option
     \<Rightarrow> unifi_client \<times> collector_result result" where
  "unifi_collect E load c reference =
     (case reference of
        None \<Rightarrow> (c, Inl (unifi_error ''UniFi collection requires a credential reference''))
      | Some ref \<Rightarrow>
          (case load ref of
             Inl e \<Rightarrow> (c, Inl e)
           | Inr cred \<Rightarrow>
               (case unifi_login E c cred of
                  (c, Inl e) \<Rightarrow> (c, Inl e)
                | (c, Inr _) \<Rightarrow>
                    (case get_pages E c (lit ''sites'') (lit ''default'') of
                       (c, Inl e) \<Rightarrow> (c, Inl e)
                     | (c, Inr sites) \<Rightarrow> (c, new_result (int (length sites)) [])))))"

section \<open>Candidates depend on the evidence as a set\<close>

lemma sort_key_map_pairs: "sort_key fst (map (\<lambda>k. (k, F k)) ks) = map (\<lambda>k. (k, F k)) (sort ks)"
proof -
  have ins: "insort_key fst (k, F k) (map (\<lambda>k. (k, F k)) ys) = map (\<lambda>k. (k, F k)) (insort k ys)" for k ys
    by (induction ys) auto
  show ?thesis by (induction ks) (simp_all add: ins)
qed

lemma group_by_form:
  "sort_key fst (group_by f xs) = map (\<lambda>k. (k, filter (\<lambda>x. f x = k) xs)) (sort (remdups (map f xs)))"
proof -
  let ?g = "group_by f xs"
  have "(fst g, filter (\<lambda>x. f x = fst g) xs) = g" if "g \<in> set ?g" for g
    using that group_by_mem [of "fst g" "snd g" f xs] by (simp add: prod_eq_iff)
  then have "map (\<lambda>g. (fst g, filter (\<lambda>x. f x = fst g) xs)) ?g = ?g" by (intro map_idI) simp
  then have "?g = map (\<lambda>k. (k, filter (\<lambda>x. f x = k) xs)) (map fst ?g)" by (simp add: comp_def)
  then have "sort_key fst ?g = map (\<lambda>k. (k, filter (\<lambda>x. f x = k) xs)) (sort (map fst ?g))"
    by (metis sort_key_map_pairs)
  moreover have "sort (map fst ?g) = sort (remdups (map f xs))"
  proof -
    have "distinct (map fst ?g)" "set (map fst ?g) = set (map f xs)"
      using group_by_ok [of f xs] group_by_keys [of f xs] by (simp_all add: od_ok_def)
    then show ?thesis by (metis distinct_remdups_id sorted_list_of_set_sort_remdups)
  qed
  ultimately show ?thesis by simp
qed

definition candidate_table :: "((pystr \<times> int) \<times> pystr) set \<Rightarrow> unifi_candidate list" where
  "candidate_table ev = map (\<lambda>k. candidate_of k (sorted_list_of_set {s. (k, s) \<in> ev})) (sorted_list_of_set (fst ` ev))"

lemma candidate_of_set: "set xs = set ys \<Longrightarrow> candidate_of k xs = candidate_of k ys"
  unfolding candidate_of_def by (metis sorted_list_of_set_sort_remdups)

text \<open>The candidates are exactly one per host and port that some observation is evidence for, in order, each with all its sources:
  they depend on the observations only as a set.\<close>

theorem candidates_exact:
  "discover_candidates U show_value observations = candidate_table {e. \<exists>d \<in> set observations. candidate_evidence U show_value d = Some e}"
proof -
  let ?ev = "List.map_filter (candidate_evidence U show_value) observations"
  let ?E = "{e. \<exists>d \<in> set observations. candidate_evidence U show_value d = Some e}"
  have mem: "set (List.map_filter f ys) = {e. \<exists>d \<in> set ys. f d = Some e}" for f :: "fields \<Rightarrow> ((pystr \<times> int) \<times> pystr) option" and ys
    by (induction ys) (auto simp: List.map_filter_simps split: option.splits)
  have set: "set ?ev = ?E" by (rule mem)
  have part: "set (map snd (filter (\<lambda>x. fst x = k) ev)) = {s. (k, s) \<in> set ev}" for k :: "pystr \<times> int" and ev :: "((pystr \<times> int) \<times> pystr) list"
    by (induction ev) auto
  have fin: "finite {s. (k, s) \<in> ?E}" for k
    unfolding set [symmetric] part [symmetric] by simp
  have sources: "candidate_of k (map snd (filter (\<lambda>x. fst x = k) ?ev)) = candidate_of k (sorted_list_of_set {s. (k, s) \<in> ?E})" for k
    by (rule candidate_of_set) (simp only: part set set_sorted_list_of_set [OF fin])
  have keys: "sort (remdups (map fst ?ev)) = sorted_list_of_set (fst ` ?E)"
    by (simp only: sorted_list_of_set_sort_remdups [symmetric] set_map set)
  show ?thesis
    unfolding discover_candidates_def found_candidates_def group_by_form candidate_table_def keys by (simp add: sources)
qed

section \<open>Every request only reads\<close>

definition login_path :: "unifi_endpoint \<Rightarrow> pystr" where
  "login_path e = (if ue_api_type e = lit ''modern'' then lit ''/api/auth/login'' else lit ''/api/login'')"

definition request_url :: "unifi_env \<Rightarrow> unifi_endpoint \<Rightarrow> pystr \<Rightarrow> pystr" where
  "request_url E e path = ux_join E (strip_end (\<lambda>x. x = 47) (ue_url e) @ lit ''/'') (dropWhile (\<lambda>x. x = 47) path)"

definition only_reads :: "unifi_env \<Rightarrow> unifi_endpoint \<Rightarrow> http_request \<Rightarrow> bool" where
  "only_reads E e q \<longleftrightarrow> hq_method q = lit ''GET'' \<and> hq_body q = None \<or>
     hq_method q = lit ''POST'' \<and> hq_url q = request_url E e (login_path e)"

definition sent_more :: "unifi_env \<Rightarrow> unifi_client \<Rightarrow> unifi_client \<Rightarrow> bool" where
  "sent_more E c c' \<longleftrightarrow> uc_endpoint c' = uc_endpoint c \<and> (\<exists>new. uc_sent c' = uc_sent c @ new \<and> list_all (only_reads E (uc_endpoint c)) new)"

lemma sent_more_refl [simp]: "sent_more E c c"
  by (simp add: sent_more_def)

lemma sent_more_trans: "sent_more E a b \<Longrightarrow> sent_more E b c \<Longrightarrow> sent_more E a c"
  by (fastforce simp: sent_more_def)

lemma login_path_of: "Some path = map_of LOGIN_PATHS t \<Longrightarrow> path = login_path (e\<lparr>ue_api_type := t\<rparr>)"
  by (auto simp: LOGIN_PATHS_def login_path_def split: if_splits)

lemma request_sends:
  assumes "unifi_request E c verb path payload = (c', r)"
  shows "sent_more E c c' \<and> length (uc_sent c') \<le> length (uc_sent c) + 1"
proof -
  have "path = login_path (uc_endpoint c)" if "Some path = map_of LOGIN_PATHS (ue_api_type (uc_endpoint c))"
    using login_path_of [OF that, of "uc_endpoint c"] by simp
  then show ?thesis
    using assms by (auto simp: unifi_request_def Let_def sent_more_def only_reads_def request_url_def split: if_splits sum.splits option.splits)
qed

text \<open>C39. Whatever operation the client is asked for, with any method, path and payload, what it sends is a GET without a body or the
  login of its endpoint; anything else is refused before it is sent.\<close>

theorem unifi_only_reads:
  assumes "unifi_request E c verb path payload = (c', r)"
  shows "\<exists>new. uc_sent c' = uc_sent c @ new \<and> list_all (only_reads E (uc_endpoint c)) new"
  using request_sends [OF assms] by (simp add: sent_more_def)

lemma login_sends:
  assumes "unifi_login E c cred = (c', r)"
  shows "sent_more E c c'"
proof -
  obtain c1 r1 where q: "unifi_request E c (lit ''POST'') (if ue_api_type (uc_endpoint c) = lit ''modern'' then lit ''/api/auth/login'' else lit ''/api/login'')
      (Some (login_payload c cred)) = (c1, r1)"
    by (metis prod.exhaust)
  have a: "uc_sent (fst (accept_login E c1 x)) = uc_sent c1 \<and> uc_endpoint (fst (accept_login E c1 x)) = uc_endpoint c1" for x
    by (auto simp: accept_login_def add_header_def split: sum.splits option.splits)
  have "sent_more E c1 c'"
  proof (cases r1)
    case (Inl e)
    with assms q show ?thesis by (simp add: unifi_login_def)
  next
    case (Inr x)
    with assms q have "c' = fst (accept_login E c1 x)" by (simp add: unifi_login_def)
    with a show ?thesis by (simp add: sent_more_def)
  qed
  with request_sends [OF q] sent_more_trans show ?thesis by blast
qed

lemma page_loop_sends:
  "page_loop E base n page items c = (c', r) \<Longrightarrow> sent_more E c c' \<and> length (uc_sent c') \<le> length (uc_sent c) + n"
proof (induction n arbitrary: page items c)
  case (Suc n)
  obtain c1 r1 where q: "unifi_request E c (lit ''GET'') (base @ lit ''?'' @ page_query c page) None = (c1, r1)" by (metis prod.exhaust)
  note one = request_sends [OF q]
  show ?case
  proof (cases r1)
    case (Inl e)
    with Suc.prems q one show ?thesis by auto
  next
    case (Inr x)
    show ?thesis
    proof (cases "page_items E x")
      case (Inl e)
      with Suc.prems q Inr one show ?thesis by auto
    next
      case (Inr xs)
      let ?items = "items @ take (uc_max_items c1 - length items) xs"
      show ?thesis
      proof (cases "uc_max_items c1 \<le> length ?items \<or> length xs < uc_page_size c1")
        case True
        with Suc.prems q \<open>r1 = Inr x\<close> Inr one show ?thesis by (auto simp: Let_def)
      next
        case False
        then have rest: "page_loop E base n (Suc page) ?items c1 = (c', r)"
          using Suc.prems q \<open>r1 = Inr x\<close> Inr by (simp add: Let_def)
        from Suc.IH [OF rest] one sent_more_trans [of E c c1 c'] show ?thesis by simp
      qed
    qed
  qed
qed simp

lemma get_pages_sends: "get_pages E c resource site = (c', r) \<Longrightarrow> sent_more E c c'"
  using page_loop_sends by (auto simp: get_pages_def split: if_splits)

text \<open>Whatever the controller answers, every request a collection sends is a GET without a body or the login of the endpoint.\<close>

theorem collection_only_reads:
  assumes "unifi_collect E load c reference = (c', r)" "uc_sent c = []"
  shows "list_all (only_reads E (uc_endpoint c)) (uc_sent c')"
proof -
  have "sent_more E c c'"
  proof (cases reference)
    case None
    with assms show ?thesis by (simp add: unifi_collect_def)
  next
    case (Some ref)
    show ?thesis
    proof (cases "load ref")
      case (Inl e)
      with assms Some show ?thesis by (simp add: unifi_collect_def)
    next
      case (Inr cred)
      obtain c1 r1 where l: "unifi_login E c cred = (c1, r1)" by (metis prod.exhaust)
      obtain c2 r2 where g: "get_pages E c1 (lit ''sites'') (lit ''default'') = (c2, r2)" by (metis prod.exhaust)
      have "c' = c1 \<or> c' = c2" using assms Some Inr l g by (auto simp: unifi_collect_def split: sum.splits)
      with login_sends [OF l] get_pages_sends [OF g] sent_more_trans show ?thesis by blast
    qed
  qed
  with assms(2) show ?thesis by (auto simp: sent_more_def)
qed

section \<open>Bounded pages\<close>

lemma request_keeps: "unifi_request E c verb path payload = (c', r) \<Longrightarrow>
    uc_max_items c' = uc_max_items c \<and> uc_page_size c' = uc_page_size c \<and> uc_endpoint c' = uc_endpoint c"
  by (auto simp: unifi_request_def Let_def split: if_splits sum.splits option.splits)

lemma page_loop_items:
  "page_loop E base n page items c = (c', Inr result) \<Longrightarrow> length items \<le> uc_max_items c \<Longrightarrow> length result \<le> uc_max_items c"
proof (induction n arbitrary: page items c)
  case (Suc n)
  obtain c1 r1 where q: "unifi_request E c (lit ''GET'') (base @ lit ''?'' @ page_query c page) None = (c1, r1)" by (metis prod.exhaust)
  note keep = request_keeps [OF q]
  obtain x where x: "r1 = Inr x" using Suc.prems(1) q by (cases r1) simp_all
  obtain xs where xs: "page_items E x = Inr xs" using Suc.prems(1) q x by (cases "page_items E x") simp_all
  let ?items = "items @ take (uc_max_items c1 - length items) xs"
  have small: "length ?items \<le> uc_max_items c" using Suc.prems(2) keep by simp
  show ?case
  proof (cases "uc_max_items c1 \<le> length ?items \<or> length xs < uc_page_size c1")
    case True
    with Suc.prems q x xs have "result = ?items" by (auto simp: Let_def)
    with small show ?thesis by simp
  next
    case False
    then have "page_loop E base n (Suc page) ?items c1 = (c', Inr result)" using Suc.prems q x xs by (simp add: Let_def)
    from Suc.IH [OF this] small keep show ?thesis by simp
  qed
qed simp

text \<open>Reading a resource sends at most the configured number of requests and returns at most the configured number of items,
  whatever sizes of pages the controller answers with.\<close>

theorem unifi_pages_bounded:
  assumes "get_pages E c resource site = (c', r)"
  shows "length (uc_sent c') \<le> length (uc_sent c) + uc_max_pages c \<and> (case r of Inl e \<Rightarrow> True | Inr items \<Rightarrow> length items \<le> uc_max_items c)"
proof (cases "resource \<in> set READ_ONLY_RESOURCES")
  case True
  with assms have loop: "page_loop E (resource_base c resource site) (uc_max_pages c) 0 [] c = (c', r)" by (simp add: get_pages_def)
  from page_loop_sends [OF loop] page_loop_items [of E _ _ 0 "[]" c c'] loop show ?thesis by (auto split: sum.splits)
next
  case False
  with assms show ?thesis by (auto simp: get_pages_def)
qed

text \<open>The request of a page, and a path with no second slash, tab, line end or number sign.\<close>

definition page_url :: "unifi_client \<Rightarrow> pystr \<Rightarrow> nat \<Rightarrow> pystr" where
  "page_url c base page = base @ lit ''?'' @ page_query c page"

definition plain_path :: "pystr \<Rightarrow> bool" where
  "plain_path p \<longleftrightarrow> take 1 p = [47] \<and> 2 \<le> length p \<and> p ! 1 \<noteq> 47 \<and> list_all (\<lambda>c. c \<notin> {9, 10, 13, 35}) p"

lemma plain_origin:
  assumes "plain_path p"
  shows "origin_relative p"
proof -
  obtain b rest where p: "p = 47 # b # rest" using assms by (cases p; cases "tl p") (auto simp: plain_path_def)
  have clean: "split_clean p = p" using assms by (auto simp: split_clean_def plain_path_def list_all_iff filter_id_conv)
  have d: "dropWhile (\<lambda>c. c \<noteq> 35) p = []" using assms by (auto simp: plain_path_def list_all_iff dropWhile_eq_Nil_conv)
  have "path_fragment p = []" unfolding path_fragment_def clean d by simp
  moreover have "path_netloc p = []" unfolding path_netloc_def clean Let_def using assms by (simp add: p plain_path_def lit_def)
  ultimately show ?thesis using assms by (simp add: origin_relative_def p plain_path_def lit_def)
qed

lemma digits_plain: "0 \<le> n \<Longrightarrow> list_all (\<lambda>c. c \<notin> {9, 10, 13, 35}) (str_int n)"
  using dec_digits_ascii [of n] by (auto simp: str_int_def list_all_iff)

lemma page_url_plain: "plain_path base \<Longrightarrow> plain_path (page_url c base page)"
  using digits_plain [of "int (page * uc_page_size c)"] digits_plain [of "int (uc_page_size c)"]
  by (auto simp: plain_path_def page_url_def page_query_def nth_append lit_def)

definition serves :: "unifi_env \<Rightarrow> unifi_client \<Rightarrow> pystr \<Rightarrow> json list \<Rightarrow> bool" where
  "serves E c base xs \<longleftrightarrow> (\<forall>k q page. page < uc_max_pages c \<and> hq_url q = request_url E (uc_endpoint c) (page_url c base page) \<longrightarrow>
     bindR (ux_answer E k q) (page_items E) = Inr (take (uc_page_size c) (drop (page * uc_page_size c) xs)))"

lemma get_request:
  assumes "plain_path path"
  shows "\<exists>q. hq_url q = request_url E (uc_endpoint c) path \<and>
    unifi_request E c (lit ''GET'') path None = (c\<lparr>uc_sent := uc_sent c @ [q]\<rparr>, ux_answer E (length (uc_sent c)) q)"
  using plain_origin [OF assms]
  by (intro exI [of _ "\<lparr>hq_method = lit ''GET'', hq_url = request_url E (uc_endpoint c) path,
      hq_headers = foldl (\<lambda>d kv. od_set (fst kv) (snd kv) d) [(lit ''Accept'', lit ''application/json'')] (uc_headers c),
      hq_body = None, hq_verify_tls = ue_verify_tls (uc_endpoint c)\<rparr>"]) (simp add: unifi_request_def Let_def request_url_def)

lemma page_loop_exact:
  assumes "serves E c0 base xs" "plain_path base" "0 < uc_page_size c0"
    and "uc_endpoint c = uc_endpoint c0" "uc_page_size c = uc_page_size c0" "uc_max_items c = uc_max_items c0"
    and "n + page = uc_max_pages c0" "items = take (page * uc_page_size c0) xs" "length items = page * uc_page_size c0"
    and "length items < uc_max_items c0"
  shows "snd (page_loop E base n page items c) = Inr (take (min (uc_max_items c0) (uc_max_pages c0 * uc_page_size c0)) xs)"
  using assms(4-)
proof (induction n arbitrary: page items c)
  case 0
  then show ?case by simp
next
  case (Suc n)
  let ?ps = "uc_page_size c0" and ?max = "uc_max_items c0"
  have url: "page_url c base page = page_url c0 base page" using Suc.prems(2) by (simp add: page_url_def page_query_def)
  obtain q where q: "hq_url q = request_url E (uc_endpoint c) (page_url c base page)"
    "unifi_request E c (lit ''GET'') (page_url c base page) None = (c\<lparr>uc_sent := uc_sent c @ [q]\<rparr>, ux_answer E (length (uc_sent c)) q)"
    using get_request [OF page_url_plain [OF assms(2)]] by blast
  have "page < uc_max_pages c0" using Suc.prems(4) by simp
  then have ans: "bindR (ux_answer E (length (uc_sent c)) q) (page_items E) = Inr (take ?ps (drop (page * ?ps) xs))"
    using assms(1) q(1) url Suc.prems(1) by (auto simp: serves_def)
  then obtain r where r: "ux_answer E (length (uc_sent c)) q = Inr r" "page_items E r = Inr (take ?ps (drop (page * ?ps) xs))"
    by (auto simp: bindR_eq_Inr)
  let ?page = "take ?ps (drop (page * ?ps) xs)"
  let ?items = "items @ take (?max - length items) ?page"
  have joined: "?items = take (min (Suc page * ?ps) ?max) xs"
  proof -
    have "?items = take (page * ?ps) xs @ take (min (?max - page * ?ps) ?ps) (drop (page * ?ps) xs)"
      using Suc.prems(5,6) by (simp add: min.commute)
    also have "\<dots> = take (page * ?ps + min (?max - page * ?ps) ?ps) xs" by (simp add: take_add)
    also have "page * ?ps + min (?max - page * ?ps) ?ps = min (Suc page * ?ps) ?max" using Suc.prems(6,7) by auto
    finally show ?thesis .
  qed
  have le: "Suc page * ?ps \<le> uc_max_pages c0 * ?ps" using Suc.prems(4) by (intro mult_le_mono1) simp
  have run: "page_loop E base (Suc n) page items c =
     (if ?max \<le> length ?items \<or> length ?page < ?ps then (c\<lparr>uc_sent := uc_sent c @ [q]\<rparr>, Inr ?items)
      else page_loop E base n (Suc page) ?items (c\<lparr>uc_sent := uc_sent c @ [q]\<rparr>))"
    using q(2) r Suc.prems(2,3) by (simp add: page_url_def Let_def)
  consider "?max \<le> length ?items" | "length ?page < ?ps" | "\<not> ?max \<le> length ?items" "\<not> length ?page < ?ps" by blast
  then show ?case
  proof cases
    case 1
    then have m: "min (Suc page * ?ps) ?max = ?max" unfolding joined by simp
    then have "?max \<le> Suc page * ?ps" by (metis min.cobounded1)
    with le have "?max \<le> uc_max_pages c0 * ?ps" by (rule order_trans [rotated])
    with m have "?items = take (min ?max (uc_max_pages c0 * ?ps)) xs" unfolding joined by (simp only: min.absorb1)
    moreover have "page_loop E base (Suc n) page items c = (c\<lparr>uc_sent := uc_sent c @ [q]\<rparr>, Inr ?items)"
      by (simp only: run 1 simp_thms if_True)
    ultimately show ?thesis by (simp only: snd_conv)
  next
    case 2
    then have "length xs < Suc page * ?ps" by auto
    then have "?items = take (min ?max (uc_max_pages c0 * ?ps)) xs" unfolding joined using le by (auto simp: min_def)
    moreover have "page_loop E base (Suc n) page items c = (c\<lparr>uc_sent := uc_sent c @ [q]\<rparr>, Inr ?items)"
      by (simp only: run 2 simp_thms if_True)
    ultimately show ?thesis by (simp only: snd_conv)
  next
    case 3
    have full: "Suc page * ?ps \<le> length xs" using 3(2) assms(3) by (simp add: min_def split: if_splits)
    have "length ?items = min (Suc page * ?ps) ?max" unfolding joined using full by simp
    then have m: "min (Suc page * ?ps) ?max = Suc page * ?ps" "Suc page * ?ps < ?max" using 3(1) by auto
    have items: "?items = take (Suc page * ?ps) xs" unfolding joined m(1) ..
    have "snd (page_loop E base n (Suc page) ?items (c\<lparr>uc_sent := uc_sent c @ [q]\<rparr>)) = Inr (take (min ?max (uc_max_pages c0 * ?ps)) xs)"
      by (rule Suc.IH) (use Suc.prems items full m(2) in \<open>auto simp: min_def\<close>)
    then show ?thesis by (simp only: run 3 simp_thms if_False)
  qed
qed

text \<open>C40. From a controller that serves a list in pages a client reads exactly its first items, up to the item limit and to as many as
  the page limit allows, in their order.\<close>

theorem unifi_pages_exact:
  assumes "resource \<in> set READ_ONLY_RESOURCES" "plain_path (resource_base c resource site)" "serves E c (resource_base c resource site) xs"
    and "0 < uc_page_size c" "0 < uc_max_items c"
  shows "snd (get_pages E c resource site) = Inr (take (min (uc_max_items c) (uc_max_pages c * uc_page_size c)) xs)"
  using assms(1) page_loop_exact [OF assms(3,2,4), of c "uc_max_pages c" 0 "[]"] assms(5) by (simp add: get_pages_def)

section \<open>An exchange\<close>

definition demo_endpoint :: unifi_endpoint where
  "demo_endpoint = \<lparr>ue_url = lit ''https://c/'', ue_api_type = lit ''legacy'', ue_verify_tls = True, ue_allow_self_signed = False, ue_timeout = 15\<rparr>"

definition demo_client :: unifi_client where
  "demo_client = \<lparr>uc_endpoint = demo_endpoint, uc_page_size = 1, uc_max_pages = 2, uc_max_items = 5, uc_headers = [], uc_sent = []\<rparr>"

definition demo_body :: "json list \<Rightarrow> json" where
  "demo_body xs = JDict [(lit ''data'', JList xs)]"

definition demo_response :: "8 word \<Rightarrow> http_response" where
  "demo_response n = \<lparr>hr_status = 200, hr_headers = [(lit ''Set-Cookie'', lit ''a=b'')], hr_body = [n]\<rparr>"

text \<open>A controller with three sites, one per page; the body of a page is its number.\<close>

definition demo_page_url :: "nat \<Rightarrow> pystr" where
  "demo_page_url page = lit ''https://c/'' @ lit ''api/self/sites?_start='' @ str_int (int page) @ lit ''&_limit=1''"

definition demo_env :: unifi_env where
  "demo_env = \<lparr>ux_answer = (\<lambda>k q. Inr (demo_response (if hq_url q = demo_page_url 0 then 1 else if hq_url q = demo_page_url 1 then 2 else 3))),
     ux_loads = (\<lambda>b. Some (demo_body (if b = [1] then [JInt 7] else if b = [2] then [JInt 8] else []))), ux_join = (\<lambda>a b. a @ b), ux_cookies = (\<lambda>v. []),
     ux_unidata = (\<lambda>_. []), ux_show = (\<lambda>_. [])\<rparr>"

definition demo_unifi_run :: "unifi_client \<times> collector_result result" where
  "demo_unifi_run = unifi_collect demo_env (\<lambda>_. Inr \<lparr>uf_username = [117], uf_password = lit ''pass''\<rparr>) demo_client (Some \<lparr>cr_provider = [], cr_key = []\<rparr>)"

lemma demo_unifi_result: "map_sum id cr_item_count (snd demo_unifi_run) = Inr 2 \<and> length (uc_sent (fst demo_unifi_run)) = 3"
  by code_simp

theorem collection_only_reads_witness:
  "length (uc_sent (fst demo_unifi_run)) = 3 \<and> list_all (only_reads demo_env demo_endpoint) (uc_sent (fst demo_unifi_run))"
proof -
  obtain c' r where run: "demo_unifi_run = (c', r)" by (metis prod.exhaust)
  from collection_only_reads [OF run [unfolded demo_unifi_run_def]] have "list_all (only_reads demo_env (uc_endpoint demo_client)) (uc_sent c')"
    by (simp add: demo_client_def)
  moreover have "fst demo_unifi_run = c'" by (simp only: run fst_conv)
  ultimately show ?thesis using demo_unifi_result by (simp add: demo_client_def)
qed

theorem unifi_only_reads_witness:
  "\<exists>new. uc_sent (fst (unifi_request demo_env demo_client (lit ''DELETE'') (lit ''/api/login'') (Some []))) = uc_sent demo_client @ new \<and>
     list_all (only_reads demo_env (uc_endpoint demo_client)) new"
  by (rule unifi_only_reads [where r = "snd (unifi_request demo_env demo_client (lit ''DELETE'') (lit ''/api/login'') (Some []))"]) simp

lemma demo_serves: "serves demo_env demo_client (resource_base demo_client (lit ''sites'') (lit ''default'')) [JInt 7, JInt 8, JInt 9]"
proof -
  have urls: "request_url demo_env (uc_endpoint demo_client) (page_url demo_client (resource_base demo_client (lit ''sites'') (lit ''default'')) page) = demo_page_url page"
    for page by (simp add: request_url_def demo_env_def demo_client_def demo_endpoint_def page_url_def page_query_def resource_base_def
        demo_page_url_def strip_end_def lit_def str_int_def dec_digits.simps [of 1])
  have "demo_page_url 1 \<noteq> demo_page_url 0" by code_simp
  then have "bindR (ux_answer demo_env k q) (page_items demo_env) = Inr (take 1 (drop page [JInt 7, JInt 8, JInt 9]))"
    if "page = 0 \<or> page = 1" "hq_url q = demo_page_url page" for k q page
    using that by (auto simp: demo_env_def page_items_def demo_response_def unifi_document_def demo_body_def fget_def lit_def)
  then show ?thesis unfolding serves_def urls by (auto simp: demo_client_def less_2_cases_iff)
qed

theorem unifi_pages_exact_witness:
  "snd (get_pages demo_env demo_client (lit ''sites'') (lit ''default'')) = Inr (take (min 5 (2 * 1)) [JInt 7, JInt 8, JInt 9])"
proof -
  have "lit ''sites'' \<in> set READ_ONLY_RESOURCES" "plain_path (resource_base demo_client (lit ''sites'') (lit ''default''))" by code_simp+
  from unifi_pages_exact [OF this demo_serves] show ?thesis by (simp add: demo_client_def)
qed

theorem unifi_pages_bounded_witness:
  "length (uc_sent (fst (get_pages demo_env demo_client (lit ''sites'') (lit ''default'')))) \<le> length (uc_sent demo_client) + uc_max_pages demo_client"
  using unifi_pages_bounded [of demo_env demo_client "lit ''sites''" "lit ''default''"
      "fst (get_pages demo_env demo_client (lit ''sites'') (lit ''default''))" "snd (get_pages demo_env demo_client (lit ''sites'') (lit ''default''))"]
  by simp

section \<open>What the exchange hides\<close>

text \<open>A certificate that fails verification reaches the client as a failure to be tried again, since urllib wraps it.\<close>

theorem certificate_failure_retried:
  "stdlib_request limit Bad_certificate = Inl (RetryableCollectorError (lit ''UniFi controller transport failed''))"
  by (simp add: stdlib_request_def opener_open_def)

text \<open>Of several \<open>Set-Cookie\<close> lines only the last is kept, so the session cookie can be lost.\<close>

theorem earlier_cookie_lost:
  "map_sum id (\<lambda>r. header_value (\<lambda>_. []) (hr_headers r) ''set-cookie'')
     (stdlib_request 10 (Answered 200 [(lit ''Set-Cookie'', lit ''TOKEN=1''), (lit ''Set-Cookie'', lit ''lang=en'')] [])) = Inr (Some (lit ''lang=en''))"
  by code_simp

text \<open>A rejected login whose body is not JSON is reported as a malformed answer, not as a rejected credential.\<close>

theorem rejected_login_misread:
  "snd (accept_login (demo_env\<lparr>ux_loads := (\<lambda>_. None)\<rparr>) demo_client ((demo_response 1)\<lparr>hr_status := 401\<rparr>)) =
     Inl (unifi_error ''UniFi controller returned invalid JSON'')"
  by code_simp

end
