(* ===== verification/Spec2Isabelle.thy ===== *)
theory Spec2Isabelle
  imports Passive_Service Subnet Repository Collectors Correlation Topology Nmap_Xml Storage Ssh_Collection Snmp Database Scheduler Nmap_Scan Unifi
begin

text \<open>
  Verification of CodexNet, the field-discovery appliance under \<open>src/src/field_discovery\<close>.

  The program. A passive observer captures Ethernet frames (\<open>passive_service.py\<close>), runs protocol parsers on
  them in a bounded pipeline (\<open>passive.py\<close> with \<open>dhcp.py\<close>, \<open>link_layer.py\<close>, \<open>mdns.py\<close>, \<open>neighbor.py\<close>) and stores what
  they observe in a SQLite repository (\<open>repository.py\<close>). Active collectors run against approved targets
  (\<open>collectors.py\<close>), limited to the subnet that \<open>subnet.py\<close> resolves, and record their runs in the same
  repository; nmap reports are read by \<open>nmap_xml.py\<close>. Observations of one device are joined by
  \<open>correlation.py\<close>, and \<open>topology.py\<close> builds and renders the graph of subnets, devices and links from them.

  Theories and sources.
  \<^item> \<open>Prelude\<close>: exceptions as values (\<open>exn + 'a\<close>, \<open>bindR\<close>, \<open>mapR\<close>, \<open>foldR\<close>), generators, bytes and text.
  \<^item> \<open>Py_Text\<close>, \<open>Py_Json\<close>, \<open>Py_Ip\<close>, \<open>Odict\<close>: what the sources use of Python's text, UTF-8, JSON, \<open>datetime\<close>,
    \<open>ipaddress\<close> and ordered dictionaries. Text is a list of code points, bytes are 8-bit words, a time is an
    integer of microseconds, a \<open>dict\<close> an association list in insertion order.
  \<^item> \<open>Passive\<close>: \<open>passive.py\<close>. The pipeline is a record; one step of \<open>pipe_step\<close> is what runs between two awaits, so
    a sequence of steps is an interleaving of the workers, the submitters and \<open>stop\<close>.
  \<^item> \<open>Parser_Contract\<close>: the interface between pipeline and parsers, a locale that \<open>Dhcp\<close>, \<open>Link_Layer\<close>, \<open>Mdns\<close>
    and \<open>Neighbor\<close> interpret for their parsers. \<open>Passive_Service\<close> composes them as the process does.
  \<^item> \<open>Subnet\<close>: \<open>subnet.py\<close>, from the output of the \<open>ip\<close> command to the decision on active targets.
  \<^item> \<open>Repository\<close>: \<open>repository.py\<close>, tables as lists of rows; it interprets the locale of \<open>Run_Ledger\<close>, on which
    \<open>Collectors\<close> (\<open>collectors.py\<close>) rests: the orchestrator is a step relation over tasks and ledger.
  \<^item> \<open>Partition\<close>: grouping, and the interface of a disjoint-set structure; \<open>Correlation\<close> (\<open>correlation.py\<close>)
    interprets it on the code's union-find with path halving.
  \<^item> \<open>Topology\<close>: \<open>topology.py\<close>, the builder, the handlers per kind of observation and the renderings.
  \<^item> \<open>Nmap_Xml\<close>: \<open>nmap_xml.py\<close>, the screen over the chunks of the input and the reading of the parser's events.

  What the lemmas show. The pipeline conserves frames under every interleaving and keeps its bounds; with the
  production parsers no worker dies. The grammars of DHCP options, LLDP, CDP, DNS names and ARP are matched in
  both directions. Caches, trackers and the deduplication window agree with specifications over the whole
  history. Closed runs stay closed, recovery closes exactly the open ones, and the orchestrator reports what
  the ledger holds, terminates and never gets stuck. Correlation computes the partition generated by shared
  stable identifiers and loses no evidence. The topology is a proper graph of current evidence. The screen in
  front of the XML parser is exact for every chunking, and an accepted report is within its limits.

  Bounds and fuel. The loop of \<open>find_root\<close> has the number of observations as fuel, which suffices since every
  step moves to a smaller index of the acyclic parent map. Every other recursion is structural or has a proved
  measure (the rest of the input). Python's integers are unbounded, so no other arithmetic wraps.

  Parameters. What is not in the repository is an argument: SHA-256, the text of a float, the character tables
  of Unicode beyond ASCII, the \<open>idna\<close> codec, which texts are IPv6 addresses or networks, \<open>json.loads\<close>, the
  XML parser's events, the redactor, the iteration order of a set, the local time zone, and the choice of the
  event loop among the tasks that can run.

  Not modelled. Sockets, processes, signals, file descriptors and SQLite itself (backup, restore, integrity
  check) are outside; their outcomes are inputs. The command line, logging set-up and the modules listed as
  not modelled in the manifest have no theory.
\<close>

end
